(* ===== verification/Prelude.thy ===== *)
theory Prelude
  imports Complex_Main "HOL-Library.Sublist" "HOL-Library.Word"
begin

text \<open>
  The shared vocabulary of the development: the types that stand for the machine and library
  types of the Rust code, panics as values, the ordered map \<^verbatim>\<open>BTreeMap\<close> as a sorted
  association list, the running maximum that every version computation of the program uses, and
  the lemmas on lists and maps that the component theories share.

  Conventions. \<^verbatim>\<open>ObjectID\<close> and \<^verbatim>\<open>TransactionDigest\<close> are opaque types of the
  \<^verbatim>\<open>sui_types\<close> crate: they are type variables (\<open>'o\<close>, ordered, and \<open>'d\<close>) everywhere.
  \<^verbatim>\<open>SequenceNumber\<close> wraps an unsigned number and is compared as that number; its
  operation \<^verbatim>\<open>next\<close> is not part of this repository and is an argument (\<open>nxt\<close>) of
  every definition that calls it.  \<^verbatim>\<open>f64\<close> values are reals (rounding is not modelled),
  a \<^verbatim>\<open>Duration\<close> is its number of nanoseconds.
\<close>

type_synonym version = nat
type_synonym proxy_id = nat
type_synonym duration = nat
type_synonym f64 = real
type_synonym byte = "8 word"

datatype panic = Panic string

type_synonym 'a res = "panic + 'a"

named_theorems btree_simps \<open>rewriting of the ordered map operations\<close>
named_theorems res_simps \<open>unfolding of the panic sequencing\<close>


section \<open>Panics as values\<close>

definition and_then :: "'e + 'a \<Rightarrow> ('a \<Rightarrow> 'e + 'b) \<Rightarrow> 'e + 'b" where
  "and_then r f = (case r of Inl e \<Rightarrow> Inl e | Inr x \<Rightarrow> f x)"

definition unwrap :: "string \<Rightarrow> 'a option \<Rightarrow> 'a res" where
  "unwrap msg x = (case x of None \<Rightarrow> Inl (Panic msg) | Some a \<Rightarrow> Inr a)"

definition assert_that :: "bool \<Rightarrow> unit res" where
  "assert_that b = (if b then Inr () else Inl (Panic ''assertion failed''))"

fun assert_all :: "bool list \<Rightarrow> unit res" where
  "assert_all [] = Inr ()"
| "assert_all (b # bs) = and_then (assert_that b) (\<lambda>_. assert_all bs)"

definition nth_or_panic :: "'a list \<Rightarrow> nat \<Rightarrow> 'a res" where
  "nth_or_panic xs i = (if i < length xs then Inr (xs ! i) else Inl (Panic ''index out of bounds''))"

lemma and_then_Inl [simp, res_simps]: "and_then (Inl e) f = Inl e"
  by (simp add: and_then_def)

lemma and_then_Inr [simp, res_simps]: "and_then (Inr x) f = f x"
  by (simp add: and_then_def)

lemma assert_that_eq_Inr [simp]: "assert_that b = Inr u \<longleftrightarrow> b"
  by (simp add: assert_that_def)

lemma assert_that_True [simp, res_simps]: "assert_that True = Inr ()"
  by (simp add: assert_that_def)

lemma and_then_eq_Inr:
  "and_then r f = Inr y \<longleftrightarrow> (\<exists>x. r = Inr x \<and> f x = Inr y)"
  by (cases r) auto

lemma and_then_eq_Inl:
  "and_then r f = Inl e \<longleftrightarrow> r = Inl e \<or> (\<exists>x. r = Inr x \<and> f x = Inl e)"
  by (cases r) auto

lemma unwrap_simps [simp, res_simps]:
  "unwrap msg None = Inl (Panic msg)" "unwrap msg (Some a) = Inr a"
  by (simp_all add: unwrap_def)

lemma unwrap_eq_Inr [simp]: "unwrap msg x = Inr a \<longleftrightarrow> x = Some a"
  by (cases x) auto


text \<open>
  Refinement of computations that may panic: the concrete computation panics exactly when the abstract one does, with the same message,
  and otherwise their results are related.
\<close>

definition refines :: "('a \<Rightarrow> 'b \<Rightarrow> bool) \<Rightarrow> 'e + 'a \<Rightarrow> 'e + 'b \<Rightarrow> bool" where
  "refines P r r' \<longleftrightarrow> (case r' of Inl e \<Rightarrow> r = Inl e | Inr y \<Rightarrow> (\<exists>x. r = Inr x \<and> P x y))"

lemma refines_Inr: "P x y \<Longrightarrow> refines P (Inr x) (Inr y)"
  by (simp add: refines_def)

lemma refines_same: "(\<And>x. r = Inr x \<Longrightarrow> refines P (f x) (g x)) \<Longrightarrow> refines P (and_then r f) (and_then r g)"
  by (cases r) (simp_all add: refines_def)

lemma refines_bind:
  "refines Q r r' \<Longrightarrow> (\<And>x y. r = Inr x \<Longrightarrow> r' = Inr y \<Longrightarrow> Q x y \<Longrightarrow> refines P (f x) (g y)) \<Longrightarrow> refines P (and_then r f) (and_then r' g)"
  by (cases r; cases r') (simp_all add: refines_def)

lemma refines_InrD: "refines P r (Inr y) \<Longrightarrow> \<exists>x. r = Inr x \<and> P x y"
  by (simp add: refines_def)

lemma refines_InlD: "refines P r (Inl e) \<Longrightarrow> r = Inl e"
  by (simp add: refines_def)


section \<open>BTreeMap: a sorted association list\<close>

type_synonym ('k, 'v) btree = "('k \<times> 'v) list"

fun bt_insert :: "'k::linorder \<Rightarrow> 'v \<Rightarrow> ('k, 'v) btree \<Rightarrow> ('k, 'v) btree" where
  "bt_insert k v [] = [(k, v)]"
| "bt_insert k v ((k', v') # m) =
     (if k < k' then (k, v) # (k', v') # m
      else if k = k' then (k, v) # m
      else (k', v') # bt_insert k v m)"

definition bt_collect :: "('k::linorder \<times> 'v) list \<Rightarrow> ('k, 'v) btree" where
  "bt_collect xs = fold (\<lambda>(k, v) m. bt_insert k v m) xs []"

definition bt_wf :: "('k::linorder, 'v) btree \<Rightarrow> bool" where
  "bt_wf m \<longleftrightarrow> sorted_wrt (<) (map fst m)"

lemma map_of_bt_insert [simp, btree_simps]: "map_of (bt_insert k v m) = (map_of m)(k \<mapsto> v)"
  by (induction m rule: bt_insert.induct) (auto simp: fun_eq_iff)

lemma keys_bt_insert [simp, btree_simps]: "fst ` set (bt_insert k v m) = insert k (fst ` set m)"
  by (induction k v m rule: bt_insert.induct) auto

lemma bt_wf_Nil [simp]: "bt_wf []"
  by (simp add: bt_wf_def)

lemma bt_wf_insert [simp]: "bt_wf m \<Longrightarrow> bt_wf (bt_insert k v m)"
proof (induction k v m rule: bt_insert.induct)
  case (2 k v k' v' m)
  then have m: "bt_wf m" and lt: "\<forall>x \<in> fst ` set m. k' < x"
    by (auto simp: bt_wf_def)
  show ?case
  proof (cases "k < k' \<or> k = k'")
    case True
    with lt m show ?thesis by (auto simp: bt_wf_def)
  next
    case False
    then have "k' < k" by auto
    with False m lt 2 have "bt_wf (bt_insert k v m)" by simp
    moreover have "\<forall>x \<in> fst ` set (bt_insert k v m). k' < x"
      using lt \<open>k' < k\<close> by simp
    ultimately show ?thesis using False by (auto simp: bt_wf_def)
  qed
qed (simp add: bt_wf_def)

lemma bt_wf_fold: "bt_wf m \<Longrightarrow> bt_wf (fold (\<lambda>(k, v) m. bt_insert k v m) xs m)"
  by (induction xs arbitrary: m) auto

lemma bt_wf_collect [simp]: "bt_wf (bt_collect xs)"
  by (simp add: bt_collect_def bt_wf_fold)

lemma keys_bt_fold:
  "fst ` set (fold (\<lambda>(k, v) m. bt_insert k v m) xs m) = fst ` set m \<union> fst ` set xs"
  by (induction xs arbitrary: m) (simp_all add: case_prod_beta)

lemma keys_bt_collect [simp, btree_simps]: "fst ` set (bt_collect xs) = fst ` set xs"
  by (simp add: bt_collect_def keys_bt_fold)

lemma bt_wf_distinct: "bt_wf m \<Longrightarrow> distinct (map fst m)"
  by (simp add: bt_wf_def strict_sorted_iff)

lemma map_of_bt_fold:
  "map_of (fold (\<lambda>(k, v) m. bt_insert k v m) xs m) = map_of m ++ map_of (rev xs)"
  by (induction xs arbitrary: m) (auto simp: map_add_def fun_eq_iff split: option.splits)

lemma map_of_bt_collect [btree_simps]: "map_of (bt_collect xs) = map_of (rev xs)"
  by (simp add: bt_collect_def map_of_bt_fold)

lemma bt_insert_last:
  "\<forall>x \<in> fst ` set m. x < k \<Longrightarrow> bt_insert k v m = m @ [(k, v)]"
  by (induction k v m rule: bt_insert.induct) auto

lemma bt_collect_sorted: "bt_wf xs \<Longrightarrow> bt_collect xs = xs"
proof (induction xs rule: rev_induct)
  case Nil
  then show ?case by (simp add: bt_collect_def)
next
  case (snoc x xs)
  then have "bt_wf xs" and "\<forall>y \<in> fst ` set xs. y < fst x"
    by (auto simp: bt_wf_def sorted_wrt_append)
  with snoc.IH show ?case
    by (cases x) (simp add: bt_collect_def bt_insert_last)
qed


section \<open>The running maximum of version numbers\<close>

definition upd_max :: "version \<Rightarrow> version \<Rightarrow> version" where
  "upd_max v m = (if v > m then v else m)"

lemma upd_max_eq: "upd_max v m = max m v"
  by (simp add: upd_max_def max_def)

lemma fold_upd_max: "fold upd_max vs m = Max (insert m (set vs))"
proof (induction vs arbitrary: m)
  case (Cons v vs)
  have "fold upd_max (v # vs) m = Max (insert (max m v) (set vs))"
    using Cons.IH[of "max m v"] by (simp add: upd_max_eq [of v m])
  also have "\<dots> = Max (insert m (set (v # vs)))"
    by (cases "set vs = {}") (simp_all add: max.assoc max.left_commute)
  finally show ?case .
qed simp

lemma fold_max_Max: "fold max vs (v::version) = Max (insert v (set vs))"
proof (induction vs arbitrary: v)
  case (Cons w vs)
  then show ?case by (cases "set vs = {}") (simp_all add: max.assoc max.left_commute)
qed simp


section \<open>Lists\<close>

lemma sorted_wrt_less_map_fst_distinct: "sorted_wrt (<) (map fst xs) \<Longrightarrow> distinct (map (fst :: 'k::linorder \<times> 'v \<Rightarrow> 'k) xs)"
  by (simp add: strict_sorted_iff)

lemma distinct_suffix: "distinct xs \<Longrightarrow> suffix ys xs \<Longrightarrow> distinct ys"
  by (auto simp: suffix_def)

lemma suffix_ConsD_notin: "distinct xs \<Longrightarrow> suffix (y # ys) xs \<Longrightarrow> y \<notin> set ys \<and> suffix ys xs \<and> y \<in> set xs"
  by (auto simp: suffix_def)


section \<open>Machine integers\<close>

text \<open>Arithmetic that overflows panics in a debug build and wraps around in a release build.\<close>

datatype build = Debug | Release

definition wrap_signed :: "nat \<Rightarrow> int \<Rightarrow> int" where
  "wrap_signed n x = (x + 2 ^ (n - 1)) mod 2 ^ n - 2 ^ (n - 1)"

definition wrap_unsigned :: "nat \<Rightarrow> int \<Rightarrow> int" where
  "wrap_unsigned n x = x mod 2 ^ n"

definition fit_signed :: "nat \<Rightarrow> build \<Rightarrow> int \<Rightarrow> int res" where
  "fit_signed n bd x =
     (if - (2 ^ (n - 1)) \<le> x \<and> x < 2 ^ (n - 1) then Inr x
      else case bd of Debug \<Rightarrow> Inl (Panic ''attempt to compute with overflow'') | Release \<Rightarrow> Inr (wrap_signed n x))"

definition fit_unsigned :: "nat \<Rightarrow> build \<Rightarrow> int \<Rightarrow> int res" where
  "fit_unsigned n bd x =
     (if 0 \<le> x \<and> x < 2 ^ n then Inr x
      else case bd of Debug \<Rightarrow> Inl (Panic ''attempt to compute with overflow'') | Release \<Rightarrow> Inr (wrap_unsigned n x))"

abbreviation "fit_i32 \<equiv> fit_signed 32"
abbreviation "fit_i64 \<equiv> fit_signed 64"
abbreviation "fit_i128 \<equiv> fit_signed 128"
abbreviation "fit_u32 \<equiv> fit_unsigned 32"

definition fit_u64 :: "build \<Rightarrow> nat \<Rightarrow> nat res" where
  "fit_u64 bd x = and_then (fit_unsigned 64 bd (int x)) (\<lambda>y. Inr (nat y))"

lemma fit_signed_ok: "- (2 ^ (n - 1)) \<le> x \<Longrightarrow> x < 2 ^ (n - 1) \<Longrightarrow> fit_signed n bd x = Inr x"
  by (simp add: fit_signed_def)

lemma fit_unsigned_ok: "0 \<le> x \<Longrightarrow> x < 2 ^ n \<Longrightarrow> fit_unsigned n bd x = Inr x"
  by (simp add: fit_unsigned_def)

lemma fit_u64_id: "n < 2 ^ 64 \<Longrightarrow> fit_u64 bd n = Inr n"
  by (simp add: fit_u64_def fit_unsigned_def)

lemma fit_release: "\<exists>y. fit_signed n Release x = Inr y" "\<exists>y. fit_unsigned n Release x = Inr y"
  by (simp_all add: fit_signed_def fit_unsigned_def)

lemma wrap_signed_range: "0 < n \<Longrightarrow> - (2 ^ (n - 1)) \<le> wrap_signed n x \<and> wrap_signed n x < 2 ^ (n - 1)"
proof -
  assume "0 < n"
  then have "(2 :: int) ^ n = 2 * 2 ^ (n - 1)" by (cases n) simp_all
  moreover have "0 \<le> (x + 2 ^ (n - 1)) mod 2 ^ n" "(x + 2 ^ (n - 1)) mod 2 ^ n < 2 ^ n" by simp_all
  ultimately show ?thesis unfolding wrap_signed_def by linarith
qed

lemma wrap_signed_id: "0 < n \<Longrightarrow> - (2 ^ (n - 1)) \<le> x \<Longrightarrow> x < 2 ^ (n - 1) \<Longrightarrow> wrap_signed n x = x"
proof -
  assume n: "0 < n" and x: "- (2 ^ (n - 1)) \<le> x" "x < 2 ^ (n - 1)"
  have "(2 :: int) ^ n = 2 * 2 ^ (n - 1)" using n by (cases n) simp_all
  then have "(x + 2 ^ (n - 1)) mod 2 ^ n = x + 2 ^ (n - 1)" using x by (intro mod_pos_pos_trivial) simp_all
  then show ?thesis by (simp add: wrap_signed_def)
qed

end
