(* ===== verification/Config.thy ===== *)
theory Config
  imports Prelude
begin

text \<open>
  The configuration of a validator and of a benchmark (\<^verbatim>\<open>src/config.rs\<close>): the
  enumerations that select a policy, a separation mode, a stateless verification mode and a
  workload, the predicates the rest of the program branches on, the parameter structures and
  their default values.  The parameter structures of the mock consensus and the pre-consensus
  policy, which live in other source files but are fields of the configuration, are here too.
  Of the serialisation, the names under which a stateless verification mode is written and accepted
  are here; configuration files are in \<open>Validator_Config\<close>.
\<close>


section \<open>Policies and modes\<close>

datatype load_balancing_policy =
    RoundRobin | Zeus | Dedicated | Combined | TwoTier | LocalityLoad

datatype pre_consensus_policy = LSDS | RSDS

datatype separation_mode =
    NoSeparation | ProxySeparation | PrimaryPreSeparation | PrimaryPostSeparation

fun is_proxy_separation :: "separation_mode \<Rightarrow> bool" where
  "is_proxy_separation ProxySeparation = True"
| "is_proxy_separation PrimaryPreSeparation = True"
| "is_proxy_separation PrimaryPostSeparation = True"
| "is_proxy_separation NoSeparation = False"

fun is_primary_separation :: "separation_mode \<Rightarrow> bool" where
  "is_primary_separation PrimaryPreSeparation = True"
| "is_primary_separation PrimaryPostSeparation = True"
| "is_primary_separation NoSeparation = False"
| "is_primary_separation ProxySeparation = False"

datatype stateless_verification_mode = Synthetic | Ed25519 | Bls | Secp256k1 | P256 | Schnorr

text \<open>The names under which a mode is written, and the names it is read from.\<close>

fun stateless_mode_name :: "stateless_verification_mode \<Rightarrow> string" where
  "stateless_mode_name Synthetic = ''Synthetic''"
| "stateless_mode_name Ed25519 = ''ED25519''"
| "stateless_mode_name Bls = ''BLS''"
| "stateless_mode_name Secp256k1 = ''SECP256K1''"
| "stateless_mode_name P256 = ''P256''"
| "stateless_mode_name Schnorr = ''SCHNORR''"

fun stateless_mode_aliases :: "stateless_verification_mode \<Rightarrow> string list" where
  "stateless_mode_aliases Synthetic = [''synthetic'', ''SYNTHETIC'']"
| "stateless_mode_aliases Ed25519 = [''Ed25519'', ''ed25519'', ''Ed25519Dalek'']"
| "stateless_mode_aliases Bls = [''Bls'', ''bls'', ''Bls12381MinSig'']"
| "stateless_mode_aliases Secp256k1 =
     [''Secp256k1'', ''secp256k1'', ''Secp256k1Ecdsa'', ''SECP256K1_ECDSA'']"
| "stateless_mode_aliases P256 =
     [''P-256'', ''p256'', ''P256Ecdsa'', ''Secp256r1'', ''secp256r1'', ''Prime256v1'']"
| "stateless_mode_aliases Schnorr =
     [''Schnorr'', ''schnorr'', ''SchnorrSecp256k1'', ''SCHNORR_SECP256K1'']"

definition all_stateless_modes :: "stateless_verification_mode list" where
  "all_stateless_modes = [Synthetic, Ed25519, Bls, Secp256k1, P256, Schnorr]"

definition accepted_names :: "stateless_verification_mode \<Rightarrow> string list" where
  "accepted_names m = stateless_mode_name m # stateless_mode_aliases m"

definition parse_stateless_mode :: "string \<Rightarrow> stateless_verification_mode option" where
  "parse_stateless_mode s = List.find (\<lambda>m. s \<in> set (accepted_names m)) all_stateless_modes"


section \<open>Workloads\<close>

datatype workload_type =
    Transfers
  | SharedObjects (txs_per_counter: nat)
  | SolanaTransactions
  | EthereumTransfers
  | EthereumNftMint
  | UniswapNormal
  | UniswapPeak
  | Zipfian f64 nat
  | FakeSolanaTransactions duration
  | FakeEthereumTransfers duration
  | FakeEthereumNftMint duration
  | FakeUniswapNormal duration
  | FakeUniswapPeak duration
  | FakeZipfian duration f64 nat
  | Tpcc nat f64 nat f64 nat

fun is_fake :: "workload_type \<Rightarrow> bool" where
  "is_fake (FakeSolanaTransactions _) = True"
| "is_fake (FakeEthereumTransfers _) = True"
| "is_fake (FakeEthereumNftMint _) = True"
| "is_fake (FakeUniswapNormal _) = True"
| "is_fake (FakeUniswapPeak _) = True"
| "is_fake (FakeZipfian _ _ _) = True"
| "is_fake _ = False"

fun is_tpcc :: "workload_type \<Rightarrow> bool" where
  "is_tpcc (Tpcc _ _ _ _ _) = True"
| "is_tpcc _ = False"

definition from_micros :: "nat \<Rightarrow> duration" where
  "from_micros n = n * 1000"

definition from_millis :: "nat \<Rightarrow> duration" where
  "from_millis n = n * 1000000"

definition from_secs :: "nat \<Rightarrow> duration" where
  "from_secs n = n * 1000000000"

definition as_micros :: "duration \<Rightarrow> nat" where
  "as_micros d = d div 1000"

definition as_secs :: "duration \<Rightarrow> nat" where
  "as_secs d = d div 1000000000"

definition default_cont_level_for_shared_obj :: nat where
  "default_cont_level_for_shared_obj = 2"

definition default_fake_execution_duration :: duration where
  "default_fake_execution_duration = from_micros 500"

definition default_zipfian_alpha :: f64 where
  "default_zipfian_alpha = 0.5"

definition default_tpcc_warehouses :: nat where
  "default_tpcc_warehouses = 1"

definition default_tpcc_payment_ratio :: f64 where
  "default_tpcc_payment_ratio = 0.5"

definition default_tpcc_num_nodes :: nat where
  "default_tpcc_num_nodes = 1"

definition default_tpcc_hotspot_percentage :: f64 where
  "default_tpcc_hotspot_percentage = 0"

definition default_tpcc_rotation_interval :: nat where
  "default_tpcc_rotation_interval = 20"

definition default_number_of_inputs :: nat where
  "default_number_of_inputs = 2"

fun workload_fmt :: "workload_type \<Rightarrow> string" where
  "workload_fmt Transfers = ''transfers''"
| "workload_fmt (SharedObjects _) = ''shared objects''"
| "workload_fmt SolanaTransactions = ''Solana transactions''"
| "workload_fmt EthereumTransfers = ''Ethereum transfers''"
| "workload_fmt EthereumNftMint = ''Ethereum NFT mint''"
| "workload_fmt UniswapNormal = ''Uniswap normal''"
| "workload_fmt UniswapPeak = ''Uniswap peak''"
| "workload_fmt (Zipfian _ _) = ''Zipfian''"
| "workload_fmt (FakeSolanaTransactions _) = ''Fake Solana transactions''"
| "workload_fmt (FakeEthereumTransfers _) = ''Fake Ethereum transfers''"
| "workload_fmt (FakeEthereumNftMint _) = ''Fake Ethereum NFT mint''"
| "workload_fmt (FakeUniswapNormal _) = ''Fake Uniswap normal''"
| "workload_fmt (FakeUniswapPeak _) = ''Fake Uniswap peak''"
| "workload_fmt (FakeZipfian _ _ _) = ''Fake Zipfian''"
| "workload_fmt (Tpcc _ _ _ _ _) = ''TPC-C''"

datatype config_error_type = InvalidWorkload

fun config_error_fmt :: "config_error_type \<Rightarrow> string" where
  "config_error_fmt InvalidWorkload = ''Invalid workload type provided.''"


section \<open>Parameter structures\<close>

record mock_consensus_parameters =
  batch_size :: nat
  max_batch_delay :: duration
  max_inflight_batches :: nat

definition mock_consensus_default :: mock_consensus_parameters where
  "mock_consensus_default =
     \<lparr>batch_size = 1000, max_batch_delay = from_millis 100, max_inflight_batches = 10000\<rparr>"

record validator_parameters =
  consensus_delay_model :: duration
  consensus_parameters :: mock_consensus_parameters
  vp_load_balancing_policy :: pre_consensus_policy
  vp_separation_mode :: separation_mode

definition fixed_delay_default :: duration where
  "fixed_delay_default = from_millis 300"

definition validator_parameters_default :: validator_parameters where
  "validator_parameters_default =
     \<lparr>consensus_delay_model = fixed_delay_default,
      consensus_parameters = mock_consensus_default,
      vp_load_balancing_policy = LSDS,
      vp_separation_mode = NoSeparation\<rparr>"

record benchmark_parameters =
  load :: nat
  bench_duration :: duration
  workload :: workload_type
  bench_verification_duration :: duration
  stateless_mode :: stateless_verification_mode
  bench_expected_stateful_duration :: duration

definition default_fake_verification_duration :: duration where
  "default_fake_verification_duration = from_micros 2000"

definition benchmark_default :: benchmark_parameters where
  "benchmark_default =
     \<lparr>load = 10000, bench_duration = from_secs 30, workload = Transfers,
      bench_verification_duration = default_fake_verification_duration,
      stateless_mode = Synthetic,
      bench_expected_stateful_duration = default_fake_verification_duration\<rparr>"

text \<open>The number of transactions of a run, as the executors compute it.\<close>

definition pre_generation :: "build \<Rightarrow> benchmark_parameters \<Rightarrow> nat res" where
  "pre_generation bd config = fit_u64 bd (load config * as_secs (bench_duration config))"

definition new_for_tests :: benchmark_parameters where
  "new_for_tests =
     \<lparr>load = 10, bench_duration = from_secs 1, workload = Transfers,
      bench_verification_duration = default_fake_verification_duration,
      stateless_mode = Synthetic,
      bench_expected_stateful_duration = default_fake_verification_duration\<rparr>"

definition new_for_contention_tests :: benchmark_parameters where
  "new_for_contention_tests =
     \<lparr>load = 10, bench_duration = from_secs 1,
      workload = SharedObjects default_cont_level_for_shared_obj,
      bench_verification_duration = default_fake_verification_duration,
      stateless_mode = Synthetic,
      bench_expected_stateful_duration = default_fake_verification_duration\<rparr>"

definition new_for_ethereum_tests :: benchmark_parameters where
  "new_for_ethereum_tests =
     \<lparr>load = 100, bench_duration = from_secs 5, workload = EthereumTransfers,
      bench_verification_duration = default_fake_verification_duration,
      stateless_mode = Synthetic,
      bench_expected_stateful_duration = default_fake_verification_duration\<rparr>"

definition new_for_fake_tests :: benchmark_parameters where
  "new_for_fake_tests =
     \<lparr>load = 10, bench_duration = from_secs 1,
      workload = FakeZipfian default_fake_execution_duration 0 2,
      bench_verification_duration = default_fake_verification_duration,
      stateless_mode = Synthetic,
      bench_expected_stateful_duration = default_fake_verification_duration\<rparr>"

definition new_for_fake_contention_tests :: benchmark_parameters where
  "new_for_fake_contention_tests =
     \<lparr>load = 10, bench_duration = from_secs 1,
      workload = FakeZipfian default_fake_execution_duration 0.5 2,
      bench_verification_duration = default_fake_verification_duration,
      stateless_mode = Synthetic,
      bench_expected_stateful_duration = default_fake_verification_duration\<rparr>"


section \<open>Properties\<close>

lemma primary_separation_is_proxy_separation:
  "is_primary_separation m \<Longrightarrow> is_proxy_separation m"
  by (cases m) auto

lemma fake_not_tpcc: "\<not> (is_fake w \<and> is_tpcc w)"
  by (cases w) auto

lemma as_micros_from_micros [simp]: "as_micros (from_micros n) = n"
  by (simp add: as_micros_def from_micros_def)

lemma as_secs_from_secs [simp]: "as_secs (from_secs n) = n"
  by (simp add: as_secs_def from_secs_def)

lemma set_all_stateless_modes: "m \<in> set all_stateless_modes"
  by (cases m) (auto simp: all_stateless_modes_def)

text \<open>No name is accepted for two modes.\<close>

lemma accepted_names_disjoint:
  "s \<in> set (accepted_names m) \<Longrightarrow> s \<in> set (accepted_names m') \<Longrightarrow> m = m'"
  by (cases m; cases m') (auto simp: accepted_names_def)

text \<open>
  Every name a stateless verification mode is written under, and every alias it is
  documented with, is read back as exactly that mode: no alias is shared between two modes.
\<close>

theorem parse_stateless_mode_roundtrip:
  "parse_stateless_mode s = Some m \<longleftrightarrow> s \<in> set (accepted_names m)"
proof
  assume "parse_stateless_mode s = Some m"
  then show "s \<in> set (accepted_names m)"
    by (auto simp: parse_stateless_mode_def find_Some_iff)
next
  assume s: "s \<in> set (accepted_names m)"
  then obtain m' where m': "parse_stateless_mode s = Some m'"
    using set_all_stateless_modes[of m]
    by (cases "parse_stateless_mode s") (auto simp: parse_stateless_mode_def find_None_iff)
  then have "s \<in> set (accepted_names m')"
    by (auto simp: parse_stateless_mode_def find_Some_iff)
  with s have "m' = m" by (rule accepted_names_disjoint[rotated])
  with m' show "parse_stateless_mode s = Some m" by simp
qed

end
