(* ===== verification/Api.thy ===== *)
theory Api
  imports Config
begin

text \<open>
  The types that the components exchange (\<^verbatim>\<open>src/executor/api.rs\<close>): transactions and their
  trait, transactions with a timestamp and the versions of their shared objects, stateless
  verification requests, execution results, the messages between the primary and the proxies and
  between proxies.
\<close>


section \<open>Transactions\<close>

text \<open>
  \<^verbatim>\<open>InputObjectKind\<close> of \<^verbatim>\<open>sui_types\<close>, with the constructors the code matches on.
  The object digest inside the reference of an owned object is never read and is left out.
\<close>

datatype 'o input_object_kind =
    MovePackage 'o
  | ImmOrOwnedMoveObject 'o version
  | SharedMoveObject (shared_id: 'o) (initial_shared_version: version) (shared_mutable: bool)

fun kind_object_id :: "'o input_object_kind \<Rightarrow> 'o" where
  "kind_object_id (MovePackage i) = i"
| "kind_object_id (ImmOrOwnedMoveObject i _) = i"
| "kind_object_id (SharedMoveObject i _ _) = i"

fun is_shared_kind :: "'o input_object_kind \<Rightarrow> bool" where
  "is_shared_kind (SharedMoveObject _ _ _) = True"
| "is_shared_kind _ = False"

text \<open>The trait \<^verbatim>\<open>ExecutableTransaction\<close> as the record of its methods.\<close>

record ('t, 'd, 'o) executable_transaction =
  et_digest :: "'t \<Rightarrow> 'd"
  et_input_objects :: "'t \<Rightarrow> 'o input_object_kind list"
  et_shared_object_ids :: "'t \<Rightarrow> 'o list"

definition input_object_ids :: "('t, 'd, 'o) executable_transaction \<Rightarrow> 't \<Rightarrow> 'o list" where
  "input_object_ids E t = map kind_object_id (et_input_objects E t)"

text \<open>The shared objects among a list of inputs, in order: the body that the executors share.\<close>

definition shared_ids :: "'o input_object_kind list \<Rightarrow> 'o list" where
  "shared_ids ks = map kind_object_id (filter is_shared_kind ks)"

record ('t, 'o) txn_ts =
  transaction :: 't
  timestamp :: f64
  shared_objects :: "('o, version option) btree"
  verification_duration :: duration
  expected_stateful_duration :: duration

definition txn_new :: "'t \<Rightarrow> f64 \<Rightarrow> 'o::linorder list \<Rightarrow> duration \<Rightarrow> duration \<Rightarrow> ('t, 'o) txn_ts" where
  "txn_new t ts ids vd sd =
     \<lparr>transaction = t, timestamp = ts,
      shared_objects = bt_collect (map (\<lambda>i. (i, None)) ids),
      verification_duration = vd, expected_stateful_duration = sd\<rparr>"

definition txn_new_for_tests :: "'t \<Rightarrow> ('t, 'o) txn_ts" where
  "txn_new_for_tests t =
     \<lparr>transaction = t, timestamp = 0, shared_objects = [],
      verification_duration = from_micros 200, expected_stateful_duration = from_micros 200\<rparr>"


section \<open>Stateless verification requests\<close>

datatype stateless_crypto_scheme =
    Ed25519Dalek | Bls12381MinSig | Secp256k1Ecdsa | P256Ecdsa | Secp256k1Schnorr

datatype 'd verification_request =
    SyntheticRequest 'd duration
  | CryptoRequest 'd duration stateless_crypto_scheme "byte list" "byte list"

fun request_digest :: "'d verification_request \<Rightarrow> 'd" where
  "request_digest (SyntheticRequest d _) = d"
| "request_digest (CryptoRequest d _ _ _ _) = d"

fun cost_hint :: "'d verification_request \<Rightarrow> duration" where
  "cost_hint (SyntheticRequest _ dur) = dur"
| "cost_hint (CryptoRequest _ hint _ _ _) = hint"


section \<open>Execution results\<close>

record ('t, 'o, 'u, 'b) execution_results =
  er_transaction :: "('t, 'o) txn_ts"
  er_updates :: "'u option"
  er_new_state :: "('o, 'b) btree option"

definition results_new ::
  "('t, 'o) txn_ts \<Rightarrow> 'u option \<Rightarrow> ('o, 'b) btree option \<Rightarrow> ('t, 'o, 'u, 'b) execution_results" where
  "results_new t u n = \<lparr>er_transaction = t, er_updates = u, er_new_state = n\<rparr>"

text \<open>
  The three accessors of the effects unwrap the optional updates; \<open>status_ok\<close> and the effects'
  own accessors are the trait \<^verbatim>\<open>TransactionEffectsAPI\<close> of \<^verbatim>\<open>sui_types\<close>.
\<close>

definition results_success ::
  "('u \<Rightarrow> bool) \<Rightarrow> ('t, 'o, 'u, 'b) execution_results \<Rightarrow> bool res" where
  "results_success status_ok r =
     and_then (unwrap ''called unwrap on a None value'' (er_updates r)) (\<lambda>u. Inr (status_ok u))"

definition results_transaction_digest ::
  "('u \<Rightarrow> 'd) \<Rightarrow> ('t, 'o, 'u, 'b) execution_results \<Rightarrow> 'd res" where
  "results_transaction_digest digest_of r =
     and_then (unwrap ''called unwrap on a None value'' (er_updates r)) (\<lambda>u. Inr (digest_of u))"

definition results_modified_at_versions ::
  "('u \<Rightarrow> ('o \<times> version) list) \<Rightarrow> ('t, 'o, 'u, 'b) execution_results \<Rightarrow> ('o \<times> version) list res" where
  "results_modified_at_versions modified r =
     and_then (unwrap ''called unwrap on a None value'' (er_updates r)) (\<lambda>u. Inr (modified u))"


section \<open>Messages\<close>

type_synonym 'o required_states = "(('o \<times> version) \<times> proxy_id option) list"

datatype ('t, 'd, 'o) primary_to_proxy =
    Txn "('t, 'o) txn_ts" proxy_id "'o required_states"
  | StatelessTxn "'d verification_request"
  | CombinedTxn "('t, 'o) txn_ts" proxy_id "'o required_states"

datatype ('d, 'o) inter_proxy_request =
    StatefulRequest proxy_id "('o \<times> version) list"
  | StatelessRequest proxy_id 'd

datatype ('d, 'o, 'b) inter_proxy_reply =
    StatefulReply "('o, 'b) btree"
  | StatelessReply 'd bool

datatype ('d, 'o, 'b) proxy_to_proxy =
    Request "('d, 'o) inter_proxy_request"
  | Reply "('d, 'o, 'b) inter_proxy_reply"


section \<open>Lemmas\<close>

lemma txn_new_shared_objects [simp]:
  "bt_wf (shared_objects (txn_new t ts ids vd sd))"
  "fst ` set (shared_objects (txn_new t ts ids vd sd)) = set ids"
  by (simp_all add: txn_new_def image_image)

lemma set_shared_ids: "set (shared_ids ks) = {i. \<exists>v m. SharedMoveObject i v m \<in> set ks}"
proof -
  have "i \<in> set (shared_ids ks) \<longleftrightarrow> (\<exists>v m. SharedMoveObject i v m \<in> set ks)" for i
    by (induction ks) (auto simp: shared_ids_def elim: is_shared_kind.elims)
  then show ?thesis by blast
qed

lemma results_success_panics_iff:
  "(\<exists>e. results_success status_ok r = Inl e) \<longleftrightarrow> er_updates r = None"
  by (cases "er_updates r") (auto simp: results_success_def)

end
