(* ===== verification/Fake_Executor.thy ===== *)
theory Fake_Executor
  imports Api
begin

text \<open>
  The fake executor (\<^verbatim>\<open>src/executor/fake.rs\<close>): transactions that touch objects without running
  Move code.  \<^verbatim>\<open>Object\<close>, \<^verbatim>\<open>Owner\<close> and \<^verbatim>\<open>MoveObject\<close> are types of \<^verbatim>\<open>sui_types\<close>: an object is an opaque
  value \<open>'b\<close> with the operations that the code calls in the record \<open>object_api\<close>, and
  \<open>object_laws\<close> states their documented behaviour.  The spinning loop that burns CPU time has no
  effect on the state and is not part of these definitions; the load statistics that choose object
  numbers come from another crate and are the argument \<open>draw\<close>.
\<close>


section \<open>Objects\<close>

record ('o, 'b, 'w) object_api =
  ob_id :: "'b \<Rightarrow> 'o"
  ob_version :: "'b \<Rightarrow> version"
  ob_is_shared :: "'b \<Rightarrow> bool"
  ob_single_owner :: "'b \<Rightarrow> 'w option"
  ob_shared_owner :: "version \<Rightarrow> 'w"
  ob_new_gas_coin :: "version \<Rightarrow> 'o \<Rightarrow> 'w \<Rightarrow> 'b"
  ob_with_id_owner_version :: "'o \<Rightarrow> version \<Rightarrow> 'w \<Rightarrow> 'b"

definition object_laws :: "('o, 'b, 'w) object_api \<Rightarrow> bool" where
  "object_laws Ob \<longleftrightarrow>
     (\<forall>v i w. ob_id Ob (ob_new_gas_coin Ob v i w) = i \<and> ob_version Ob (ob_new_gas_coin Ob v i w) = v) \<and>
     (\<forall>v i u. ob_is_shared Ob (ob_new_gas_coin Ob v i (ob_shared_owner Ob u))) \<and>
     (\<forall>b. \<not> ob_is_shared Ob b \<longrightarrow> ob_single_owner Ob b \<noteq> None)"

text \<open>A concrete object for the witnesses: identifier, version and owner (\<open>None\<close> when shared).\<close>

definition plain_objects :: "(nat, nat \<times> version \<times> nat option, nat option) object_api" where
  "plain_objects = \<lparr>ob_id = fst, ob_version = (\<lambda>b. fst (snd b)), ob_is_shared = (\<lambda>b. snd (snd b) = None),
     ob_single_owner = (\<lambda>b. if snd (snd b) = None then None else Some (snd (snd b))),
     ob_shared_owner = (\<lambda>_. None), ob_new_gas_coin = (\<lambda>v i w. (i, v, w)),
     ob_with_id_owner_version = (\<lambda>i v w. (i, v, w))\<rparr>"

lemma object_laws_plain [simp]: "object_laws plain_objects"
  by (auto simp: object_laws_def plain_objects_def)

definition fake_owned_object_with_id :: "('o, 'b, 'w) object_api \<Rightarrow> 'w \<Rightarrow> version \<Rightarrow> 'o \<Rightarrow> 'b" where
  "fake_owned_object_with_id Ob owner v i = ob_with_id_owner_version Ob i v owner"

definition fake_shared_object_with_id :: "('o, 'b, 'w) object_api \<Rightarrow> version \<Rightarrow> 'o \<Rightarrow> 'b" where
  "fake_shared_object_with_id Ob initial_version i =
     ob_new_gas_coin Ob initial_version i (ob_shared_owner Ob initial_version)"


section \<open>The object store\<close>

type_synonym ('o, 'b) object_store = "'o \<rightharpoonup> 'b"

definition store_new :: "('o, 'b) object_store" where
  "store_new = Map.empty"

definition write_object :: "('o, 'b, 'w) object_api \<Rightarrow> ('o, 'b) object_store \<Rightarrow> 'b \<Rightarrow> ('o, 'b) object_store" where
  "write_object Ob s b = s(ob_id Ob b \<mapsto> b)"

fun commit_new_objects :: "('o, 'b) object_store \<Rightarrow> ('o, 'b) btree \<Rightarrow> ('o, 'b) object_store" where
  "commit_new_objects s [] = s"
| "commit_new_objects s ((i, b) # new_state) = commit_new_objects (s(i \<mapsto> b)) new_state"

definition commit_objects :: "('o, 'b) object_store \<Rightarrow> 'u \<Rightarrow> ('o, 'b) btree \<Rightarrow> ('o, 'b) object_store" where
  "commit_objects s updates new_state = commit_new_objects s new_state"

definition read_object :: "('o, 'b) object_store \<Rightarrow> 'o \<Rightarrow> 'b option" where
  "read_object s i = s i"


section \<open>Transactions\<close>

record ('d, 'o) fake_transaction =
  ft_digest :: 'd
  ft_inputs :: "'o input_object_kind list"
  ft_shared_objects :: "('o \<times> version) list"

definition fake_new :: "'d \<Rightarrow> 'o input_object_kind list \<Rightarrow> ('d, 'o) fake_transaction" where
  "fake_new d inputs = \<lparr>ft_digest = d, ft_inputs = inputs, ft_shared_objects = []\<rparr>"

fun kinds_from_store ::
  "('o, 'b, 'w) object_api \<Rightarrow> ('o, 'b) object_store \<Rightarrow> 'o list \<Rightarrow> 'o input_object_kind list res" where
  "kinds_from_store Ob s [] = Inr []"
| "kinds_from_store Ob s (i # is) =
     and_then (unwrap ''Unknown object'' (read_object s i))
       (\<lambda>b. and_then (kinds_from_store Ob s is)
          (\<lambda>ks. Inr ((if ob_is_shared Ob b then SharedMoveObject (ob_id Ob b) (ob_version Ob b) True
                      else ImmOrOwnedMoveObject (ob_id Ob b) (ob_version Ob b)) # ks)))"

definition from_store ::
  "('o, 'b, 'w) object_api \<Rightarrow> ('o, 'b) object_store \<Rightarrow> 'd \<Rightarrow> 'o list \<Rightarrow> ('d, 'o) fake_transaction res" where
  "from_store Ob s d inputs = and_then (kinds_from_store Ob s inputs) (\<lambda>ks. Inr (fake_new d ks))"

definition fake_transaction_trait :: "(('d, 'o) fake_transaction, 'd, 'o) executable_transaction" where
  "fake_transaction_trait =
     \<lparr>et_digest = ft_digest, et_input_objects = ft_inputs, et_shared_object_ids = (\<lambda>t. shared_ids (ft_inputs t))\<rparr>"

record ('d, 'o) fake_effects =
  fe_transaction_digest :: 'd
  fe_modified_at_versions :: "('o \<times> version) list"


section \<open>The executor\<close>

definition update_object_with_version :: "('o, 'b, 'w) object_api \<Rightarrow> 'b \<Rightarrow> version \<Rightarrow> 'b res" where
  "update_object_with_version Ob input v =
     (if ob_is_shared Ob input then Inr (ob_new_gas_coin Ob v (ob_id Ob input) (ob_shared_owner Ob v))
      else and_then (unwrap ''Should be single owner'' (ob_single_owner Ob input))
             (\<lambda>owner. Inr (ob_new_gas_coin Ob v (ob_id Ob input) owner)))"

text \<open>The loop over the shared objects of the transaction: the largest version and the versions read.\<close>

fun scan_versions :: "('o, version option) btree \<Rightarrow> version \<Rightarrow> ('o \<times> version) list \<Rightarrow> version \<times> ('o \<times> version) list" where
  "scan_versions [] mx md = (mx, md)"
| "scan_versions ((i, None) # xs) mx md = scan_versions xs mx md"
| "scan_versions ((i, Some v) # xs) mx md = scan_versions xs (upd_max v mx) (md @ [(i, v)])"

fun output_objects ::
  "('o::linorder, 'b, 'w) object_api \<Rightarrow> ('o, 'b) object_store \<Rightarrow> version \<Rightarrow> 'o input_object_kind list \<Rightarrow>
   ('o, 'b) btree \<Rightarrow> ('o, 'b) btree res" where
  "output_objects Ob s v [] new_state = Inr new_state"
| "output_objects Ob s v (reference # refs) new_state =
     (let i = kind_object_id reference in
      and_then (unwrap ''Unknown object'' (read_object s i))
        (\<lambda>input_object. and_then (update_object_with_version Ob input_object v)
           (\<lambda>output_object. output_objects Ob s v refs (bt_insert i output_object new_state))))"

text \<open>
  \<^verbatim>\<open>execute\<close> commits the new state to the store before it returns; the result pairs the new store
  with the effects and the new state of the execution results.
\<close>

definition fake_execute ::
  "(version \<Rightarrow> version) \<Rightarrow> ('o::linorder, 'b, 'w) object_api \<Rightarrow> ('o, 'b) object_store \<Rightarrow>
   (('d, 'o) fake_transaction, 'o) txn_ts \<Rightarrow>
   (('o, 'b) object_store \<times> (('d, 'o) fake_transaction, 'o, ('d, 'o) fake_effects, 'b) execution_results) res" where
  "fake_execute nxt Ob s t =
     (let (max_version, modified_at_versions) = scan_versions (shared_objects t) 2 [];
          next_version = nxt max_version
      in and_then (output_objects Ob s next_version (ft_inputs (transaction t)) [])
           (\<lambda>new_state.
              let updates = \<lparr>fe_transaction_digest = ft_digest (transaction t),
                             fe_modified_at_versions = modified_at_versions\<rparr>
              in Inr (commit_objects s updates new_state, results_new t (Some updates) (Some new_state))))"

fun check_inputs ::
  "('o, 'b, 'w) object_api \<Rightarrow> ('o, 'b) object_store \<Rightarrow> ('o, version option) btree \<Rightarrow>
   'o input_object_kind list \<Rightarrow> bool res" where
  "check_inputs Ob s shared [] = Inr True"
| "check_inputs Ob s shared (reference # refs) =
     (let i = kind_object_id reference in
      case read_object s i of
        None \<Rightarrow> Inr False
      | Some b \<Rightarrow>
          (if is_shared_kind reference
           then (case map_of shared i of
                   None \<Rightarrow> check_inputs Ob s shared refs
                 | Some v \<Rightarrow>
                     and_then (unwrap ''called unwrap on a None value'' v)
                       (\<lambda>v. if ob_version Ob b \<noteq> v then Inr False else check_inputs Ob s shared refs))
           else check_inputs Ob s shared refs))"

definition fake_pre_execute_check ::
  "('o, 'b, 'w) object_api \<Rightarrow> ('o, 'b) object_store \<Rightarrow> (('d, 'o) fake_transaction, 'o) txn_ts \<Rightarrow> bool res" where
  "fake_pre_execute_check Ob s t = check_inputs Ob s (shared_objects t) (ft_inputs (transaction t))"


section \<open>Workload generation\<close>

fun le_bytes :: "nat \<Rightarrow> nat \<Rightarrow> byte list" where
  "le_bytes 0 n = []"
| "le_bytes (Suc k) n = of_nat (n mod 256) # le_bytes k (n div 256)"

text \<open>The identifier of a fake object: the number in little-endian order, padded to 32 bytes.\<close>

definition fake_object_bytes :: "nat \<Rightarrow> byte list" where
  "fake_object_bytes n = le_bytes 8 n @ replicate 24 0"

definition fake_input_kind :: "(byte list \<Rightarrow> 'o) \<Rightarrow> nat \<Rightarrow> 'o input_object_kind" where
  "fake_input_kind from_bytes n = SharedMoveObject (from_bytes (fake_object_bytes n)) 2 True"

text \<open>
  \<open>draw k\<close> is the list of object numbers that the workload draws for the \<open>k\<close>-th transaction,
  \<open>digest k\<close> the random digest it gets.
\<close>

definition generate_fake_load_objects_and_transactions ::
  "('o, 'b, 'w) object_api \<Rightarrow> (byte list \<Rightarrow> 'o) \<Rightarrow> (nat \<Rightarrow> 'd) \<Rightarrow> (nat \<Rightarrow> nat list) \<Rightarrow> nat \<Rightarrow>
   'b list \<times> ('d, 'o) fake_transaction list" where
  "generate_fake_load_objects_and_transactions Ob from_bytes digest draw tx_count =
     (concat (map (\<lambda>k. map (\<lambda>n. fake_shared_object_with_id Ob 2 (from_bytes (fake_object_bytes n))) (draw k)) [0..<tx_count]),
      map (\<lambda>k. fake_new (digest k) (map (fake_input_kind from_bytes) (draw k))) [0..<tx_count])"

definition init_fake_store :: "('o, 'b, 'w) object_api \<Rightarrow> 'b list \<Rightarrow> ('o, 'b) object_store" where
  "init_fake_store Ob objects = fold (\<lambda>b s. write_object Ob s b) objects store_new"


section \<open>Lemmas\<close>

lemma commit_new_objects_eq: "distinct (map fst m) \<Longrightarrow> commit_new_objects s m = s ++ map_of m"
  by (induction s m rule: commit_new_objects.induct)
    (simp_all add: map_add_upd_left dom_map_of_conv_image_fst)

lemma scan_versions_eq:
  "scan_versions xs mx md =
     (fold upd_max [v. (i, Some v) \<leftarrow> xs] mx, md @ [(i, v). (i, Some v) \<leftarrow> xs])"
  by (induction xs mx md rule: scan_versions.induct) auto

lemma output_objects_keys:
  "output_objects Ob s v refs m = Inr m' \<Longrightarrow>
     bt_wf m \<Longrightarrow> bt_wf m' \<and> fst ` set m' = fst ` set m \<union> kind_object_id ` set refs"
proof (induction refs arbitrary: m)
  case (Cons r refs)
  then obtain b where "output_objects Ob s v refs (bt_insert (kind_object_id r) b m) = Inr m'"
    by (auto simp: Let_def and_then_eq_Inr)
  then have "bt_wf m' \<and> fst ` set m' = fst ` set (bt_insert (kind_object_id r) b m) \<union> kind_object_id ` set refs"
    by (rule Cons.IH) (simp add: Cons.prems)
  then show ?case unfolding keys_bt_insert by simp
qed simp

lemma output_objects_local:
  "(\<And>r. r \<in> set refs \<Longrightarrow> s (kind_object_id r) = s' (kind_object_id r)) \<Longrightarrow>
   output_objects Ob s v refs m = output_objects Ob s' v refs m"
  by (induction Ob s v refs m rule: output_objects.induct)
    (auto simp: Let_def read_object_def and_then_def split: sum.splits)

lemma check_inputs_local:
  "(\<And>r. r \<in> set refs \<Longrightarrow> s (kind_object_id r) = s' (kind_object_id r)) \<Longrightarrow>
   check_inputs Ob s shared refs = check_inputs Ob s' shared refs"
  by (induction Ob s shared refs rule: check_inputs.induct)
    (auto simp: Let_def read_object_def and_then_def unwrap_def split: option.splits sum.splits)

lemma update_object_with_version_ok:
  assumes "object_laws Ob"
  obtains b' where "update_object_with_version Ob b v = Inr b'" "ob_id Ob b' = ob_id Ob b" "ob_version Ob b' = v"
    "ob_is_shared Ob b \<Longrightarrow> ob_is_shared Ob b'"
proof (cases "ob_is_shared Ob b")
  case True
  then show ?thesis using assms that by (auto simp: update_object_with_version_def object_laws_def)
next
  case False
  then obtain w where "ob_single_owner Ob b = Some w" using assms by (auto simp: object_laws_def)
  then show ?thesis using assms that False by (auto simp: update_object_with_version_def object_laws_def)
qed

text \<open>When all inputs exist, every input is written with the new version.\<close>

lemma output_objects_ok:
  assumes laws: "object_laws Ob" and "\<And>r. r \<in> set refs \<Longrightarrow> s (kind_object_id r) \<noteq> None"
  shows "\<exists>m'. output_objects Ob s v refs m = Inr m' \<and>
           (\<forall>i. i \<notin> kind_object_id ` set refs \<longrightarrow> map_of m' i = map_of m i) \<and>
           (\<forall>i \<in> kind_object_id ` set refs. \<exists>b. map_of m' i = Some b \<and> ob_version Ob b = v)"
  using assms(2)
proof (induction refs arbitrary: m)
  case (Cons r refs)
  obtain b where b: "s (kind_object_id r) = Some b" using Cons.prems[of r] by auto
  obtain b' where b': "update_object_with_version Ob b v = Inr b'" "ob_version Ob b' = v"
    using update_object_with_version_ok[OF laws] by metis
  obtain m' where m': "output_objects Ob s v refs (bt_insert (kind_object_id r) b' m) = Inr m'"
    "\<forall>i. i \<notin> kind_object_id ` set refs \<longrightarrow> map_of m' i = map_of (bt_insert (kind_object_id r) b' m) i"
    "\<forall>i \<in> kind_object_id ` set refs. \<exists>b. map_of m' i = Some b \<and> ob_version Ob b = v"
    using Cons.IH[of "bt_insert (kind_object_id r) b' m"] Cons.prems by auto
  have all: "\<exists>b. map_of m' i = Some b \<and> ob_version Ob b = v" if "i \<in> kind_object_id ` set (r # refs)" for i
    using that m'(2,3) b'(2) by (cases "i \<in> kind_object_id ` set refs") auto
  have "output_objects Ob s v (r # refs) m = Inr m'" using m'(1) b b'(1) by (simp add: Let_def read_object_def)
  moreover have "map_of m' i = map_of m i" if "i \<notin> kind_object_id ` set (r # refs)" for i
    using that m'(2) by simp
  ultimately show ?case using all by blast
qed simp

lemma fake_execute_ok:
  assumes "object_laws Ob" "\<And>r. r \<in> set (ft_inputs (transaction t)) \<Longrightarrow> s (kind_object_id r) \<noteq> None"
    and "v = nxt (fst (scan_versions (shared_objects t) 2 []))" "I = kind_object_id ` set (ft_inputs (transaction t))"
  obtains s' r where "fake_execute nxt Ob s t = Inr (s', r)"
    "\<And>i. i \<notin> I \<Longrightarrow> s' i = s i" "\<And>i. i \<in> I \<Longrightarrow> \<exists>b. s' i = Some b \<and> ob_version Ob b = v"
    "er_updates r \<noteq> None"
proof -
  obtain m where m: "output_objects Ob s v (ft_inputs (transaction t)) [] = Inr m"
    "\<And>i. i \<notin> I \<Longrightarrow> map_of m i = None" "\<And>i. i \<in> I \<Longrightarrow> \<exists>b. map_of m i = Some b \<and> ob_version Ob b = v"
    using output_objects_ok[OF assms(1), of "ft_inputs (transaction t)" s v "[]"] assms(2)
    unfolding assms(4)[symmetric] by (metis map_of.simps(1))
  have "distinct (map fst m)" using output_objects_keys[OF m(1)] bt_wf_distinct[of m] by simp
  then have c: "commit_objects s u m = s ++ map_of m" for u :: "('d, 'a) fake_effects"
    by (simp add: commit_objects_def commit_new_objects_eq)
  show thesis
  proof (rule that)
    let ?u = "\<lparr>fe_transaction_digest = ft_digest (transaction t),
        fe_modified_at_versions = snd (scan_versions (shared_objects t) 2 [])\<rparr>"
    show "fake_execute nxt Ob s t = Inr (s ++ map_of m, results_new t (Some ?u) (Some m))"
      using m(1) assms(3) by (simp add: fake_execute_def c split_beta Let_def)
    show "(s ++ map_of m) i = s i" if "i \<notin> I" for i using m(2)[OF that] by (simp add: map_add_def)
    show "\<exists>b. (s ++ map_of m) i = Some b \<and> ob_version Ob b = v" if "i \<in> I" for i
      using m(3)[OF that] by (auto simp: map_add_def)
    show "er_updates (results_new t (Some ?u) (Some m)) \<noteq> None" by (simp add: results_new_def)
  qed
qed

lemma check_inputs_ok:
  assumes "\<And>r. r \<in> set refs \<Longrightarrow> \<exists>b. s (kind_object_id r) = Some b \<and>
      (is_shared_kind r \<longrightarrow> (\<exists>v. map_of shared (kind_object_id r) = Some (Some v) \<and> ob_version Ob b = v))"
  shows "check_inputs Ob s shared refs = Inr True"
  using assms
proof (induction refs)
  case (Cons r refs)
  have rest: "check_inputs Ob s shared refs = Inr True" using Cons.prems by (intro Cons.IH) (meson list.set_intros(2))
  obtain b where "s (kind_object_id r) = Some b"
    "is_shared_kind r \<longrightarrow> map_of shared (kind_object_id r) = Some (Some (ob_version Ob b))"
    using Cons.prems[of r] by auto
  with rest show ?case by (simp add: Let_def read_object_def)
qed simp

end
