(* ===== verification/Tpcc_Data.thy ===== *)
theory Tpcc_Data
  imports Fake_Executor "HOL-Library.Signed_Division"
begin

text \<open>
  The data model of the TPC-C workload (\<^verbatim>\<open>src/executor/tpcc/constants.rs\<close>, \<^verbatim>\<open>data.rs\<close> and \<^verbatim>\<open>transactions.rs\<close>):
  the constants, the rows of the five tables, the object identifier of a row, the encoding of a row as
  an object, the transactions and their read and write sets.

  Machine integers are \<open>int\<close> values; every arithmetic operation goes through \<open>fit_i64\<close>, \<open>fit_i32\<close> or
  \<open>fit_u32\<close>.  Identifiers (\<^verbatim>\<open>u32\<close>,
  never computed with) are \<open>nat\<close>.  \<^verbatim>\<open>bcs\<close>, \<^verbatim>\<open>MoveObject\<close>, \<^verbatim>\<open>Object\<close> and the hash function of the standard library, whose
  algorithm is not specified, are the operations of the record \<open>tpcc_api\<close>; \<open>tpcc_laws\<close> states their documented behaviour.
\<close>


section \<open>Constants\<close>

definition NUM_ITEMS :: nat where "NUM_ITEMS = 100000"
definition DISTRICTS_PER_WAREHOUSE :: nat where "DISTRICTS_PER_WAREHOUSE = 10"
definition CUSTOMERS_PER_DISTRICT :: nat where "CUSTOMERS_PER_DISTRICT = 3000"
definition STOCK_PER_WAREHOUSE :: nat where "STOCK_PER_WAREHOUSE = 100000"
definition MIN_OL_CNT :: nat where "MIN_OL_CNT = 5"
definition MAX_OL_CNT :: nat where "MAX_OL_CNT = 15"
definition MAX_OL_QUANTITY :: nat where "MAX_OL_QUANTITY = 10"
definition REMOTE_WAREHOUSE_PROB :: f64 where "REMOTE_WAREHOUSE_PROB = 0.15"
definition REMOTE_CUSTOMER_PROB :: f64 where "REMOTE_CUSTOMER_PROB = 0.15"
definition MIN_PRICE_CENTS :: nat where "MIN_PRICE_CENTS = 100"
definition MAX_PRICE_CENTS :: nat where "MAX_PRICE_CENTS = 10000"
definition MIN_PAYMENT_CENTS :: nat where "MIN_PAYMENT_CENTS = 100"
definition MAX_PAYMENT_CENTS :: nat where "MAX_PAYMENT_CENTS = 500000"
definition RATE_SCALE :: int where "RATE_SCALE = 10000"
definition MIN_TAX_BPS :: nat where "MIN_TAX_BPS = 0"
definition MAX_TAX_BPS :: nat where "MAX_TAX_BPS = 2000"
definition MIN_DISCOUNT_BPS :: nat where "MIN_DISCOUNT_BPS = 0"
definition MAX_DISCOUNT_BPS :: nat where "MAX_DISCOUNT_BPS = 5000"
definition MIN_QUANTITY :: nat where "MIN_QUANTITY = 10"
definition MAX_QUANTITY :: nat where "MAX_QUANTITY = 100"
definition INITIAL_W_YTD_CENTS :: int where "INITIAL_W_YTD_CENTS = 30000000"
definition INITIAL_D_YTD_CENTS :: int where "INITIAL_D_YTD_CENTS = 3000000"
definition INITIAL_BALANCE_CENTS :: int where "INITIAL_BALANCE_CENTS = - 1000"
definition INITIAL_YTD_PAYMENT_CENTS :: int where "INITIAL_YTD_PAYMENT_CENTS = 1000"
definition INITIAL_PAYMENT_CNT :: int where "INITIAL_PAYMENT_CNT = 1"
definition INITIAL_NEXT_O_ID :: int where "INITIAL_NEXT_O_ID = 3001"

lemmas tpcc_constants =
  NUM_ITEMS_def DISTRICTS_PER_WAREHOUSE_def CUSTOMERS_PER_DISTRICT_def STOCK_PER_WAREHOUSE_def MIN_OL_CNT_def MAX_OL_CNT_def
  MAX_OL_QUANTITY_def REMOTE_WAREHOUSE_PROB_def REMOTE_CUSTOMER_PROB_def MIN_PRICE_CENTS_def MAX_PRICE_CENTS_def
  MIN_PAYMENT_CENTS_def MAX_PAYMENT_CENTS_def RATE_SCALE_def MIN_TAX_BPS_def MAX_TAX_BPS_def MIN_DISCOUNT_BPS_def MAX_DISCOUNT_BPS_def
  MIN_QUANTITY_def MAX_QUANTITY_def INITIAL_W_YTD_CENTS_def INITIAL_D_YTD_CENTS_def INITIAL_BALANCE_CENTS_def
  INITIAL_YTD_PAYMENT_CENTS_def INITIAL_PAYMENT_CNT_def INITIAL_NEXT_O_ID_def


section \<open>Rows\<close>

record warehouse =
  w_id :: nat
  w_ytd :: int
  w_tax :: int
  w_name :: string

record district =
  d_id :: nat
  d_w_id :: nat
  d_ytd :: int
  d_tax :: int
  d_next_o_id :: int
  d_name :: string

record customer =
  c_id :: nat
  c_d_id :: nat
  c_w_id :: nat
  c_balance :: int
  c_ytd_payment :: int
  c_payment_cnt :: int
  c_discount :: int
  c_first :: string
  c_last :: string

record stock =
  s_i_id :: nat
  s_w_id :: nat
  s_quantity :: int
  s_ytd :: int
  s_order_cnt :: int
  s_remote_cnt :: int

record item =
  i_id :: nat
  i_price :: int
  i_name :: string
  i_data :: string

datatype tpcc_object_kind = Warehouse | District | Customer | Stock | Item

text \<open>The values of the type parameter of \<^verbatim>\<open>TpccObject\<close>.\<close>

datatype tpcc_row =
    WarehouseRow (the_warehouse: warehouse)
  | DistrictRow (the_district: district)
  | CustomerRow (the_customer: customer)
  | StockRow (the_stock: stock)
  | ItemRow (the_item: item)

fun row_kind :: "tpcc_row \<Rightarrow> tpcc_object_kind" where
  "row_kind (WarehouseRow _) = Warehouse"
| "row_kind (DistrictRow _) = District"
| "row_kind (CustomerRow _) = Customer"
| "row_kind (StockRow _) = Stock"
| "row_kind (ItemRow _) = Item"

fun row_names :: "tpcc_row \<Rightarrow> string list" where
  "row_names (WarehouseRow r) = [w_name r]"
| "row_names (DistrictRow r) = [d_name r]"
| "row_names (CustomerRow r) = [c_first r, c_last r]"
| "row_names (StockRow r) = []"
| "row_names (ItemRow r) = [i_name r, i_data r]"

text \<open>
  \<^verbatim>\<open>bcs\<close> writes integers with their fixed width and a text with its length in front of it, so a row whose texts
  are at most 64 bytes long is far below the limit of an object.
\<close>

definition short_names :: "tpcc_row \<Rightarrow> bool" where
  "short_names r \<longleftrightarrow> list_all (\<lambda>n. length n \<le> 64) (row_names r)"


section \<open>Encoding\<close>

record struct_tag =
  st_address :: nat
  st_module :: string
  st_name :: string
  st_type_params :: "string list"

definition TPCC_MODULE_NAME :: string where "TPCC_MODULE_NAME = ''tpcc''"
definition MAX_TPCC_OBJECT_SIZE :: nat where "MAX_TPCC_OBJECT_SIZE = 16 * 1024"

fun kind_name :: "tpcc_object_kind \<Rightarrow> string" where
  "kind_name Warehouse = ''Warehouse''"
| "kind_name District = ''District''"
| "kind_name Customer = ''Customer''"
| "kind_name Stock = ''Stock''"
| "kind_name Item = ''Item''"

definition tpcc_struct_tag :: "tpcc_object_kind \<Rightarrow> struct_tag" where
  "tpcc_struct_tag k = \<lparr>st_address = 0, st_module = TPCC_MODULE_NAME, st_name = kind_name k, st_type_params = []\<rparr>"

lemma tpcc_struct_tag_inj: "tpcc_struct_tag k = tpcc_struct_tag k' \<longleftrightarrow> k = k'"
  by (cases k; cases k') (simp_all add: tpcc_struct_tag_def)

record ('o, 'b, 'w, 'm, 'c) tpcc_api =
  tp_hash :: "string \<Rightarrow> 64 word"
  tp_from_bytes :: "byte list \<Rightarrow> 'o"
  tp_to_bcs :: "'o \<Rightarrow> tpcc_row \<Rightarrow> 'c"
  tp_from_bcs :: "tpcc_object_kind \<Rightarrow> 'c \<Rightarrow> ('o \<times> tpcc_row) option"
  tp_size :: "'c \<Rightarrow> nat"
  tp_new_from_execution :: "struct_tag \<Rightarrow> bool \<Rightarrow> version \<Rightarrow> 'c \<Rightarrow> nat \<Rightarrow> 'm option"
  tp_contents :: "'m \<Rightarrow> 'c"
  tp_type :: "'m \<Rightarrow> struct_tag"
  tp_increment_version_to :: "version \<Rightarrow> 'm \<Rightarrow> 'm"
  tp_new_move :: "'m \<Rightarrow> 'w \<Rightarrow> 'b"
  tp_as_move :: "'b \<Rightarrow> 'm option"
  tp_id :: "'b \<Rightarrow> 'o"
  tp_version :: "'b \<Rightarrow> version"
  tp_is_shared :: "'b \<Rightarrow> bool"
  tp_shared_owner :: "version \<Rightarrow> 'w"
  tp_single_owner :: "'b \<Rightarrow> 'w option"

definition tpcc_laws :: "('o, 'b, 'w, 'm, 'c) tpcc_api \<Rightarrow> bool" where
  "tpcc_laws A \<longleftrightarrow>
     (\<forall>xs ys. length xs = 32 \<longrightarrow> length ys = 32 \<longrightarrow> tp_from_bytes A xs = tp_from_bytes A ys \<longrightarrow> xs = ys) \<and>
     (\<forall>i r. tp_from_bcs A (row_kind r) (tp_to_bcs A i r) = Some (i, r)) \<and>
     (\<forall>i r. short_names r \<longrightarrow> tp_size A (tp_to_bcs A i r) \<le> MAX_TPCC_OBJECT_SIZE) \<and>
     (\<forall>tag p v c n. tp_size A c \<le> n \<longrightarrow> (\<exists>m. tp_new_from_execution A tag p v c n = Some m \<and> tp_contents A m = c \<and> tp_type A m = tag \<and>
        (\<forall>w. tp_version A (tp_new_move A m w) = v))) \<and>
     (\<forall>m w. tp_as_move A (tp_new_move A m w) = Some m) \<and>
     (\<forall>m w i r. tp_contents A m = tp_to_bcs A i r \<longrightarrow> tp_id A (tp_new_move A m w) = i) \<and>
     (\<forall>m v. tp_contents A (tp_increment_version_to A v m) = tp_contents A m \<and> tp_type A (tp_increment_version_to A v m) = tp_type A m \<and>
        (\<forall>w. tp_version A (tp_new_move A (tp_increment_version_to A v m) w) = v)) \<and>
     (\<forall>m v. tp_is_shared A (tp_new_move A m (tp_shared_owner A v)))"

lemma tpcc_lawsD:
  assumes "tpcc_laws A"
  shows "length xs = 32 \<Longrightarrow> length ys = 32 \<Longrightarrow> tp_from_bytes A xs = tp_from_bytes A ys \<Longrightarrow> xs = ys"
    and "tp_from_bcs A (row_kind r) (tp_to_bcs A i r) = Some (i, r)"
    and "short_names r \<Longrightarrow> tp_size A (tp_to_bcs A i r) \<le> MAX_TPCC_OBJECT_SIZE"
    and "tp_size A c \<le> n \<Longrightarrow> \<exists>m. tp_new_from_execution A tag p v c n = Some m \<and> tp_contents A m = c \<and> tp_type A m = tag \<and>
        (\<forall>w. tp_version A (tp_new_move A m w) = v)"
    and "tp_as_move A (tp_new_move A m w) = Some m"
    and "tp_contents A m = tp_to_bcs A i r \<Longrightarrow> tp_id A (tp_new_move A m w) = i"
    and "tp_contents A (tp_increment_version_to A v m) = tp_contents A m" "tp_type A (tp_increment_version_to A v m) = tp_type A m"
    and "tp_version A (tp_new_move A (tp_increment_version_to A v m) w) = v"
    and "tp_is_shared A (tp_new_move A m (tp_shared_owner A v))"
proof -
  note c = assms[unfolded tpcc_laws_def]
  note c2 = c[THEN conjunct2] note c3 = c2[THEN conjunct2] note c4 = c3[THEN conjunct2] note c5 = c4[THEN conjunct2]
  note c6 = c5[THEN conjunct2] note c7 = c6[THEN conjunct2] note c8 = c7[THEN conjunct2]
  show "length xs = 32 \<Longrightarrow> length ys = 32 \<Longrightarrow> tp_from_bytes A xs = tp_from_bytes A ys \<Longrightarrow> xs = ys"
    by (rule c[THEN conjunct1, rule_format])
  show "tp_from_bcs A (row_kind r) (tp_to_bcs A i r) = Some (i, r)" by (rule c2[THEN conjunct1, rule_format])
  show "short_names r \<Longrightarrow> tp_size A (tp_to_bcs A i r) \<le> MAX_TPCC_OBJECT_SIZE"
    by (rule c3[THEN conjunct1, rule_format])
  show "tp_size A c \<le> n \<Longrightarrow> \<exists>m. tp_new_from_execution A tag p v c n = Some m \<and> tp_contents A m = c \<and> tp_type A m = tag \<and>
      (\<forall>w. tp_version A (tp_new_move A m w) = v)" by (rule c4[THEN conjunct1, rule_format])
  show "tp_as_move A (tp_new_move A m w) = Some m" by (rule c5[THEN conjunct1, rule_format])
  show "tp_contents A m = tp_to_bcs A i r \<Longrightarrow> tp_id A (tp_new_move A m w) = i" by (rule c6[THEN conjunct1, rule_format])
  show "tp_contents A (tp_increment_version_to A v m) = tp_contents A m" "tp_type A (tp_increment_version_to A v m) = tp_type A m"
    "tp_version A (tp_new_move A (tp_increment_version_to A v m) w) = v"
    using c7[THEN conjunct1, rule_format, of v m] by simp_all
  show "tp_is_shared A (tp_new_move A m (tp_shared_owner A v))" by (rule c8[rule_format])
qed

definition encode_tpcc_object ::
  "('o, 'b, 'w, 'm, 'c) tpcc_api \<Rightarrow> 'o \<Rightarrow> version \<Rightarrow> tpcc_object_kind \<Rightarrow> tpcc_row \<Rightarrow> 'b res" where
  "encode_tpcc_object A i v kind data =
     (let contents = tp_to_bcs A i data
      in and_then (unwrap ''Failed to build TPCC MoveObject''
             (tp_new_from_execution A (tpcc_struct_tag kind) True v contents MAX_TPCC_OBJECT_SIZE))
           (\<lambda>move_obj. Inr (tp_new_move A move_obj (tp_shared_owner A v))))"

text \<open>The type argument of the two decoding functions is the one of the kind.\<close>

definition decode_tpcc_object :: "('o, 'b, 'w, 'm, 'c) tpcc_api \<Rightarrow> 'b \<Rightarrow> tpcc_object_kind \<Rightarrow> ('o \<times> tpcc_row) res" where
  "decode_tpcc_object A b kind =
     and_then (unwrap ''TPCC object must be a Move object'' (tp_as_move A b))
       (\<lambda>m. unwrap ''Failed to deserialize TPCC object'' (tp_from_bcs A kind (tp_contents A m)))"

definition decode_tpcc_data :: "build \<Rightarrow> ('o, 'b, 'w, 'm, 'c) tpcc_api \<Rightarrow> 'b \<Rightarrow> tpcc_object_kind \<Rightarrow> tpcc_row res" where
  "decode_tpcc_data bd A b kind =
     and_then (unwrap ''TPCC object must be a Move object'' (tp_as_move A b))
       (\<lambda>m. if bd = Debug \<and> tp_type A m \<noteq> tpcc_struct_tag kind then Inl (Panic ''assertion failed: move_obj.type_()'')
            else and_then (unwrap ''Failed to deserialize TPCC object'' (tp_from_bcs A kind (tp_contents A m)))
                   (\<lambda>(i, data). if bd = Debug \<and> i \<noteq> tp_id A b then Inl (Panic ''assertion failed: decoded.id'') else Inr data))"

text \<open>The object that \<^verbatim>\<open>encode_tpcc_object\<close> builds for a row, and what it contains.\<close>

definition holds_row :: "('o, 'b, 'w, 'm, 'c) tpcc_api \<Rightarrow> 'b \<Rightarrow> 'o \<Rightarrow> tpcc_row \<Rightarrow> bool" where
  "holds_row A b i r \<longleftrightarrow>
     (\<exists>m. tp_as_move A b = Some m \<and> tp_type A m = tpcc_struct_tag (row_kind r) \<and> tp_contents A m = tp_to_bcs A i r) \<and>
     tp_id A b = i \<and> tp_is_shared A b \<and> short_names r"

lemma encode_holds_row:
  assumes "tpcc_laws A" "short_names r"
  shows "\<exists>b. encode_tpcc_object A i v (row_kind r) r = Inr b \<and> holds_row A b i r \<and> tp_version A b = v"
proof -
  obtain m where m: "tp_new_from_execution A (tpcc_struct_tag (row_kind r)) True v (tp_to_bcs A i r) MAX_TPCC_OBJECT_SIZE = Some m"
      "tp_contents A m = tp_to_bcs A i r" "tp_type A m = tpcc_struct_tag (row_kind r)" "\<forall>w. tp_version A (tp_new_move A m w) = v"
    using tpcc_lawsD(4)[OF assms(1) tpcc_lawsD(3)[OF assms]] by blast
  let ?b = "tp_new_move A m (tp_shared_owner A v)"
  have "tp_as_move A ?b = Some m" "tp_id A ?b = i" "tp_is_shared A ?b"
    using tpcc_lawsD(5,10)[OF assms(1)] tpcc_lawsD(6)[OF assms(1) m(2)] by simp_all
  with m assms(2) show ?thesis by (auto simp: encode_tpcc_object_def holds_row_def)
qed

lemma decode_holds_row:
  assumes "tpcc_laws A" "holds_row A b i r"
  shows "decode_tpcc_data bd A b (row_kind r) = Inr r" "decode_tpcc_object A b (row_kind r) = Inr (i, r)"
proof -
  obtain m where m: "tp_as_move A b = Some m" "tp_type A m = tpcc_struct_tag (row_kind r)" "tp_contents A m = tp_to_bcs A i r" "tp_id A b = i"
    using assms(2) by (auto simp: holds_row_def)
  have "tp_from_bcs A (row_kind r) (tp_to_bcs A i r) = Some (i, r)" by (rule tpcc_lawsD(2)[OF assms(1)])
  with m show "decode_tpcc_data bd A b (row_kind r) = Inr r" "decode_tpcc_object A b (row_kind r) = Inr (i, r)"
    by (simp_all add: decode_tpcc_data_def decode_tpcc_object_def)
qed


section \<open>Object identifiers\<close>

definition digit_char :: "nat \<Rightarrow> char" where
  "digit_char n = char_of (48 + n)"

text \<open>The decimal digits that \<^verbatim>\<open>format!\<close> writes.\<close>

fun show_nat :: "nat \<Rightarrow> string" where
  "show_nat n = (if n < 10 then [digit_char n] else show_nat (n div 10) @ [digit_char (n mod 10)])"

declare show_nat.simps [simp del]

text \<open>\<^verbatim>\<open>ObjectID::LENGTH\<close> is 32.\<close>

definition object_id_bytes :: "64 word \<Rightarrow> byte list" where
  "object_id_bytes h = le_bytes 8 (unat h) @ map (\<lambda>i. ucast (drop_bit (i mod 8) h)) [0..<24]"

definition make_object_id :: "('o, 'b, 'w, 'm, 'c) tpcc_api \<Rightarrow> string \<Rightarrow> 'o" where
  "make_object_id A key = tp_from_bytes A (object_id_bytes (tp_hash A key))"

definition object_id_for_warehouse :: "('o, 'b, 'w, 'm, 'c) tpcc_api \<Rightarrow> nat \<Rightarrow> 'o" where
  "object_id_for_warehouse A w = make_object_id A (''W_'' @ show_nat w)"

definition object_id_for_district :: "('o, 'b, 'w, 'm, 'c) tpcc_api \<Rightarrow> nat \<Rightarrow> nat \<Rightarrow> 'o" where
  "object_id_for_district A w d = make_object_id A (''D_'' @ show_nat w @ ''_'' @ show_nat d)"

definition object_id_for_customer :: "('o, 'b, 'w, 'm, 'c) tpcc_api \<Rightarrow> nat \<Rightarrow> nat \<Rightarrow> nat \<Rightarrow> 'o" where
  "object_id_for_customer A w d c = make_object_id A (''C_'' @ show_nat w @ ''_'' @ show_nat d @ ''_'' @ show_nat c)"

definition object_id_for_stock :: "('o, 'b, 'w, 'm, 'c) tpcc_api \<Rightarrow> nat \<Rightarrow> nat \<Rightarrow> 'o" where
  "object_id_for_stock A w i = make_object_id A (''S_'' @ show_nat w @ ''_'' @ show_nat i)"

definition object_id_for_item :: "('o, 'b, 'w, 'm, 'c) tpcc_api \<Rightarrow> nat \<Rightarrow> 'o" where
  "object_id_for_item A i = make_object_id A (''I_'' @ show_nat i)"

text \<open>The primary key of a row, and the text and identifier made of it.\<close>

datatype tpcc_key = KWarehouse nat | KDistrict nat nat | KCustomer nat nat nat | KStock nat nat | KItem nat

fun key_kind :: "tpcc_key \<Rightarrow> tpcc_object_kind" where
  "key_kind (KWarehouse w) = Warehouse"
| "key_kind (KDistrict w d) = District"
| "key_kind (KCustomer w d c) = Customer"
| "key_kind (KStock w i) = Stock"
| "key_kind (KItem i) = Item"

fun key_parts :: "tpcc_key \<Rightarrow> char \<times> nat list" where
  "key_parts (KWarehouse w) = (CHR ''W'', [w])"
| "key_parts (KDistrict w d) = (CHR ''D'', [w, d])"
| "key_parts (KCustomer w d c) = (CHR ''C'', [w, d, c])"
| "key_parts (KStock w i) = (CHR ''S'', [w, i])"
| "key_parts (KItem i) = (CHR ''I'', [i])"

definition underscored :: "nat list \<Rightarrow> string" where
  "underscored ns = concat (map (\<lambda>n. CHR ''_'' # show_nat n) ns)"

definition key_text :: "tpcc_key \<Rightarrow> string" where
  "key_text k = fst (key_parts k) # underscored (snd (key_parts k))"

definition key_id :: "('o, 'b, 'w, 'm, 'c) tpcc_api \<Rightarrow> tpcc_key \<Rightarrow> 'o" where
  "key_id A k = make_object_id A (key_text k)"

lemma key_id_simps:
  "object_id_for_warehouse A w = key_id A (KWarehouse w)" "object_id_for_district A w d = key_id A (KDistrict w d)"
  "object_id_for_customer A w d c = key_id A (KCustomer w d c)" "object_id_for_stock A w i = key_id A (KStock w i)"
  "object_id_for_item A i = key_id A (KItem i)"
  by (simp_all add: key_id_def key_text_def underscored_def object_id_for_warehouse_def object_id_for_district_def
      object_id_for_customer_def object_id_for_stock_def object_id_for_item_def)

subsection \<open>Different keys have different texts\<close>

definition read_nat :: "string \<Rightarrow> nat" where
  "read_nat cs = foldl (\<lambda>a c. a * 10 + (of_char c - 48)) 0 cs"

lemma of_digit_char: "n < 10 \<Longrightarrow> of_char (digit_char n) = 48 + n"
  by (simp add: digit_char_def)

lemma read_show_nat: "read_nat (show_nat n) = n"
proof (induction n rule: show_nat.induct)
  case (1 n)
  show ?case
  proof (cases "n < 10")
    case True
    then show ?thesis by (subst show_nat.simps) (simp add: read_nat_def of_digit_char)
  next
    case False
    then show ?thesis using 1 by (subst show_nat.simps) (simp add: read_nat_def of_digit_char)
  qed
qed

lemma show_nat_inj: "show_nat m = show_nat n \<longleftrightarrow> m = n"
  by (metis read_show_nat)

lemma show_nat_digits: "c \<in> set (show_nat n) \<Longrightarrow> 48 \<le> (of_char c :: nat) \<and> of_char c < (58 :: nat)"
proof (induction n rule: show_nat.induct)
  case (1 n)
  then show ?case
    by (subst (asm) (2) show_nat.simps) (auto simp: of_digit_char split: if_splits)
qed

lemma show_nat_no_underscore: "CHR ''_'' \<notin> set (show_nat n)"
  using show_nat_digits[of "CHR ''_''" n] by auto

lemma underscored_Cons_split:
  assumes "show_nat m @ underscored ms = show_nat n @ underscored ns"
  shows "show_nat m = show_nat n" "underscored ms = underscored ns"
proof -
  have t: "takeWhile (\<lambda>c. c \<noteq> CHR ''_'') (show_nat k @ underscored ks) = show_nat k" for k ks
    using show_nat_no_underscore[of k] by (cases ks) (auto simp: underscored_def takeWhile_append)
  show "show_nat m = show_nat n" using t[of m ms] t[of n ns] assms by simp
  with assms show "underscored ms = underscored ns" by simp
qed

lemma underscored_inj: "underscored ms = underscored ns \<longleftrightarrow> ms = ns"
proof
  show "underscored ms = underscored ns \<Longrightarrow> ms = ns"
  proof (induction ms arbitrary: ns)
    case Nil
    then show ?case by (cases ns) (simp_all add: underscored_def)
  next
    case (Cons m ms)
    then obtain n ns' where ns: "ns = n # ns'" by (cases ns) (simp_all add: underscored_def)
    have "show_nat m @ underscored ms = show_nat n @ underscored ns'" using Cons.prems ns by (simp add: underscored_def)
    from underscored_Cons_split[OF this] Cons.IH show ?case by (auto simp: ns show_nat_inj)
  qed
qed simp

lemma key_text_inj: "key_text k = key_text k' \<longleftrightarrow> k = k'"
  by (cases k; cases k') (simp_all add: key_text_def underscored_inj)

subsection \<open>The identifier determines the hash\<close>

lemma length_le_bytes [simp]: "length (le_bytes k n) = k"
  by (induction k arbitrary: n) simp_all

lemma le_bytes_inj: "m < 256 ^ k \<Longrightarrow> n < 256 ^ k \<Longrightarrow> le_bytes k m = le_bytes k n \<Longrightarrow> m = n"
proof (induction k arbitrary: m n)
  case (Suc k)
  have "(of_nat (m mod 256) :: byte) = of_nat (n mod 256)" and d: "le_bytes k (m div 256) = le_bytes k (n div 256)"
    using Suc.prems(3) by simp_all
  then have "unat (of_nat (m mod 256) :: byte) = unat (of_nat (n mod 256) :: byte)" by simp
  then have "m mod 256 = n mod 256" by (simp add: unat_of_nat)
  moreover have "m div 256 = n div 256" by (rule Suc.IH[OF _ _ d]) (use Suc.prems(1,2) in \<open>simp_all add: less_mult_imp_div_less mult.commute\<close>)
  ultimately show ?case by (metis div_mult_mod_eq)
qed simp

lemma length_object_id_bytes: "length (object_id_bytes h) = 32"
  by (simp add: object_id_bytes_def)

lemma object_id_bytes_inj: "object_id_bytes h = object_id_bytes h' \<longleftrightarrow> h = h'"
proof
  assume "object_id_bytes h = object_id_bytes h'"
  then have "le_bytes 8 (unat h) = le_bytes 8 (unat h')" by (simp add: object_id_bytes_def)
  moreover have "unat x < 256 ^ 8" for x :: "64 word" using unsigned_less[of x] by simp
  ultimately show "h = h'" using le_bytes_inj[of "unat h" 8 "unat h'"] word_unat_eq_iff by blast
qed simp

lemma key_id_eq_iff:
  assumes "tpcc_laws A"
  shows "key_id A k = key_id A k' \<longleftrightarrow> tp_hash A (key_text k) = tp_hash A (key_text k')"
  unfolding key_id_def make_object_id_def
  using tpcc_lawsD(1)[OF assms length_object_id_bytes length_object_id_bytes] object_id_bytes_inj by metis


section \<open>Collections of identifiers\<close>

text \<open>The numbers \<^verbatim>\<open>1..=n as u32\<close>.\<close>

definition ids_to :: "nat \<Rightarrow> nat list" where
  "ids_to n = [1..<n mod 2 ^ 32 + 1]"

lemma set_ids_to [simp]: "n < 2 ^ 32 \<Longrightarrow> set (ids_to n) = {1..n}"
  by (auto simp: ids_to_def)

lemma length_ids_to [simp]: "length (ids_to n) = n mod 2 ^ 32"
  by (simp add: ids_to_def)

definition all_warehouse_ids :: "('o, 'b, 'w, 'm, 'c) tpcc_api \<Rightarrow> nat \<Rightarrow> 'o list" where
  "all_warehouse_ids A num_warehouses = map (object_id_for_warehouse A) (ids_to num_warehouses)"

definition all_district_ids :: "('o, 'b, 'w, 'm, 'c) tpcc_api \<Rightarrow> nat \<Rightarrow> 'o list" where
  "all_district_ids A num_warehouses =
     concat (map (\<lambda>w. map (object_id_for_district A w) (ids_to DISTRICTS_PER_WAREHOUSE)) (ids_to num_warehouses))"

definition all_customer_ids :: "('o, 'b, 'w, 'm, 'c) tpcc_api \<Rightarrow> nat \<Rightarrow> 'o list" where
  "all_customer_ids A num_warehouses =
     concat (map (\<lambda>w. concat (map (\<lambda>d. map (object_id_for_customer A w d) (ids_to CUSTOMERS_PER_DISTRICT))
       (ids_to DISTRICTS_PER_WAREHOUSE))) (ids_to num_warehouses))"

definition all_stock_ids :: "('o, 'b, 'w, 'm, 'c) tpcc_api \<Rightarrow> nat \<Rightarrow> 'o list" where
  "all_stock_ids A num_warehouses =
     concat (map (\<lambda>w. map (object_id_for_stock A w) (ids_to STOCK_PER_WAREHOUSE)) (ids_to num_warehouses))"

definition all_item_ids :: "('o, 'b, 'w, 'm, 'c) tpcc_api \<Rightarrow> 'o list" where
  "all_item_ids A = map (object_id_for_item A) (ids_to NUM_ITEMS)"

lemma length_concat_const: "(\<And>x. x \<in> set xs \<Longrightarrow> length (f x) = n) \<Longrightarrow> length (concat (map f xs)) = length xs * n"
  by (induction xs) auto

lemma all_ids_lengths:
  "length (all_warehouse_ids A n) = n mod 2 ^ 32" "length (all_district_ids A n) = n mod 2 ^ 32 * DISTRICTS_PER_WAREHOUSE"
  "length (all_customer_ids A n) = n mod 2 ^ 32 * (DISTRICTS_PER_WAREHOUSE * CUSTOMERS_PER_DISTRICT)"
  "length (all_stock_ids A n) = n mod 2 ^ 32 * STOCK_PER_WAREHOUSE" "length (all_item_ids A) = NUM_ITEMS"
  unfolding all_warehouse_ids_def all_district_ids_def all_customer_ids_def all_stock_ids_def all_item_ids_def
  by (subst length_concat_const | simp add: tpcc_constants)+


section \<open>Transactions\<close>

record order_item =
  oi_i_id :: nat
  oi_supply_w_id :: nat
  oi_quantity :: int

datatype tpcc_transaction =
    NewOrder nat nat nat "order_item list"
  | Payment nat nat nat nat nat int

fun tpcc_name :: "tpcc_transaction \<Rightarrow> string" where
  "tpcc_name (NewOrder w d c items) = ''NEW_ORDER''"
| "tpcc_name (Payment w d cw cd c h) = ''PAYMENT''"

fun read_set :: "('o, 'b, 'w, 'm, 'c) tpcc_api \<Rightarrow> tpcc_transaction \<Rightarrow> 'o list" where
  "read_set A (NewOrder w d c items) =
     [object_id_for_warehouse A w, object_id_for_district A w d, object_id_for_customer A w d c] @
     map (\<lambda>it. object_id_for_stock A (oi_supply_w_id it) (oi_i_id it)) items"
| "read_set A (Payment w d cw cd c h) =
     [object_id_for_warehouse A w, object_id_for_district A w d, object_id_for_customer A cw cd c]"

fun write_set :: "('o, 'b, 'w, 'm, 'c) tpcc_api \<Rightarrow> tpcc_transaction \<Rightarrow> 'o list" where
  "write_set A (NewOrder w d c items) =
     [object_id_for_district A w d] @ map (\<lambda>it. object_id_for_stock A (oi_supply_w_id it) (oi_i_id it)) items"
| "write_set A (Payment w d cw cd c h) =
     [object_id_for_warehouse A w, object_id_for_district A w d, object_id_for_customer A cw cd c]"

text \<open>\<^verbatim>\<open>retain\<close> with a set of the elements seen.\<close>

fun retain_unseen :: "'a set \<Rightarrow> 'a list \<Rightarrow> 'a list" where
  "retain_unseen seen [] = []"
| "retain_unseen seen (x # xs) = (if x \<in> seen then retain_unseen seen xs else x # retain_unseen (insert x seen) xs)"

definition access_set :: "('o, 'b, 'w, 'm, 'c) tpcc_api \<Rightarrow> tpcc_transaction \<Rightarrow> 'o list" where
  "access_set A t = retain_unseen {} (read_set A t @ write_set A t)"

lemma retain_unseen_props: "set (retain_unseen seen xs) = set xs - seen" "distinct (retain_unseen seen xs)"
  by (induction seen xs rule: retain_unseen.induct) auto

lemma write_set_read: "set (write_set A t) \<subseteq> set (read_set A t)"
  by (cases t) auto

lemma set_access_set: "set (access_set A t) = set (read_set A t)" "distinct (access_set A t)"
  using write_set_read[of A t] by (auto simp: access_set_def retain_unseen_props)

text \<open>The keys behind the access set.\<close>

fun access_keys :: "tpcc_transaction \<Rightarrow> tpcc_key set" where
  "access_keys (NewOrder w d c items) =
     {KWarehouse w, KDistrict w d, KCustomer w d c} \<union> (\<lambda>it. KStock (oi_supply_w_id it) (oi_i_id it)) ` set items"
| "access_keys (Payment w d cw cd c h) = {KWarehouse w, KDistrict w d, KCustomer cw cd c}"

fun item_keys :: "tpcc_transaction \<Rightarrow> tpcc_key set" where
  "item_keys (NewOrder w d c items) = (\<lambda>it. KItem (oi_i_id it)) ` set items"
| "item_keys (Payment w d cw cd c h) = {}"

lemma set_access_set_keys: "set (access_set A t) = key_id A ` access_keys t"
  by (cases t) (auto simp: set_access_set key_id_simps)


section \<open>Arithmetic of the order lines\<close>

text \<open>The stock entry of one order line.\<close>

definition update_stock :: "build \<Rightarrow> nat \<Rightarrow> order_item \<Rightarrow> stock \<Rightarrow> stock res" where
  "update_stock bd w order_item st =
     (let q = wrap_signed 32 (oi_quantity order_item) in
      and_then (fit_i32 bd (q + 10))
        (\<lambda>threshold. and_then (if s_quantity st \<ge> threshold then fit_i32 bd (s_quantity st - q)
                               else and_then (fit_i32 bd (91 - q)) (\<lambda>d. fit_i32 bd (s_quantity st + d)))
        (\<lambda>quantity. and_then (fit_u32 bd (s_ytd st + oi_quantity order_item))
        (\<lambda>ytd. and_then (fit_u32 bd (s_order_cnt st + 1))
        (\<lambda>order_cnt. and_then (if oi_supply_w_id order_item \<noteq> w then fit_u32 bd (s_remote_cnt st + 1) else Inr (s_remote_cnt st))
        (\<lambda>remote_cnt. Inr (st\<lparr>s_quantity := quantity, s_ytd := ytd, s_order_cnt := order_cnt, s_remote_cnt := remote_cnt\<rparr>)))))))"

text \<open>The total of the order; the code computes it and does not store it.\<close>

definition final_total_cents :: "build \<Rightarrow> int \<Rightarrow> int \<Rightarrow> int \<Rightarrow> int \<Rightarrow> int res" where
  "final_total_cents bd total_cents discount wtax dtax =
     and_then (fit_i128 bd (total_cents * (RATE_SCALE - discount)))
       (\<lambda>x. and_then (fit_i128 bd (x * (RATE_SCALE + wtax + dtax))) (\<lambda>y. Inr (y sdiv (RATE_SCALE * RATE_SCALE))))"

end
