(* ===== verification/Oneshot_Controller.thy ===== *)
theory Oneshot_Controller
  imports Prelude
begin

text \<open>
  The dependency controller of stateless verification
  (\<^verbatim>\<open>src/executor/oneshot_dependency_controller.rs\<close>): for every transaction digest, the half of a
  oneshot channel that the other side has not picked up yet.  A oneshot channel is its identity (the
  number of channels created before it); \<open>Sender\<close> and \<open>Receiver\<close> are that number, and an entry says
  which halves the map still owns.

  The locale \<open>handshake\<close> is the contract between the verifier, which asks for a sender, and the
  executing task, which asks for a receiver: they get the two halves of one channel in either order.
\<close>

type_synonym channel = nat
type_synonym oneshot_entry = "(channel option \<times> channel option) option"

record 'd odc =
  os_map :: "'d \<rightharpoonup> oneshot_entry"
  next_channel :: channel

definition odc_new :: "'d odc" where
  "odc_new = \<lparr>os_map = Map.empty, next_channel = 0\<rparr>"

definition has_entry_for_txn :: "'d odc \<Rightarrow> 'd \<Rightarrow> bool" where
  "has_entry_for_txn c txn_id = (os_map c txn_id \<noteq> None)"

definition set_remote_dependency :: "'d odc \<Rightarrow> 'd \<Rightarrow> 'd odc \<times> channel" where
  "set_remote_dependency c txn_id =
     (let ch = next_channel c in
      (c\<lparr>os_map := (os_map c)(txn_id \<mapsto> Some (None, Some ch)), next_channel := Suc ch\<rparr>, ch))"

definition set_local_dependency :: "'d odc \<Rightarrow> 'd \<Rightarrow> 'd odc \<times> channel" where
  "set_local_dependency c txn_id =
     (let fresh = (let ch = next_channel c in
                   (c\<lparr>os_map := (os_map c)(txn_id \<mapsto> Some (Some ch, None)), next_channel := Suc ch\<rparr>, ch))
      in case os_map c txn_id of
           Some (Some (rx_opt, Some tx)) \<Rightarrow> (c\<lparr>os_map := (os_map c)(txn_id \<mapsto> Some (rx_opt, None))\<rparr>, tx)
         | _ \<Rightarrow> fresh)"

definition get_dependency :: "'d odc \<Rightarrow> 'd \<Rightarrow> 'd odc \<times> channel option" where
  "get_dependency c txn_id =
     (case os_map c txn_id of
        Some (Some (rx_opt, tx_opt)) \<Rightarrow>
          (if tx_opt \<noteq> None then (c\<lparr>os_map := (os_map c)(txn_id \<mapsto> Some (None, tx_opt))\<rparr>, rx_opt)
           else (c\<lparr>os_map := (os_map c)(txn_id := None)\<rparr>, rx_opt))
      | Some None \<Rightarrow> (c, None)
      | None \<Rightarrow>
          (let ch = next_channel c in
           (c\<lparr>os_map := (os_map c)(txn_id \<mapsto> Some (None, Some ch)), next_channel := Suc ch\<rparr>, Some ch)))"

definition os_remove_dependency :: "'d odc \<Rightarrow> 'd \<Rightarrow> 'd odc" where
  "os_remove_dependency c txn_id = c\<lparr>os_map := (os_map c)(txn_id := None)\<rparr>"

definition take_signal :: "'d odc \<Rightarrow> 'd \<Rightarrow> 'd odc \<times> channel option" where
  "take_signal c txn_id =
     (case os_map c txn_id of
        Some (Some (rx_opt, tx_opt)) \<Rightarrow>
          (if rx_opt \<noteq> None then (c\<lparr>os_map := (os_map c)(txn_id \<mapsto> Some (rx_opt, None))\<rparr>, tx_opt)
           else (c\<lparr>os_map := (os_map c)(txn_id := None)\<rparr>, tx_opt))
      | Some None \<Rightarrow> (c, None)
      | None \<Rightarrow> (c, None))"


section \<open>The invariant\<close>

text \<open>
  No entry is empty-valued, every channel in the map was created before, no channel occurs in two
  entries, and the two halves of one channel are never both in the map: one of them is always out.
\<close>

definition entry_channels :: "oneshot_entry \<Rightarrow> channel set" where
  "entry_channels e = (case e of None \<Rightarrow> {} | Some (rx, tx) \<Rightarrow> set_option rx \<union> set_option tx)"

definition odc_wf :: "'d odc \<Rightarrow> bool" where
  "odc_wf c \<longleftrightarrow>
     (\<forall>d. os_map c d \<noteq> Some None) \<and>
     (\<forall>d rx tx. os_map c d = Some (Some (rx, tx)) \<longrightarrow> rx = None \<or> tx = None) \<and>
     (\<forall>d e. os_map c d = Some e \<longrightarrow> (\<forall>ch \<in> entry_channels e. ch < next_channel c)) \<and>
     (\<forall>d d' e e'. os_map c d = Some e \<longrightarrow> os_map c d' = Some e' \<longrightarrow>
        entry_channels e \<inter> entry_channels e' \<noteq> {} \<longrightarrow> d = d')"

lemma entry_channels_simps [simp]:
  "entry_channels None = {}" "entry_channels (Some (rx, tx)) = set_option rx \<union> set_option tx"
  by (simp_all add: entry_channels_def)

lemma odc_wf_new: "odc_wf odc_new"
  by (simp add: odc_wf_def odc_new_def)

lemma odc_wf_shrink:
  assumes "odc_wf c" "os_map c d = Some e" "entry_channels (Some (rx, tx)) \<subseteq> entry_channels e" "rx = None \<or> tx = None"
  shows "odc_wf (c\<lparr>os_map := (os_map c)(d \<mapsto> Some (rx, tx))\<rparr>)"
proof -
  have c: "\<And>d. os_map c d \<noteq> Some None"
    "\<And>d rx tx. os_map c d = Some (Some (rx, tx)) \<Longrightarrow> rx = None \<or> tx = None"
    "\<And>d e ch. os_map c d = Some e \<Longrightarrow> ch \<in> entry_channels e \<Longrightarrow> ch < next_channel c"
    "\<And>d d' e e'. os_map c d = Some e \<Longrightarrow> os_map c d' = Some e' \<Longrightarrow>
        entry_channels e \<inter> entry_channels e' \<noteq> {} \<Longrightarrow> d = d'"
    using assms(1) unfolding odc_wf_def by blast+
  show ?thesis
    unfolding odc_wf_def
  proof (intro conjI allI impI ballI, goal_cases)
    case (1 d') then show ?case using c(1) by simp
  next
    case (2 d' rx' tx') then show ?case using c(2)[of d' rx' tx'] assms(4) by (auto split: if_splits)
  next
    case (3 d' e' ch) then show ?case using c(3)[of d' e' ch] c(3)[OF assms(2), of ch] assms(3) by (auto split: if_splits)
  next
    case (4 d1 d2 e1 e2)
    have old: "\<exists>e'. os_map c d' = Some e' \<and> entry_channels e1' \<subseteq> entry_channels e'"
      if "((os_map c)(d \<mapsto> Some (rx, tx))) d' = Some e1'" for d' e1'
      using that assms(2,3) by (cases "d' = d") auto
    have "((os_map c)(d \<mapsto> Some (rx, tx))) d1 = Some e1" "((os_map c)(d \<mapsto> Some (rx, tx))) d2 = Some e2"
      using 4 by simp_all
    then obtain e1' e2' where "os_map c d1 = Some e1'" "entry_channels e1 \<subseteq> entry_channels e1'"
      "os_map c d2 = Some e2'" "entry_channels e2 \<subseteq> entry_channels e2'" using old by metis
    then show ?case using c(4)[of d1 e1' d2 e2'] 4(3) by blast
  qed
qed

lemma odc_wf_fresh:
  assumes "odc_wf c" "{rx, tx} = {None, Some (next_channel c)}"
  shows "odc_wf (c\<lparr>os_map := (os_map c)(d \<mapsto> Some (rx, tx)), next_channel := Suc (next_channel c)\<rparr>)"
proof -
  have c: "\<And>d. os_map c d \<noteq> Some None"
    "\<And>d rx tx. os_map c d = Some (Some (rx, tx)) \<Longrightarrow> rx = None \<or> tx = None"
    "\<And>d e ch. os_map c d = Some e \<Longrightarrow> ch \<in> entry_channels e \<Longrightarrow> ch < next_channel c"
    "\<And>d d' e e'. os_map c d = Some e \<Longrightarrow> os_map c d' = Some e' \<Longrightarrow>
        entry_channels e \<inter> entry_channels e' \<noteq> {} \<Longrightarrow> d = d'"
    using assms(1) unfolding odc_wf_def by blast+
  have new: "entry_channels (Some (rx, tx)) = {next_channel c}" "rx = None \<or> tx = None"
    using assms(2) by (auto simp: doubleton_eq_iff)
  have fresh: "os_map c d' = Some e \<Longrightarrow> next_channel c \<notin> entry_channels e" for d' e
    using c(3) by blast
  show ?thesis
    unfolding odc_wf_def
  proof (intro conjI allI impI ballI, goal_cases)
    case (1 d') then show ?case using c(1) by simp
  next
    case (2 d' rx' tx') then show ?case using c(2)[of d' rx' tx'] new(2) by (auto split: if_splits)
  next
    case (3 d' e' ch) then show ?case using c(3)[of d' e' ch] new(1) by (auto split: if_splits)
  next
    case (4 d1 d2 e1 e2)
    then show ?case using c(4)[of d1 e1 d2 e2] fresh[of d1 e1] fresh[of d2 e2] new(1)
      by (auto split: if_splits)
  qed
qed

lemma odc_wf_remove: "odc_wf c \<Longrightarrow> odc_wf (c\<lparr>os_map := (os_map c)(d := None)\<rparr>)"
  unfolding odc_wf_def by (auto split: if_splits)

lemma odc_wf_half:
  assumes "odc_wf c" "os_map c d = Some (Some (rx, tx))"
  shows "odc_wf (c\<lparr>os_map := (os_map c)(d \<mapsto> Some (rx, None))\<rparr>)" "odc_wf (c\<lparr>os_map := (os_map c)(d \<mapsto> Some (None, tx))\<rparr>)"
  using odc_wf_shrink[OF assms, of rx None] odc_wf_shrink[OF assms, of None tx] by simp_all

lemma odc_wf_set_local: "odc_wf c \<Longrightarrow> odc_wf (fst (set_local_dependency c d))"
  using odc_wf_fresh[of c "Some (next_channel c)" None d] odc_wf_half(1)[of c d]
  by (auto simp: set_local_dependency_def Let_def insert_commute split: option.splits)

lemma odc_wf_get: "odc_wf c \<Longrightarrow> odc_wf (fst (get_dependency c d))"
  using odc_wf_fresh[of c None "Some (next_channel c)" d] odc_wf_half(2)[of c d] odc_wf_remove[of c d]
  by (auto simp: get_dependency_def Let_def split: option.splits)

lemma odc_wf_take: "odc_wf c \<Longrightarrow> odc_wf (fst (take_signal c d))"
  using odc_wf_half(1)[of c d] odc_wf_remove[of c d]
  by (auto simp: take_signal_def split: option.splits)

lemma odc_wf_set_remote: "odc_wf c \<Longrightarrow> odc_wf (fst (set_remote_dependency c d))"
  using odc_wf_fresh[of c None "Some (next_channel c)"] by (simp add: set_remote_dependency_def Let_def)

lemma odc_wf_entries:
  assumes "odc_wf c"
  shows "os_map c d \<noteq> Some None"
    and "os_map c d = Some (Some (rx, tx)) \<Longrightarrow> rx = None \<or> tx = None"
    and "os_map c d = Some e \<Longrightarrow> ch \<in> entry_channels e \<Longrightarrow> ch < next_channel c"
    and "os_map c d = Some e \<Longrightarrow> os_map c d' = Some e' \<Longrightarrow> ch \<in> entry_channels e \<Longrightarrow> ch \<in> entry_channels e' \<Longrightarrow> d = d'"
  using assms unfolding odc_wf_def by blast+


section \<open>Every half is handed out once\<close>

text \<open>
  A run of the controller.  An operation hands out the sender or the receiver of a channel, or nothing;
  \<open>os_run\<close> collects the senders and the receivers that left the controller.
\<close>

datatype 'd os_op = SetRemote 'd | SetLocal 'd | GetDependency 'd | RemoveDependency 'd | TakeSignal 'd

fun os_perform :: "'d os_op \<Rightarrow> 'd odc \<Rightarrow> 'd odc \<times> channel list \<times> channel list" where
  "os_perform (SetRemote d) c = (let (c', rx) = set_remote_dependency c d in (c', [], [rx]))"
| "os_perform (SetLocal d) c = (let (c', tx) = set_local_dependency c d in (c', [tx], []))"
| "os_perform (GetDependency d) c = (let (c', rx) = get_dependency c d in (c', [], case rx of None \<Rightarrow> [] | Some ch \<Rightarrow> [ch]))"
| "os_perform (RemoveDependency d) c = (os_remove_dependency c d, [], [])"
| "os_perform (TakeSignal d) c = (let (c', tx) = take_signal c d in (c', case tx of None \<Rightarrow> [] | Some ch \<Rightarrow> [ch], []))"

fun os_run :: "'d os_op list \<Rightarrow> 'd odc \<times> channel list \<times> channel list \<Rightarrow> 'd odc \<times> channel list \<times> channel list" where
  "os_run [] st = st"
| "os_run (x # ops) (c, senders, receivers) =
     (let (c', tx, rx) = os_perform x c in os_run ops (c', senders @ tx, receivers @ rx))"

definition stored_senders :: "'d odc \<Rightarrow> channel set" where
  "stored_senders c = {ch. \<exists>d rx. os_map c d = Some (Some (rx, Some ch))}"

definition stored_receivers :: "'d odc \<Rightarrow> channel set" where
  "stored_receivers c = {ch. \<exists>d tx. os_map c d = Some (Some (Some ch, tx))}"

definition halves_owned :: "'d odc \<Rightarrow> channel list \<Rightarrow> channel list \<Rightarrow> bool" where
  "halves_owned c senders receivers \<longleftrightarrow>
     odc_wf c \<and> distinct senders \<and> distinct receivers \<and> set senders \<union> set receivers \<subseteq> {..<next_channel c} \<and>
     stored_senders c \<inter> set senders = {} \<and> stored_receivers c \<inter> set receivers = {}"

lemmas stored_defs = stored_senders_def stored_receivers_def

lemma stored_bounded:
  assumes "odc_wf c"
  shows "stored_senders c \<subseteq> {..<next_channel c}" "stored_receivers c \<subseteq> {..<next_channel c}"
  using odc_wf_entries(3)[OF assms] by (fastforce simp: stored_defs)+

lemma stored_mono:
  "e = None \<or> e = Some (Some (rx, tx)) \<Longrightarrow>
     stored_senders (c\<lparr>os_map := (os_map c)(d := e)\<rparr>) \<subseteq> stored_senders c \<union> set_option tx \<and>
     stored_receivers (c\<lparr>os_map := (os_map c)(d := e)\<rparr>) \<subseteq> stored_receivers c \<union> set_option rx"
  by (auto simp: stored_defs split: if_splits)

lemma stored_next [simp]:
  "stored_senders (c\<lparr>next_channel := n\<rparr>) = stored_senders c" "stored_receivers (c\<lparr>next_channel := n\<rparr>) = stored_receivers c"
  by (simp_all add: stored_defs)

lemma stored_given:
  assumes "odc_wf c" "os_map c d = Some (Some (rx, tx))"
  shows "e = None \<or> e = Some (Some (rx', None)) \<Longrightarrow> stored_senders (c\<lparr>os_map := (os_map c)(d := e)\<rparr>) \<inter> set_option tx = {}"
    and "e = None \<or> e = Some (Some (None, tx')) \<Longrightarrow> stored_receivers (c\<lparr>os_map := (os_map c)(d := e)\<rparr>) \<inter> set_option rx = {}"
  using odc_wf_entries(4)[OF assms] by (fastforce simp: stored_defs split: if_splits)+

text \<open>
  What a step may do: create the next channel, keep one half and hand out the other; or give away
  stored halves, which are then no longer stored.
\<close>

lemma halves_owned_fresh:
  assumes h: "halves_owned c S R"
    and step: "(rx, tx, S', R') = (None, Some (next_channel c), [], [next_channel c]) \<or>
               (rx, tx, S', R') = (Some (next_channel c), None, [next_channel c], [])"
  shows "halves_owned (c\<lparr>os_map := (os_map c)(d \<mapsto> Some (rx, tx)), next_channel := Suc (next_channel c)\<rparr>) (S @ S') (R @ R')"
proof -
  have wf: "odc_wf c" using h by (simp add: halves_owned_def)
  have "odc_wf (c\<lparr>os_map := (os_map c)(d \<mapsto> Some (rx, tx)), next_channel := Suc (next_channel c)\<rparr>)"
    using wf step by (intro odc_wf_fresh) auto
  then show ?thesis
    using h step stored_bounded[OF wf] stored_mono[of "Some (Some (rx, tx))" rx tx c d] unfolding halves_owned_def
    by (auto simp: less_Suc_eq subset_iff)
qed

lemma halves_owned_give:
  assumes h: "halves_owned c S R" and wf': "odc_wf c'" and n: "next_channel c' = next_channel c"
    and tx: "set tx \<subseteq> stored_senders c" "stored_senders c' \<subseteq> stored_senders c - set tx" "distinct tx"
    and rx: "set rx \<subseteq> stored_receivers c" "stored_receivers c' \<subseteq> stored_receivers c - set rx" "distinct rx"
  shows "halves_owned c' (S @ tx) (R @ rx)"
proof -
  have "odc_wf c" using h by (simp add: halves_owned_def)
  from stored_bounded[OF this] show ?thesis
    using h wf' n tx rx unfolding halves_owned_def by (simp add: subset_iff Int_commute) blast
qed

text \<open>Handing out the sender or the receiver of an entry.\<close>

lemma halves_owned_give_entry:
  assumes h: "halves_owned c S R" and e: "os_map c d = Some (Some (rx, tx))" and wf': "odc_wf (c\<lparr>os_map := (os_map c)(d := e)\<rparr>)"
  shows "e = None \<or> e = Some (Some (rx, None)) \<Longrightarrow>
           halves_owned (c\<lparr>os_map := (os_map c)(d := e)\<rparr>) (S @ (case tx of None \<Rightarrow> [] | Some ch \<Rightarrow> [ch])) R"
    and "e = None \<or> e = Some (Some (None, tx)) \<Longrightarrow>
           halves_owned (c\<lparr>os_map := (os_map c)(d := e)\<rparr>) S (R @ (case rx of None \<Rightarrow> [] | Some ch \<Rightarrow> [ch]))"
proof -
  let ?c = "c\<lparr>os_map := (os_map c)(d := e)\<rparr>"
  have wf: "odc_wf c" using h by (simp add: halves_owned_def)
  have stored: "set_option tx \<subseteq> stored_senders c" "set_option rx \<subseteq> stored_receivers c" using e by (auto simp: stored_defs)
  have sub: "stored_senders ?c \<subseteq> stored_senders c \<and> stored_receivers ?c \<subseteq> stored_receivers c"
    if "e = None \<or> e = Some (Some (rx'', tx''))" "set_option tx'' \<subseteq> set_option tx" "set_option rx'' \<subseteq> set_option rx" for rx'' tx''
    using stored_mono[OF that(1), of c d] stored that(2,3) by blast
  have list: "set (case x of None \<Rightarrow> [] | Some ch \<Rightarrow> [ch]) = set_option x" "distinct (case x of None \<Rightarrow> [] | Some ch \<Rightarrow> [ch])" for x :: "channel option"
    by (cases x; simp)+
  show "halves_owned ?c (S @ (case tx of None \<Rightarrow> [] | Some ch \<Rightarrow> [ch])) R" if e': "e = None \<or> e = Some (Some (rx, None))"
    using halves_owned_give[OF h wf', of "case tx of None \<Rightarrow> [] | Some ch \<Rightarrow> [ch]" "[]"] stored(1) sub[OF e'] stored_given(1)[OF wf e e']
    by (simp add: list) blast
  show "halves_owned ?c S (R @ (case rx of None \<Rightarrow> [] | Some ch \<Rightarrow> [ch]))" if e': "e = None \<or> e = Some (Some (None, tx))"
    using halves_owned_give[OF h wf', of "[]" "case rx of None \<Rightarrow> [] | Some ch \<Rightarrow> [ch]"] stored(2) sub[OF e'] stored_given(2)[OF wf e e']
    by (simp add: list) blast
qed

lemma halves_owned_perform:
  assumes h: "halves_owned c S R" and x: "os_perform x c = (c', tx, rx)"
  shows "halves_owned c' (S @ tx) (R @ rx)"
proof -
  have wf: "odc_wf c" using h by (simp add: halves_owned_def)
  note fresh = halves_owned_fresh[OF h, of "Some (next_channel c)" None "[next_channel c]" "[]"]
    halves_owned_fresh[OF h, of None "Some (next_channel c)" "[]" "[next_channel c]"]
  show ?thesis
  proof (cases x)
    case (SetRemote d)
    then show ?thesis using x fresh(2)[of d] by (auto simp: set_remote_dependency_def Let_def)
  next
    case (SetLocal d)
    then show ?thesis
      using x fresh(1)[of d] halves_owned_give_entry(1)[OF h, of d] odc_wf_half(1)[OF wf, of d] odc_wf_entries(2)[OF wf, of d]
      by (fastforce simp: set_local_dependency_def Let_def split: option.splits)
  next
    case (GetDependency d)
    then show ?thesis
      using x fresh(2)[of d] halves_owned_give_entry(2)[OF h, of d] odc_wf_half(2)[OF wf, of d] odc_wf_entries(1)[OF wf, of d] odc_wf_remove[OF wf, of d]
      by (fastforce simp: get_dependency_def Let_def split: option.splits if_splits)
  next
    case (RemoveDependency d)
    then show ?thesis
      using x halves_owned_give[OF h odc_wf_remove[OF wf, of d], of "[]" "[]"] stored_mono[of None None None c d]
      by (auto simp: os_remove_dependency_def)
  next
    case (TakeSignal d)
    then show ?thesis
      using x h halves_owned_give_entry(1)[OF h, of d] odc_wf_half(1)[OF wf, of d] odc_wf_remove[OF wf, of d]
      by (fastforce simp: take_signal_def split: option.splits if_splits)
  qed
qed

lemma halves_owned_run:
  "halves_owned c S R \<Longrightarrow> os_run ops (c, S, R) = (c', S', R') \<Longrightarrow> halves_owned c' S' R'"
proof (induction ops arbitrary: c S R)
  case (Cons x ops)
  obtain c1 tx rx where x: "os_perform x c = (c1, tx, rx)" by (cases "os_perform x c")
  show ?case using Cons.IH[OF halves_owned_perform[OF Cons.prems(1) x]] Cons.prems(2) x by simp
qed simp

text \<open>
  C17. Invariant of the oneshot controller, over every sequence of operations: the controller stays well formed (no
  entry is empty-valued, no channel belongs to two transactions, no entry holds both halves of a channel), and neither the sender
  nor the receiver of any channel is ever handed out twice.
\<close>

theorem oneshot_controller_invariant:
  "case os_run ops (odc_new, [], []) of (c, senders, receivers) \<Rightarrow> odc_wf c \<and> distinct senders \<and> distinct receivers"
proof -
  have "halves_owned (odc_new :: 'a odc) [] []" using odc_wf_new by (simp add: halves_owned_def stored_defs odc_new_def)
  from halves_owned_run[OF this, of ops] show ?thesis by (auto simp: halves_owned_def split: prod.splits)
qed


section \<open>The handshake\<close>

locale handshake =
  fixes wf :: "'s \<Rightarrow> bool"
    and vacant :: "'s \<Rightarrow> 'k \<Rightarrow> bool"
    and announce :: "'s \<Rightarrow> 'k \<Rightarrow> 's \<times> 'c"
    and request :: "'s \<Rightarrow> 'k \<Rightarrow> 's \<times> 'c option"
    and entry_at :: "'s \<Rightarrow> 'k \<Rightarrow> 'e"
  assumes announce_first: "wf s \<Longrightarrow> vacant s k \<Longrightarrow> wf t \<Longrightarrow>
        entry_at t k = entry_at (fst (announce s k)) k \<Longrightarrow> snd (request t k) = Some (snd (announce s k))"
    and request_first: "wf s \<Longrightarrow> vacant s k \<Longrightarrow> wf t \<Longrightarrow>
        entry_at t k = entry_at (fst (request s k)) k \<Longrightarrow> Some (snd (announce t k)) = snd (request s k)"
    and keeps_wf: "wf s \<Longrightarrow> wf (fst (announce s k)) \<and> wf (fst (request s k))"
    and frame: "k' \<noteq> k \<Longrightarrow> entry_at (fst (announce s k)) k' = entry_at s k' \<and> entry_at (fst (request s k)) k' = entry_at s k'"
begin

text \<open>Operations on other keys between the two sides change nothing.\<close>

lemma frame_any:
  assumes "wf s" "k' \<noteq> k" "t \<in> {fst (announce s k), fst (request s k)}"
  shows "wf t \<and> entry_at t k' = entry_at s k'"
  using assms keeps_wf frame by auto

lemma handshake_any_order:
  assumes "wf s" "vacant s k" "wf t"
  shows "entry_at t k = entry_at (fst (announce s k)) k \<Longrightarrow> snd (request t k) = Some (snd (announce s k))"
    and "entry_at t k = entry_at (fst (request s k)) k \<Longrightarrow> Some (snd (announce t k)) = snd (request s k)"
  using announce_first[OF assms] request_first[OF assms] by blast+

end

definition os_vacant :: "'d odc \<Rightarrow> 'd \<Rightarrow> bool" where
  "os_vacant c d = (os_map c d = None)"

interpretation os: handshake odc_wf os_vacant set_local_dependency get_dependency os_map
proof (unfold_locales, goal_cases)
  case (1 s k t)
  then show ?case by (auto simp: os_vacant_def set_local_dependency_def get_dependency_def Let_def)
next
  case (2 s k t)
  then show ?case by (auto simp: os_vacant_def set_local_dependency_def get_dependency_def Let_def)
next
  case (3 s k)
  then show ?case by (intro conjI odc_wf_set_local odc_wf_get)
next
  case (4 k' k s)
  then show ?case
    by (auto simp: set_local_dependency_def get_dependency_def Let_def split: option.splits)
qed

text \<open>A run of registrations by verifiers (\<open>True\<close>) and by executing tasks (\<open>False\<close>).\<close>

fun registrations :: "(bool \<times> 'd) list \<Rightarrow> 'd odc \<Rightarrow> 'd odc" where
  "registrations [] c = c"
| "registrations ((b, d) # ops) c =
     registrations ops (if b then fst (set_local_dependency c d) else fst (get_dependency c d))"

lemma registrations_frame:
  "odc_wf c \<Longrightarrow> d \<notin> snd ` set ops \<Longrightarrow> odc_wf (registrations ops c) \<and> os_map (registrations ops c) d = os_map c d"
proof (induction ops c rule: registrations.induct)
  case (2 b d' ops c)
  then have "odc_wf (if b then fst (set_local_dependency c d') else fst (get_dependency c d')) \<and>
      os_map (if b then fst (set_local_dependency c d') else fst (get_dependency c d')) d = os_map c d"
    by (intro os.frame_any[of c d d']) auto
  with 2 show ?case by simp
qed simp



text \<open>The remote side: the sender stored for a remote result is handed out exactly once.\<close>

lemma remote_signal_once:
  assumes "set_remote_dependency c d = (c1, rx)"
  shows "take_signal c1 d = (c1\<lparr>os_map := (os_map c1)(d := None)\<rparr>, Some rx)"
    and "snd (take_signal (fst (take_signal c1 d)) d) = None"
  using assms by (auto simp: set_remote_dependency_def take_signal_def Let_def)

end
