(* ===== verification/Versioned_Controller.thy ===== *)
theory Versioned_Controller
  imports Prelude
begin

text \<open>
  The versioned dependency controller (\<^verbatim>\<open>src/executor/versioned_dependency_controller.rs\<close>).

  The concurrent map \<^verbatim>\<open>obj_task_map\<close> becomes a partial map from (object, version) to an
  optional (task id, notify handle).  A \<^verbatim>\<open>DashMap\<close> entry operation is atomic, so each of them is
  one pure function of the controller state.  An \<^verbatim>\<open>Arc<Notify>\<close> is its identity: the number of
  allocations made before it, which \<open>next_notify\<close> counts.  The permit inside the \<^verbatim>\<open>Notify\<close> is not
  touched by the controller and is modelled where it is used.

  The interface that the clients rely on is the locale \<open>rendezvous\<close>: a key is given the same
  handle to everybody who asks for it until it is dropped, different keys never share a handle,
  and a handle is never given out twice.
\<close>


section \<open>The controller\<close>

type_synonym task_id = nat
type_synonym notify_handle = nat
type_synonym task_entry = "(task_id \<times> notify_handle) option"

record 'o vdc =
  obj_task_map :: "('o \<times> version) \<rightharpoonup> task_entry"
  initial_version :: version
  next_notify :: notify_handle

definition vdc_new :: "'o vdc" where
  "vdc_new = \<lparr>obj_task_map = Map.empty, initial_version = 2, next_notify = 0\<rparr>"

definition has_task_for_object :: "'o vdc \<Rightarrow> 'o \<Rightarrow> version \<Rightarrow> bool" where
  "has_task_for_object c obj_id seq_num = (obj_task_map c (obj_id, seq_num) \<noteq> None)"

definition entry_helper :: "'o vdc \<Rightarrow> 'o \<Rightarrow> version \<Rightarrow> task_id \<Rightarrow> ('o vdc \<times> notify_handle) res" where
  "entry_helper c obj_id seq_num task_id =
     (case obj_task_map c (obj_id, seq_num) of
        Some entry \<Rightarrow>
          and_then (unwrap ''called unwrap on a None value'' entry) (\<lambda>th. Inr (c, snd th))
      | None \<Rightarrow>
          (let notify = next_notify c in
           Inr (c\<lparr>obj_task_map := (obj_task_map c)((obj_id, seq_num) \<mapsto> Some (task_id, notify)),
                  next_notify := Suc notify\<rparr>,
                notify)))"

fun iter_max :: "version list \<Rightarrow> version option" where
  "iter_max [] = None"
| "iter_max (v # vs) = Some (fold max vs v)"

definition calculate_next_version :: "(version \<Rightarrow> version) \<Rightarrow> ('o \<times> version) list \<Rightarrow> version res" where
  "calculate_next_version nxt obj_versions =
     and_then (unwrap ''No max key found, obj_versions is empty'' (iter_max (map snd obj_versions)))
       (\<lambda>m. Inr (nxt m))"

fun dependency_loop ::
  "task_id \<Rightarrow> version \<Rightarrow> bool \<Rightarrow> bool \<Rightarrow> ('o \<times> version) list \<Rightarrow>
   'o vdc \<times> notify_handle list \<times> notify_handle list \<Rightarrow>
   ('o vdc \<times> notify_handle list \<times> notify_handle list) res" where
  "dependency_loop task_id next_v ignore_prior ignore_next [] st = Inr st"
| "dependency_loop task_id next_v ignore_prior ignore_next ((obj_id, seq_num) # rest) (c, current, nexts) =
     and_then
       (if seq_num > initial_version c \<and> \<not> ignore_prior
        then and_then (entry_helper c obj_id seq_num task_id) (\<lambda>(c', h). Inr (c', current @ [h]))
        else Inr (c, current))
       (\<lambda>(c1, current1).
          and_then
            (if \<not> ignore_next
             then and_then (entry_helper c1 obj_id next_v task_id) (\<lambda>(c', h). Inr (c', nexts @ [h]))
             else Inr (c1, nexts))
            (\<lambda>(c2, nexts1).
               dependency_loop task_id next_v ignore_prior ignore_next rest (c2, current1, nexts1)))"

definition get_prior_dependency_and_update ::
  "(version \<Rightarrow> version) \<Rightarrow> 'o vdc \<Rightarrow> task_id \<Rightarrow> ('o \<times> version) list \<Rightarrow> bool \<Rightarrow> bool \<Rightarrow>
   ('o vdc \<times> notify_handle list \<times> notify_handle list) res" where
  "get_prior_dependency_and_update nxt c task_id obj_versions ignore_prior ignore_next =
     and_then (calculate_next_version nxt obj_versions)
       (\<lambda>next_v. dependency_loop task_id next_v ignore_prior ignore_next obj_versions (c, [], []))"

fun remove_dependency :: "'o vdc \<Rightarrow> ('o \<times> version) list \<Rightarrow> 'o vdc" where
  "remove_dependency c [] = c"
| "remove_dependency c (k # ks) =
     remove_dependency (c\<lparr>obj_task_map := (obj_task_map c)(k := None)\<rparr>) ks"


section \<open>The interface: handles by key\<close>

locale rendezvous =
  fixes wf :: "'s \<Rightarrow> bool"
    and slot :: "'s \<Rightarrow> 'k \<Rightarrow> 'h option"
    and issued :: "'s \<Rightarrow> 'h set"
    and enter :: "'s \<Rightarrow> 'k \<Rightarrow> ('s \<times> 'h) res"
    and drop_key :: "'s \<Rightarrow> 'k \<Rightarrow> 's"
  assumes enter_hit: "wf s \<Longrightarrow> slot s k = Some h \<Longrightarrow> enter s k = Inr (s, h)"
    and enter_miss: "wf s \<Longrightarrow> slot s k = None \<Longrightarrow>
          \<exists>s' h. enter s k = Inr (s', h) \<and> wf s' \<and> h \<notin> issued s \<and>
                 slot s' = (slot s)(k \<mapsto> h) \<and> issued s' = insert h (issued s)"
    and slot_issued: "wf s \<Longrightarrow> slot s k = Some h \<Longrightarrow> h \<in> issued s"
    and slot_inj: "wf s \<Longrightarrow> slot s k = Some h \<Longrightarrow> slot s l = Some h \<Longrightarrow> k = l"
    and drop_slot: "wf s \<Longrightarrow> slot (drop_key s k) = (slot s)(k := None)"
    and drop_wf: "wf s \<Longrightarrow> wf (drop_key s k)"
    and drop_issued: "wf s \<Longrightarrow> issued (drop_key s k) = issued s"
begin

lemma enter_total:
  assumes "wf s"
  obtains s' h where "enter s k = Inr (s', h)"
  using assms enter_hit enter_miss by (cases "slot s k") fastforce+

lemma enter_props:
  assumes "wf s" "enter s k = Inr (s', h)"
  shows "wf s'" and "slot s' = (slot s)(k \<mapsto> h)" and "issued s \<subseteq> issued s'"
    and "slot s k = None \<Longrightarrow> h \<notin> issued s" and "slot s k = Some h' \<Longrightarrow> h = h' \<and> s' = s"
    and "issued s' = insert h (issued s)"
proof -
  consider (hit) x where "slot s k = Some x" | (miss) "slot s k = None" by (cases "slot s k") auto
  then have "wf s' \<and> slot s' = (slot s)(k \<mapsto> h) \<and> issued s' = insert h (issued s) \<and>
             (slot s k = None \<longrightarrow> h \<notin> issued s) \<and> (\<forall>h'. slot s k = Some h' \<longrightarrow> h = h' \<and> s' = s)"
  proof cases
    case hit
    with assms have "s' = s" "h = x" using enter_hit by fastforce+
    with hit assms show ?thesis using slot_issued by auto
  next
    case miss
    with assms show ?thesis using enter_miss[of s k] by auto
  qed
  then show "wf s'" "slot s' = (slot s)(k \<mapsto> h)" "issued s \<subseteq> issued s'"
    "slot s k = None \<Longrightarrow> h \<notin> issued s" "slot s k = Some h' \<Longrightarrow> h = h' \<and> s' = s"
    "issued s' = insert h (issued s)"
    by auto
qed

lemma enter_extends:
  "wf s \<Longrightarrow> enter s k = Inr (s', h) \<Longrightarrow> slot s \<subseteq>\<^sub>m slot s'"
  using enter_props(2,5) by (fastforce simp: map_le_def)

text \<open>Whoever enters a key second gets the handle of whoever entered it first.\<close>

lemma enter_again:
  assumes "wf s" "enter s k = Inr (s', h)" "wf t" "slot s' \<subseteq>\<^sub>m slot t"
  shows "enter t k = Inr (t, h)"
proof -
  have "slot s' k = Some h" using enter_props(2)[OF assms(1,2)] by simp
  then have "slot t k = Some h" using assms(4) by (auto simp: map_le_def dom_def)
  then show ?thesis using assms(3) enter_hit by blast
qed

end


section \<open>The controller implements the interface\<close>

definition vdc_wf :: "'o vdc \<Rightarrow> bool" where
  "vdc_wf c \<longleftrightarrow>
     (\<forall>k. obj_task_map c k \<noteq> Some None) \<and>
     (\<forall>k t h. obj_task_map c k = Some (Some (t, h)) \<longrightarrow> h < next_notify c) \<and>
     (\<forall>k l t u h. obj_task_map c k = Some (Some (t, h)) \<and> obj_task_map c l = Some (Some (u, h)) \<longrightarrow> k = l)"

definition handle_of :: "'o vdc \<Rightarrow> ('o \<times> version) \<Rightarrow> notify_handle option" where
  "handle_of c k = (case obj_task_map c k of Some (Some (t, h)) \<Rightarrow> Some h | _ \<Rightarrow> None)"

definition handles_issued :: "'o vdc \<Rightarrow> notify_handle set" where
  "handles_issued c = {h. h < next_notify c}"

definition enter_key :: "task_id \<Rightarrow> 'o vdc \<Rightarrow> ('o \<times> version) \<Rightarrow> ('o vdc \<times> notify_handle) res" where
  "enter_key tid c k = entry_helper c (fst k) (snd k) tid"

definition remove_key :: "'o vdc \<Rightarrow> ('o \<times> version) \<Rightarrow> 'o vdc" where
  "remove_key c k = remove_dependency c [k]"

lemma handle_of_eq_Some:
  "handle_of c k = Some h \<longleftrightarrow> (\<exists>t. obj_task_map c k = Some (Some (t, h)))"
  by (auto simp: handle_of_def split: option.splits)

lemma vdc_wfD:
  assumes "vdc_wf c"
  shows "obj_task_map c k \<noteq> Some None"
    and "obj_task_map c k = Some (Some (t, h)) \<Longrightarrow> h < next_notify c"
    and "obj_task_map c k = Some (Some (t, h)) \<Longrightarrow> obj_task_map c l = Some (Some (u, h)) \<Longrightarrow> k = l"
  using assms unfolding vdc_wf_def by blast+

lemma handle_of_eq_None:
  "vdc_wf c \<Longrightarrow> handle_of c k = None \<longleftrightarrow> obj_task_map c k = None"
  by (auto simp: handle_of_def vdc_wfD(1) split: option.splits)

lemma vdc_wf_new [simp]: "vdc_wf vdc_new"
  by (simp add: vdc_wf_def vdc_new_def)

lemma handle_of_new [simp]: "handle_of vdc_new k = None"
  by (simp add: handle_of_def vdc_new_def)

lemma entry_helper_initial_version:
  "entry_helper c o' v tid = Inr (c', h) \<Longrightarrow> initial_version c' = initial_version c"
  by (auto simp: entry_helper_def and_then_eq_Inr Let_def split: option.splits)

lemma entry_helper_hit:
  "handle_of c (o', v) = Some h \<Longrightarrow> entry_helper c o' v tid = Inr (c, h)"
  by (auto simp: handle_of_eq_Some entry_helper_def)

lemma entry_helper_miss:
  assumes wf: "vdc_wf c" and none: "handle_of c (o', v) = None"
  shows "\<exists>c'. entry_helper c o' v tid = Inr (c', next_notify c) \<and> vdc_wf c' \<and>
            next_notify c' = Suc (next_notify c) \<and>
            handle_of c' = (handle_of c)((o', v) \<mapsto> next_notify c)"
proof -
  let ?c' = "c\<lparr>obj_task_map := (obj_task_map c)((o', v) \<mapsto> Some (tid, next_notify c)),
              next_notify := Suc (next_notify c)\<rparr>"
  have fresh: "obj_task_map c (o', v) = None"
    using wf none handle_of_eq_None by blast
  have lt: "obj_task_map c k = Some (Some (t, h)) \<Longrightarrow> h < next_notify c" for k t h
    using wf by (rule vdc_wfD(2))
  have "vdc_wf ?c'"
    using wf lt by (auto simp: vdc_wf_def less_Suc_eq)
  moreover have "handle_of ?c' = (handle_of c)((o', v) \<mapsto> next_notify c)"
    by (rule ext) (simp add: handle_of_def)
  moreover have "entry_helper c o' v tid = Inr (?c', next_notify c)"
    by (simp add: entry_helper_def fresh Let_def)
  ultimately show ?thesis by (intro exI[of _ ?c']) simp
qed

interpretation vc: rendezvous vdc_wf handle_of handles_issued "enter_key tid" remove_key
proof (unfold_locales, goal_cases)
  case (1 s k h)
  then show ?case by (cases k) (simp add: enter_key_def entry_helper_hit)
next
  case (2 s k)
  then show ?case
    using entry_helper_miss[of s "fst k" "snd k" tid]
    by (auto simp: enter_key_def handles_issued_def less_Suc_eq)
next
  case (3 s k h)
  then show ?case by (auto simp: handle_of_eq_Some handles_issued_def dest: vdc_wfD(2))
next
  case (4 s k h l)
  then show ?case unfolding vdc_wf_def handle_of_eq_Some by blast
next
  case (5 s k)
  then show ?case by (auto simp: remove_key_def handle_of_def)
next
  case (6 s k)
  then show ?case by (auto simp: remove_key_def vdc_wf_def)
next
  case (7 s k)
  then show ?case by (auto simp: remove_key_def handles_issued_def)
qed


section \<open>What a call returns\<close>

text \<open>The keys whose handles a call returns: the versions awaited and the versions produced.\<close>

definition prior_keys :: "version \<Rightarrow> bool \<Rightarrow> ('o \<times> version) list \<Rightarrow> ('o \<times> version) list" where
  "prior_keys init ignore_prior xs = (if ignore_prior then [] else filter (\<lambda>k. snd k > init) xs)"

definition next_keys :: "version \<Rightarrow> bool \<Rightarrow> ('o \<times> version) list \<Rightarrow> ('o \<times> version) list" where
  "next_keys next_v ignore_next xs = (if ignore_next then [] else map (\<lambda>k. (fst k, next_v)) xs)"

definition next_version :: "(version \<Rightarrow> version) \<Rightarrow> ('o \<times> version) list \<Rightarrow> version" where
  "next_version nxt xs = nxt (Max (set (map snd xs)))"

lemma iter_max_Max: "vs \<noteq> [] \<Longrightarrow> iter_max vs = Some (Max (set vs))"
  by (cases vs) (simp_all add: fold_max_Max)

lemma calculate_next_version_eq:
  "calculate_next_version nxt xs =
     (if xs = [] then Inl (Panic ''No max key found, obj_versions is empty'')
      else Inr (next_version nxt xs))"
  by (simp add: calculate_next_version_def iter_max_Max next_version_def)

lemma next_version_greater:
  assumes "\<forall>v. v < nxt v" "(o', v) \<in> set xs"
  shows "v < next_version nxt xs"
proof -
  have "v \<le> Max (set (map snd xs))" using assms(2) by (intro Max_ge) force+
  then show ?thesis using assms(1) unfolding next_version_def by (meson le_less_trans)
qed

lemma handle_of_le:
  "handle_of c \<subseteq>\<^sub>m handle_of d \<Longrightarrow> handle_of c k = Some h \<Longrightarrow> handle_of d k = Some h"
  by (metis domI map_le_def)

lemma entry_helper_spec:
  assumes "vdc_wf c"
  obtains c' h where "entry_helper c o' v tid = Inr (c', h)" "vdc_wf c'"
    "handle_of c' = (handle_of c)((o', v) \<mapsto> h)" "handle_of c \<subseteq>\<^sub>m handle_of c'"
    "initial_version c' = initial_version c"
proof -
  obtain c' h where e: "enter_key tid c (o', v) = Inr (c', h)"
    using vc.enter_total[OF assms] by blast
  then have "entry_helper c o' v tid = Inr (c', h)" by (simp add: enter_key_def)
  moreover have "vdc_wf c'" "handle_of c' = (handle_of c)((o', v) \<mapsto> h)"
    using vc.enter_props[OF assms e] by auto
  moreover have "handle_of c \<subseteq>\<^sub>m handle_of c'"
    using vc.enter_extends[OF assms e] .
  ultimately show thesis using entry_helper_initial_version by (intro that)
qed

lemma dependency_loop_spec:
  assumes "vdc_wf c"
  shows "\<exists>c'. dependency_loop tid next_v ip ig xs (c, cur, nx) =
            Inr (c', cur @ map (the \<circ> handle_of c') (prior_keys (initial_version c) ip xs),
                     nx @ map (the \<circ> handle_of c') (next_keys next_v ig xs)) \<and>
          vdc_wf c' \<and> handle_of c \<subseteq>\<^sub>m handle_of c' \<and>
          initial_version c' = initial_version c \<and>
          dom (handle_of c') = dom (handle_of c) \<union>
            set (prior_keys (initial_version c) ip xs) \<union> set (next_keys next_v ig xs)"
  using assms
proof (induction xs arbitrary: c cur nx)
  case Nil
  then show ?case by (simp add: prior_keys_def next_keys_def)
next
  case (Cons x xs)
  obtain o' v where x: "x = (o', v)" by (cases x)
  let ?p = "v > initial_version c \<and> \<not> ip"
  obtain c1 h1 where 1: "entry_helper c o' v tid = Inr (c1, h1)" "vdc_wf c1"
    "handle_of c1 = (handle_of c)((o', v) \<mapsto> h1)" "handle_of c \<subseteq>\<^sub>m handle_of c1"
    "initial_version c1 = initial_version c"
    using entry_helper_spec[OF Cons.prems] by blast
  define ca where "ca = (if ?p then c1 else c)"
  have a: "vdc_wf ca" "handle_of c \<subseteq>\<^sub>m handle_of ca" "initial_version ca = initial_version c"
    using 1 Cons.prems by (simp_all add: ca_def)
  obtain c2 h2 where 2: "entry_helper ca o' next_v tid = Inr (c2, h2)" "vdc_wf c2"
    "handle_of c2 = (handle_of ca)((o', next_v) \<mapsto> h2)" "handle_of ca \<subseteq>\<^sub>m handle_of c2"
    "initial_version c2 = initial_version ca"
    using entry_helper_spec[OF a(1)] by blast
  define cb where "cb = (if ig then ca else c2)"
  have b: "vdc_wf cb" "handle_of ca \<subseteq>\<^sub>m handle_of cb" "initial_version cb = initial_version c"
    using 2 a by (simp_all add: cb_def)
  obtain c' where ih: "dependency_loop tid next_v ip ig xs
        (cb, cur @ (if ?p then [h1] else []), nx @ (if ig then [] else [h2])) =
      Inr (c', (cur @ (if ?p then [h1] else [])) @ map (the \<circ> handle_of c') (prior_keys (initial_version cb) ip xs),
           (nx @ (if ig then [] else [h2])) @ map (the \<circ> handle_of c') (next_keys next_v ig xs))"
    "vdc_wf c'" "handle_of cb \<subseteq>\<^sub>m handle_of c'" "initial_version c' = initial_version cb"
    "dom (handle_of c') = dom (handle_of cb) \<union>
            set (prior_keys (initial_version cb) ip xs) \<union> set (next_keys next_v ig xs)"
    using Cons.IH[OF b(1)] by blast
  have h1: "?p \<Longrightarrow> handle_of c' (o', v) = Some h1"
    using handle_of_le[OF ih(3) handle_of_le[OF b(2)]] 1(3) by (simp add: ca_def)
  have h2: "\<not> ig \<Longrightarrow> handle_of c' (o', next_v) = Some h2"
    using handle_of_le[OF ih(3)] 2(3) by (simp add: cb_def)
  have le: "handle_of c \<subseteq>\<^sub>m handle_of c'"
    using a(2) b(2) ih(3) map_le_trans by blast
  have dom_cb: "dom (handle_of cb) = dom (handle_of c) \<union> (if ?p then {(o', v)} else {}) \<union>
      (if ig then {} else {(o', next_v)})"
    using 1(3) 2(3) by (auto simp: cb_def ca_def)
  have "dependency_loop tid next_v ip ig (x # xs) (c, cur, nx) =
      dependency_loop tid next_v ip ig xs
        (cb, cur @ (if ?p then [h1] else []), nx @ (if ig then [] else [h2]))"
    using 1(1) 2(1) by (auto simp: x ca_def cb_def)
  then show ?case
    using ih h1 h2 le dom_cb b(3)
    by (intro exI[of _ c']) (auto simp: x prior_keys_def next_keys_def)
qed

text \<open>
  C11. Functional behaviour of \<^verbatim>\<open>get_prior_dependency_and_update\<close> on a well-formed controller and a
  non-empty request: it never panics; the handles it returns to wait on are exactly those of the
  requested versions above the initial version (none when they are ignored), the handles to signal
  are exactly those of the produced version of every object; no key loses or changes its handle,
  and a handle is created for exactly the keys involved.
\<close>

theorem get_prior_dependency_functional:
  assumes "vdc_wf c" "xs \<noteq> []"
  shows "\<exists>c'. get_prior_dependency_and_update nxt c tid xs ip ig =
            Inr (c', map (the \<circ> handle_of c') (prior_keys (initial_version c) ip xs),
                     map (the \<circ> handle_of c') (next_keys (next_version nxt xs) ig xs)) \<and>
          vdc_wf c' \<and> handle_of c \<subseteq>\<^sub>m handle_of c' \<and>
          initial_version c' = initial_version c \<and>
          dom (handle_of c') = dom (handle_of c) \<union>
            set (prior_keys (initial_version c) ip xs) \<union> set (next_keys (next_version nxt xs) ig xs)"
  using dependency_loop_spec[OF assms(1), of tid "next_version nxt xs" ip ig xs "[]" "[]"] assms(2)
  by (simp add: get_prior_dependency_and_update_def calculate_next_version_eq)

theorem get_prior_dependency_functional_witness:
  "\<exists>c' ps ns. get_prior_dependency_and_update Suc (vdc_new :: nat vdc) 0 [(7, 2), (9, 3)] False False =
        Inr (c', ps, ns) \<and> length ps = 1 \<and> length ns = 2 \<and> dom (handle_of c') = {(9, 3), (7, 4), (9, 4)}"
proof -
  have "vdc_wf (vdc_new :: nat vdc)" "[(7::nat, 2::nat), (9, 3)] \<noteq> []" by simp_all
  from get_prior_dependency_functional[OF this, of Suc 0 False False]
  show ?thesis
    by (auto simp: prior_keys_def next_keys_def next_version_def vdc_new_def handle_of_def dom_def)
qed

lemma get_prior_dependency_result:
  assumes "vdc_wf c" "get_prior_dependency_and_update nxt c tid xs ip ig = Inr (c', ps, ns)"
  shows "vdc_wf c'" "handle_of c \<subseteq>\<^sub>m handle_of c'"
    "list_all2 (\<lambda>k h. handle_of c' k = Some h) (prior_keys (initial_version c) ip xs) ps"
    "list_all2 (\<lambda>k h. handle_of c' k = Some h) (next_keys (next_version nxt xs) ig xs) ns"
proof -
  have ne: "xs \<noteq> []"
    using assms(2) by (auto simp: get_prior_dependency_and_update_def calculate_next_version_eq)
  obtain d where d: "get_prior_dependency_and_update nxt c tid xs ip ig =
      Inr (d, map (the \<circ> handle_of d) (prior_keys (initial_version c) ip xs),
              map (the \<circ> handle_of d) (next_keys (next_version nxt xs) ig xs))"
    "vdc_wf d" "handle_of c \<subseteq>\<^sub>m handle_of d"
    "dom (handle_of d) = dom (handle_of c) \<union>
       set (prior_keys (initial_version c) ip xs) \<union> set (next_keys (next_version nxt xs) ig xs)"
    using dependency_loop_spec[OF assms(1), of tid "next_version nxt xs" ip ig xs "[]" "[]"] ne
    by (auto simp: get_prior_dependency_and_update_def calculate_next_version_eq)
  have the_d: "k \<in> dom (handle_of d) \<Longrightarrow> handle_of d k = Some (the (handle_of d k))" for k
    by auto
  show "vdc_wf c'" "handle_of c \<subseteq>\<^sub>m handle_of c'"
    "list_all2 (\<lambda>k h. handle_of c' k = Some h) (prior_keys (initial_version c) ip xs) ps"
    "list_all2 (\<lambda>k h. handle_of c' k = Some h) (next_keys (next_version nxt xs) ig xs) ns"
    using d assms(2) the_d by (auto simp: list_all2_map2 intro!: list.rel_refl_strong)
qed

text \<open>
  C12. The rendezvous of producer and consumer.  Take two calls for different tasks, in either
  order, with any other calls (but no removal) between them: a key that one of them waits on and
  the other one signals has the same handle in both, and two keys with the same handle are the
  same key.
\<close>

theorem producer_consumer_share_handle:
  assumes "vdc_wf c"
    and "get_prior_dependency_and_update nxt c tid xs ip ig = Inr (c1, ps, ns)"
    and "vdc_wf c2" "handle_of c1 \<subseteq>\<^sub>m handle_of c2" "initial_version c2 = initial_version c"
    and "get_prior_dependency_and_update nxt c2 tid' ys ip' ig' = Inr (c3, ps', ns')"
    and "ks = prior_keys (initial_version c) ip xs @ next_keys (next_version nxt xs) ig xs"
    and "ks' = prior_keys (initial_version c) ip' ys @ next_keys (next_version nxt ys) ig' ys"
    and "i < length ks" "j < length ks'"
  shows "ks ! i = ks' ! j \<longleftrightarrow> (ps @ ns) ! i = (ps' @ ns') ! j"
proof -
  have 1: "list_all2 (\<lambda>k h. handle_of c1 k = Some h) ks (ps @ ns)"
    using get_prior_dependency_result[OF assms(1,2)] assms(7) by (simp add: list_all2_appendI)
  have 2: "list_all2 (\<lambda>k h. handle_of c3 k = Some h) ks' (ps' @ ns')"
    using get_prior_dependency_result[OF assms(3,6)] assms(5,8) by (simp add: list_all2_appendI)
  have wf3: "vdc_wf c3" and le: "handle_of c2 \<subseteq>\<^sub>m handle_of c3"
    using get_prior_dependency_result[OF assms(3,6)] by auto
  have a: "handle_of c3 (ks ! i) = Some ((ps @ ns) ! i)"
    using handle_of_le[OF le handle_of_le[OF assms(4)]] list_all2_nthD[OF 1 assms(9)] by blast
  have b: "handle_of c3 (ks' ! j) = Some ((ps' @ ns') ! j)"
    using list_all2_nthD[OF 2 assms(10)] .
  show ?thesis using a b vc.slot_inj[OF wf3] by fastforce
qed

theorem producer_consumer_share_handle_witness:
  "\<exists>c1 c3. get_prior_dependency_and_update Suc (vdc_new :: nat vdc) 1 [(7, 2)] False False = Inr (c1, [], [0]) \<and>
     get_prior_dependency_and_update Suc c1 2 [(7, 3)] False False = Inr (c3, [0], [1])"
proof -
  define c1 where "c1 = (vdc_new :: nat vdc)\<lparr>obj_task_map := [(7, 3) \<mapsto> Some (1, 0)], next_notify := 1\<rparr>"
  define c3 where "c3 = c1\<lparr>obj_task_map := [(7, 3) \<mapsto> Some (1, 0), (7, 4) \<mapsto> Some (2, 1)], next_notify := 2\<rparr>"
  have 1: "get_prior_dependency_and_update Suc (vdc_new :: nat vdc) 1 [(7, 2)] False False = Inr (c1, [], [0])"
    by (simp add: c1_def get_prior_dependency_and_update_def calculate_next_version_def
        entry_helper_def vdc_new_def)
  have wf: "vdc_wf c1" by (simp add: vdc_wf_def c1_def vdc_new_def)
  have 2: "\<exists>p n. get_prior_dependency_and_update Suc c1 2 [(7, 3)] False False = Inr (c3, [p], [n]) \<and> n = 1"
    by (simp add: c1_def c3_def get_prior_dependency_and_update_def calculate_next_version_def
        entry_helper_def vdc_new_def)
  then obtain p where 3: "get_prior_dependency_and_update Suc c1 2 [(7, 3)] False False = Inr (c3, [p], [1])"
    by blast
  have "((7::nat, 3::nat) = (7, 3)) = ((0::nat) = p)"
    using producer_consumer_share_handle[OF _ 1 wf _ _ 3 refl refl, of 0 0]
    by (simp add: c1_def vdc_new_def prior_keys_def next_keys_def next_version_def vdc_wf_new[unfolded vdc_new_def])
  with 1 3 show ?thesis by auto
qed

lemma remove_dependency_handle_of:
  "handle_of (remove_dependency c ks) k = (if k \<in> set ks then None else handle_of c k)"
  by (induction ks arbitrary: c) (auto simp: handle_of_def)

lemma remove_dependency_wf: "vdc_wf c \<Longrightarrow> vdc_wf (remove_dependency c ks)"
proof (induction ks arbitrary: c)
  case (Cons k ks)
  then show ?case using vc.drop_wf[of c k] by (simp add: remove_key_def)
qed simp

lemma remove_dependency_has_task:
  "has_task_for_object (remove_dependency c ks) o' v \<longleftrightarrow> (o', v) \<notin> set ks \<and> has_task_for_object c o' v"
  by (induction ks arbitrary: c) (auto simp: has_task_for_object_def)

end
