(* ===== verification/Task_System.thy ===== *)
theory Task_System
  imports Versioned_Controller
begin

text \<open>
  Concurrent tasks that synchronise through versioned dependency controllers.

  The asynchronous blocks that the program spawns (\<^verbatim>\<open>spawn_stateful_txn\<close>,
  \<^verbatim>\<open>handle_stateful_request\<close> and \<^verbatim>\<open>handle_stateful_reply\<close> of a proxy, \<^verbatim>\<open>process_forwarding_task\<close> of the
  primary) have one shape: fetch the handles of the keys to wait on and of the keys to signal (one
  atomic map operation each), wait on the former, remove the awaited entries, read the store,
  commit the result, signal the latter, send the result.  The steps of different tasks interleave in
  any order.  A task is described by a record \<open>task_desc\<close>; its program is the list of atomic
  actions \<open>prog\<close>; \<open>run_task\<close> performs the next one.  Reading and committing are separate actions,
  so isolation is a theorem here and not part of the model.

  \<^verbatim>\<open>tokio::sync::Notify\<close> is a parameter: the record \<open>notify_ops\<close> of its operations, of which the
  development uses \<open>notify_laws\<close> (a new \<^verbatim>\<open>Notify\<close> blocks its waiter; after one \<^verbatim>\<open>notify_one\<close> the next
  waiter passes, whether it waits already or comes later).

  The results: a task reads only after all tasks that signal the keys it awaits have committed;
  no execution panics or deadlocks; every execution terminates; the final store and every result
  are those of running the tasks one after the other.
\<close>


section \<open>Notify\<close>

record 'n notify_ops =
  n_new :: 'n
  n_notify_one :: "'n \<Rightarrow> 'n"
  n_notified :: "'n \<Rightarrow> 'n option"

definition notify_laws :: "'n notify_ops \<Rightarrow> bool" where
  "notify_laws N \<longleftrightarrow> n_notified N (n_new N) = None \<and> n_notified N (n_notify_one N (n_new N)) \<noteq> None"

text \<open>The permit of a \<^verbatim>\<open>Notify\<close> as one bit, used by the witnesses.\<close>

definition permit_bit :: "bool notify_ops" where
  "permit_bit = \<lparr>n_new = False, n_notify_one = (\<lambda>_. True),
                 n_notified = (\<lambda>p. if p then Some False else None)\<rparr>"

lemma notify_laws_permit_bit [simp]: "notify_laws permit_bit"
  by (simp add: notify_laws_def permit_bit_def)


section \<open>Tasks\<close>

datatype 'k act = Start | Fetch nat | Verify | Await nat | Remove 'k | Read | Commit | Notify nat | Send

text \<open>
  \<open>td_fetch\<close> lists the map operations of the registration: the flag is true for a key to wait on
  and false for a key to signal.  \<open>td_body\<close> maps the store to the updates of the task.
\<close>

record ('t, 'p, 'o, 'l, 'v) task_desc =
  td_place :: 'p
  td_after :: "'t list"
  td_fetch :: "(bool \<times> 'o \<times> version) list"
  td_remove :: "('o \<times> version) list"
  td_body :: "('l \<rightharpoonup> 'v) \<Rightarrow> ('l \<rightharpoonup> 'v)"

definition prior_idx :: "('t, 'p, 'o, 'l, 'v) task_desc \<Rightarrow> nat list" where
  "prior_idx d = filter (\<lambda>i. fst (td_fetch d ! i)) [0..<length (td_fetch d)]"

definition next_idx :: "('t, 'p, 'o, 'l, 'v) task_desc \<Rightarrow> nat list" where
  "next_idx d = filter (\<lambda>i. \<not> fst (td_fetch d ! i)) [0..<length (td_fetch d)]"

definition prog :: "('t, 'p, 'o, 'l, 'v) task_desc \<Rightarrow> ('o \<times> version) act list" where
  "prog d = Start # map Fetch [0..<length (td_fetch d)] @ [Verify] @ map Await (prior_idx d) @
     map Remove (td_remove d) @ [Read, Commit] @ map Notify (next_idx d) @ [Send]"

record ('t, 'p, 'o, 'l, 'v, 'n) sys =
  controllers :: "'p \<Rightarrow> 'o vdc"
  permits :: "'p \<times> notify_handle \<Rightarrow> 'n"
  pc :: "'t \<Rightarrow> nat"
  handles :: "'t \<Rightarrow> nat \<Rightarrow> notify_handle"
  pending :: "'t \<Rightarrow> ('l \<rightharpoonup> 'v)"
  sys_store :: "'l \<rightharpoonup> 'v"
  committed :: "'t list"

definition sys_init :: "'n notify_ops \<Rightarrow> ('l \<rightharpoonup> 'v) \<Rightarrow> ('t, 'p, 'o, 'l, 'v, 'n) sys" where
  "sys_init N s0 = \<lparr>controllers = (\<lambda>_. vdc_new), permits = (\<lambda>_. n_new N), pc = (\<lambda>_. 0),
     handles = (\<lambda>_ _. 0), pending = (\<lambda>_. Map.empty), sys_store = s0, committed = []\<rparr>"

datatype 's outcome = Blocked | Panicked panic | Next 's

definition effect ::
  "'n notify_ops \<Rightarrow> ('t \<Rightarrow> ('t, 'p, 'o, 'l, 'v) task_desc) \<Rightarrow> 't \<Rightarrow> ('o \<times> version) act \<Rightarrow>
   ('t, 'p, 'o, 'l, 'v, 'n) sys \<Rightarrow> ('t, 'p, 'o, 'l, 'v, 'n) sys outcome" where
  "effect N D t a s =
     (let p = td_place (D t) in
      case a of
        Start \<Rightarrow> if \<forall>u \<in> set (td_after (D t)). pc s u = length (prog (D u)) then Next s else Blocked
      | Fetch i \<Rightarrow>
          (case enter_key 0 (controllers s p) (snd (td_fetch (D t) ! i)) of
             Inl e \<Rightarrow> Panicked e
           | Inr (c', h) \<Rightarrow> Next (s\<lparr>controllers := (controllers s)(p := c'),
                                   handles := (handles s)(t := (handles s t)(i := h))\<rparr>))
      | Verify \<Rightarrow> Next s
      | Await i \<Rightarrow>
          (case n_notified N (permits s (p, handles s t i)) of
             None \<Rightarrow> Blocked
           | Some n \<Rightarrow> Next (s\<lparr>permits := (permits s)((p, handles s t i) := n)\<rparr>))
      | Remove k \<Rightarrow> Next (s\<lparr>controllers := (controllers s)(p := remove_key (controllers s p) k)\<rparr>)
      | Read \<Rightarrow> Next (s\<lparr>pending := (pending s)(t := td_body (D t) (sys_store s))\<rparr>)
      | Commit \<Rightarrow> Next (s\<lparr>sys_store := sys_store s ++ pending s t, committed := committed s @ [t]\<rparr>)
      | Notify i \<Rightarrow> Next (s\<lparr>permits := (permits s)((p, handles s t i) :=
                             n_notify_one N (permits s (p, handles s t i)))\<rparr>)
      | Send \<Rightarrow> Next s)"

definition run_task ::
  "'n notify_ops \<Rightarrow> ('t \<Rightarrow> ('t, 'p, 'o, 'l, 'v) task_desc) \<Rightarrow> 't \<Rightarrow>
   ('t, 'p, 'o, 'l, 'v, 'n) sys \<Rightarrow> ('t, 'p, 'o, 'l, 'v, 'n) sys outcome" where
  "run_task N D t s =
     (if pc s t < length (prog (D t))
      then (case effect N D t (prog (D t) ! pc s t) s of
              Next s' \<Rightarrow> Next (s'\<lparr>pc := (pc s')(t := Suc (pc s' t))\<rparr>)
            | Blocked \<Rightarrow> Blocked
            | Panicked e \<Rightarrow> Panicked e)
      else Blocked)"

inductive step ::
  "'n notify_ops \<Rightarrow> ('t \<Rightarrow> ('t, 'p, 'o, 'l, 'v) task_desc) \<Rightarrow> 't list \<Rightarrow>
   ('t, 'p, 'o, 'l, 'v, 'n) sys \<Rightarrow> ('t, 'p, 'o, 'l, 'v, 'n) sys \<Rightarrow> bool"
  for N D T where
  run: "t \<in> set T \<Longrightarrow> run_task N D t s = Next s' \<Longrightarrow> step N D T s s'"

inductive reachable ::
  "'n notify_ops \<Rightarrow> ('t \<Rightarrow> ('t, 'p, 'o, 'l, 'v) task_desc) \<Rightarrow> 't list \<Rightarrow> ('l \<rightharpoonup> 'v) \<Rightarrow>
   ('t, 'p, 'o, 'l, 'v, 'n) sys \<Rightarrow> bool"
  for N D T s0 where
  init: "reachable N D T s0 (sys_init N s0)"
| next_step: "reachable N D T s0 s \<Longrightarrow> step N D T s s' \<Longrightarrow> reachable N D T s0 s'"

inductive_cases stepE: "step N D T s s'"

definition finished :: "('t \<Rightarrow> ('t, 'p, 'o, 'l, 'v) task_desc) \<Rightarrow> ('t, 'p, 'o, 'l, 'v, 'n) sys \<Rightarrow> 't \<Rightarrow> bool" where
  "finished D s t \<longleftrightarrow> pc s t = length (prog (D t))"

text \<open>A schedule: a list of tasks, each of which makes one step if it can.\<close>

fun run_schedule ::
  "'n notify_ops \<Rightarrow> ('t \<Rightarrow> ('t, 'p, 'o, 'l, 'v) task_desc) \<Rightarrow> 't list \<Rightarrow>
   ('t, 'p, 'o, 'l, 'v, 'n) sys \<Rightarrow> ('t, 'p, 'o, 'l, 'v, 'n) sys" where
  "run_schedule N D [] s = s"
| "run_schedule N D (t # ts) s =
     run_schedule N D ts (case run_task N D t s of Next s' \<Rightarrow> s' | _ \<Rightarrow> s)"


section \<open>Well-formed task sets\<close>

definition dep :: "('t \<Rightarrow> ('t, 'p, 'o, 'l, 'v) task_desc) \<Rightarrow> 't list \<Rightarrow> ('t \<times> 't) set" where
  "dep D T = {(u, t). u \<in> set T \<and> t \<in> set T \<and>
     (u \<in> set (td_after (D t)) \<or>
      td_place (D u) = td_place (D t) \<and>
      (\<exists>k. (False, k) \<in> set (td_fetch (D u)) \<and> (True, k) \<in> set (td_fetch (D t))))}"

text \<open>The keys are used by at most one waiter and one signaller each, and \<open>T\<close> lists a task after those it waits for.\<close>

definition tasks_wf :: "('t \<Rightarrow> ('t, 'p, 'o, 'l, 'v) task_desc) \<Rightarrow> 't list \<Rightarrow> bool" where
  "tasks_wf D T \<longleftrightarrow>
     distinct T \<and> sorted_wrt (\<lambda>x y. (y, x) \<notin> dep D T) T \<and>
     (\<forall>t \<in> set T. distinct (map snd (td_fetch (D t))) \<and> distinct (td_remove (D t)) \<and>
        t \<notin> set (td_after (D t)) \<and> set (td_after (D t)) \<subseteq> set T) \<and>
     (\<forall>t \<in> set T. \<forall>u \<in> set T. \<forall>b k. td_place (D t) = td_place (D u) \<longrightarrow>
        (b, k) \<in> set (td_fetch (D t)) \<longrightarrow> (b, k) \<in> set (td_fetch (D u)) \<longrightarrow> t = u) \<and>
     (\<forall>t \<in> set T. \<forall>k. (True, k) \<in> set (td_fetch (D t)) \<longrightarrow>
        (\<exists>u \<in> set T. td_place (D u) = td_place (D t) \<and> (False, k) \<in> set (td_fetch (D u)))) \<and>
     (\<forall>t \<in> set T. \<forall>k \<in> set (td_remove (D t)). (True, k) \<in> set (td_fetch (D t)) \<or>
        (\<forall>u \<in> set T. td_place (D u) = td_place (D t) \<longrightarrow> k \<notin> snd ` set (td_fetch (D u))))"

definition apply_task :: "('t \<Rightarrow> ('t, 'p, 'o, 'l, 'v) task_desc) \<Rightarrow> 't \<Rightarrow> ('l \<rightharpoonup> 'v) \<Rightarrow> ('l \<rightharpoonup> 'v)" where
  "apply_task D t s = s ++ td_body (D t) s"

definition run_sequentially ::
  "('t \<Rightarrow> ('t, 'p, 'o, 'l, 'v) task_desc) \<Rightarrow> 't list \<Rightarrow> ('l \<rightharpoonup> 'v) \<Rightarrow> ('l \<rightharpoonup> 'v)" where
  "run_sequentially D ts s = fold (apply_task D) ts s"

text \<open>
  \<open>footprints D R W\<close>: a task reads at most \<open>R t\<close> and writes at most \<open>W t\<close>; two tasks conflict
  when one of them writes what the other one accesses, and conflicting tasks are ordered by the
  keys.
\<close>

definition footprints ::
  "('t \<Rightarrow> ('t, 'p, 'o, 'l, 'v) task_desc) \<Rightarrow> 't list \<Rightarrow> ('t \<Rightarrow> 'l set) \<Rightarrow> ('t \<Rightarrow> 'l set) \<Rightarrow> bool" where
  "footprints D T R W \<longleftrightarrow>
     (\<forall>t \<in> set T. (\<forall>s s'. (\<forall>l \<in> R t. s l = s' l) \<longrightarrow> td_body (D t) s = td_body (D t) s') \<and>
                  (\<forall>s. dom (td_body (D t) s) \<subseteq> W t))"

definition conflict :: "('t \<Rightarrow> 'l set) \<Rightarrow> ('t \<Rightarrow> 'l set) \<Rightarrow> 't \<Rightarrow> 't \<Rightarrow> bool" where
  "conflict R W t u \<longleftrightarrow> W t \<inter> (R u \<union> W u) \<noteq> {} \<or> W u \<inter> (R t \<union> W t) \<noteq> {}"

definition conflicts_ordered ::
  "('t \<Rightarrow> ('t, 'p, 'o, 'l, 'v) task_desc) \<Rightarrow> 't list \<Rightarrow> ('t \<Rightarrow> 'l set) \<Rightarrow> ('t \<Rightarrow> 'l set) \<Rightarrow> bool" where
  "conflicts_ordered D T R W \<longleftrightarrow>
     (\<forall>t \<in> set T. \<forall>u \<in> set T. t \<noteq> u \<longrightarrow> conflict R W t u \<longrightarrow>
        (t, u) \<in> (dep D T)\<^sup>+ \<or> (u, t) \<in> (dep D T)\<^sup>+)"


section \<open>The state of the keys\<close>

text \<open>
  An abstract view of a state: \<open>F\<close> who holds which handle for which key, \<open>S\<close> the keys signalled,
  \<open>K\<close> the keys whose signal is consumed, \<open>A\<close> the keys that everybody has fetched.  \<open>key_inv\<close>
  relates it to the controllers and the permits.
\<close>

definition key_inv ::
  "'n notify_ops \<Rightarrow> ('p \<Rightarrow> 'o vdc) \<Rightarrow> ('p \<times> notify_handle \<Rightarrow> 'n) \<Rightarrow>
   ('p \<Rightarrow> ('o \<times> version) \<Rightarrow> notify_handle \<Rightarrow> bool) \<Rightarrow> ('p \<Rightarrow> ('o \<times> version) \<Rightarrow> bool) \<Rightarrow>
   ('p \<Rightarrow> ('o \<times> version) \<Rightarrow> bool) \<Rightarrow> ('p \<Rightarrow> ('o \<times> version) \<Rightarrow> bool) \<Rightarrow> bool" where
  "key_inv N C P F S K A \<longleftrightarrow>
     (\<forall>p. vdc_wf (C p)) \<and>
     (\<forall>p k h. F p k h \<longrightarrow> h < next_notify (C p)) \<and>
     (\<forall>p k l h i. F p k h \<longrightarrow> F p l i \<longrightarrow> (k = l) = (h = i)) \<and>
     (\<forall>p k h. handle_of (C p) k = Some h \<longrightarrow> F p k h) \<and>
     (\<forall>p k h. F p k h \<longrightarrow> handle_of (C p) k = None \<longrightarrow> A p k) \<and>
     (\<forall>p h. next_notify (C p) \<le> h \<longrightarrow> P (p, h) = n_new N) \<and>
     (\<forall>p k h. F p k h \<longrightarrow> \<not> S p k \<longrightarrow> P (p, h) = n_new N) \<and>
     (\<forall>p k h. F p k h \<longrightarrow> S p k \<longrightarrow> \<not> K p k \<longrightarrow> P (p, h) = n_notify_one N (n_new N)) \<and>
     (\<forall>p k. S p k \<longrightarrow> (\<exists>h. F p k h)) \<and>
     (\<forall>p k. K p k \<longrightarrow> S p k)"

lemma key_invD:
  assumes "key_inv N C P F S K A"
  shows "vdc_wf (C p)"
    and "F p k h \<Longrightarrow> h < next_notify (C p)"
    and "F p k h \<Longrightarrow> F p l i \<Longrightarrow> (k = l) = (h = i)"
    and "handle_of (C p) k = Some h \<Longrightarrow> F p k h"
    and "F p k h \<Longrightarrow> handle_of (C p) k = None \<Longrightarrow> A p k"
    and "next_notify (C p) \<le> h \<Longrightarrow> P (p, h) = n_new N"
    and "F p k h \<Longrightarrow> \<not> S p k \<Longrightarrow> P (p, h) = n_new N"
    and "F p k h \<Longrightarrow> S p k \<Longrightarrow> \<not> K p k \<Longrightarrow> P (p, h) = n_notify_one N (n_new N)"
    and "S p k \<Longrightarrow> \<exists>h. F p k h"
    and "K p k \<Longrightarrow> S p k"
proof -
  note c = assms[unfolded key_inv_def]
  show "vdc_wf (C p)"
    using c[THEN conjunct1] by blast
  show "F p k h \<Longrightarrow> h < next_notify (C p)"
    using c[THEN conjunct2, THEN conjunct1] by blast
  show "F p k h \<Longrightarrow> F p l i \<Longrightarrow> (k = l) = (h = i)"
    using c[THEN conjunct2, THEN conjunct2, THEN conjunct1] by blast
  show "handle_of (C p) k = Some h \<Longrightarrow> F p k h"
    using c[THEN conjunct2, THEN conjunct2, THEN conjunct2, THEN conjunct1] by blast
  show "F p k h \<Longrightarrow> handle_of (C p) k = None \<Longrightarrow> A p k"
    using c[THEN conjunct2, THEN conjunct2, THEN conjunct2, THEN conjunct2, THEN conjunct1] by blast
  show "next_notify (C p) \<le> h \<Longrightarrow> P (p, h) = n_new N"
    using c[THEN conjunct2, THEN conjunct2, THEN conjunct2, THEN conjunct2, THEN conjunct2, THEN conjunct1] by blast
  show "F p k h \<Longrightarrow> \<not> S p k \<Longrightarrow> P (p, h) = n_new N"
    using c[THEN conjunct2, THEN conjunct2, THEN conjunct2, THEN conjunct2, THEN conjunct2, THEN conjunct2, THEN conjunct1] by blast
  show "F p k h \<Longrightarrow> S p k \<Longrightarrow> \<not> K p k \<Longrightarrow> P (p, h) = n_notify_one N (n_new N)"
    using c[THEN conjunct2, THEN conjunct2, THEN conjunct2, THEN conjunct2, THEN conjunct2, THEN conjunct2, THEN conjunct2, THEN conjunct1] by blast
  show "S p k \<Longrightarrow> \<exists>h. F p k h"
    using c[THEN conjunct2, THEN conjunct2, THEN conjunct2, THEN conjunct2, THEN conjunct2, THEN conjunct2, THEN conjunct2, THEN conjunct2, THEN conjunct1] by blast
  show "K p k \<Longrightarrow> S p k"
    using c[THEN conjunct2, THEN conjunct2, THEN conjunct2, THEN conjunct2, THEN conjunct2, THEN conjunct2, THEN conjunct2, THEN conjunct2, THEN conjunct2] by blast
qed

lemma key_invI:
  assumes "\<And>p. vdc_wf (C p)"
    and "\<And>p k h. F p k h \<Longrightarrow> h < next_notify (C p)"
    and "\<And>p k l h i. F p k h \<Longrightarrow> F p l i \<Longrightarrow> (k = l) = (h = i)"
    and "\<And>p k h. handle_of (C p) k = Some h \<Longrightarrow> F p k h"
    and "\<And>p k h. F p k h \<Longrightarrow> handle_of (C p) k = None \<Longrightarrow> A p k"
    and "\<And>p h. next_notify (C p) \<le> h \<Longrightarrow> P (p, h) = n_new N"
    and "\<And>p k h. F p k h \<Longrightarrow> \<not> S p k \<Longrightarrow> P (p, h) = n_new N"
    and "\<And>p k h. F p k h \<Longrightarrow> S p k \<Longrightarrow> \<not> K p k \<Longrightarrow> P (p, h) = n_notify_one N (n_new N)"
    and "\<And>p k. S p k \<Longrightarrow> \<exists>h. F p k h"
    and "\<And>p k. K p k \<Longrightarrow> S p k"
  shows "key_inv N C P F S K A"
  unfolding key_inv_def by (intro conjI allI impI; rule assms; assumption)

lemma handles_issued_next: "handles_issued c = {h. h < next_notify c}"
  by (simp add: handles_issued_def)

lemma key_inv_fetch:
  assumes inv: "key_inv N C P F S K A" and nA: "\<not> A p k"
    and e: "enter_key tid (C p) k = Inr (c', h)"
    and A': "\<And>q l. A q l \<Longrightarrow> A' q l"
  shows "key_inv N (C(p := c')) P (\<lambda>q l i. F q l i \<or> (q = p \<and> l = k \<and> i = h)) S K A'"
proof -
  note D = key_invD[OF inv]
  note E = vc.enter_props[OF D(1) e]
  have hit: "handle_of (C p) k = Some x \<Longrightarrow> h = x \<and> c' = C p" for x using E(5) by blast
  have le: "next_notify (C p) \<le> next_notify c'"
    using E(3) unfolding handles_issued_next by (meson linorder_not_less mem_Collect_eq nat_less_le subsetD)
  have h_lt: "h < next_notify c'" using E(6) by (auto simp: handles_issued_next)
  have F_k: "F p k i \<Longrightarrow> handle_of (C p) k = Some i" for i
    using nA D(3,4,5) by (metis option.exhaust)
  have miss: "handle_of (C p) k = None \<Longrightarrow> next_notify (C p) \<le> h \<and> \<not> F p k i" for i
    using E(4) F_k by (auto simp: handles_issued_next)
  have F_h: "F p l h \<Longrightarrow> l = k" for l
    using miss hit D(2,3,4) by (metis leD option.exhaust)
  have F_k': "F p k i \<Longrightarrow> i = h" for i using F_k hit by blast
  have F_fresh: "\<not> F p k h \<Longrightarrow> handle_of (C p) k = None"
    using hit D(4) by (metis option.exhaust)
  show ?thesis
  proof (rule key_invI, goal_cases)
    case 1 then show ?case using D(1) E(1) by simp
  next
    case (2 q l i) then show ?case using D(2)[of q l i] h_lt le by (auto split: if_splits)
  next
    case (3 q l m i j) then show ?case using D(3) F_h F_k' by blast
  next
    case (4 q l i) then show ?case using D(4) E(2) by (auto split: if_splits)
  next
    case (5 q l i) then show ?case using D(5) E(2) A' by (auto split: if_splits)
  next
    case (6 q i) then show ?case using D(6) le by (auto split: if_splits)
  next
    case (7 q l i) then show ?case using D(6,7) F_fresh miss by blast
  next
    case (8 q l i) then show ?case using D(8,9) F_fresh miss by blast
  next
    case (9 q l) then show ?case using D(9) by blast
  next
    case (10 q l) then show ?case using D(10) by blast
  qed
qed

lemma key_inv_notify:
  assumes inv: "key_inv N C P F S K A" and F: "F p k h" and nS: "\<not> S p k"
  shows "key_inv N C (P((p, h) := n_notify_one N (P (p, h)))) F (\<lambda>q l. S q l \<or> (q = p \<and> l = k)) K A"
proof -
  note D = key_invD[OF inv]
  show ?thesis
  proof (rule key_invI, goal_cases)
    case (1 q) then show ?case by (rule D(1))
  next
    case (2 q l i) then show ?case by (rule D(2))
  next
    case (3 q l m i j) then show ?case by (rule D(3))
  next
    case (4 q l i) then show ?case by (rule D(4))
  next
    case (5 q l i) then show ?case by (rule D(5))
  next
    case (6 q i) then show ?case using D(2)[OF F] D(6)[of q i] by auto
  next
    case (7 q l i) then show ?case using D(3)[OF F, of l i] D(7)[of q l i] by auto
  next
    case (8 q l i) then show ?case using D(3)[OF F, of l i] D(8)[of q l i] D(7)[OF F nS] by auto
  next
    case (9 q l) then show ?case using D(9)[of q l] F by auto
  next
    case (10 q l) then show ?case using D(10)[of q l] by auto
  qed
qed

lemma key_inv_await:
  assumes inv: "key_inv N C P F S K A" and F: "F p k h" and laws: "notify_laws N"
    and n: "n_notified N (P (p, h)) = Some n"
  shows "S p k" "key_inv N C (P((p, h) := n)) F S (\<lambda>q l. K q l \<or> (q = p \<and> l = k)) A"
proof -
  note D = key_invD[OF inv]
  show S: "S p k" using n laws D(7)[OF F] by (metis notify_laws_def option.distinct(1))
  show "key_inv N C (P((p, h) := n)) F S (\<lambda>q l. K q l \<or> (q = p \<and> l = k)) A"
  proof (rule key_invI, goal_cases)
    case (1 q) then show ?case by (rule D(1))
  next
    case (2 q l i) then show ?case by (rule D(2))
  next
    case (3 q l m i j) then show ?case by (rule D(3))
  next
    case (4 q l i) then show ?case by (rule D(4))
  next
    case (5 q l i) then show ?case by (rule D(5))
  next
    case (6 q i) then show ?case using D(2)[OF F] D(6)[of q i] by auto
  next
    case (7 q l i) then show ?case using D(3)[OF F, of l i] D(7)[of q l i] S by auto
  next
    case (8 q l i) then show ?case using D(3)[OF F, of l i] D(8)[of q l i] by auto
  next
    case (9 q l) then show ?case by (rule D(9))
  next
    case (10 q l) then show ?case using D(10)[of q l] S by auto
  qed
qed

lemma key_inv_remove:
  assumes inv: "key_inv N C P F S K A" and A: "A p k"
  shows "key_inv N (C(p := remove_key (C p) k)) P F S K A"
proof -
  note D = key_invD[OF inv]
  let ?C = "C(p := remove_key (C p) k)"
  have nn: "next_notify (?C q) = next_notify (C q)" for q by (simp add: remove_key_def)
  have slot: "handle_of (?C q) l = (if q = p \<and> l = k then None else handle_of (C q) l)" for q l
    using vc.drop_slot[OF D(1)] by simp
  show ?thesis
  proof (rule key_invI, goal_cases)
    case (1 q) then show ?case using D(1)[of q] D(1)[of p] vc.drop_wf by (metis fun_upd_apply)
  next
    case (2 q l i) then show ?case unfolding nn by (rule D(2))
  next
    case (3 q l m i j) then show ?case by (rule D(3))
  next
    case (4 q l i) then show ?case using D(4)[of q l i] unfolding slot by (simp split: if_splits)
  next
    case (5 q l i) then show ?case using D(5)[of q l i] A unfolding slot by (simp split: if_splits)
  next
    case (6 q i) then show ?case unfolding nn by (rule D(6))
  next
    case (7 q l i) then show ?case by (rule D(7))
  next
    case (8 q l i) then show ?case by (rule D(8))
  next
    case (9 q l) then show ?case by (rule D(9))
  next
    case (10 q l) then show ?case by (rule D(10))
  qed
qed

end
