(* ===== verification/Task_Correctness.thy ===== *)
theory Task_Correctness
  imports Task_System
begin

text \<open>
  The correctness of the task system: the invariant of the keys holds in every reachable state, so
  tasks read only after their predecessors have committed; conflicting tasks are isolated; there is
  no panic and no deadlock, and every execution ends with the result of the sequential one.
\<close>


section \<open>The order of the actions of a task\<close>

fun rank :: "'k act \<Rightarrow> nat" where
  "rank Start = 0"
| "rank (Fetch _) = 1"
| "rank Verify = 2"
| "rank (Await _) = 3"
| "rank (Remove _) = 4"
| "rank Read = 5"
| "rank Commit = 6"
| "rank (Notify _) = 7"
| "rank Send = 8"

definition dn :: "('t \<Rightarrow> ('t, 'p, 'o, 'l, 'v) task_desc) \<Rightarrow> ('t, 'p, 'o, 'l, 'v, 'n) sys \<Rightarrow> 't \<Rightarrow> ('o \<times> version) act \<Rightarrow> bool" where
  "dn D s t a \<longleftrightarrow> a \<in> set (take (pc s t) (prog (D t)))"

lemma sorted_const_map: "(\<And>x. x \<in> set xs \<Longrightarrow> f x = c) \<Longrightarrow> sorted (map f xs :: nat list)"
  by (induction xs) auto

lemma sorted_rank_prog: "sorted (map rank (prog d))"
  by (auto simp: prog_def sorted_append sorted_const_map[where c = 1] sorted_const_map[where c = 3]
      sorted_const_map[where c = 4] sorted_const_map[where c = 7])

lemma distinct_prog: "distinct (td_remove d) \<Longrightarrow> distinct (prog d)"
  by (auto simp: prog_def distinct_map inj_on_def prior_idx_def next_idx_def)

lemma set_prog:
  "Start \<in> set (prog d)" "Read \<in> set (prog d)" "Commit \<in> set (prog d)"
  "Fetch i \<in> set (prog d) \<longleftrightarrow> i < length (td_fetch d)"
  "Await i \<in> set (prog d) \<longleftrightarrow> i < length (td_fetch d) \<and> fst (td_fetch d ! i)"
  "Notify i \<in> set (prog d) \<longleftrightarrow> i < length (td_fetch d) \<and> \<not> fst (td_fetch d ! i)"
  "Remove k \<in> set (prog d) \<longleftrightarrow> k \<in> set (td_remove d)"
  by (auto simp: prog_def prior_idx_def next_idx_def)

lemma length_prog: "length (prog d) = 5 + 2 * length (td_fetch d) + length (td_remove d)"
  using sum_length_filter_compl[of "\<lambda>i. fst (td_fetch d ! i)" "[0..<length (td_fetch d)]"]
  by (simp add: prog_def prior_idx_def next_idx_def)

lemma take_rank:
  assumes "sorted (map r xs)" "a \<in> set xs" "b \<in> set (take n xs)" "r a < (r b :: nat)"
  shows "a \<in> set (take n xs)"
proof (rule ccontr)
  assume "a \<notin> set (take n xs)"
  then have "a \<in> set (drop n xs)" using assms(2) by (metis Un_iff append_take_drop_id set_append)
  moreover have "sorted (map r (take n xs) @ map r (drop n xs))"
    using assms(1) by (metis append_take_drop_id map_append)
  ultimately have "r b \<le> r a" using assms(3) by (auto simp: sorted_append)
  then show False using assms(4) by simp
qed

lemma at_rank:
  assumes "sorted (map r xs)" "a \<in> set xs" "n < length xs" "r a < (r (xs ! n) :: nat)"
  shows "a \<in> set (take n xs)"
proof -
  have "a \<in> set (take (Suc n) xs)"
    using take_rank[OF assms(1,2), of "xs ! n" "Suc n"] assms(3,4) by (auto simp: take_Suc_conv_app_nth)
  then show ?thesis using assms(3,4) by (auto simp: take_Suc_conv_app_nth)
qed

lemma dn_rank:
  "a \<in> set (prog (D t)) \<Longrightarrow> dn D s t b \<Longrightarrow> rank a < rank b \<Longrightarrow> dn D s t a"
  unfolding dn_def by (rule take_rank[OF sorted_rank_prog])

lemma dn_in_prog: "dn D s t a \<Longrightarrow> a \<in> set (prog (D t))"
  unfolding dn_def by (rule in_set_takeD)

lemma dn_finished: "finished D s t \<Longrightarrow> dn D s t a \<longleftrightarrow> a \<in> set (prog (D t))"
  by (simp add: dn_def finished_def)

lemma dn_init [simp]: "\<not> dn D (sys_init N s0) t a"
  by (simp add: dn_def sys_init_def)

text \<open>One step of a task: the action, its effect, and what is done afterwards.\<close>

lemma effect_pc: "effect N D t a s = Next s' \<Longrightarrow> pc s' = pc s"
  by (cases a) (auto simp: effect_def Let_def split: if_splits sum.splits option.splits prod.splits)

lemma run_task_cases:
  assumes "run_task N D t s = Next s'"
  obtains a s1 where "pc s t < length (prog (D t))" "a = prog (D t) ! pc s t"
    "effect N D t a s = Next s1" "s' = s1\<lparr>pc := (pc s)(t := Suc (pc s t))\<rparr>"
    "a \<in> set (prog (D t))"
    "\<And>b. b \<in> set (prog (D t)) \<Longrightarrow> rank b < rank a \<Longrightarrow> dn D s t b"
    "\<And>u b. dn D s' u b \<longleftrightarrow> dn D s u b \<or> (u = t \<and> b = a)"
proof -
  let ?a = "prog (D t) ! pc s t"
  from assms obtain s1 where lt: "pc s t < length (prog (D t))" and e: "effect N D t ?a s = Next s1"
    and s': "s' = s1\<lparr>pc := (pc s1)(t := Suc (pc s1 t))\<rparr>"
    by (auto simp: run_task_def split: if_splits outcome.splits)
  show thesis
  proof (rule that[OF lt refl e])
    show "s' = s1\<lparr>pc := (pc s)(t := Suc (pc s t))\<rparr>"
      using s' effect_pc[OF e] by simp
    then show "dn D s' u b \<longleftrightarrow> dn D s u b \<or> (u = t \<and> b = ?a)" for u b
      using lt by (auto simp: dn_def take_Suc_conv_app_nth)
    show "dn D s t b" if "b \<in> set (prog (D t))" "rank b < rank ?a" for b
      unfolding dn_def by (rule at_rank[OF sorted_rank_prog that(1) lt that(2)])
  qed (simp add: lt)
qed

lemma at_not_dn:
  "distinct (prog (D t)) \<Longrightarrow> pc s t < length (prog (D t)) \<Longrightarrow> \<not> dn D s t (prog (D t) ! pc s t)"
  by (auto simp: dn_def distinct_conv_nth in_set_conv_nth)


section \<open>The invariant of the keys\<close>

definition holds_handle where
  "holds_handle D T s p k h \<longleftrightarrow> (\<exists>t \<in> set T. \<exists>i < length (td_fetch (D t)).
     td_place (D t) = p \<and> snd (td_fetch (D t) ! i) = k \<and> dn D s t (Fetch i) \<and> handles s t i = h)"

definition signalled where
  "signalled D T s p k \<longleftrightarrow> (\<exists>t \<in> set T. \<exists>i < length (td_fetch (D t)).
     td_place (D t) = p \<and> td_fetch (D t) ! i = (False, k) \<and> dn D s t (Notify i))"

definition taken where
  "taken D T s p k \<longleftrightarrow> (\<exists>t \<in> set T. \<exists>i < length (td_fetch (D t)).
     td_place (D t) = p \<and> td_fetch (D t) ! i = (True, k) \<and> dn D s t (Await i))"

definition all_fetched where
  "all_fetched D T s p k \<longleftrightarrow> (\<forall>t \<in> set T. \<forall>i < length (td_fetch (D t)).
     td_place (D t) = p \<longrightarrow> snd (td_fetch (D t) ! i) = k \<longrightarrow> dn D s t (Fetch i))"

definition ctl_inv where
  "ctl_inv N D T s \<longleftrightarrow> key_inv N (controllers s) (permits s)
     (holds_handle D T s) (signalled D T s) (taken D T s) (all_fetched D T s)"

lemma tasks_wfD:
  assumes "tasks_wf D T"
  shows "distinct T" and "sorted_wrt (\<lambda>x y. (y, x) \<notin> dep D T) T"
    and "t \<in> set T \<Longrightarrow> distinct (map snd (td_fetch (D t)))"
    and "t \<in> set T \<Longrightarrow> distinct (prog (D t))"
    and "t \<in> set T \<Longrightarrow> t \<notin> set (td_after (D t)) \<and> set (td_after (D t)) \<subseteq> set T"
    and "t \<in> set T \<Longrightarrow> u \<in> set T \<Longrightarrow> td_place (D t) = td_place (D u) \<Longrightarrow>
         (b, k) \<in> set (td_fetch (D t)) \<Longrightarrow> (b, k) \<in> set (td_fetch (D u)) \<Longrightarrow> t = u"
    and "t \<in> set T \<Longrightarrow> (True, k) \<in> set (td_fetch (D t)) \<Longrightarrow>
         \<exists>u \<in> set T. td_place (D u) = td_place (D t) \<and> (False, k) \<in> set (td_fetch (D u))"
    and "t \<in> set T \<Longrightarrow> k \<in> set (td_remove (D t)) \<Longrightarrow> (True, k) \<in> set (td_fetch (D t)) \<or>
         (\<forall>u \<in> set T. td_place (D u) = td_place (D t) \<longrightarrow> k \<notin> snd ` set (td_fetch (D u)))"
proof -
  note c = assms[unfolded tasks_wf_def]
  note c3 = c[THEN conjunct2, THEN conjunct2, THEN conjunct1]
  show "distinct T" "sorted_wrt (\<lambda>x y. (y, x) \<notin> dep D T) T" using c by auto
  show "t \<in> set T \<Longrightarrow> distinct (map snd (td_fetch (D t)))"
    "t \<in> set T \<Longrightarrow> distinct (prog (D t))"
    "t \<in> set T \<Longrightarrow> t \<notin> set (td_after (D t)) \<and> set (td_after (D t)) \<subseteq> set T"
    using c3 distinct_prog by blast+
  show "t \<in> set T \<Longrightarrow> u \<in> set T \<Longrightarrow> td_place (D t) = td_place (D u) \<Longrightarrow>
         (b, k) \<in> set (td_fetch (D t)) \<Longrightarrow> (b, k) \<in> set (td_fetch (D u)) \<Longrightarrow> t = u"
    using c[THEN conjunct2, THEN conjunct2, THEN conjunct2, THEN conjunct1] by blast
  show "t \<in> set T \<Longrightarrow> (True, k) \<in> set (td_fetch (D t)) \<Longrightarrow>
         \<exists>u \<in> set T. td_place (D u) = td_place (D t) \<and> (False, k) \<in> set (td_fetch (D u))"
    using c[THEN conjunct2, THEN conjunct2, THEN conjunct2, THEN conjunct2, THEN conjunct1] by blast
  show "t \<in> set T \<Longrightarrow> k \<in> set (td_remove (D t)) \<Longrightarrow> (True, k) \<in> set (td_fetch (D t)) \<or>
         (\<forall>u \<in> set T. td_place (D u) = td_place (D t) \<longrightarrow> k \<notin> snd ` set (td_fetch (D u)))"
    using c[THEN conjunct2, THEN conjunct2, THEN conjunct2, THEN conjunct2, THEN conjunct2] by blast
qed

lemma tasks_wfI:
  assumes "distinct T" "sorted_wrt (\<lambda>x y. (y, x) \<notin> dep D T) T"
    and "\<And>t. t \<in> set T \<Longrightarrow> distinct (map snd (td_fetch (D t))) \<and> distinct (td_remove (D t)) \<and>
        t \<notin> set (td_after (D t)) \<and> set (td_after (D t)) \<subseteq> set T"
    and "\<And>t u b k. t \<in> set T \<Longrightarrow> u \<in> set T \<Longrightarrow> td_place (D t) = td_place (D u) \<Longrightarrow>
        (b, k) \<in> set (td_fetch (D t)) \<Longrightarrow> (b, k) \<in> set (td_fetch (D u)) \<Longrightarrow> t = u"
    and "\<And>t k. t \<in> set T \<Longrightarrow> (True, k) \<in> set (td_fetch (D t)) \<Longrightarrow>
        \<exists>u \<in> set T. td_place (D u) = td_place (D t) \<and> (False, k) \<in> set (td_fetch (D u))"
    and "\<And>t k. t \<in> set T \<Longrightarrow> k \<in> set (td_remove (D t)) \<Longrightarrow> (True, k) \<in> set (td_fetch (D t)) \<or>
        (\<forall>u \<in> set T. td_place (D u) = td_place (D t) \<longrightarrow> k \<notin> snd ` set (td_fetch (D u)))"
  shows "tasks_wf D T"
proof -
  have c: "\<forall>t \<in> set T. distinct (map snd (td_fetch (D t))) \<and> distinct (td_remove (D t)) \<and>
        t \<notin> set (td_after (D t)) \<and> set (td_after (D t)) \<subseteq> set T"
    "\<forall>t \<in> set T. \<forall>u \<in> set T. \<forall>b k. td_place (D t) = td_place (D u) \<longrightarrow>
        (b, k) \<in> set (td_fetch (D t)) \<longrightarrow> (b, k) \<in> set (td_fetch (D u)) \<longrightarrow> t = u"
    "\<forall>t \<in> set T. \<forall>k. (True, k) \<in> set (td_fetch (D t)) \<longrightarrow>
        (\<exists>u \<in> set T. td_place (D u) = td_place (D t) \<and> (False, k) \<in> set (td_fetch (D u)))"
    "\<forall>t \<in> set T. \<forall>k \<in> set (td_remove (D t)). (True, k) \<in> set (td_fetch (D t)) \<or>
        (\<forall>u \<in> set T. td_place (D u) = td_place (D t) \<longrightarrow> k \<notin> snd ` set (td_fetch (D u)))"
    by (intro ballI allI impI; rule assms; assumption)+
  show ?thesis
    unfolding tasks_wf_def
    by (rule conjI[OF assms(1) conjI[OF assms(2) conjI[OF c(1) conjI[OF c(2) conjI[OF c(3,4)]]]]])
qed

text \<open>The index of a key in a task is unique, and so is the task for each role.\<close>

lemma key_index:
  assumes "tasks_wf D T" "t \<in> set T" "i < length (td_fetch (D t))" "j < length (td_fetch (D t))"
    and "snd (td_fetch (D t) ! i) = snd (td_fetch (D t) ! j)"
  shows "i = j"
  using tasks_wfD(3)[OF assms(1,2)] assms(3-5) by (auto simp: distinct_conv_nth)

lemma key_role_unique:
  assumes wf: "tasks_wf D T" and t: "t \<in> set T" "i < length (td_fetch (D t))"
    and u: "u \<in> set T" "j < length (td_fetch (D u))"
    and p: "td_place (D t) = td_place (D u)" and k: "td_fetch (D t) ! i = td_fetch (D u) ! j"
  shows "t = u" "i = j"
proof -
  obtain b k' where bk: "td_fetch (D t) ! i = (b, k')" by (cases "td_fetch (D t) ! i")
  have "(b, k') \<in> set (td_fetch (D t))" "(b, k') \<in> set (td_fetch (D u))"
    using t(2) u(2) k bk by (metis nth_mem)+
  then show "t = u" using tasks_wfD(6)[OF wf t(1) u(1) p] by blast
  then show "i = j" using key_index[OF wf t] u(2) k by auto
qed

lemma ctl_inv_init: "ctl_inv N D T (sys_init N s0)"
  unfolding ctl_inv_def
  by (rule key_invI)
    (auto simp: holds_handle_def signalled_def taken_def sys_init_def dn_def)

text \<open>Actions that leave the registration alone leave the views of the keys alone.\<close>

lemma views_unchanged:
  assumes "\<And>u b. rank b \<in> {1, 3, 7} \<Longrightarrow> dn D s' u b \<longleftrightarrow> dn D s u b" "handles s' = handles s"
  shows "holds_handle D T s' = holds_handle D T s" "signalled D T s' = signalled D T s"
    "taken D T s' = taken D T s" "all_fetched D T s' = all_fetched D T s"
  using assms by (auto simp: fun_eq_iff holds_handle_def signalled_def taken_def all_fetched_def)

lemma ctl_inv_fetch:
  assumes wf: "tasks_wf D T" and t: "t \<in> set T" and inv: "ctl_inv N D T s"
    and i: "i < length (td_fetch (D t))" and nd: "\<not> dn D s t (Fetch i)"
    and p: "p = td_place (D t)" and k: "k = snd (td_fetch (D t) ! i)"
    and e: "enter_key 0 (controllers s p) k = Inr (c', h)"
    and C: "controllers s' = (controllers s)(p := c')" "permits s' = permits s"
      "handles s' = (handles s)(t := (handles s t)(i := h))"
    and dn': "\<And>u b. dn D s' u b \<longleftrightarrow> dn D s u b \<or> (u = t \<and> b = Fetch i)"
  shows "ctl_inv N D T s'"
proof -
  have nA: "\<not> all_fetched D T s p k"
    using t i nd p k by (auto simp: all_fetched_def)
  have H: "holds_handle D T s' = (\<lambda>q l j. holds_handle D T s q l j \<or> (q = p \<and> l = k \<and> j = h))"
  proof (intro ext iffI)
    fix q l j assume "holds_handle D T s' q l j"
    then obtain u m where "u \<in> set T" "m < length (td_fetch (D u))" "td_place (D u) = q"
      "snd (td_fetch (D u) ! m) = l" "dn D s u (Fetch m) \<or> (u = t \<and> m = i)" "handles s' u m = j"
      by (auto simp: holds_handle_def dn')
    then show "holds_handle D T s q l j \<or> (q = p \<and> l = k \<and> j = h)"
      using nd unfolding holds_handle_def C p k by (cases "u = t \<and> m = i") (auto split: if_splits)
  next
    fix q l j assume "holds_handle D T s q l j \<or> (q = p \<and> l = k \<and> j = h)"
    then show "holds_handle D T s' q l j"
    proof
      assume "holds_handle D T s q l j"
      then obtain u m where u: "u \<in> set T" "m < length (td_fetch (D u))" "td_place (D u) = q"
        "snd (td_fetch (D u) ! m) = l" "dn D s u (Fetch m)" "handles s u m = j"
        by (auto simp: holds_handle_def)
      then have "handles s' u m = j" using nd by (cases "u = t \<and> m = i") (auto simp: C)
      with u show ?thesis unfolding holds_handle_def dn' by blast
    next
      assume "q = p \<and> l = k \<and> j = h"
      then show ?thesis unfolding holds_handle_def dn' using t i C(3) p k by auto
    qed
  qed
  have S: "signalled D T s' = signalled D T s" "taken D T s' = taken D T s"
    unfolding signalled_def taken_def dn' by (intro ext; auto)+
  have A: "all_fetched D T s q l \<Longrightarrow> all_fetched D T s' q l" for q l
    unfolding all_fetched_def dn' by blast
  show ?thesis
    unfolding ctl_inv_def H S C
    by (rule key_inv_fetch[OF inv[unfolded ctl_inv_def] nA e A])
qed

lemma ctl_inv_notify:
  assumes wf: "tasks_wf D T" and t: "t \<in> set T" and inv: "ctl_inv N D T s"
    and i: "i < length (td_fetch (D t))" "td_fetch (D t) ! i = (False, k)"
    and nd: "\<not> dn D s t (Notify i)" and f: "dn D s t (Fetch i)" and p: "p = td_place (D t)"
    and C: "controllers s' = controllers s" "handles s' = handles s"
      "permits s' = (permits s)((p, handles s t i) := n_notify_one N (permits s (p, handles s t i)))"
    and dn': "\<And>u b. dn D s' u b \<longleftrightarrow> dn D s u b \<or> (u = t \<and> b = Notify i)"
  shows "ctl_inv N D T s'"
proof -
  have F: "holds_handle D T s p k (handles s t i)"
    using t i f p by (fastforce simp: holds_handle_def)
  have nS: "\<not> signalled D T s p k"
  proof
    assume "signalled D T s p k"
    then obtain u j where "u \<in> set T" "j < length (td_fetch (D u))" "td_place (D u) = p"
      "td_fetch (D u) ! j = (False, k)" "dn D s u (Notify j)" by (auto simp: signalled_def)
    then show False using key_role_unique[OF wf t i(1), of u j] i(2) nd p by metis
  qed
  have S: "signalled D T s' = (\<lambda>q l. signalled D T s q l \<or> (q = p \<and> l = k))"
    unfolding signalled_def dn' using t i p by (intro ext) auto
  have O: "holds_handle D T s' = holds_handle D T s" "taken D T s' = taken D T s"
    "all_fetched D T s' = all_fetched D T s"
    unfolding holds_handle_def taken_def all_fetched_def dn' C by (intro ext; auto)+
  show ?thesis
    unfolding ctl_inv_def S O C by (rule key_inv_notify[OF inv[unfolded ctl_inv_def] F nS])
qed

lemma ctl_inv_await:
  assumes wf: "tasks_wf D T" and t: "t \<in> set T" and inv: "ctl_inv N D T s"
    and laws: "notify_laws N"
    and i: "i < length (td_fetch (D t))" "td_fetch (D t) ! i = (True, k)"
    and f: "dn D s t (Fetch i)" and p: "p = td_place (D t)"
    and n: "n_notified N (permits s (p, handles s t i)) = Some n"
    and C: "controllers s' = controllers s" "handles s' = handles s"
      "permits s' = (permits s)((p, handles s t i) := n)"
    and dn': "\<And>u b. dn D s' u b \<longleftrightarrow> dn D s u b \<or> (u = t \<and> b = Await i)"
  shows "ctl_inv N D T s'"
proof -
  have F: "holds_handle D T s p k (handles s t i)"
    using t i f p by (fastforce simp: holds_handle_def)
  have K: "taken D T s' = (\<lambda>q l. taken D T s q l \<or> (q = p \<and> l = k))"
    unfolding taken_def dn' using t i p by (intro ext) auto
  have O: "holds_handle D T s' = holds_handle D T s" "signalled D T s' = signalled D T s"
    "all_fetched D T s' = all_fetched D T s"
    unfolding holds_handle_def signalled_def all_fetched_def dn' C by (intro ext; auto)+
  show ?thesis
    unfolding ctl_inv_def K O C by (rule key_inv_await(2)[OF inv[unfolded ctl_inv_def] F laws n])
qed

text \<open>When the signal of a key is taken, both users of the key have fetched it.\<close>

lemma taken_all_fetched:
  assumes wf: "tasks_wf D T" and inv: "ctl_inv N D T s" and K: "taken D T s p k"
  shows "all_fetched D T s p k"
  unfolding all_fetched_def
proof (intro ballI allI impI)
  fix u j assume u: "u \<in> set T" "j < length (td_fetch (D u))" "td_place (D u) = p"
    "snd (td_fetch (D u) ! j) = k"
  obtain t i where t: "t \<in> set T" "i < length (td_fetch (D t))" "td_place (D t) = p"
    "td_fetch (D t) ! i = (True, k)" "dn D s t (Await i)" using K by (auto simp: taken_def)
  have "signalled D T s p k" using key_invD(10)[OF inv[unfolded ctl_inv_def] K] .
  then obtain v m where v: "v \<in> set T" "m < length (td_fetch (D v))" "td_place (D v) = p"
    "td_fetch (D v) ! m = (False, k)" "dn D s v (Notify m)" by (auto simp: signalled_def)
  have "dn D s t (Fetch i)" "dn D s v (Fetch m)"
    using dn_rank[OF _ t(5), of "Fetch i"] dn_rank[OF _ v(5), of "Fetch m"] t(2) v(2)
    by (simp_all add: set_prog)
  moreover have "(u = t \<and> j = i) \<or> (u = v \<and> j = m)"
    using key_role_unique[OF wf u(1,2), of t i] key_role_unique[OF wf u(1,2), of v m] t v u
    by (cases "td_fetch (D u) ! j"; cases "fst (td_fetch (D u) ! j)") auto
  ultimately show "dn D s u (Fetch j)" by blast
qed

lemma ctl_inv_other:
  assumes inv: "ctl_inv N D T s" and "rank a \<notin> {1, 3, 7}"
    and C: "controllers s' = controllers s" "permits s' = permits s" "handles s' = handles s"
    and dn': "\<And>u b. dn D s' u b \<longleftrightarrow> dn D s u b \<or> (u = t \<and> b = a)"
  shows "ctl_inv N D T s'"
proof -
  have "dn D s' u b \<longleftrightarrow> dn D s u b" if "rank b \<in> {1, 3, 7}" for u b
    using that assms(2) dn' by metis
  then show ?thesis using inv views_unchanged[OF _ C(3)] unfolding ctl_inv_def C by metis
qed

lemma ctl_inv_remove:
  assumes wf: "tasks_wf D T" and inv: "ctl_inv N D T s" and t: "t \<in> set T"
    and k: "k \<in> set (td_remove (D t))" and p: "p = td_place (D t)"
    and before: "\<And>b. b \<in> set (prog (D t)) \<Longrightarrow> rank b < 4 \<Longrightarrow> dn D s t b"
    and C: "controllers s' = (controllers s)(p := remove_key (controllers s p) k)"
      "permits s' = permits s" "handles s' = handles s"
    and dn': "\<And>u b. dn D s' u b \<longleftrightarrow> dn D s u b \<or> (u = t \<and> b = Remove k)"
  shows "ctl_inv N D T s'"
proof -
  have "all_fetched D T s p k"
    using tasks_wfD(8)[OF wf t k]
  proof
    assume "(True, k) \<in> set (td_fetch (D t))"
    then obtain i where i: "i < length (td_fetch (D t))" "td_fetch (D t) ! i = (True, k)"
      by (metis in_set_conv_nth)
    then have "dn D s t (Await i)" using before[of "Await i"] by (simp add: set_prog)
    then have "taken D T s p k" using t i p by (auto simp: taken_def)
    then show ?thesis by (rule taken_all_fetched[OF wf inv])
  next
    assume none: "\<forall>u \<in> set T. td_place (D u) = td_place (D t) \<longrightarrow> k \<notin> snd ` set (td_fetch (D u))"
    show ?thesis
      unfolding all_fetched_def using none p by (metis image_eqI nth_mem)
  qed
  then have K: "key_inv N (controllers s') (permits s')
      (holds_handle D T s) (signalled D T s) (taken D T s) (all_fetched D T s)"
    unfolding C by (rule key_inv_remove[OF inv[unfolded ctl_inv_def]])
  have "dn D s' u b \<longleftrightarrow> dn D s u b" if "rank b \<in> {1, 3, 7}" for u b
    using that dn'[of u b] by auto
  then show ?thesis using K views_unchanged[OF _ C(3)] unfolding ctl_inv_def by metis
qed

lemma ctl_inv_step:
  assumes wf: "tasks_wf D T" and laws: "notify_laws N" and inv: "ctl_inv N D T s"
    and t: "t \<in> set T" and r: "run_task N D t s = Next s'"
  shows "ctl_inv N D T s'"
  using r
proof (cases rule: run_task_cases)
  case (1 a s1)
  have nd: "\<not> dn D s t a" using at_not_dn[of D t s] tasks_wfD(4)[OF wf t] 1(1,2) by blast
  let ?p = "td_place (D t)"
  note dn' = 1(7)
  show ?thesis
  proof (cases a)
    case (Fetch i)
    then have i: "i < length (td_fetch (D t))" using 1(5) by (simp add: set_prog)
    obtain c' h where en: "enter_key 0 (controllers s ?p) (snd (td_fetch (D t) ! i)) = Inr (c', h)"
      and s1: "s1 = s\<lparr>controllers := (controllers s)(?p := c'), handles := (handles s)(t := (handles s t)(i := h))\<rparr>"
      using 1(3) Fetch by (auto simp: effect_def Let_def split: sum.splits)
    show ?thesis
      by (rule ctl_inv_fetch[OF wf t inv i nd[unfolded Fetch] refl refl en _ _ _ dn'[unfolded Fetch]])
        (simp_all add: 1(4) s1)
  next
    case (Await i)
    then have i: "i < length (td_fetch (D t))" "fst (td_fetch (D t) ! i)" using 1(5) by (simp_all add: set_prog)
    then obtain k where k: "td_fetch (D t) ! i = (True, k)" by (cases "td_fetch (D t) ! i") auto
    obtain n where n: "n_notified N (permits s (?p, handles s t i)) = Some n"
      and s1: "s1 = s\<lparr>permits := (permits s)((?p, handles s t i) := n)\<rparr>"
      using 1(3) Await by (auto simp: effect_def Let_def split: option.splits)
    have f: "dn D s t (Fetch i)" using 1(6)[of "Fetch i"] i Await by (simp add: set_prog)
    show ?thesis
      by (rule ctl_inv_await[OF wf t inv laws i(1) k f refl n _ _ _ dn'[unfolded Await]])
        (simp_all add: 1(4) s1)
  next
    case (Notify i)
    then have i: "i < length (td_fetch (D t))" "\<not> fst (td_fetch (D t) ! i)" using 1(5) by (simp_all add: set_prog)
    then obtain k where k: "td_fetch (D t) ! i = (False, k)" by (cases "td_fetch (D t) ! i") auto
    have s1: "s1 = s\<lparr>permits := (permits s)((?p, handles s t i) := n_notify_one N (permits s (?p, handles s t i)))\<rparr>"
      using 1(3) Notify by (simp add: effect_def Let_def)
    have f: "dn D s t (Fetch i)" using 1(6)[of "Fetch i"] i Notify by (simp add: set_prog)
    show ?thesis
      by (rule ctl_inv_notify[OF wf t inv i(1) k nd[unfolded Notify] f refl _ _ _ dn'[unfolded Notify]])
        (simp_all add: 1(4) s1)
  next
    case (Remove k)
    have k: "k \<in> set (td_remove (D t))" using 1(5) Remove by (simp add: set_prog)
    have s1: "s1 = s\<lparr>controllers := (controllers s)(?p := remove_key (controllers s ?p) k)\<rparr>"
      using 1(3) Remove by (simp add: effect_def Let_def)
    show ?thesis
      by (rule ctl_inv_remove[OF wf inv t k refl _ _ _ _ dn'[unfolded Remove]])
        (use 1(6) Remove in \<open>simp_all add: 1(4) s1\<close>)
  qed (use 1(3) in \<open>intro ctl_inv_other[OF inv _ _ _ _ dn'];
        simp add: 1(4) effect_def Let_def split: if_splits; fastforce\<close>)+
qed


section \<open>Reachable states\<close>

lemma reachable_ctl_inv:
  "reachable N D T s0 s \<Longrightarrow> tasks_wf D T \<Longrightarrow> notify_laws N \<Longrightarrow> ctl_inv N D T s"
  by (induction rule: reachable.induct) (auto simp: ctl_inv_init elim!: stepE intro: ctl_inv_step)

lemma reachable_pc_le: "reachable N D T s0 s \<Longrightarrow> pc s t \<le> length (prog (D t))"
proof (induction rule: reachable.induct)
  case init
  then show ?case by (simp add: sys_init_def)
next
  case (next_step s s')
  then show ?case by (auto elim!: stepE run_task_cases)
qed

lemma finished_stable: "finished D s u \<Longrightarrow> run_task N D t s = Next s' \<Longrightarrow> finished D s' u"
  by (auto simp: finished_def elim!: run_task_cases)

lemma reachable_started:
  "reachable N D T s0 s \<Longrightarrow> dn D s t Start \<Longrightarrow> u \<in> set (td_after (D t)) \<Longrightarrow> finished D s u"
proof (induction rule: reachable.induct)
  case init
  then show ?case by simp
next
  case (next_step s s')
  from next_step.hyps(2) obtain t' where r: "run_task N D t' s = Next s'" by (auto elim: stepE)
  from r show ?case
  proof (cases rule: run_task_cases)
    case (1 a s1)
    show ?thesis
    proof (cases "dn D s t Start")
      case True
      then show ?thesis using next_step finished_stable[OF _ r] by blast
    next
      case False
      then have "t' = t" "a = Start" using next_step.prems(1) 1(7) by blast+
      then have "finished D s u"
        using 1(3) next_step.prems(2) by (auto simp: effect_def finished_def split: if_splits)
      then show ?thesis by (rule finished_stable[OF _ r])
    qed
  qed
qed

text \<open>A task reads only after the tasks it depends on have committed.\<close>

lemma dep_read_committed:
  assumes reach: "reachable N D T s0 s" and wf: "tasks_wf D T" and laws: "notify_laws N"
    and d: "(u, t) \<in> dep D T" and rd: "dn D s t Read"
  shows "dn D s u Commit"
proof -
  have u: "u \<in> set T" and t: "t \<in> set T" using d by (auto simp: dep_def)
  consider (after) "u \<in> set (td_after (D t))"
    | (key) k where "td_place (D u) = td_place (D t)" "(False, k) \<in> set (td_fetch (D u))"
        "(True, k) \<in> set (td_fetch (D t))"
    using d by (auto simp: dep_def)
  then show ?thesis
  proof cases
    case after
    have "dn D s t Start" using dn_rank[OF _ rd, of Start] by (simp add: set_prog)
    then show ?thesis using reachable_started[OF reach _ after] by (simp add: dn_finished set_prog)
  next
    case key
    then obtain i where i: "i < length (td_fetch (D t))" "td_fetch (D t) ! i = (True, k)"
      by (metis in_set_conv_nth)
    then have "dn D s t (Await i)" using dn_rank[OF _ rd, of "Await i"] by (simp add: set_prog)
    then have "taken D T s (td_place (D t)) k" using t i by (auto simp: taken_def)
    then have "signalled D T s (td_place (D t)) k"
      by (rule key_invD(10)[OF reachable_ctl_inv[OF reach wf laws, unfolded ctl_inv_def]])
    then obtain v j where v: "v \<in> set T" "j < length (td_fetch (D v))" "td_place (D v) = td_place (D t)"
      "td_fetch (D v) ! j = (False, k)" "dn D s v (Notify j)" by (auto simp: signalled_def)
    then have "(False, k) \<in> set (td_fetch (D v))" by (metis nth_mem)
    then have "v = u" using tasks_wfD(6)[OF wf v(1) u] v(3) key by auto
    then show ?thesis using dn_rank[OF _ v(5), of Commit] by (simp add: set_prog)
  qed
qed

lemma dep_trancl_read_committed:
  assumes "reachable N D T s0 s" "tasks_wf D T" "notify_laws N" "(u, t) \<in> (dep D T)\<^sup>+" "dn D s t Read"
  shows "dn D s u Commit"
  using assms(4,5)
proof (induction rule: trancl_induct)
  case (base y)
  then show ?case using dep_read_committed[OF assms(1-3)] by blast
next
  case (step y z)
  then have "dn D s y Commit" using dep_read_committed[OF assms(1-3)] by blast
  then have "dn D s y Read" by (rule dn_rank[rotated]) (simp_all add: set_prog)
  then show ?case by (rule step.IH)
qed

text \<open>Two tasks that are both between reading and committing do not conflict.\<close>

lemma isolation:
  assumes "reachable N D T s0 s" "tasks_wf D T" "notify_laws N" "conflicts_ordered D T R W"
    and "t \<in> set T" "u \<in> set T" "t \<noteq> u"
    and "dn D s t Read" "\<not> dn D s t Commit" "dn D s u Read" "\<not> dn D s u Commit"
  shows "\<not> conflict R W t u"
  using assms dep_trancl_read_committed[OF assms(1-3)] unfolding conflicts_ordered_def by blast


section \<open>The store\<close>

lemma run_sequentially_simps [simp]:
  "run_sequentially D [] s = s"
  "run_sequentially D (ts @ [t]) s = apply_task D t (run_sequentially D ts s)"
  by (simp_all add: run_sequentially_def)

lemma body_unchanged:
  assumes "footprints D T R W" "t \<in> set T" "u \<in> set T" "\<not> conflict R W t u"
  shows "td_body (D t) (s ++ td_body (D u) s') = td_body (D t) s"
proof -
  have "(s ++ td_body (D u) s') l = s l" if "l \<in> R t" for l
  proof -
    have "l \<notin> W u" using assms(4) that by (auto simp: conflict_def)
    moreover have "dom (td_body (D u) s') \<subseteq> W u" using assms(1,3) unfolding footprints_def by blast
    ultimately have "td_body (D u) s' l = None" by blast
    then show ?thesis by (simp add: map_add_def)
  qed
  then show ?thesis using assms(1,2) unfolding footprints_def by blast
qed

definition exec_inv where
  "exec_inv D T s0 s \<longleftrightarrow>
     (\<forall>t \<in> set T. dn D s t Commit \<longleftrightarrow> t \<in> set (committed s)) \<and>
     distinct (committed s) \<and> set (committed s) \<subseteq> set T \<and>
     sys_store s = run_sequentially D (committed s) s0 \<and>
     (\<forall>t \<in> set T. dn D s t Read \<longrightarrow> \<not> dn D s t Commit \<longrightarrow> pending s t = td_body (D t) (sys_store s)) \<and>
     (\<forall>xs t ys. committed s = xs @ t # ys \<longrightarrow>
        pending s t = td_body (D t) (run_sequentially D xs s0) \<and> (\<forall>u. (u, t) \<in> dep D T \<longrightarrow> u \<in> set xs))"

lemma exec_inv_step:
  assumes reach: "reachable N D T s0 s" and wf: "tasks_wf D T" and laws: "notify_laws N"
    and fp: "footprints D T R W" and co: "conflicts_ordered D T R W"
    and inv: "exec_inv D T s0 s" and t: "t \<in> set T" and r: "run_task N D t s = Next s'"
  shows "exec_inv D T s0 s'"
  using r
proof (cases rule: run_task_cases)
  case (1 a s1)
  have nd: "\<not> dn D s t a" using at_not_dn[of D t s] tasks_wfD(4)[OF wf t] 1(1,2) by blast
  note dn' = 1(7)
  from inv have com: "\<And>u. u \<in> set T \<Longrightarrow> dn D s u Commit \<longleftrightarrow> u \<in> set (committed s)"
    and dist: "distinct (committed s)" and sub: "set (committed s) \<subseteq> set T"
    and st: "sys_store s = run_sequentially D (committed s) s0"
    and pend: "\<And>u. u \<in> set T \<Longrightarrow> dn D s u Read \<Longrightarrow> \<not> dn D s u Commit \<Longrightarrow>
       pending s u = td_body (D u) (sys_store s)"
    and log: "\<And>xs u ys. committed s = xs @ u # ys \<Longrightarrow>
        pending s u = td_body (D u) (run_sequentially D xs s0) \<and> (\<forall>v. (v, u) \<in> dep D T \<longrightarrow> v \<in> set xs)"
    unfolding exec_inv_def by blast+
  consider (read) "a = Read" | (commit) "a = Commit" | (other) "a \<noteq> Read" "a \<noteq> Commit" by blast
  then show ?thesis
  proof cases
    case read
    have s': "sys_store s' = sys_store s" "committed s' = committed s"
      "pending s' = (pending s)(t := td_body (D t) (sys_store s))"
      using 1(3,4) read by (auto simp: effect_def)
    have "\<not> dn D s t Commit" using nd read dn_rank[of Read D t s Commit] by (auto simp: set_prog)
    then have tc: "t \<notin> set (committed s)" using com t by blast
    show ?thesis
      unfolding exec_inv_def s' dn' using read com dist sub st pend log tc t by auto
  next
    case commit
    have rd: "dn D s t Read" using 1(6)[of Read] commit by (simp add: set_prog)
    have pt: "pending s t = td_body (D t) (sys_store s)" using pend[OF t rd] nd commit by simp
    have s': "sys_store s' = sys_store s ++ pending s t" "committed s' = committed s @ [t]"
      "pending s' = pending s" using 1(3,4) commit by (auto simp: effect_def)
    have tc: "t \<notin> set (committed s)" using com[OF t] nd commit by simp
    have other: "pending s u = td_body (D u) (sys_store s ++ pending s t)"
      if u: "u \<in> set T" "dn D s u Read" "\<not> dn D s u Commit" "u \<noteq> t" for u
    proof -
      have "\<not> conflict R W u t"
        using isolation[OF reach wf laws co u(1) t u(4) u(2,3) rd] nd commit by simp
      then show ?thesis using body_unchanged[OF fp u(1) t] pend[OF u(1-3)] pt by simp
    qed
    have preds: "u \<in> set (committed s)" if "(u, t) \<in> dep D T" for u
      using dep_read_committed[OF reach wf laws that rd] com that by (auto simp: dep_def)
    have log': "pending s u = td_body (D u) (run_sequentially D xs s0) \<and> (\<forall>v. (v, u) \<in> dep D T \<longrightarrow> v \<in> set xs)"
      if "committed s @ [t] = xs @ u # ys" for xs u ys
      using that log[of xs u] pt st preds by (cases ys rule: rev_cases) auto
    show ?thesis
      unfolding exec_inv_def s' dn'
      using commit com dist sub st pt tc t other log' by (auto simp: apply_task_def)
  next
    case other
    have s': "sys_store s' = sys_store s" "committed s' = committed s" "pending s' = pending s"
      using 1(3,4) other
      by (auto simp: effect_def Let_def split: act.splits if_splits sum.splits option.splits)
    show ?thesis
      unfolding exec_inv_def s' dn' using other com dist sub st pend log by auto
  qed
qed

lemma reachable_exec_inv:
  assumes "reachable N D T s0 s" "tasks_wf D T" "notify_laws N" "footprints D T R W" "conflicts_ordered D T R W"
  shows "exec_inv D T s0 s"
  using assms(1)
proof (induction rule: reachable.induct)
  case init
  show ?case by (simp add: exec_inv_def sys_init_def dn_def)
next
  case (next_step s s')
  then show ?case using exec_inv_step[OF next_step.hyps(1) assms(2-5)] by (auto elim!: stepE)
qed


section \<open>Equal results in every order\<close>

definition obeys :: "('t \<times> 't) set \<Rightarrow> 't list \<Rightarrow> bool" where
  "obeys r L \<longleftrightarrow> (\<forall>xs t ys u. L = xs @ t # ys \<longrightarrow> (u, t) \<in> r \<longrightarrow> u \<in> set xs)"

lemma obeysD: "obeys r L \<Longrightarrow> L = xs @ t # ys \<Longrightarrow> (u, t) \<in> r \<Longrightarrow> u \<in> set xs"
  unfolding obeys_def by blast

lemma obeys_trancl:
  assumes "obeys r L"
  shows "obeys (r\<^sup>+) L"
proof -
  have "(u, t) \<in> r\<^sup>+ \<Longrightarrow> L = xs @ t # ys \<Longrightarrow> u \<in> set xs" for xs t ys u
  proof (induction arbitrary: xs ys rule: trancl_induct)
    case (base y)
    then show ?case using obeysD[OF assms] by blast
  next
    case (step y z)
    then have "y \<in> set xs" using obeysD[OF assms] by blast
    then obtain as bs where "xs = as @ y # bs" by (metis split_list)
    then show ?case using step.IH[of as "bs @ z # ys"] step.prems by auto
  qed
  then show ?thesis unfolding obeys_def by blast
qed

lemma obeys_sorted: "distinct L \<Longrightarrow> obeys r L \<Longrightarrow> sorted_wrt (\<lambda>x y. (y, x) \<notin> r) L"
proof (induction L rule: rev_induct)
  case (snoc x xs)
  have "obeys r xs"
    unfolding obeys_def
  proof (intro allI impI)
    fix as t bs u assume "xs = as @ t # bs" "(u, t) \<in> r"
    then show "u \<in> set as" using obeysD[OF snoc.prems(2), of as t "bs @ [x]"] by simp
  qed
  moreover have "(x, y) \<notin> r" if "y \<in> set xs" for y
  proof
    assume r: "(x, y) \<in> r"
    from that obtain as bs where xs: "xs = as @ y # bs" by (metis split_list)
    then have "xs @ [x] = as @ y # (bs @ [x])" by simp
    then have "x \<in> set as" by (rule obeysD[OF snoc.prems(2) _ r])
    then show False using snoc.prems(1) xs by simp
  qed
  ultimately show ?case using snoc by (auto simp: sorted_wrt_append)
qed simp

lemma fold_move_front:
  "(\<And>a s. a \<in> set xs \<Longrightarrow> f y (f a s) = f a (f y s)) \<Longrightarrow> f y (fold f xs s) = fold f xs (f y s)"
  by (induction xs arbitrary: s) auto

lemma fold_reorder:
  assumes "distinct xs" "distinct ys" "set xs = set ys"
    and "sorted_wrt (\<lambda>x y. (y, x) \<notin> r) xs" "sorted_wrt (\<lambda>x y. (y, x) \<notin> r) ys"
    and "\<And>x y s. x \<in> set ys \<Longrightarrow> y \<in> set ys \<Longrightarrow> x \<noteq> y \<Longrightarrow> (x, y) \<notin> r \<Longrightarrow> (y, x) \<notin> r \<Longrightarrow> f x (f y s) = f y (f x s)"
  shows "fold f xs s = fold f ys s"
  using assms
proof (induction ys arbitrary: xs s)
  case (Cons y ys)
  have "y \<in> set xs" using Cons.prems(3) by auto
  then obtain as bs where xs: "xs = as @ y # bs" by (metis split_list)
  have comm: "f y (f a s) = f a (f y s)" if "a \<in> set as" for a s
  proof (rule Cons.prems(6))
    show "(y, a) \<notin> r" using Cons.prems(4) that by (auto simp: xs sorted_wrt_append)
    show "a \<in> set (y # ys)" "y \<noteq> a" using Cons.prems(1,3) that xs by auto
    then show "(a, y) \<notin> r" using Cons.prems(5) by auto
  qed simp
  have "fold f xs s = fold f bs (f y (fold f as s))" by (simp add: xs)
  also have "\<dots> = fold f bs (fold f as (f y s))" using fold_move_front[of as f y s] comm by simp
  also have "\<dots> = fold f (as @ bs) (f y s)" by simp
  also have "\<dots> = fold f ys (f y s)"
  proof (rule Cons.IH)
    show "set (as @ bs) = set ys" using Cons.prems(1-3) xs by auto
  qed (use Cons.prems xs in \<open>auto simp: sorted_wrt_append\<close>)
  finally show ?case by simp
qed simp

text \<open>The sequential execution that also records the updates of every task.\<close>

definition record_task ::
  "('t \<Rightarrow> ('t, 'p, 'o, 'l, 'v) task_desc) \<Rightarrow> 't \<Rightarrow> ('l \<rightharpoonup> 'v) \<times> ('t \<Rightarrow> ('l \<rightharpoonup> 'v) option) \<Rightarrow> ('l \<rightharpoonup> 'v) \<times> ('t \<Rightarrow> ('l \<rightharpoonup> 'v) option)" where
  "record_task D t sr = (apply_task D t (fst sr), (snd sr)(t := Some (td_body (D t) (fst sr))))"

lemma record_task_commute:
  assumes "footprints D T R W" "t \<in> set T" "u \<in> set T" "t \<noteq> u" "\<not> conflict R W t u"
  shows "record_task D t (record_task D u sr) = record_task D u (record_task D t sr)"
proof -
  let ?s = "fst sr"
  have "\<not> conflict R W u t" using assms(5) by (auto simp: conflict_def)
  then have b: "td_body (D t) (?s ++ td_body (D u) ?s) = td_body (D t) ?s"
    "td_body (D u) (?s ++ td_body (D t) ?s) = td_body (D u) ?s"
    using body_unchanged[OF assms(1)] assms(2,3,5) by blast+
  have "dom (td_body (D t) ?s) \<subseteq> W t" "dom (td_body (D u) ?s) \<subseteq> W u" "W t \<inter> W u = {}"
    using assms(1,2,3,5) unfolding footprints_def conflict_def by blast+
  then have "dom (td_body (D t) ?s) \<inter> dom (td_body (D u) ?s) = {}" by blast
  then have "?s ++ td_body (D u) ?s ++ td_body (D t) ?s = ?s ++ td_body (D t) ?s ++ td_body (D u) ?s"
    using map_add_comm[of "td_body (D t) ?s" "td_body (D u) ?s"] map_add_assoc[of ?s] by metis
  then show ?thesis using assms(4) b by (simp add: record_task_def apply_task_def fun_upd_twist)
qed

lemma fold_record_fst: "fst (fold (record_task D) ts (s, r)) = run_sequentially D ts s"
  by (induction ts arbitrary: s r) (simp_all add: record_task_def run_sequentially_def)

lemma record_task_eq: "record_task D t sr = (apply_task D t (fst sr), (snd sr)(t := Some (td_body (D t) (fst sr))))"
  by (simp add: record_task_def)

lemma fold_record_snd:
  assumes "\<And>xs t ys. ts = xs @ t # ys \<Longrightarrow> g t = td_body (D t) (run_sequentially D xs s)"
  shows "snd (fold (record_task D) ts (s, \<lambda>_. None)) = (\<lambda>t. if t \<in> set ts then Some (g t) else None)"
  using assms
proof (induction ts rule: rev_induct)
  case (snoc x xs)
  have "snd (fold (record_task D) xs (s, \<lambda>_. None)) = (\<lambda>t. if t \<in> set xs then Some (g t) else None)"
  proof (rule snoc.IH)
    fix as t bs assume "xs = as @ t # bs"
    then show "g t = td_body (D t) (run_sequentially D as s)" using snoc.prems[of as t "bs @ [x]"] by simp
  qed
  moreover have "g x = td_body (D x) (run_sequentially D xs s)" using snoc.prems by blast
  ultimately show ?case
    by (auto simp: record_task_eq[of D x "fold (record_task D) xs (s, \<lambda>_. None)"] fold_record_fst fun_eq_iff)
qed simp

lemma dep_obeys:
  assumes "tasks_wf D T"
  shows "obeys (dep D T) T"
  unfolding obeys_def
proof (intro allI impI)
  fix xs t ys u assume T: "T = xs @ t # ys" and d: "(u, t) \<in> dep D T"
  have t: "t \<in> set T" and u: "u \<in> set T" using d by (auto simp: dep_def)
  have "u \<noteq> t"
  proof
    assume "u = t"
    then obtain k where k: "(False, k) \<in> set (td_fetch (D t))" "(True, k) \<in> set (td_fetch (D t))"
      using d tasks_wfD(5)[OF assms t] by (auto simp: dep_def)
    then show False using tasks_wfD(3)[OF assms t] by (metis distinct_map inj_onD prod.inject snd_conv)
  qed
  moreover have "u \<notin> set ys"
    using tasks_wfD(2)[OF assms] d unfolding T by (auto simp: sorted_wrt_append)
  ultimately show "u \<in> set xs" using u T by auto
qed

text \<open>
  Serializability: when all tasks are finished, the store and the updates of every task are those
  of the sequential execution in the order of \<open>T\<close>, whatever the interleaving was.
\<close>

lemma serializable:
  assumes reach: "reachable N D T s0 s" and wf: "tasks_wf D T" and laws: "notify_laws N"
    and fp: "footprints D T R W" and co: "conflicts_ordered D T R W"
    and fin: "\<forall>t \<in> set T. finished D s t"
  shows "sys_store s = run_sequentially D T s0"
    and "T = xs @ t # ys \<Longrightarrow> pending s t = td_body (D t) (run_sequentially D xs s0)"
proof -
  have inv: "exec_inv D T s0 s" using reachable_exec_inv[OF assms(1-5)] .
  let ?c = "committed s"
  have set: "set ?c = set T"
    using inv fin dn_finished[of D s] set_prog(3) unfolding exec_inv_def by blast
  have log: "?c = xs @ t # ys \<Longrightarrow> pending s t = td_body (D t) (run_sequentially D xs s0)" for xs t ys
    using inv unfolding exec_inv_def by blast
  have resp: "obeys (dep D T) ?c" using inv unfolding exec_inv_def obeys_def by blast
  have eq: "fold (record_task D) ?c sr = fold (record_task D) T sr" for sr
  proof (rule fold_reorder[where r = "(dep D T)\<^sup>+"])
    show "distinct ?c" "distinct T" using inv tasks_wfD(1)[OF wf] unfolding exec_inv_def by auto
    then show "sorted_wrt (\<lambda>x y. (y, x) \<notin> (dep D T)\<^sup>+) ?c" "sorted_wrt (\<lambda>x y. (y, x) \<notin> (dep D T)\<^sup>+) T"
      using obeys_sorted obeys_trancl resp dep_obeys[OF wf] by blast+
    fix x y sr assume "x \<in> set T" "y \<in> set T" "x \<noteq> y" "(x, y) \<notin> (dep D T)\<^sup>+" "(y, x) \<notin> (dep D T)\<^sup>+"
    then show "record_task D x (record_task D y sr) = record_task D y (record_task D x sr)"
      using co record_task_commute[OF fp] unfolding conflicts_ordered_def by blast
  qed (rule set)
  have "sys_store s = run_sequentially D ?c s0" using inv unfolding exec_inv_def by blast
  also have "\<dots> = run_sequentially D T s0"
    using eq[of "(s0, \<lambda>_. None)"] fold_record_fst by metis
  finally show "sys_store s = run_sequentially D T s0" .
  define g where "g t = (THE b. \<forall>xs ys. T = xs @ t # ys \<longrightarrow> b = td_body (D t) (run_sequentially D xs s0))" for t
  have g: "g t = td_body (D t) (run_sequentially D xs s0)" if T: "T = xs @ t # ys" for xs t ys
  proof -
    have "xs' = xs" if "T = xs' @ t # ys'" for xs' ys'
      using that T tasks_wfD(1)[OF wf] by (metis append_Cons_eq_iff distinct.simps(2) distinct_append not_distinct_conv_prefix)
    then show ?thesis unfolding g_def using T by (intro the_equality) blast+
  qed
  show "pending s t = td_body (D t) (run_sequentially D xs s0)" if T: "T = xs @ t # ys"
  proof -
    have "Some (pending s t) = snd (fold (record_task D) ?c (s0, \<lambda>_. None)) t"
      using fold_record_snd[of ?c "pending s" D s0] log set T by auto
    also have "\<dots> = Some (g t)"
      using fold_record_snd[of T g D s0] g T eq by auto
    finally show ?thesis using g[OF T] by simp
  qed
qed


section \<open>Progress and termination\<close>

lemma no_panic:
  assumes "reachable N D T s0 s" "tasks_wf D T" "notify_laws N"
  shows "run_task N D t s \<noteq> Panicked e"
proof -
  have "vdc_wf (controllers s (td_place (D t)))"
    using key_invD(1)[OF reachable_ctl_inv[OF assms, unfolded ctl_inv_def]] .
  then have "enter_key 0 (controllers s (td_place (D t))) (snd (td_fetch (D t) ! i)) \<noteq> Inl e" for i
    using vc.enter_total by (metis Inl_Inr_False)
  then show ?thesis
    by (auto simp: run_task_def effect_def Let_def split: act.splits outcome.splits option.splits sum.splits)
qed

lemma signalled_when_finished:
  assumes wf: "tasks_wf D T" and t: "t \<in> set T" and k: "(True, k) \<in> set (td_fetch (D t))"
    and preds: "\<And>u. (u, t) \<in> dep D T \<Longrightarrow> finished D s u"
  shows "signalled D T s (td_place (D t)) k"
proof -
  obtain u where u: "u \<in> set T" "td_place (D u) = td_place (D t)" "(False, k) \<in> set (td_fetch (D u))"
    using tasks_wfD(7)[OF wf t k] by blast
  then have fin: "finished D s u" using preds[of u] t k unfolding dep_def by blast
  obtain j where j: "j < length (td_fetch (D u))" "td_fetch (D u) ! j = (False, k)"
    using u(3) by (metis in_set_conv_nth)
  then have "dn D s u (Notify j)" using dn_finished[OF fin] by (simp add: set_prog)
  then show ?thesis using u j unfolding signalled_def by blast
qed

lemma enabled:
  assumes reach: "reachable N D T s0 s" and wf: "tasks_wf D T" and laws: "notify_laws N"
    and t: "t \<in> set T" and unfin: "\<not> finished D s t"
    and preds: "\<And>u. (u, t) \<in> dep D T \<Longrightarrow> finished D s u"
  shows "\<exists>s'. run_task N D t s = Next s'"
proof -
  let ?a = "prog (D t) ! pc s t" and ?p = "td_place (D t)"
  have lt: "pc s t < length (prog (D t))"
    using reachable_pc_le[OF reach, of t] unfin by (simp add: finished_def)
  have inv: "ctl_inv N D T s" by (rule reachable_ctl_inv[OF reach wf laws])
  note K = key_invD[OF inv[unfolded ctl_inv_def]]
  have ap: "?a \<in> set (prog (D t))" using lt by simp
  have "\<exists>s1. effect N D t ?a s = Next s1"
  proof (cases ?a)
    case Start
    have "\<forall>u \<in> set (td_after (D t)). (u, t) \<in> dep D T"
      using tasks_wfD(5)[OF wf t] t by (auto simp: dep_def)
    then show ?thesis using Start preds by (auto simp: effect_def finished_def)
  next
    case (Fetch i)
    obtain c' h where "enter_key 0 (controllers s ?p) (snd (td_fetch (D t) ! i)) = Inr (c', h)"
      using vc.enter_total[OF K(1)] by blast
    then show ?thesis using Fetch by (simp add: effect_def Let_def)
  next
    case (Await i)
    then have i: "i < length (td_fetch (D t))" "fst (td_fetch (D t) ! i)" using ap by (simp_all add: set_prog)
    then obtain k where k: "td_fetch (D t) ! i = (True, k)" by (cases "td_fetch (D t) ! i") auto
    have S: "signalled D T s ?p k"
      by (rule signalled_when_finished[OF wf t _ preds]) (use k i in \<open>metis nth_mem\<close>)
    have nd: "\<not> dn D s t (Await i)" using at_not_dn[of D t s] tasks_wfD(4)[OF wf t] lt Await by simp
    have nK: "\<not> taken D T s ?p k"
    proof
      assume "taken D T s ?p k"
      then obtain v j where "v \<in> set T" "j < length (td_fetch (D v))" "td_place (D v) = ?p"
        "td_fetch (D v) ! j = (True, k)" "dn D s v (Await j)" by (auto simp: taken_def)
      then show False using key_role_unique[OF wf t i(1), of v j] k nd by metis
    qed
    have "dn D s t (Fetch i)"
      unfolding dn_def by (rule at_rank[OF sorted_rank_prog _ lt]) (simp_all add: set_prog i Await)
    then have "holds_handle D T s ?p k (handles s t i)"
      using t i k unfolding holds_handle_def by (intro bexI[of _ t] exI[of _ i]) auto
    then have "permits s (?p, handles s t i) = n_notify_one N (n_new N)" by (rule K(8)[OF _ S nK])
    then show ?thesis using Await laws by (auto simp: effect_def Let_def notify_laws_def)
  qed (simp_all add: effect_def Let_def)
  then show ?thesis using lt by (auto simp: run_task_def)
qed

lemma no_deadlock:
  assumes reach: "reachable N D T s0 s" and wf: "tasks_wf D T" and laws: "notify_laws N"
    and "\<not> (\<forall>t \<in> set T. finished D s t)"
  shows "\<exists>s'. step N D T s s'"
proof -
  obtain xs t ys where T: "T = xs @ t # ys" "\<not> finished D s t" "\<forall>u \<in> set xs. finished D s u"
    using assms(4) split_list_first_prop[of T "\<lambda>t. \<not> finished D s t"] by auto
  have "finished D s u" if "(u, t) \<in> dep D T" for u
    using obeysD[OF dep_obeys[OF wf] T(1) that] T(3) by blast
  then obtain s' where "run_task N D t s = Next s'"
    using enabled[OF reach wf laws _ T(2)] T(1) by auto
  then show ?thesis using step.run[of t T N D s s'] T(1) by auto
qed

definition work_left :: "('t \<Rightarrow> ('t, 'p, 'o, 'l, 'v) task_desc) \<Rightarrow> 't list \<Rightarrow> ('t, 'p, 'o, 'l, 'v, 'n) sys \<Rightarrow> nat" where
  "work_left D T s = (\<Sum>t \<leftarrow> T. length (prog (D t)) - pc s t)"

lemma work_left_step:
  assumes "step N D T s s'" "distinct T"
  shows "work_left D T s = Suc (work_left D T s')"
proof -
  from assms(1) obtain t where t: "t \<in> set T" and r: "run_task N D t s = Next s'" by (auto elim: stepE)
  obtain xs ys where T: "T = xs @ t # ys" using t by (metis split_list)
  have pc': "pc s' = (pc s)(t := Suc (pc s t))" "pc s t < length (prog (D t))"
    using r by (auto elim: run_task_cases)
  have "t \<notin> set xs" "t \<notin> set ys" using assms(2) T by auto
  then have "(\<Sum>u \<leftarrow> xs. length (prog (D u)) - pc s' u) = (\<Sum>u \<leftarrow> xs. length (prog (D u)) - pc s u)"
    "(\<Sum>u \<leftarrow> ys. length (prog (D u)) - pc s' u) = (\<Sum>u \<leftarrow> ys. length (prog (D u)) - pc s u)"
    by (auto intro!: arg_cong[where f = sum_list] map_cong simp: pc')
  then show ?thesis using pc' by (simp add: work_left_def T)
qed

text \<open>Every execution can be completed, and it cannot be extended beyond its total work.\<close>

lemma all_executions_complete:
  assumes "reachable N D T s0 s" "tasks_wf D T" "notify_laws N"
  shows "\<exists>s'. reachable N D T s0 s' \<and> (step N D T ^^ work_left D T s) s s' \<and> (\<forall>t \<in> set T. finished D s' t)"
  using assms(1)
proof (induction "work_left D T s" arbitrary: s)
  case 0
  have "\<not> step N D T s s'" for s' using 0 work_left_step[OF _ tasks_wfD(1)[OF assms(2)]] by fastforce
  then have "\<forall>t \<in> set T. finished D s t" using no_deadlock[OF 0(2) assms(2,3)] by blast
  then show ?case using 0 by (intro exI[of _ s]) simp
next
  case (Suc n)
  have "\<not> (\<forall>t \<in> set T. finished D s t)"
  proof
    assume "\<forall>t \<in> set T. finished D s t"
    then have "work_left D T s = 0"
      by (simp add: work_left_def finished_def)
    with Suc(2) show False by simp
  qed
  then obtain s1 where s1: "step N D T s s1" using no_deadlock[OF Suc(3) assms(2,3)] by blast
  then have n: "n = work_left D T s1" using work_left_step[OF _ tasks_wfD(1)[OF assms(2)]] Suc(2) by fastforce
  obtain s' where s': "reachable N D T s0 s'" "(step N D T ^^ n) s1 s'" "\<forall>t \<in> set T. finished D s' t"
    using Suc(1)[OF n] reachable.next_step[OF Suc(3) s1] n by auto
  have "(step N D T ^^ Suc n) s s'" using relpowp_Suc_I2[of "step N D T"] s1 s'(2) by metis
  then show ?case using s'(1,3) unfolding Suc(2)[symmetric] by blast
qed

lemma executions_bounded:
  assumes "(step N D T ^^ n) s s'" "distinct T"
  shows "work_left D T s = n + work_left D T s'"
  using assms(1)
proof (induction n arbitrary: s')
  case (Suc n)
  then obtain s1 where "(step N D T ^^ n) s s1" "step N D T s1 s'" by auto
  then show ?case using Suc.IH work_left_step[OF _ assms(2)] by fastforce
qed simp

lemma run_schedule_reachable:
  "reachable N D T s0 s \<Longrightarrow> set ts \<subseteq> set T \<Longrightarrow> reachable N D T s0 (run_schedule N D ts s)"
proof (induction ts arbitrary: s)
  case (Cons t ts)
  then have "run_task N D t s = Next s' \<Longrightarrow> reachable N D T s0 s'" for s'
    by (auto intro: reachable.next_step step.run)
  with Cons show ?case by (auto split: outcome.splits)
qed simp


section \<open>Results before the end\<close>

lemma run_sequentially_append: "run_sequentially D (xs @ ys) s = run_sequentially D ys (run_sequentially D xs s)"
  by (simp add: run_sequentially_def)

lemma pending_stable:
  assumes "distinct (prog (D t))" "dn D s t Read" "run_task N D u s = Next s'"
  shows "pending s' t = pending s t \<and> dn D s' t Read"
  using assms(3)
proof (cases rule: run_task_cases)
  case (1 a s1)
  have "\<not> (u = t \<and> a = Read)" using at_not_dn[of D t s] assms(1,2) 1(1,2) by metis
  then show ?thesis
    using 1(3,4,7) assms(2) by (cases a) (auto simp: effect_def Let_def split: if_splits sum.splits option.splits)
qed

lemma pending_stable_steps:
  assumes "tasks_wf D T" "t \<in> set T" "dn D s t Read" "(step N D T ^^ n) s s'"
  shows "pending s' t = pending s t \<and> dn D s' t Read"
  using assms(4)
proof (induction n arbitrary: s')
  case 0
  then show ?case using assms(3) by simp
next
  case (Suc n)
  then obtain s1 where "(step N D T ^^ n) s s1" "step N D T s1 s'" by auto
  then show ?case using Suc.IH[of s1] pending_stable[where D = D and t = t, OF tasks_wfD(4)[OF assms(1,2)]] by (metis stepE)
qed

text \<open>As soon as a task has read, its result is the one of the sequential execution.\<close>

lemma read_serializable:
  assumes reach: "reachable N D T s0 s" and wf: "tasks_wf D T" and laws: "notify_laws N"
    and fp: "footprints D T R W" and co: "conflicts_ordered D T R W"
    and rd: "dn D s t Read" and T: "T = xs @ t # ys"
  shows "pending s t = td_body (D t) (run_sequentially D xs s0)"
proof -
  obtain s' where s': "reachable N D T s0 s'" "(step N D T ^^ work_left D T s) s s'" "\<forall>t \<in> set T. finished D s' t"
    using all_executions_complete[OF reach wf laws] by blast
  have "pending s t = pending s' t" using pending_stable_steps[OF wf _ rd s'(2)] T by simp
  also have "\<dots> = td_body (D t) (run_sequentially D xs s0)" by (rule serializable(2)[OF s'(1) wf laws fp co s'(3) T])
  finally show ?thesis .
qed

end
