(* ===== verification/Version_Assignment.thy ===== *)
theory Version_Assignment
  imports Api Versioned_Controller
begin

text \<open>
  Version assignment on the primary (\<^verbatim>\<open>VersionAssignmentTask\<close> of
  \<^verbatim>\<open>src/primary/shared_obj_txn_forwarder.rs\<close>): every transaction that leaves consensus is given,
  for each of its shared objects, the version that the last transaction before it produces, and
  produces itself the next version after the largest of them for all of its objects.

  \<open>schedule_ok\<close> states what the assignment promises to the components that synchronise on versions
  (the forwarder and the proxies): every version above the initial one is produced by an earlier
  transaction, and versions grow along the transactions of an object.
\<close>


section \<open>The task\<close>

type_synonym 'o shared_object_versions = "'o \<rightharpoonup> version"

text \<open>The first loop: the current version of every object and the largest of them.\<close>

definition collect_versions ::
  "'o shared_object_versions \<Rightarrow> 'o list \<Rightarrow> ('o \<times> version) list \<times> version" where
  "collect_versions m objs =
     fold (\<lambda>obj_id (result, max_version).
         let current_version = (case m obj_id of Some v \<Rightarrow> v | None \<Rightarrow> 2)
         in (result @ [(obj_id, current_version)], upd_max current_version max_version))
       objs ([], 2)"

definition assign_shared_object_versions ::
  "(version \<Rightarrow> version) \<Rightarrow> 'o::linorder shared_object_versions \<Rightarrow> ('t, 'o) txn_ts \<Rightarrow>
   'o shared_object_versions \<times> ('t, 'o) txn_ts \<times> ('o \<times> version) list" where
  "assign_shared_object_versions nxt m txn =
     (let objs = map fst (shared_objects txn)
      in if objs = [] then (m, txn, [])
         else
           let (result, max_version) = collect_versions m objs;
               new_version = nxt max_version;
               m' = fold (\<lambda>obj_id m. m(obj_id \<mapsto> new_version)) objs m
           in (m',
               txn\<lparr>shared_objects := bt_collect (map (\<lambda>(obj_id, v). (obj_id, Some v)) result)\<rparr>,
               result))"

text \<open>
  The main loop over the batches that arrive from consensus.  The channel to the forwarder is the
  list of messages sent on it.
\<close>

fun assign_batch ::
  "(version \<Rightarrow> version) \<Rightarrow> 'o::linorder shared_object_versions \<Rightarrow> ('t, 'o) txn_ts list \<Rightarrow>
   'o shared_object_versions \<times> (('t, 'o) txn_ts \<times> ('o \<times> version) list) list" where
  "assign_batch nxt m [] = (m, [])"
| "assign_batch nxt m (t # ts) =
     (let (m', t', required_versions) = assign_shared_object_versions nxt m t;
          (m'', sent) = assign_batch nxt m' ts
      in (m'', (t', required_versions) # sent))"

fun process_version_assignments ::
  "(version \<Rightarrow> version) \<Rightarrow> 'o::linorder shared_object_versions \<Rightarrow> ('t, 'o) txn_ts list list \<Rightarrow>
   'o shared_object_versions \<times> (('t, 'o) txn_ts \<times> ('o \<times> version) list) list" where
  "process_version_assignments nxt m [] = (m, [])"
| "process_version_assignments nxt m (b # bs) =
     (let (m', sent) = assign_batch nxt m b;
          (m'', sent') = process_version_assignments nxt m' bs
      in (m'', sent @ sent'))"


section \<open>What the assignment promises\<close>

definition produced :: "(version \<Rightarrow> version) \<Rightarrow> ('o \<times> version) list list \<Rightarrow> nat \<Rightarrow> version" where
  "produced nxt S i = next_version nxt (S ! i)"

definition objects_of :: "('o \<times> version) list list \<Rightarrow> nat \<Rightarrow> 'o set" where
  "objects_of S i = fst ` set (S ! i)"

definition schedule_ok :: "(version \<Rightarrow> version) \<Rightarrow> ('o \<times> version) list list \<Rightarrow> bool" where
  "schedule_ok nxt S \<longleftrightarrow>
     (\<forall>j < length S. distinct (map fst (S ! j))) \<and>
     (\<forall>j < length S. \<forall>(x, v) \<in> set (S ! j). 2 \<le> v) \<and>
     (\<forall>j < length S. \<forall>(x, v) \<in> set (S ! j). v > 2 \<longrightarrow> (\<exists>i < j. x \<in> objects_of S i \<and> produced nxt S i = v)) \<and>
     (\<forall>j < length S. \<forall>i < j. \<forall>(x, v) \<in> set (S ! j). x \<in> objects_of S i \<longrightarrow> produced nxt S i \<le> v)"

text \<open>The versions known to the task agree with the transactions handled so far.\<close>

definition versions_inv :: "(version \<Rightarrow> version) \<Rightarrow> 'o shared_object_versions \<Rightarrow> ('o \<times> version) list list \<Rightarrow> bool" where
  "versions_inv nxt m S \<longleftrightarrow>
     schedule_ok nxt S \<and>
     (\<forall>x v. m x = Some v \<longrightarrow> v > 2 \<and> (\<exists>i < length S. x \<in> objects_of S i \<and> produced nxt S i = v)) \<and>
     (\<forall>i < length S. \<forall>x \<in> objects_of S i. \<exists>v. m x = Some v \<and> produced nxt S i \<le> v)"

lemma schedule_okD:
  assumes "schedule_ok nxt S" "j < length S"
  shows "distinct (map fst (S ! j))"
    and "(x, v) \<in> set (S ! j) \<Longrightarrow> 2 \<le> v"
    and "(x, v) \<in> set (S ! j) \<Longrightarrow> v > 2 \<Longrightarrow> \<exists>i < j. x \<in> objects_of S i \<and> produced nxt S i = v"
    and "(x, v) \<in> set (S ! j) \<Longrightarrow> i < j \<Longrightarrow> x \<in> objects_of S i \<Longrightarrow> produced nxt S i \<le> v"
  using assms unfolding schedule_ok_def by fast+

lemma produced_greater:
  "\<forall>v. v < nxt v \<Longrightarrow> (x, v) \<in> set (S ! j) \<Longrightarrow> v < produced nxt S j"
  unfolding produced_def by (rule next_version_greater)

definition current_version :: "'o shared_object_versions \<Rightarrow> 'o \<Rightarrow> version" where
  "current_version m x = (case m x of Some v \<Rightarrow> v | None \<Rightarrow> 2)"

lemma collect_versions_eq:
  "collect_versions m objs =
     (map (\<lambda>x. (x, current_version m x)) objs, Max (insert 2 (current_version m ` set objs)))"
proof -
  have "fold (\<lambda>obj_id (result, mx). let cv = (case m obj_id of Some v \<Rightarrow> v | None \<Rightarrow> 2)
              in (result @ [(obj_id, cv)], upd_max cv mx)) objs (acc, k) =
        (acc @ map (\<lambda>x. (x, current_version m x)) objs, fold upd_max (map (current_version m) objs) k)"
    for acc k
    by (induction objs arbitrary: acc k) (simp_all add: current_version_def Let_def)
  then show ?thesis by (simp add: collect_versions_def fold_upd_max)
qed

lemma fold_map_upd_const: "fold (\<lambda>x m. m(x \<mapsto> v)) xs m = (\<lambda>x. if x \<in> set xs then Some v else m x)"
  by (induction xs arbitrary: m) (auto simp: fun_eq_iff)

lemma assign_shared_object_versions_eq:
  fixes m :: "'o::linorder \<rightharpoonup> version"
  assumes "assign_shared_object_versions nxt m t = (m', t', req)"
    and "objs = map fst (shared_objects t)" "\<forall>x v. m x = Some v \<longrightarrow> v > 2"
  shows "req = map (\<lambda>x. (x, current_version m x)) objs"
    and "m' = (\<lambda>x. if x \<in> set objs then Some (next_version nxt req) else m x)"
proof -
  show req: "req = map (\<lambda>x. (x, current_version m x)) objs"
    using assms by (auto simp: assign_shared_object_versions_def Let_def collect_versions_eq split: if_splits)
  have "2 \<le> current_version m x" for x
    using assms(3) by (auto simp: current_version_def less_imp_le split: option.splits)
  then have mx: "objs \<noteq> [] \<Longrightarrow> Max (insert 2 (current_version m ` set objs)) = Max (current_version m ` set objs)"
    by (subst Max_insert) (auto simp: max_def Max_ge_iff intro: antisym)
  have "set (map snd req) = current_version m ` set objs" unfolding req by force
  then have nv: "objs \<noteq> [] \<Longrightarrow> next_version nxt req = nxt (Max (insert 2 (current_version m ` set objs)))"
    unfolding next_version_def using mx by simp
  show "m' = (\<lambda>x. if x \<in> set objs then Some (next_version nxt req) else m x)"
  proof (cases "objs = []")
    case True
    then show ?thesis using assms(1,2) by (simp add: assign_shared_object_versions_def)
  next
    case False
    then have "m' = (\<lambda>x. if x \<in> set objs then Some (nxt (Max (insert 2 (current_version m ` set objs)))) else m x)"
      using assms(1) unfolding assign_shared_object_versions_def assms(2)[symmetric]
      by (auto simp: collect_versions_eq fold_map_upd_const Let_def)
    then show ?thesis unfolding nv[OF False] .
  qed
qed

lemma versions_inv_init: "versions_inv nxt Map.empty []"
  by (simp add: versions_inv_def schedule_ok_def)

lemma objects_of_snoc:
  "i < length S \<Longrightarrow> objects_of (S @ [r]) i = objects_of S i" "objects_of (S @ [r]) (length S) = fst ` set r"
  "i < length S \<Longrightarrow> produced nxt (S @ [r]) i = produced nxt S i" "produced nxt (S @ [r]) (length S) = next_version nxt r"
  by (simp_all add: objects_of_def produced_def nth_append)

lemma schedule_ok_snoc:
  assumes "schedule_ok nxt S" "distinct (map fst r)"
    and "\<And>x v. (x, v) \<in> set r \<Longrightarrow> 2 \<le> v"
    and "\<And>x v. (x, v) \<in> set r \<Longrightarrow> v > 2 \<Longrightarrow> \<exists>i < length S. x \<in> objects_of S i \<and> produced nxt S i = v"
    and "\<And>x v i. (x, v) \<in> set r \<Longrightarrow> i < length S \<Longrightarrow> x \<in> objects_of S i \<Longrightarrow> produced nxt S i \<le> v"
  shows "schedule_ok nxt (S @ [r])"
proof -
  have old: "j < length S \<Longrightarrow> (S @ [r]) ! j = S ! j" for j by (simp add: nth_append)
  note D = schedule_okD[OF assms(1)]
  show ?thesis
    unfolding schedule_ok_def
  proof (intro conjI allI impI ballI, goal_cases)
    case (1 j) then show ?case using D(1) assms(2) old by (cases "j = length S") (auto simp: less_Suc_eq)
  next
    case (2 j k)
    obtain x v where k: "k = (x, v)" by (cases k)
    show ?case
    proof (cases "j = length S")
      case True
      then show ?thesis using 2 assms(3) k by simp
    next
      case False
      then have "j < length S" using 2 by simp
      then show ?thesis using 2 D(2)[of j x v] old[of j] k by simp
    qed
  next
    case (3 j k)
    show ?case
    proof (cases "j = length S")
      case True
      obtain x v where k: "k = (x, v)" by (cases k)
      have "\<exists>i < length S. x \<in> objects_of (S @ [r]) i \<and> produced nxt (S @ [r]) i = v" if gt: "2 < v"
      proof -
        obtain i where "i < length S" "x \<in> objects_of S i" "produced nxt S i = v"
          using assms(4)[of x v] gt 3(2) True k by auto
        then show ?thesis by (intro exI[of _ i]) (simp add: objects_of_snoc)
      qed
      then show ?thesis by (simp add: True k)
    next
      case False
      then have j: "j < length S" using 3 by simp
      show ?thesis
      proof (cases k, clarify)
        fix x v assume "k = (x, v)" "2 < v"
        then obtain i where "i < j" "x \<in> objects_of S i" "produced nxt S i = v"
          using D(3)[OF j, of x v] 3(2) old[OF j] by auto
        then show "\<exists>i<j. x \<in> objects_of (S @ [r]) i \<and> produced nxt (S @ [r]) i = v"
          using j by (intro exI[of _ i]) (simp add: objects_of_snoc)
      qed
    qed
  next
    case (4 j i k)
    show ?case
    proof (cases "j = length S")
      case True
      then show ?thesis using 4 assms(5) by (cases k) (simp add: objects_of_snoc)
    next
      case False
      then have "j < length S" using 4 by simp
      then show ?thesis using 4 D(4)[of j] old[of j] by (cases k) (simp add: objects_of_snoc)
    qed
  qed
qed

lemma versions_inv_assign:
  fixes m :: "'o::linorder \<rightharpoonup> version"
  assumes nxt: "\<forall>v. v < nxt v" and inv: "versions_inv nxt m S"
    and a: "assign_shared_object_versions nxt m t = (m', t', req)" and wf: "bt_wf (shared_objects t)"
  shows "versions_inv nxt m' (S @ [req])"
proof -
  define objs where "objs = map fst (shared_objects t)"
  have m2: "\<forall>x v. m x = Some v \<longrightarrow> v > 2" using inv by (auto simp: versions_inv_def)
  note A = assign_shared_object_versions_eq[OF a objs_def m2]
  have src: "m x = Some v \<Longrightarrow> \<exists>i < length S. x \<in> objects_of S i \<and> produced nxt S i = v" for x v
    using inv by (auto simp: versions_inv_def)
  have known: "i < length S \<Longrightarrow> x \<in> objects_of S i \<Longrightarrow> \<exists>v. m x = Some v \<and> produced nxt S i \<le> v" for i x
    using inv unfolding versions_inv_def by blast
  have cv: "2 \<le> current_version m x" "current_version m x > 2 \<Longrightarrow> m x = Some (current_version m x)" for x
    using m2 by (auto simp: current_version_def less_imp_le split: option.splits)
  have ok: "schedule_ok nxt (S @ [req])"
  proof (rule schedule_ok_snoc)
    show "schedule_ok nxt S" using inv by (simp add: versions_inv_def)
    show "distinct (map fst req)"
      using bt_wf_distinct[OF wf] by (simp add: A(1) objs_def comp_def)
    fix x v assume "(x, v) \<in> set req"
    then have v: "v = current_version m x" "x \<in> set objs" by (auto simp: A(1))
    show "2 \<le> v" using cv(1) v by simp
    show "\<exists>i < length S. x \<in> objects_of S i \<and> produced nxt S i = v" if "v > 2"
      using src[of x v] cv(2)[of x] that v by simp
    show "produced nxt S i \<le> v" if "i < length S" "x \<in> objects_of S i" for i
      using known[OF that] v by (auto simp: current_version_def)
  qed
  have obj_req: "fst ` set req = set objs" by (auto simp: A(1) image_image)
  have nv2: "next_version nxt req > 2" if "objs \<noteq> []"
  proof -
    from that obtain x where "(x, current_version m x) \<in> set req" by (cases objs) (auto simp: A(1))
    then show ?thesis using next_version_greater[OF nxt] cv(1)[of x] by fastforce
  qed
  show ?thesis
    unfolding versions_inv_def
  proof (intro conjI allI impI ballI ok)
    fix x v assume m': "m' x = Some v"
    show "v > 2" using m' nv2 m2 A(2) by (cases "objs = []") (auto split: if_splits)
    show "\<exists>i < length (S @ [req]). x \<in> objects_of (S @ [req]) i \<and> produced nxt (S @ [req]) i = v"
    proof (cases "x \<in> set objs")
      case True
      then have "v = next_version nxt req" using m' A(2) by simp
      then show ?thesis using True obj_req by (intro exI[of _ "length S"]) (simp add: objects_of_snoc)
    next
      case False
      then obtain i where "i < length S" "x \<in> objects_of S i" "produced nxt S i = v"
        using m' A(2) src by auto
      then show ?thesis by (intro exI[of _ i]) (simp add: objects_of_snoc)
    qed
  next
    fix i x assume i: "i < length (S @ [req])" "x \<in> objects_of (S @ [req]) i"
    show "\<exists>v. m' x = Some v \<and> produced nxt (S @ [req]) i \<le> v"
    proof (cases "i = length S")
      case True
      then show ?thesis using i obj_req A(2) by (simp add: objects_of_snoc)
    next
      case False
      then have i': "i < length S" "x \<in> objects_of S i" using i by (auto simp: objects_of_snoc)
      then obtain v where v: "m x = Some v" "produced nxt S i \<le> v" using known by blast
      have "v < next_version nxt req" if "x \<in> set objs"
      proof -
        have "current_version m x = v" using v by (simp add: current_version_def)
        then have "(x, v) \<in> set req" using that by (auto simp: A(1))
        then show ?thesis by (rule next_version_greater[OF nxt])
      qed
      then show ?thesis using v i' A(2) by (auto simp: objects_of_snoc)
    qed
  qed
qed

lemma versions_inv_batch:
  assumes "\<forall>v. v < nxt v" "versions_inv nxt m S" "assign_batch nxt m ts = (m', sent)"
    and "\<forall>t \<in> set ts. bt_wf (shared_objects t)"
  shows "versions_inv nxt m' (S @ map snd sent)"
  using assms(2-4)
proof (induction ts arbitrary: m S sent)
  case (Cons t ts)
  obtain m1 t1 r1 where 1: "assign_shared_object_versions nxt m t = (m1, t1, r1)"
    by (metis prod_cases3)
  obtain m2 s2 where 2: "assign_batch nxt m1 ts = (m2, s2)" by fastforce
  have inv1: "versions_inv nxt m1 (S @ [r1])" using versions_inv_assign[OF assms(1) Cons.prems(1) 1] Cons.prems(3) by simp
  show ?case using Cons.IH[OF inv1 _] 1 2 Cons.prems by auto
qed simp

lemma versions_inv_process:
  assumes "\<forall>v. v < nxt v" "versions_inv nxt m S" "process_version_assignments nxt m bs = (m', sent)"
    and "\<forall>b \<in> set bs. \<forall>t \<in> set b. bt_wf (shared_objects t)"
  shows "versions_inv nxt m' (S @ map snd sent)"
  using assms(2-4)
proof (induction bs arbitrary: m S sent)
  case (Cons b bs)
  obtain m1 s1 where 1: "assign_batch nxt m b = (m1, s1)" by fastforce
  obtain m2 s2 where 2: "process_version_assignments nxt m1 bs = (m2, s2)" by fastforce
  have inv1: "versions_inv nxt m1 (S @ map snd s1)" using versions_inv_batch[OF assms(1) Cons.prems(1) 1] Cons.prems(3) by simp
  show ?case using Cons.IH[OF inv1 _] 1 2 Cons.prems by auto
qed simp


section \<open>Consequences\<close>

text \<open>
  C6. Version assignment is a schedule: whatever batches consensus delivers, the required versions
  sent to the forwarder name each object of a transaction once, with version 2 or with the version
  that an earlier transaction on the same object produces; and a transaction never requires a
  version older than what an earlier transaction on the same object produces.
\<close>

theorem assigned_versions_are_a_schedule:
  fixes batches :: "('t, 'o::linorder) txn_ts list list"
  assumes "\<forall>v. v < nxt v" "\<forall>b \<in> set batches. \<forall>t \<in> set b. bt_wf (shared_objects t)"
  shows "schedule_ok nxt (map snd (snd (process_version_assignments nxt Map.empty batches)))"
  using versions_inv_process[OF assms(1) versions_inv_init _ assms(2)]
  by (cases "process_version_assignments nxt Map.empty batches") (simp add: versions_inv_def)

theorem assigned_versions_are_a_schedule_witness:
  "map snd (snd (process_version_assignments Suc Map.empty
      [[txn_new () 0 [7, 9] 0 0], [txn_new () 1 [9] 0 0, txn_new () 2 [7 :: nat, 9] 0 0]])) =
     [[(7, 2), (9, 2)], [(9, 3)], [(7, 3), (9, 4)]] \<and>
   schedule_ok Suc [[(7 :: nat, 2), (9, 2)], [(9, 3)], [(7, 3), (9, 4)]]"
proof -
  let ?bs = "[[txn_new () 0 [7, 9] 0 0], [txn_new () 1 [9] 0 0, txn_new () 2 [7 :: nat, 9] 0 0]]"
  have eq: "map snd (snd (process_version_assignments Suc Map.empty ?bs)) =
      [[(7, 2), (9, 2)], [(9, 3)], [(7, 3), (9, 4)]]"
    by (simp add: assign_shared_object_versions_def collect_versions_def txn_new_def bt_collect_def upd_max_def Let_def)
  have "schedule_ok Suc (map snd (snd (process_version_assignments Suc Map.empty ?bs)))"
    by (rule assigned_versions_are_a_schedule) auto
  with eq show ?thesis by simp
qed

lemma schedule_ok_increasing:
  assumes "\<forall>v. v < nxt v" "schedule_ok nxt S" "i < j" "j < length S" "(x, v) \<in> set (S ! i)" "(x, w) \<in> set (S ! j)"
  shows "v < w" "produced nxt S i < produced nxt S j"
proof -
  have "v < produced nxt S i" using produced_greater[OF assms(1,5)] .
  moreover have "produced nxt S i \<le> w"
    using schedule_okD(4)[OF assms(2,4,6,3)] assms(5) by (force simp: objects_of_def)
  moreover have "w < produced nxt S j" using produced_greater[OF assms(1,6)] .
  ultimately show "v < w" "produced nxt S i < produced nxt S j" by simp_all
qed

text \<open>
  With \<^verbatim>\<open>SequenceNumber::next\<close> adding one, the versions stay below the number of transactions
  plus three, so the 64-bit counter behind \<^verbatim>\<open>SequenceNumber\<close> cannot overflow in any run.
\<close>

lemma produced_bound:
  assumes "schedule_ok Suc S" "j < length S" "S ! j \<noteq> []"
  shows "produced Suc S j \<le> 3 + j"
  using assms(2,3)
proof (induction j rule: less_induct)
  case (less j)
  have "v \<le> 2 + j" if xv: "(x, v) \<in> set (S ! j)" for x v
  proof (cases "v > 2")
    case True
    then obtain i where i: "i < j" "x \<in> objects_of S i" "produced Suc S i = v"
      using schedule_okD(3)[OF assms(1) less.prems(1) xv] by blast
    then have "S ! i \<noteq> []" by (auto simp: objects_of_def)
    then show ?thesis using less.IH[of i] i less.prems(1) by fastforce
  qed simp
  then have "Max (set (map snd (S ! j))) \<le> 2 + j"
    using less.prems(2) by (intro Max.boundedI) auto
  then show ?case by (simp add: produced_def next_version_def)
qed

text \<open>
  Bounds: when \<^verbatim>\<open>next\<close> adds one, after \<open>n\<close> transactions no assigned version exceeds \<open>n + 1\<close> (the
  initial version is 2), so a 64-bit version number wraps around only after more than
  \<open>2 ^ 64 - 2\<close> transactions.
\<close>

theorem assigned_versions_bounded:
  fixes batches :: "('t, 'o::linorder) txn_ts list list"
  assumes "\<forall>b \<in> set batches. \<forall>t \<in> set b. bt_wf (shared_objects t)"
    and "S = map snd (snd (process_version_assignments Suc Map.empty batches))"
    and "j < length S" "(x, v) \<in> set (S ! j)"
  shows "2 \<le> v \<and> v \<le> 2 + j \<and> (length S < 2 ^ 64 - 2 \<longrightarrow> unat (of_nat v :: 64 word) = v)"
proof -
  have ok: "schedule_ok Suc S"
    using versions_inv_process[OF _ versions_inv_init _ assms(1), of Suc] assms(2)
    by (cases "process_version_assignments Suc Map.empty batches") (simp add: versions_inv_def)
  have "S ! j \<noteq> []" using assms(4) by auto
  then have "v < 3 + j" using produced_bound[OF ok assms(3)] produced_greater[of Suc x v S j] assms(4) by simp
  moreover have "2 \<le> v" using schedule_okD(2)[OF ok assms(3,4)] .
  moreover have "unat (of_nat v :: 64 word) = v" if "length S < 2 ^ 64 - 2"
    using that \<open>v < 3 + j\<close> assms(3) by (simp add: unat_of_nat)
  ultimately show ?thesis by simp
qed

theorem assigned_versions_bounded_witness:
  "unat (of_nat 4 :: 64 word) = (4 :: nat) \<and>
   (9 :: nat, 4 :: nat) \<in> set (map snd (snd (process_version_assignments Suc Map.empty
      [[txn_new () 0 [7, 9] 0 0], [txn_new () 1 [9] 0 0, txn_new () 2 [7 :: nat, 9] 0 0]])) ! 2)"
proof -
  let ?bs = "[[txn_new () 0 [7, 9] 0 0], [txn_new () 1 [9] 0 0, txn_new () 2 [7 :: nat, 9] 0 0]]"
  have eq: "map snd (snd (process_version_assignments Suc Map.empty ?bs)) =
      [[(7, 2), (9, 2)], [(9, 3)], [(7, 3), (9, 4)]]"
    by (simp add: assign_shared_object_versions_def collect_versions_def txn_new_def bt_collect_def upd_max_def Let_def)
  have "2 \<le> (4::nat) \<and> 4 \<le> 2 + (2::nat) \<and>
      (length [[(7 :: nat, 2 :: nat), (9, 2)], [(9, 3)], [(7, 3), (9, 4)]] < 2 ^ 64 - 2 \<longrightarrow> unat (of_nat 4 :: 64 word) = 4)"
    by (rule assigned_versions_bounded[OF _ eq[symmetric], of 2 9 4]) auto
  then show ?thesis unfolding eq by simp
qed


section \<open>The version of an object at each point of the schedule\<close>

fun version_before :: "(version \<Rightarrow> version) \<Rightarrow> ('o \<times> version) list list \<Rightarrow> nat \<Rightarrow> 'o \<Rightarrow> version" where
  "version_before nxt S 0 x = 2"
| "version_before nxt S (Suc j) x = (if x \<in> objects_of S j then produced nxt S j else version_before nxt S j x)"

lemma version_before_last:
  "((\<forall>i < k. x \<notin> objects_of S i) \<and> version_before nxt S k x = 2) \<or>
   (\<exists>i < k. x \<in> objects_of S i \<and> version_before nxt S k x = produced nxt S i \<and> (\<forall>i' < k. x \<in> objects_of S i' \<longrightarrow> i' \<le> i))"
proof (induction k)
  case (Suc k)
  then show ?case by (cases "x \<in> objects_of S k") (auto simp: less_Suc_eq)
qed simp

text \<open>A transaction requires exactly the version that its predecessors leave.\<close>

lemma required_version:
  assumes nxt: "\<forall>v. v < nxt v" and ok: "schedule_ok nxt S" and j: "j < length S" and v: "(x, v) \<in> set (S ! j)"
  shows "v = version_before nxt S j x"
proof -
  consider (first) "\<forall>i < j. x \<notin> objects_of S i" "version_before nxt S j x = 2"
    | (later) i where "i < j" "x \<in> objects_of S i" "version_before nxt S j x = produced nxt S i"
        "\<forall>i' < j. x \<in> objects_of S i' \<longrightarrow> i' \<le> i"
    using version_before_last[of j x S nxt] by blast
  then show ?thesis
  proof cases
    case first
    then show ?thesis using schedule_okD(2,3)[OF ok j v] by fastforce
  next
    case later
    obtain w where w: "(x, w) \<in> set (S ! i)" using later(2) by (auto simp: objects_of_def)
    have le: "produced nxt S i \<le> v" using schedule_okD(4)[OF ok j v later(1,2)] .
    then have "2 < v" using schedule_okD(2)[OF ok _ w] produced_greater[OF nxt w] later(1) j by fastforce
    then obtain q where q: "q < j" "x \<in> objects_of S q" "produced nxt S q = v"
      using schedule_okD(3)[OF ok j v] by blast
    obtain u where u: "(x, u) \<in> set (S ! q)" using q(2) by (auto simp: objects_of_def)
    have "\<not> q < i" using schedule_ok_increasing(2)[OF nxt ok _ _ u w] later(1) j le q(3) by fastforce
    then have "q = i" using later(4) q(1,2) by (meson le_neq_implies_less)
    then show ?thesis using later(3) q(3) by simp
  qed
qed

lemma final_version:
  assumes nxt: "\<forall>v. v < nxt v" and inv: "versions_inv nxt m S"
  shows "current_version m x = version_before nxt S (length S) x"
proof (cases "m x")
  case None
  then have "\<forall>i < length S. x \<notin> objects_of S i" using inv by (fastforce simp: versions_inv_def)
  then show ?thesis using version_before_last[of "length S" x S nxt] None by (auto simp: current_version_def)
next
  case (Some v)
  have ok: "schedule_ok nxt S" using inv by (simp add: versions_inv_def)
  obtain i where i: "i < length S" "x \<in> objects_of S i" "produced nxt S i = v"
    using inv Some by (auto simp: versions_inv_def)
  obtain l where l: "l < length S" "x \<in> objects_of S l" "version_before nxt S (length S) x = produced nxt S l"
    "\<forall>i < length S. x \<in> objects_of S i \<longrightarrow> i \<le> l"
    using version_before_last[of "length S" x S nxt] i by blast
  have "produced nxt S l \<le> v" using inv l Some by (fastforce simp: versions_inv_def)
  obtain a b where ab: "(x, a) \<in> set (S ! i)" "(x, b) \<in> set (S ! l)" using i l by (auto simp: objects_of_def)
  have "i \<le> l" using l(4) i by blast
  then have "i = l"
    using schedule_ok_increasing(2)[OF nxt ok _ l(1) ab] \<open>produced nxt S l \<le> v\<close> i(3) by (cases "i = l") auto
  then show ?thesis using l(3) i(3) Some by (simp add: current_version_def)
qed


section \<open>The transactions that are sent on\<close>

lemma assign_shared_object_versions_txn:
  assumes "assign_shared_object_versions nxt m t = (m', t', req)" "bt_wf (shared_objects t)"
  shows "transaction t' = transaction t" "shared_objects t' = map (\<lambda>(x, v). (x, Some v)) req"
    "map fst req = map fst (shared_objects t)"
proof -
  let ?req = "map (\<lambda>x. (x, current_version m x)) (map fst (shared_objects t))"
  have req: "req = ?req" "t' = (if shared_objects t = [] then t
      else t\<lparr>shared_objects := bt_collect (map (\<lambda>(x, v). (x, Some v)) ?req)\<rparr>)"
    using assms(1) by (auto simp: assign_shared_object_versions_def Let_def collect_versions_eq split: if_splits)
  have "bt_wf (map (\<lambda>(x, v). (x, Some v)) ?req)"
    using assms(2) by (simp add: bt_wf_def comp_def)
  then show "transaction t' = transaction t" "shared_objects t' = map (\<lambda>(x, v). (x, Some v)) req"
    "map fst req = map fst (shared_objects t)"
    by (auto simp: req bt_collect_sorted comp_def)
qed

definition sent_ok :: "('t, 'o::linorder) txn_ts \<Rightarrow> ('t, 'o) txn_ts \<times> ('o \<times> version) list \<Rightarrow> bool" where
  "sent_ok t m \<longleftrightarrow> transaction (fst m) = transaction t \<and> shared_objects (fst m) = map (\<lambda>(x, v). (x, Some v)) (snd m) \<and>
     map fst (snd m) = map fst (shared_objects t)"

lemma assign_batch_sent:
  "\<forall>t \<in> set ts. bt_wf (shared_objects t) \<Longrightarrow> list_all2 sent_ok ts (snd (assign_batch nxt m ts))"
proof (induction ts arbitrary: m)
  case (Cons t ts)
  obtain m1 t1 r1 where 1: "assign_shared_object_versions nxt m t = (m1, t1, r1)" by (metis prod_cases3)
  then show ?case
    using Cons assign_shared_object_versions_txn[OF 1] by (simp add: sent_ok_def split_beta Let_def)
qed simp

text \<open>Every transaction that consensus delivers is sent on, in order, once.\<close>

lemma process_version_assignments_sent:
  "\<forall>b \<in> set bs. \<forall>t \<in> set b. bt_wf (shared_objects t) \<Longrightarrow>
   list_all2 sent_ok (concat bs) (snd (process_version_assignments nxt m bs))"
proof (induction bs arbitrary: m)
  case (Cons b bs)
  then show ?case
    using assign_batch_sent[of b nxt m] by (simp add: split_beta Let_def list_all2_appendI)
qed simp

lemma assign_batch_transactions: "map (transaction \<circ> fst) (snd (assign_batch nxt m ts)) = map transaction ts"
  by (induction ts arbitrary: m) (simp_all add: split_beta Let_def assign_shared_object_versions_def)

lemma process_version_assignments_transactions:
  "map (transaction \<circ> fst) (snd (process_version_assignments nxt m bs)) = map transaction (concat bs)"
proof (induction bs arbitrary: m)
  case (Cons b bs)
  then show ?case using assign_batch_transactions[of nxt m b] by (simp add: split_beta Let_def comp_def)
qed simp

end
