(* ===== verification/Schedule_Tasks.thy ===== *)
theory Schedule_Tasks
  imports Task_Correctness Version_Assignment
begin

text \<open>
  Tasks that carry the versions of a schedule: the link between the version assignment and the task
  system.  Task \<open>j\<close> registers the versions \<open>S ! j\<close> with the controller, exactly the map operations
  of \<^verbatim>\<open>get_prior_dependency_and_update\<close>.  A schedule that satisfies \<open>schedule_ok\<close> gives a well-formed
  task set in which all tasks on the same object are ordered as in the schedule.

  The locale \<open>transactional_executor\<close> is the interface to the executors: what the task system needs to know
  about the code that a transaction runs; \<open>local_executor\<close> is the case in which a transaction writes only what it reads.
\<close>


section \<open>The map operations of a registration\<close>

definition dependency_fetches ::
  "version \<Rightarrow> version \<Rightarrow> bool \<Rightarrow> bool \<Rightarrow> ('o \<times> version) list \<Rightarrow> (bool \<times> 'o \<times> version) list" where
  "dependency_fetches init next_v ignore_prior ignore_next xs =
     concat (map (\<lambda>(obj_id, seq_num).
         (if seq_num > init \<and> \<not> ignore_prior then [(True, obj_id, seq_num)] else []) @
         (if \<not> ignore_next then [(False, obj_id, next_v)] else [])) xs)"

fun fetch_all ::
  "task_id \<Rightarrow> (bool \<times> 'o \<times> version) list \<Rightarrow> 'o vdc \<times> notify_handle list \<times> notify_handle list \<Rightarrow>
   ('o vdc \<times> notify_handle list \<times> notify_handle list) res" where
  "fetch_all tid [] st = Inr st"
| "fetch_all tid ((b, k) # fs) (c, cur, nx) =
     and_then (enter_key tid c k)
       (\<lambda>(c', h). fetch_all tid fs (if b then (c', cur @ [h], nx) else (c', cur, nx @ [h])))"

lemma fetch_all_append:
  "fetch_all tid (fs @ gs) st = and_then (fetch_all tid fs st) (fetch_all tid gs)"
proof (induction tid fs st rule: fetch_all.induct)
  case (2 tid b k fs c cur nx)
  then show ?case by (cases "enter_key tid c k") (auto split: prod.splits)
qed simp

text \<open>The loop of the controller performs the map operations that the task description lists, in this order.\<close>

lemma dependency_loop_fetches:
  "dependency_loop tid next_v ip ig xs (c, cur, nx) =
     fetch_all tid (dependency_fetches (initial_version c) next_v ip ig xs) (c, cur, nx)"
proof (induction xs arbitrary: c cur nx)
  case Nil
  then show ?case by (simp add: dependency_fetches_def)
next
  case (Cons x xs)
  obtain o' v where x: "x = (o', v)" by (cases x)
  let ?fs = "dependency_fetches (initial_version c) next_v ip ig xs"
  let ?P = "\<lambda>c1 c2. initial_version c2 = initial_version (c1 :: 'a vdc)"
  have nextpart: "and_then (if \<not> ig then and_then (entry_helper c1 o' next_v tid) (\<lambda>(c', h). Inr (c', nx @ [h])) else Inr (c1, nx))
          (\<lambda>(c2, nexts1). dependency_loop tid next_v ip ig xs (c2, cur1, nexts1)) =
        fetch_all tid ((if \<not> ig then [(False, o', next_v)] else []) @ ?fs) (c1, cur1, nx)"
    if "?P c c1" for c1 cur1
    using that Cons.IH entry_helper_initial_version[of c1 o' next_v tid]
    by (cases "entry_helper c1 o' next_v tid") (auto simp: enter_key_def)
  show ?case
  proof (cases "v > initial_version c \<and> \<not> ip")
    case True
    then show ?thesis
      using nextpart entry_helper_initial_version[of c o' v tid]
      by (cases "entry_helper c o' v tid") (auto simp: x enter_key_def dependency_fetches_def)
  next
    case False
    then show ?thesis using nextpart[of c cur] by (auto simp: x dependency_fetches_def)
  qed
qed

lemma set_dependency_fetches:
  "(True, k) \<in> set (dependency_fetches init nv ip ig xs) \<longleftrightarrow> \<not> ip \<and> k \<in> set xs \<and> snd k > init"
  "(False, k) \<in> set (dependency_fetches init nv ip ig xs) \<longleftrightarrow> \<not> ig \<and> fst k \<in> fst ` set xs \<and> snd k = nv"
  by (cases k; force simp: dependency_fetches_def)+

lemma distinct_dependency_fetches:
  assumes "distinct (map fst xs)" "\<And>x v. (x, v) \<in> set xs \<Longrightarrow> v < nv"
  shows "distinct (map snd (dependency_fetches init nv ip ig xs))"
  using assms
proof (induction xs)
  case (Cons x xs)
  have "distinct (map snd (dependency_fetches init nv ip ig xs))"
    using Cons.prems by (intro Cons.IH) auto
  moreover have "dependency_fetches init nv ip ig (x # xs) =
      (if snd x > init \<and> \<not> ip then [(True, fst x, snd x)] else []) @
      (if \<not> ig then [(False, fst x, nv)] else []) @ dependency_fetches init nv ip ig xs"
    by (cases x) (simp add: dependency_fetches_def)
  moreover have "snd x < nv" using Cons.prems(2)[of "fst x" "snd x"] by simp
  moreover have "(fst x, snd x) \<notin> set (map snd (dependency_fetches init nv ip ig xs))"
    "(fst x, nv) \<notin> set (map snd (dependency_fetches init nv ip ig xs))"
    using Cons.prems(1) by (auto simp: dependency_fetches_def image_iff split: if_splits)
  moreover have "x \<noteq> (fst x, nv)" using \<open>snd x < nv\<close> by (metis less_irrefl snd_conv)
  ultimately show ?case by (cases ip; cases ig) (simp_all del: set_map)
qed (simp add: dependency_fetches_def)


section \<open>The tasks of a schedule\<close>

definition schedule_task ::
  "(version \<Rightarrow> version) \<Rightarrow> 'p \<Rightarrow> (nat \<Rightarrow> nat list) \<Rightarrow> (nat \<Rightarrow> ('l \<rightharpoonup> 'v) \<Rightarrow> ('l \<rightharpoonup> 'v)) \<Rightarrow>
   ('o \<times> version) list list \<Rightarrow> nat \<Rightarrow> (nat, 'p, 'o, 'l, 'v) task_desc" where
  "schedule_task nxt p after body S j =
     \<lparr>td_place = p, td_after = after j,
      td_fetch = (if S ! j = [] then [] else dependency_fetches 2 (produced nxt S j) False False (S ! j)),
      td_remove = S ! j, td_body = body j\<rparr>"

lemma schedule_task_sel [simp]:
  "td_place (schedule_task nxt p after body S j) = p"
  "td_after (schedule_task nxt p after body S j) = after j"
  "td_remove (schedule_task nxt p after body S j) = S ! j"
  "td_body (schedule_task nxt p after body S j) = body j"
  by (simp_all add: schedule_task_def)

lemma schedule_task_fetch:
  "(True, x, v) \<in> set (td_fetch (schedule_task nxt p after body S j)) \<longleftrightarrow> (x, v) \<in> set (S ! j) \<and> v > 2"
  "(False, x, v) \<in> set (td_fetch (schedule_task nxt p after body S j)) \<longleftrightarrow> x \<in> objects_of S j \<and> v = produced nxt S j"
  by (auto simp: schedule_task_def set_dependency_fetches objects_of_def)

lemma schedule_dep:
  assumes "i < length S" "j < length S" "(x, produced nxt S i) \<in> set (S ! j)" "x \<in> objects_of S i" "produced nxt S i > 2"
  shows "(i, j) \<in> dep (schedule_task nxt p after body S) [0..<length S]"
proof -
  have "(False, x, produced nxt S i) \<in> set (td_fetch (schedule_task nxt p after body S i))"
    "(True, x, produced nxt S i) \<in> set (td_fetch (schedule_task nxt p after body S j))"
    using assms by (simp_all add: schedule_task_fetch)
  then show ?thesis using assms unfolding dep_def by auto
qed

lemma schedule_dep_less:
  assumes nxt: "\<forall>v. v < nxt v" and ok: "schedule_ok nxt S" and after: "\<And>j u. u \<in> set (after j) \<Longrightarrow> u < j"
    and d: "(i, j) \<in> dep (schedule_task nxt p after body S) [0..<length S]"
  shows "i < j"
proof (rule ccontr)
  assume ge: "\<not> i < j"
  have len: "i < length S" "j < length S" using d by (auto simp: dep_def)
  obtain x v where f: "(False, x, v) \<in> set (td_fetch (schedule_task nxt p after body S i))"
    and t: "(True, x, v) \<in> set (td_fetch (schedule_task nxt p after body S j))"
    using d after[of i j] ge by (auto simp: dep_def)
  have v: "v = produced nxt S i" "x \<in> objects_of S i" "(x, v) \<in> set (S ! j)"
    using f t by (simp_all add: schedule_task_fetch)
  have lt: "v < produced nxt S j" using produced_greater[OF nxt v(3)] .
  show False
  proof (cases "i = j")
    case True then show ?thesis using lt v by simp
  next
    case False
    then have "j < i" using ge by simp
    moreover obtain w where w: "(x, w) \<in> set (S ! i)" using v(2) by (auto simp: objects_of_def)
    ultimately have "produced nxt S j < produced nxt S i"
      using schedule_ok_increasing(2)[OF nxt ok _ len(1) v(3) w] by simp
    then show ?thesis using lt v by simp
  qed
qed

lemma schedule_tasks_wf:
  assumes nxt: "\<forall>v. v < nxt v" and ok: "schedule_ok nxt S" and after: "\<And>j u. u \<in> set (after j) \<Longrightarrow> u < j"
  shows "tasks_wf (schedule_task nxt p after body S) [0..<length S]"
proof -
  let ?D = "schedule_task nxt p after body S" and ?T = "[0..<length S]"
  have inc: "\<lbrakk>(x, v) \<in> set (S ! i); (x, w) \<in> set (S ! j); i < j; j < length S\<rbrakk> \<Longrightarrow>
      v < w \<and> produced nxt S i < produced nxt S j" for x v w i j
    using schedule_ok_increasing[OF nxt ok] by blast
  have "sorted_wrt (\<lambda>x y. (y, x) \<notin> dep ?D ?T) ?T"
    using schedule_dep_less[OF nxt ok after] by (force simp: sorted_wrt_iff_nth_less)
  moreover have "distinct (map snd (td_fetch (?D t))) \<and> distinct (td_remove (?D t)) \<and>
      t \<notin> set (td_after (?D t)) \<and> set (td_after (?D t)) \<subseteq> set ?T" if "t \<in> set ?T" for t
  proof -
    have t: "t < length S" using that by simp
    have d: "distinct (map fst (S ! t))" using schedule_okD(1)[OF ok t] .
    then have "distinct (map snd (td_fetch (?D t)))"
      using distinct_dependency_fetches[OF d produced_greater[OF nxt, of _ _ S t]]
      by (simp add: schedule_task_def)
    moreover have "distinct (S ! t)" using d by (simp add: distinct_map)
    ultimately show ?thesis using after[of _ t] t by fastforce
  qed
  moreover have "t = u" if t: "t \<in> set ?T" and u: "u \<in> set ?T"
    and k: "(b, k) \<in> set (td_fetch (?D t))" "(b, k) \<in> set (td_fetch (?D u))" for t u b k
  proof -
    obtain x v where xv: "k = (x, v)" by (cases k)
    obtain w w' where w: "(x, w) \<in> set (S ! t)" "(x, w') \<in> set (S ! u)"
      "if b then w = v \<and> w' = v else produced nxt S t = v \<and> produced nxt S u = v"
      using k unfolding xv by (cases b) (auto simp: schedule_task_fetch objects_of_def)
    then show ?thesis
      using inc[OF w(1,2)] inc[OF w(2,1)] t u by (cases t u rule: linorder_cases) (auto split: if_splits)
  qed
  moreover have "\<exists>u \<in> set ?T. td_place (?D u) = td_place (?D t) \<and> (False, k) \<in> set (td_fetch (?D u))"
    if t: "t \<in> set ?T" and k: "(True, k) \<in> set (td_fetch (?D t))" for t k
  proof -
    obtain x v where xv: "k = (x, v)" by (cases k)
    then obtain i where "i < t" "x \<in> objects_of S i" "produced nxt S i = v"
      using schedule_okD(3)[OF ok, of t x v] k t by (auto simp: schedule_task_fetch)
    then show ?thesis using t xv by (intro bexI[of _ i]) (auto simp: schedule_task_fetch)
  qed
  moreover have "(True, k) \<in> set (td_fetch (?D t)) \<or>
      (\<forall>u \<in> set ?T. td_place (?D u) = td_place (?D t) \<longrightarrow> k \<notin> snd ` set (td_fetch (?D u)))"
    if t: "t \<in> set ?T" and k: "k \<in> set (td_remove (?D t))" for t k
  proof -
    obtain x v where xv: "k = (x, v)" by (cases k)
    have "k \<notin> snd ` set (td_fetch (?D u))" if "v \<le> 2" "u \<in> set ?T" for u
    proof
      assume "k \<in> snd ` set (td_fetch (?D u))"
      then obtain b where "(b, x, v) \<in> set (td_fetch (?D u))" using xv by force
      then obtain w where w: "(x, w) \<in> set (S ! u)" "produced nxt S u = v"
        using \<open>v \<le> 2\<close> by (cases b) (auto simp: schedule_task_fetch objects_of_def)
      then have "2 < v"
        using schedule_okD(2)[OF ok, of u x w] produced_greater[OF nxt w(1)] that by auto
      then show False using \<open>v \<le> 2\<close> by simp
    qed
    then show ?thesis using k xv by (cases "v > 2") (auto simp: schedule_task_fetch)
  qed
  ultimately show ?thesis by (intro tasks_wfI distinct_upt)
qed

text \<open>Two tasks on the same object are ordered by the dependencies, in the order of the schedule.\<close>

lemma schedule_dep_chain:
  assumes nxt: "\<forall>v. v < nxt v" and ok: "schedule_ok nxt S"
    and "i < j" "j < length S" "x \<in> objects_of S i" "x \<in> objects_of S j"
  shows "(i, j) \<in> (dep (schedule_task nxt p after body S) [0..<length S])\<^sup>+"
  using assms(3-)
proof (induction j rule: less_induct)
  case (less j)
  let ?dep = "dep (schedule_task nxt p after body S) [0..<length S]"
  obtain v where v: "(x, v) \<in> set (S ! j)" using less.prems by (auto simp: objects_of_def)
  obtain w where w: "(x, w) \<in> set (S ! i)" using less.prems by (auto simp: objects_of_def)
  have iv: "produced nxt S i \<le> v" using schedule_okD(4)[OF ok less.prems(2) v less.prems(1,3)] .
  then have "v > 2" using schedule_okD(2)[OF ok _ w] produced_greater[OF nxt w] less.prems by fastforce
  then obtain q where q: "q < j" "x \<in> objects_of S q" "produced nxt S q = v"
    using schedule_okD(3)[OF ok less.prems(2) v] by blast
  have step: "(q, j) \<in> ?dep" using schedule_dep[of q S j x nxt] q v less.prems \<open>v > 2\<close> by auto
  have "\<not> q < i"
  proof
    assume "q < i"
    moreover obtain u where u: "(x, u) \<in> set (S ! q)" using q by (auto simp: objects_of_def)
    ultimately have "produced nxt S q < produced nxt S i"
      using schedule_ok_increasing(2)[OF nxt ok _ _ u w] less.prems by simp
    then show False using iv q by simp
  qed
  then consider "q = i" | "i < q" by linarith
  then show ?case
  proof cases
    case 2
    then have "(i, q) \<in> ?dep\<^sup>+" using less.IH[OF q(1)] q less.prems by simp
    then show ?thesis using step by simp
  qed (use step in simp)
qed


section \<open>The interface to the executors\<close>

text \<open>
  What a command reads and what it writes: its updates depend only on the former and stay within the latter.
\<close>

locale transactional_executor =
  fixes run :: "'c \<Rightarrow> ('l \<rightharpoonup> 'v) \<Rightarrow> ('l \<rightharpoonup> 'v)"
    and reads :: "'c \<Rightarrow> 'l set"
    and writes :: "'c \<Rightarrow> 'l set"
  assumes run_reads: "(\<And>l. l \<in> reads c \<Longrightarrow> s l = s' l) \<Longrightarrow> run c s = run c s'"
    and run_writes: "dom (run c s) \<subseteq> writes c"
begin

lemma run_footprints:
  assumes "\<And>t. t \<in> set T \<Longrightarrow> td_body (D t) = run (cmd t)"
  shows "footprints D T (\<lambda>t. reads (cmd t)) (\<lambda>t. writes (cmd t))"
  using assms run_reads run_writes unfolding footprints_def by metis

text \<open>
  Commands that conflict only when they share an object of the schedule: whatever the interleaving, a
  finished execution has the store and the updates of the sequential execution.
\<close>

lemma conflict_serializable:
  assumes nxt: "\<forall>v. v < nxt v" and ok: "schedule_ok nxt S" and after: "\<And>j u. u \<in> set (after j) \<Longrightarrow> u < j"
    and laws: "notify_laws N"
    and D: "D = schedule_task nxt p after (\<lambda>j. run (cmd j)) S"
    and meet: "\<And>i j. i < j \<Longrightarrow> j < length S \<Longrightarrow> conflict (\<lambda>t. reads (cmd t)) (\<lambda>t. writes (cmd t)) i j \<Longrightarrow>
        objects_of S i \<inter> objects_of S j \<noteq> {}"
    and reach: "reachable N D [0..<length S] s0 s" and fin: "\<forall>j < length S. finished D s j"
  shows "sys_store s = run_sequentially D [0..<length S] s0"
    and "j < length S \<Longrightarrow> pending s j = run (cmd j) (run_sequentially D [0..<j] s0)"
proof -
  let ?T = "[0..<length S]" and ?R = "\<lambda>t. reads (cmd t)" and ?W = "\<lambda>t. writes (cmd t)"
  have wf: "tasks_wf D ?T" unfolding D by (rule schedule_tasks_wf[OF nxt ok after])
  have fp: "footprints D ?T ?R ?W" by (rule run_footprints) (simp add: D)
  have co: "conflicts_ordered D ?T ?R ?W"
    unfolding conflicts_ordered_def
  proof (intro ballI impI)
    fix t u assume t: "t \<in> set ?T" "u \<in> set ?T" "t \<noteq> u" and c: "conflict ?R ?W t u"
    have c': "conflict ?R ?W u t" using c by (auto simp: conflict_def)
    have chain: "(i, j) \<in> (dep D ?T)\<^sup>+" if ij: "i < j" "j < length S" "conflict ?R ?W i j" for i j
    proof -
      obtain x where "x \<in> objects_of S i" "x \<in> objects_of S j" using meet[OF ij] by blast
      then show ?thesis unfolding D by (rule schedule_dep_chain[OF nxt ok ij(1,2)])
    qed
    show "(t, u) \<in> (dep D ?T)\<^sup>+ \<or> (u, t) \<in> (dep D ?T)\<^sup>+"
      using chain[of t u] chain[of u t] t c c' by (auto simp: neq_iff)
  qed
  have fin': "\<forall>t \<in> set ?T. finished D s t" using fin by simp
  show "sys_store s = run_sequentially D ?T s0" using serializable(1)[OF reach wf laws fp co fin'] .
  assume "j < length S"
  then have "?T = [0..<j] @ j # [Suc j..<length S]" by (metis le0 le_eq_less_or_eq upt_add_eq_append upt_rec zero_less_iff_neq_zero less_imp_add_positive)
  then show "pending s j = run (cmd j) (run_sequentially D [0..<j] s0)"
    using serializable(2)[OF reach wf laws fp co fin'] by (simp add: D)
qed

end

text \<open>A command whose updates stay within what it reads.\<close>

locale local_executor =
  fixes run :: "'c \<Rightarrow> ('l \<rightharpoonup> 'v) \<Rightarrow> ('l \<rightharpoonup> 'v)"
    and foot :: "'c \<Rightarrow> 'l set"
  assumes run_local: "(\<And>l. l \<in> foot c \<Longrightarrow> s l = s' l) \<Longrightarrow> run c s = run c s'"
    and run_dom: "dom (run c s) \<subseteq> foot c"

sublocale local_executor \<subseteq> transactional_executor run foot foot
  using run_local run_dom by unfold_locales blast+

context local_executor begin

lemma schedule_serializable:
  assumes nxt: "\<forall>v. v < nxt v" and ok: "schedule_ok nxt S" and after: "\<And>j u. u \<in> set (after j) \<Longrightarrow> u < j"
    and laws: "notify_laws N"
    and D: "D = schedule_task nxt p after (\<lambda>j. run (cmd j)) S"
    and meet: "\<And>i j. i < j \<Longrightarrow> j < length S \<Longrightarrow> foot (cmd i) \<inter> foot (cmd j) \<noteq> {} \<Longrightarrow>
        objects_of S i \<inter> objects_of S j \<noteq> {}"
    and reach: "reachable N D [0..<length S] s0 s" and fin: "\<forall>j < length S. finished D s j"
  shows "sys_store s = run_sequentially D [0..<length S] s0"
    and "j < length S \<Longrightarrow> pending s j = run (cmd j) (run_sequentially D [0..<j] s0)"
proof -
  have "objects_of S i \<inter> objects_of S j \<noteq> {}"
    if "i < j" "j < length S" "conflict (\<lambda>t. foot (cmd t)) (\<lambda>t. foot (cmd t)) i j" for i j
    using that meet by (auto simp: conflict_def)
  note ser = conflict_serializable[OF nxt ok after laws D this reach fin]
  show "sys_store s = run_sequentially D [0..<length S] s0" by (rule ser(1))
  show "j < length S \<Longrightarrow> pending s j = run (cmd j) (run_sequentially D [0..<j] s0)" by (rule ser(2))
qed

end

end
