(* ===== verification/Proxy_Core.thy ===== *)
theory Proxy_Core
  imports Fake_Executor Oneshot_Controller Schedule_Tasks
begin

text \<open>
  The core of a proxy (\<^verbatim>\<open>src/proxy/core.rs\<close>).  \<open>proxy\<close> is the state that its two message processors
  share: the object store, the two dependency controllers, the connections to the other proxies and
  the mode.  Every handler is a function of this state; messages sent to other proxies are appended
  to \<open>px_sent\<close> (a message to a proxy without connection is dropped, as in the code), the asynchronous
  blocks it spawns are appended to \<open>px_spawned\<close> as values of \<open>spawned\<close>, and a value sent on a oneshot
  channel is recorded in \<open>px_values\<close>.  A panic is an \<open>Inl\<close> result.

  What a spawned stateful block does is given twice: \<open>run_stateful\<close> is the computation between waiting
  and signalling, and \<open>stateful_task\<close> is the task, in the sense of the task system, whose steps
  interleave with those of the other blocks.

  The executor is the record \<open>executor_ops\<close> of the methods of the trait \<^verbatim>\<open>Executor\<close> that the proxy
  calls.
\<close>


section \<open>State and executor\<close>

record ('t, 'd, 'o, 'u, 'b) executor_ops =
  ex_trait :: "('t, 'd, 'o) executable_transaction"
  ex_make_verification_request :: "('t, 'o) txn_ts \<Rightarrow> 'd verification_request"
  ex_verify_transaction :: "'d verification_request \<Rightarrow> bool"
  ex_pre_execute_check :: "('o, 'b) object_store \<Rightarrow> ('t, 'o) txn_ts \<Rightarrow> bool res"
  ex_execute :: "('o, 'b) object_store \<Rightarrow> ('t, 'o) txn_ts \<Rightarrow>
     (('o, 'b) object_store \<times> ('t, 'o, 'u, 'b) execution_results) res"

definition txn_digest :: "('t, 'd, 'o, 'u, 'b) executor_ops \<Rightarrow> ('t, 'o) txn_ts \<Rightarrow> 'd" where
  "txn_digest E t = et_digest (ex_trait E) (transaction t)"

datatype ('t, 'd, 'o, 'b) spawned =
    VerifyTask channel "'d verification_request"
  | StatefulTask "('t, 'o) txn_ts" "channel option" "'o required_states"
  | InstallTask "('o, 'b) btree" "notify_handle list"
  | ServeTask proxy_id "notify_handle list" "('o \<times> version) list"
  | StatelessReplyTask proxy_id channel 'd

record ('t, 'd, 'o, 'b) proxy =
  px_id :: proxy_id
  px_mode :: separation_mode
  px_store :: "('o, 'b) object_store"
  px_connections :: "proxy_id set"
  px_stateful :: "'o vdc"
  px_stateless :: "'d odc"
  px_values :: "channel \<rightharpoonup> bool"
  px_sent :: "(proxy_id \<times> ('d, 'o, 'b) proxy_to_proxy) list"
  px_spawned :: "('t, 'd, 'o, 'b) spawned list"
  px_load :: nat

definition proxy_new ::
  "proxy_id \<Rightarrow> separation_mode \<Rightarrow> ('o, 'b) object_store \<Rightarrow> proxy_id set \<Rightarrow> ('t, 'd, 'o, 'b) proxy" where
  "proxy_new i mode s conns =
     \<lparr>px_id = i, px_mode = mode, px_store = s, px_connections = conns, px_stateful = vdc_new,
      px_stateless = odc_new, px_values = Map.empty, px_sent = [], px_spawned = [], px_load = 0\<rparr>"

definition spawn :: "('t, 'd, 'o, 'b) spawned \<Rightarrow> ('t, 'd, 'o, 'b) proxy \<Rightarrow> ('t, 'd, 'o, 'b) proxy" where
  "spawn task p = p\<lparr>px_spawned := px_spawned p @ [task]\<rparr>"

definition send_msg_to_proxy ::
  "proxy_id \<Rightarrow> ('d, 'o, 'b) proxy_to_proxy \<Rightarrow> ('t, 'd, 'o, 'b) proxy \<Rightarrow> ('t, 'd, 'o, 'b) proxy" where
  "send_msg_to_proxy dest msg p =
     (if dest \<in> px_connections p then p\<lparr>px_sent := px_sent p @ [(dest, msg)]\<rparr> else p)"


section \<open>Messages from the primary\<close>

definition process_stateless_transaction ::
  "'d verification_request \<Rightarrow> ('t, 'd, 'o, 'b) proxy \<Rightarrow> ('t, 'd, 'o, 'b) proxy" where
  "process_stateless_transaction request p =
     (let (c, tx) = set_local_dependency (px_stateless p) (request_digest request)
      in spawn (VerifyTask tx request) (p\<lparr>px_stateless := c\<rparr>))"

fun request_missing_states ::
  "'o required_states \<Rightarrow> ('t, 'd, 'o, 'b) proxy \<Rightarrow> ('t, 'd, 'o, 'b) proxy res" where
  "request_missing_states [] p = Inr p"
| "request_missing_states ((states, None) # rs) p = request_missing_states rs p"
| "request_missing_states ((states, Some proxy_id) # rs) p =
     (if proxy_id = px_id p then Inl (Panic ''assertion failed: proxy_id != self.id'')
      else request_missing_states rs
             (send_msg_to_proxy proxy_id (Request (StatefulRequest (px_id p) [states])) p))"

definition schedule_stateful_transaction ::
  "('t, 'o) txn_ts \<Rightarrow> 'o required_states \<Rightarrow> channel option \<Rightarrow> ('t, 'd, 'o, 'b) proxy \<Rightarrow>
   ('t, 'd, 'o, 'b) proxy res" where
  "schedule_stateful_transaction t required rx p =
     and_then (request_missing_states required p)
       (\<lambda>p. Inr (spawn (StatefulTask t rx required) (p\<lparr>px_load := px_load p + 1\<rparr>)))"

text \<open>
  The receiver for the stateless result.  The request to another proxy is sent before the remote
  dependency is registered, as in the code.
\<close>

definition stateless_receiver ::
  "'d \<Rightarrow> proxy_id \<Rightarrow> ('t, 'd, 'o, 'b) proxy \<Rightarrow> (('t, 'd, 'o, 'b) proxy \<times> channel option) res" where
  "stateless_receiver digest stateless_res_proxy_id p =
     (if is_proxy_separation (px_mode p)
      then if stateless_res_proxy_id = px_id p
           then let (c, rx) = get_dependency (px_stateless p) digest in Inr (p\<lparr>px_stateless := c\<rparr>, rx)
           else if stateless_res_proxy_id \<notin> px_connections p
                then Inl (Panic ''called unwrap on a None value'')
                else let p1 = p\<lparr>px_sent := px_sent p @ [(stateless_res_proxy_id, Request (StatelessRequest (px_id p) digest))]\<rparr>;
                         (c, rx) = set_remote_dependency (px_stateless p1) digest
                     in Inr (p1\<lparr>px_stateless := c\<rparr>, Some rx)
      else Inr (p, None))"

definition process_stateful_transaction ::
  "('t, 'd, 'o, 'u, 'b) executor_ops \<Rightarrow> ('t, 'o) txn_ts \<Rightarrow> proxy_id \<Rightarrow> 'o required_states \<Rightarrow>
   ('t, 'd, 'o, 'b) proxy \<Rightarrow> ('t, 'd, 'o, 'b) proxy res" where
  "process_stateful_transaction E t stateless_res_proxy_id required p =
     and_then (stateless_receiver (txn_digest E t) stateless_res_proxy_id p)
       (\<lambda>(p, rx). schedule_stateful_transaction t required rx p)"

definition handle_primary_message ::
  "('t, 'd, 'o, 'u, 'b) executor_ops \<Rightarrow> ('t, 'd, 'o) primary_to_proxy \<Rightarrow>
   ('t, 'd, 'o, 'b) proxy \<Rightarrow> ('t, 'd, 'o, 'b) proxy res" where
  "handle_primary_message E message p =
     (if is_primary_separation (px_mode p)
      then (case message of
              StatelessTxn request \<Rightarrow> Inr (process_stateless_transaction request p)
            | Txn t sp missing \<Rightarrow> process_stateful_transaction E t sp missing p
            | _ \<Rightarrow> Inl (Panic ''received unexpected message''))
      else (case message of
              CombinedTxn t sp missing \<Rightarrow>
                (let p1 = (if is_proxy_separation (px_mode p)
                           then process_stateless_transaction (ex_make_verification_request E t) p else p)
                 in process_stateful_transaction E t sp missing p1)
            | _ \<Rightarrow> Inl (Panic ''received unexpected message'')))"

fun primary_processor_run ::
  "('t, 'd, 'o, 'u, 'b) executor_ops \<Rightarrow> ('t, 'd, 'o) primary_to_proxy list \<Rightarrow>
   ('t, 'd, 'o, 'b) proxy \<Rightarrow> ('t, 'd, 'o, 'b) proxy res" where
  "primary_processor_run E [] p = Inr p"
| "primary_processor_run E (m # ms) p = and_then (handle_primary_message E m p) (primary_processor_run E ms)"


section \<open>The stateful block\<close>

definition get_dependencies ::
  "(version \<Rightarrow> version) \<Rightarrow> 'o required_states \<Rightarrow> 'o vdc \<Rightarrow>
   ('o vdc \<times> ('o \<times> version) list \<times> notify_handle list \<times> notify_handle list) res" where
  "get_dependencies nxt required c =
     (let obj_ids = map fst required
      in if obj_ids = [] then Inr (c, obj_ids, [], [])
         else and_then (get_prior_dependency_and_update nxt c 0 obj_ids False False)
                (\<lambda>(c, prior_handles, current_handles). Inr (c, obj_ids, prior_handles, current_handles)))"

definition stateless_verified ::
  "('t, 'd, 'o, 'u, 'b) executor_ops \<Rightarrow> separation_mode \<Rightarrow> ('t, 'o) txn_ts \<Rightarrow> bool option \<Rightarrow> bool" where
  "stateless_verified E mode t received =
     (case received of
        Some verified \<Rightarrow> verified
      | None \<Rightarrow> if \<not> is_proxy_separation mode then ex_verify_transaction E (ex_make_verification_request E t) else True)"

definition ready_to_execute ::
  "('t, 'd, 'o, 'u, 'b) executor_ops \<Rightarrow> bool \<Rightarrow> ('o, 'b) object_store \<Rightarrow> ('t, 'o) txn_ts \<Rightarrow> bool res" where
  "ready_to_execute E verified s t =
     (if \<not> verified then Inr False
      else if \<not> list_ex is_shared_kind (et_input_objects (ex_trait E) (transaction t)) then Inr True
      else ex_pre_execute_check E s t)"

definition run_stateful ::
  "('t, 'd, 'o, 'u, 'b) executor_ops \<Rightarrow> bool \<Rightarrow> ('o, 'b) object_store \<Rightarrow> ('t, 'o) txn_ts \<Rightarrow>
   (('o, 'b) object_store \<times> ('t, 'o, 'u, 'b) execution_results) res" where
  "run_stateful E verified s t =
     and_then (ready_to_execute E verified s t)
       (\<lambda>ready. if ready then ex_execute E s t else Inr (s, results_new t None None))"

text \<open>The updates of a stateful block, as the task system sees them.\<close>

definition stateful_updates ::
  "('t, 'd, 'o, 'u, 'b) executor_ops \<Rightarrow> bool \<Rightarrow> ('t, 'o) txn_ts \<Rightarrow> ('o, 'b) object_store \<Rightarrow> ('o, 'b) object_store" where
  "stateful_updates E verified t s =
     (case run_stateful E verified s t of
        Inr (_, r) \<Rightarrow> (case er_new_state r of Some new_state \<Rightarrow> map_of new_state | None \<Rightarrow> Map.empty)
      | Inl _ \<Rightarrow> Map.empty)"

definition stateful_task ::
  "(version \<Rightarrow> version) \<Rightarrow> ('t, 'd, 'o, 'u, 'b) executor_ops \<Rightarrow> separation_mode \<Rightarrow> 'p \<Rightarrow>
   ('t, 'o) txn_ts \<Rightarrow> bool option \<Rightarrow> 'o required_states \<Rightarrow> ('k, 'p, 'o, 'o, 'b) task_desc" where
  "stateful_task nxt E mode place t received required =
     (let obj_ids = map fst required in
      \<lparr>td_place = place, td_after = [],
       td_fetch = (if obj_ids = [] then []
                   else dependency_fetches 2 (next_version nxt obj_ids) False False obj_ids),
       td_remove = obj_ids,
       td_body = stateful_updates E (stateless_verified E mode t received) t\<rparr>)"


section \<open>Messages from other proxies\<close>

text \<open>\<open>one_before\<close> and the version of an object are methods of \<^verbatim>\<open>sui_types\<close>.\<close>

fun reply_dependencies ::
  "(version \<Rightarrow> version option) \<Rightarrow> ('b \<Rightarrow> version) \<Rightarrow> ('o, 'b) btree \<Rightarrow> ('o \<times> version) list res" where
  "reply_dependencies one_before version_of [] = Inr []"
| "reply_dependencies one_before version_of ((oid, b) # objects) =
     and_then (unwrap ''called unwrap on a None value'' (one_before (version_of b)))
       (\<lambda>v. and_then (reply_dependencies one_before version_of objects) (\<lambda>rest. Inr ((oid, v) # rest)))"

definition handle_stateful_reply ::
  "(version \<Rightarrow> version) \<Rightarrow> (version \<Rightarrow> version option) \<Rightarrow> ('b \<Rightarrow> version) \<Rightarrow> ('o, 'b) btree \<Rightarrow>
   ('t, 'd, 'o, 'b) proxy \<Rightarrow> ('t, 'd, 'o, 'b) proxy res" where
  "handle_stateful_reply nxt one_before version_of objects p =
     and_then (reply_dependencies one_before version_of objects)
       (\<lambda>objs. and_then (get_prior_dependency_and_update nxt (px_stateful p) 0 objs True False)
          (\<lambda>(c, _, current_handles). Inr (spawn (InstallTask objects current_handles) (p\<lparr>px_stateful := c\<rparr>))))"

definition handle_stateless_reply ::
  "'d \<Rightarrow> bool \<Rightarrow> ('t, 'd, 'o, 'b) proxy \<Rightarrow> ('t, 'd, 'o, 'b) proxy" where
  "handle_stateless_reply digest result p =
     (let (c, tx) = take_signal (px_stateless p) digest;
          vals = (case tx of Some ch \<Rightarrow> (px_values p)(ch \<mapsto> result) | None \<Rightarrow> px_values p)
      in p\<lparr>px_values := vals, px_stateless := os_remove_dependency c digest\<rparr>)"

definition handle_stateful_request ::
  "(version \<Rightarrow> version) \<Rightarrow> proxy_id \<Rightarrow> ('o \<times> version) list \<Rightarrow>
   ('t, 'd, 'o, 'b) proxy \<Rightarrow> ('t, 'd, 'o, 'b) proxy res" where
  "handle_stateful_request nxt proxy_id requested_states p =
     and_then (get_prior_dependency_and_update nxt (px_stateful p) 0 requested_states False True)
       (\<lambda>(c, prior_handles, _). Inr (spawn (ServeTask proxy_id prior_handles requested_states) (p\<lparr>px_stateful := c\<rparr>)))"

definition handle_stateless_request ::
  "proxy_id \<Rightarrow> 'd \<Rightarrow> ('t, 'd, 'o, 'b) proxy \<Rightarrow> ('t, 'd, 'o, 'b) proxy res" where
  "handle_stateless_request proxy_id digest p =
     (let (c, rx_opt) = get_dependency (px_stateless p) digest
      in and_then (unwrap ''called unwrap on a None value'' rx_opt)
           (\<lambda>rx. Inr (spawn (StatelessReplyTask proxy_id rx digest) (p\<lparr>px_stateless := c\<rparr>))))"

definition handle_proxy_message ::
  "(version \<Rightarrow> version) \<Rightarrow> (version \<Rightarrow> version option) \<Rightarrow> ('b \<Rightarrow> version) \<Rightarrow> ('d, 'o, 'b) proxy_to_proxy \<Rightarrow>
   ('t, 'd, 'o, 'b) proxy \<Rightarrow> ('t, 'd, 'o, 'b) proxy res" where
  "handle_proxy_message nxt one_before version_of message p =
     (case message of
        Request (StatefulRequest q states) \<Rightarrow> handle_stateful_request nxt q states p
      | Request (StatelessRequest q digest) \<Rightarrow>
          (if \<not> is_primary_separation (px_mode p) then Inr p else handle_stateless_request q digest p)
      | Reply (StatefulReply objects) \<Rightarrow> handle_stateful_reply nxt one_before version_of objects p
      | Reply (StatelessReply digest result) \<Rightarrow> Inr (handle_stateless_reply digest result p))"

text \<open>The bodies of the blocks spawned by these handlers, after their waits.\<close>

fun collect_requested ::
  "('b \<Rightarrow> version) \<Rightarrow> ('o::linorder, 'b) object_store \<Rightarrow> ('o \<times> version) list \<Rightarrow> ('o, 'b) btree \<Rightarrow> ('o, 'b) btree" where
  "collect_requested version_of s [] objects = objects"
| "collect_requested version_of s ((i, v) # states) objects =
     collect_requested version_of s states
       (case read_object s i of
          Some b \<Rightarrow> if version_of b = v then bt_insert i b objects else objects
        | None \<Rightarrow> objects)"

definition run_serve ::
  "('b \<Rightarrow> version) \<Rightarrow> proxy_id \<Rightarrow> ('o::linorder \<times> version) list \<Rightarrow> ('t, 'd, 'o, 'b) proxy \<Rightarrow> ('t, 'd, 'o, 'b) proxy" where
  "run_serve version_of proxy_id requested_states p =
     (let p1 = p\<lparr>px_stateful := remove_dependency (px_stateful p) requested_states\<rparr>;
          objects = collect_requested version_of (px_store p1) requested_states []
      in send_msg_to_proxy proxy_id (Reply (StatefulReply objects)) p1)"

definition run_install :: "('o, 'b) btree \<Rightarrow> ('t, 'd, 'o, 'b) proxy \<Rightarrow> ('t, 'd, 'o, 'b) proxy" where
  "run_install objects p = p\<lparr>px_store := commit_new_objects (px_store p) objects\<rparr>"

definition run_verify ::
  "('t, 'd, 'o, 'u, 'b) executor_ops \<Rightarrow> channel \<Rightarrow> 'd verification_request \<Rightarrow> ('t, 'd, 'o, 'b) proxy \<Rightarrow> ('t, 'd, 'o, 'b) proxy" where
  "run_verify E tx request p = p\<lparr>px_values := (px_values p)(tx \<mapsto> ex_verify_transaction E request)\<rparr>"

text \<open>Awaiting the receiver: \<open>None\<close> while no value has been sent.\<close>

definition run_stateless_reply ::
  "proxy_id \<Rightarrow> channel \<Rightarrow> 'd \<Rightarrow> ('t, 'd, 'o, 'b) proxy \<Rightarrow> ('t, 'd, 'o, 'b) proxy option" where
  "run_stateless_reply proxy_id rx digest p =
     (case px_values p rx of
        None \<Rightarrow> None
      | Some result \<Rightarrow>
          Some (send_msg_to_proxy proxy_id (Reply (StatelessReply digest result))
                  (p\<lparr>px_stateless := os_remove_dependency (px_stateless p) digest\<rparr>)))"


section \<open>The fake executor as an instance\<close>

definition fake_ops ::
  "(version \<Rightarrow> version) \<Rightarrow> ('o::linorder, 'b, 'w) object_api \<Rightarrow>
   ((('d, 'o) fake_transaction, 'o) txn_ts \<Rightarrow> 'd verification_request) \<Rightarrow> ('d verification_request \<Rightarrow> bool) \<Rightarrow>
   (('d, 'o) fake_transaction, 'd, 'o, ('d, 'o) fake_effects, 'b) executor_ops" where
  "fake_ops nxt Ob make_request verify =
     \<lparr>ex_trait = fake_transaction_trait, ex_make_verification_request = make_request,
      ex_verify_transaction = verify, ex_pre_execute_check = fake_pre_execute_check Ob,
      ex_execute = fake_execute nxt Ob\<rparr>"

end
