(* ===== verification/Tpcc_Executor.thy ===== *)
theory Tpcc_Executor
  imports Tpcc_Spec Proxy_Core
begin

text \<open>
  The TPC-C executor (\<^verbatim>\<open>src/executor/tpcc/executor.rs\<close>): transactions as executable transactions, the object
  store, the initial database, the business logic of NEW_ORDER and PAYMENT, execution and the version check.
  The random numbers of the initial database come from \<open>gen\<close>, the \<^verbatim>\<open>gen_range\<close> of a generator state.
\<close>


section \<open>Transactions, effects and store\<close>

record ('d, 'o) tpcc_executable =
  te_digest :: 'd
  te_txn :: tpcc_transaction
  te_inputs :: "'o input_object_kind list"

definition tpcc_executable_new :: "('o, 'b, 'w, 'm, 'c) tpcc_api \<Rightarrow> 'd \<Rightarrow> tpcc_transaction \<Rightarrow> ('d, 'o) tpcc_executable" where
  "tpcc_executable_new A digest txn =
     \<lparr>te_digest = digest, te_txn = txn, te_inputs = map (\<lambda>i. SharedMoveObject i 2 True) (access_set A txn)\<rparr>"

definition tpcc_transaction_trait :: "(('d, 'o) tpcc_executable, 'd, 'o) executable_transaction" where
  "tpcc_transaction_trait =
     \<lparr>et_digest = te_digest, et_input_objects = te_inputs, et_shared_object_ids = (\<lambda>t. shared_ids (te_inputs t))\<rparr>"

record ('d, 'o) tpcc_effects =
  tf_transaction_digest :: 'd
  tf_modified_at_versions :: "('o \<times> version) list"

definition tpcc_store_new :: "('o, 'b) object_store" where
  "tpcc_store_new = Map.empty"

definition tpcc_write_object :: "('o, 'b, 'w, 'm, 'c) tpcc_api \<Rightarrow> 'b \<Rightarrow> ('o, 'b) object_store \<Rightarrow> ('o, 'b) object_store" where
  "tpcc_write_object A b s = s(tp_id A b \<mapsto> b)"

definition tpcc_read_object :: "('o, 'b) object_store \<Rightarrow> 'o \<Rightarrow> 'b option" where
  "tpcc_read_object s i = s i"

definition tpcc_commit_new_objects :: "('o, 'b) object_store \<Rightarrow> ('o, 'b) btree \<Rightarrow> ('o, 'b) object_store" where
  "tpcc_commit_new_objects s new_state = fold (\<lambda>(i, b) s. s(i \<mapsto> b)) new_state s"

definition tpcc_commit_objects :: "('o, 'b) object_store \<Rightarrow> ('d, 'o) tpcc_effects \<Rightarrow> ('o, 'b) btree \<Rightarrow> ('o, 'b) object_store" where
  "tpcc_commit_objects s updates new_state = fold (\<lambda>(i, b) s. s(i \<mapsto> b)) new_state s"


section \<open>The initial database\<close>

fun for_each :: "('a \<Rightarrow> 's \<Rightarrow> 's res) \<Rightarrow> 'a list \<Rightarrow> 's \<Rightarrow> 's res" where
  "for_each f [] st = Inr st"
| "for_each f (x # xs) st = and_then (f x st) (for_each f xs)"

definition store_row ::
  "('o, 'b, 'w, 'm, 'c) tpcc_api \<Rightarrow> 'o \<Rightarrow> tpcc_row \<Rightarrow> ('o, 'b) object_store \<times> 'g \<Rightarrow> (('o, 'b) object_store \<times> 'g) res" where
  "store_row A i row st =
     and_then (encode_tpcc_object A i 2 (row_kind row) row) (\<lambda>b. Inr (tpcc_write_object A b (fst st), snd st))"

definition init_item where
  "init_item A gen i st =
     (let (price, g) = gen MIN_PRICE_CENTS MAX_PRICE_CENTS (snd st)
      in store_row A (object_id_for_item A i)
           (ItemRow \<lparr>i_id = i, i_price = int price, i_name = ''Item_'' @ show_nat i, i_data = ''ItemData_'' @ show_nat i\<rparr>) (fst st, g))"

definition init_customer where
  "init_customer A gen w d c st =
     (let (discount, g) = gen MIN_DISCOUNT_BPS MAX_DISCOUNT_BPS (snd st)
      in store_row A (object_id_for_customer A w d c)
           (CustomerRow \<lparr>c_id = c, c_d_id = d, c_w_id = w, c_balance = INITIAL_BALANCE_CENTS,
              c_ytd_payment = INITIAL_YTD_PAYMENT_CENTS, c_payment_cnt = INITIAL_PAYMENT_CNT, c_discount = int discount,
              c_first = ''First_'' @ show_nat c, c_last = ''Last_'' @ show_nat c\<rparr>) (fst st, g))"

definition init_district where
  "init_district A gen w d st =
     (let (tax, g) = gen MIN_TAX_BPS MAX_TAX_BPS (snd st)
      in and_then (store_row A (object_id_for_district A w d)
             (DistrictRow \<lparr>d_id = d, d_w_id = w, d_ytd = INITIAL_D_YTD_CENTS, d_tax = int tax, d_next_o_id = INITIAL_NEXT_O_ID,
                d_name = ''District_'' @ show_nat w @ ''_'' @ show_nat d\<rparr>) (fst st, g))
           (for_each (init_customer A gen w d) (ids_to CUSTOMERS_PER_DISTRICT)))"

definition init_stock where
  "init_stock A gen w i st =
     (let (qty, g) = gen MIN_QUANTITY MAX_QUANTITY (snd st)
      in store_row A (object_id_for_stock A w i)
           (StockRow \<lparr>s_i_id = i, s_w_id = w, s_quantity = int qty, s_ytd = 0, s_order_cnt = 0, s_remote_cnt = 0\<rparr>) (fst st, g))"

definition init_warehouse where
  "init_warehouse A gen w st =
     (let (tax, g) = gen MIN_TAX_BPS MAX_TAX_BPS (snd st)
      in and_then (store_row A (object_id_for_warehouse A w)
             (WarehouseRow \<lparr>w_id = w, w_ytd = INITIAL_W_YTD_CENTS, w_tax = int tax, w_name = ''Warehouse_'' @ show_nat w\<rparr>) (fst st, g))
           (\<lambda>st. and_then (for_each (init_district A gen w) (ids_to DISTRICTS_PER_WAREHOUSE) st)
             (for_each (init_stock A gen w) (ids_to STOCK_PER_WAREHOUSE))))"

definition init_objects ::
  "('o, 'b, 'w, 'm, 'c) tpcc_api \<Rightarrow> (nat \<Rightarrow> nat \<Rightarrow> 'g \<Rightarrow> nat \<times> 'g) \<Rightarrow> nat \<Rightarrow> ('o, 'b) object_store \<times> 'g \<Rightarrow> (('o, 'b) object_store \<times> 'g) res" where
  "init_objects A gen num_warehouses st =
     and_then (for_each (init_item A gen) (ids_to NUM_ITEMS) st)
       (for_each (init_warehouse A gen) (ids_to num_warehouses))"


section \<open>Business logic\<close>

definition update_tpcc_object_with_version :: "('o, 'b, 'w, 'm, 'c) tpcc_api \<Rightarrow> 'b \<Rightarrow> version \<Rightarrow> 'b res" where
  "update_tpcc_object_with_version A input v =
     and_then (unwrap ''TPCC object must be a Move object'' (tp_as_move A input))
       (\<lambda>m. let updated = tp_increment_version_to A v m
            in if tp_is_shared A input then Inr (tp_new_move A updated (tp_shared_owner A v))
               else and_then (unwrap ''Should be single owner'' (tp_single_owner A input))
                      (\<lambda>owner. Inr (tp_new_move A updated owner)))"

text \<open>The object cache of one execution.\<close>

definition get_object :: "('o, 'b) object_store \<Rightarrow> 'o \<Rightarrow> ('o \<rightharpoonup> 'b) \<Rightarrow> ('b \<times> ('o \<rightharpoonup> 'b)) res" where
  "get_object s i cache =
     (case cache i of
        Some b \<Rightarrow> Inr (b, cache)
      | None \<Rightarrow> and_then (unwrap ''Unknown object'' (tpcc_read_object s i)) (\<lambda>b. Inr (b, cache(i \<mapsto> b))))"

definition read_tpcc_data ::
  "build \<Rightarrow> ('o, 'b, 'w, 'm, 'c) tpcc_api \<Rightarrow> ('o, 'b) object_store \<Rightarrow> 'o \<Rightarrow> tpcc_object_kind \<Rightarrow> ('o \<rightharpoonup> 'b) \<Rightarrow> (tpcc_row \<times> ('o \<rightharpoonup> 'b)) res" where
  "read_tpcc_data bd A s i kind cache =
     and_then (get_object s i cache) (\<lambda>(b, cache). and_then (decode_tpcc_data bd A b kind) (\<lambda>row. Inr (row, cache)))"

text \<open>The type that the caller asks for; \<^verbatim>\<open>bcs\<close> returns a value of that type.\<close>

fun as_warehouse :: "tpcc_row \<Rightarrow> warehouse res" where
  "as_warehouse (WarehouseRow r) = Inr r" | "as_warehouse _ = Inl (Panic ''type'')"
fun as_district :: "tpcc_row \<Rightarrow> district res" where
  "as_district (DistrictRow r) = Inr r" | "as_district _ = Inl (Panic ''type'')"
fun as_customer :: "tpcc_row \<Rightarrow> customer res" where
  "as_customer (CustomerRow r) = Inr r" | "as_customer _ = Inl (Panic ''type'')"
fun as_stock :: "tpcc_row \<Rightarrow> stock res" where
  "as_stock (StockRow r) = Inr r" | "as_stock _ = Inl (Panic ''type'')"
fun as_item :: "tpcc_row \<Rightarrow> item res" where
  "as_item (ItemRow r) = Inr r" | "as_item _ = Inl (Panic ''type'')"

definition read_as ::
  "build \<Rightarrow> ('o, 'b, 'w, 'm, 'c) tpcc_api \<Rightarrow> ('o, 'b) object_store \<Rightarrow> 'o \<Rightarrow> tpcc_object_kind \<Rightarrow> (tpcc_row \<Rightarrow> 'r res) \<Rightarrow> ('o \<rightharpoonup> 'b) \<Rightarrow>
   ('r \<times> ('o \<rightharpoonup> 'b)) res" where
  "read_as bd A s i kind as_row cache =
     and_then (read_tpcc_data bd A s i kind cache) (\<lambda>(row, cache). and_then (as_row row) (\<lambda>r. Inr (r, cache)))"

fun order_lines ::
  "build \<Rightarrow> ('o::linorder, 'b, 'w, 'm, 'c) tpcc_api \<Rightarrow> ('o, 'b) object_store \<Rightarrow> nat \<Rightarrow> order_item list \<Rightarrow>
   ('o \<rightharpoonup> 'b) \<times> int \<times> ('o, stock) btree \<Rightarrow> (('o \<rightharpoonup> 'b) \<times> int \<times> ('o, stock) btree) res" where
  "order_lines bd A s w [] st = Inr st"
| "order_lines bd A s w (it # items) (cache, total_cents, stocks) =
     and_then (read_as bd A s (object_id_for_item A (oi_i_id it)) Item as_item cache)
       (\<lambda>(item, cache).
          let stock_id = object_id_for_stock A (oi_supply_w_id it) (oi_i_id it) in
          and_then (case map_of stocks stock_id of
                      Some entry \<Rightarrow> Inr (entry, cache)
                    | None \<Rightarrow> read_as bd A s stock_id Stock as_stock cache)
            (\<lambda>(entry, cache). and_then (update_stock bd w it entry)
               (\<lambda>entry. and_then (fit_i64 bd (i_price item * oi_quantity it))
                  (\<lambda>ol_amount. and_then (fit_i64 bd (total_cents + ol_amount))
                     (\<lambda>total_cents. order_lines bd A s w items (cache, total_cents, bt_insert stock_id entry stocks))))))"

fun encode_stocks ::
  "('o::linorder, 'b, 'w, 'm, 'c) tpcc_api \<Rightarrow> version \<Rightarrow> ('o, stock) btree \<Rightarrow> ('o, 'b) btree \<Rightarrow> ('o, 'b) btree res" where
  "encode_stocks A v [] updated = Inr updated"
| "encode_stocks A v ((stock_id, st) # stocks) updated =
     and_then (encode_tpcc_object A stock_id v Stock (StockRow st)) (\<lambda>b. encode_stocks A v stocks (bt_insert stock_id b updated))"

definition execute_new_order ::
  "build \<Rightarrow> ('o::linorder, 'b, 'w, 'm, 'c) tpcc_api \<Rightarrow> ('o, 'b) object_store \<Rightarrow> version \<Rightarrow> nat \<Rightarrow> nat \<Rightarrow> nat \<Rightarrow> order_item list \<Rightarrow>
   ('o \<rightharpoonup> 'b) \<Rightarrow> (('o, 'b) btree \<times> ('o \<rightharpoonup> 'b)) res" where
  "execute_new_order bd A s next_v w d c items cache =
     and_then (read_as bd A s (object_id_for_warehouse A w) Warehouse as_warehouse cache)
     (\<lambda>(wh, cache). and_then (read_as bd A s (object_id_for_district A w d) District as_district cache)
     (\<lambda>(di, cache). and_then (fit_u32 bd (d_next_o_id di + 1))
     (\<lambda>o_id. and_then (read_as bd A s (object_id_for_customer A w d c) Customer as_customer cache)
     (\<lambda>(cu, cache). and_then (order_lines bd A s w items (cache, 0, []))
     (\<lambda>(cache, total_cents, stock_updates). and_then (final_total_cents bd total_cents (c_discount cu) (w_tax wh) (d_tax di))
     (\<lambda>_. and_then (encode_tpcc_object A (object_id_for_district A w d) next_v District (DistrictRow (di\<lparr>d_next_o_id := o_id\<rparr>)))
     (\<lambda>b. and_then (encode_stocks A next_v stock_updates [(object_id_for_district A w d, b)])
     (\<lambda>updated. Inr (updated, cache)))))))))"

definition execute_payment ::
  "build \<Rightarrow> ('o::linorder, 'b, 'w, 'm, 'c) tpcc_api \<Rightarrow> ('o, 'b) object_store \<Rightarrow> version \<Rightarrow> nat \<Rightarrow> nat \<Rightarrow> nat \<Rightarrow> nat \<Rightarrow> nat \<Rightarrow> int \<Rightarrow>
   ('o \<rightharpoonup> 'b) \<Rightarrow> (('o, 'b) btree \<times> ('o \<rightharpoonup> 'b)) res" where
  "execute_payment bd A s next_v w d cw cd c h_amount cache =
     and_then (read_as bd A s (object_id_for_warehouse A w) Warehouse as_warehouse cache)
     (\<lambda>(wh, cache). and_then (fit_i64 bd (w_ytd wh + h_amount))
     (\<lambda>wytd. and_then (read_as bd A s (object_id_for_district A w d) District as_district cache)
     (\<lambda>(di, cache). and_then (fit_i64 bd (d_ytd di + h_amount))
     (\<lambda>dytd. and_then (read_as bd A s (object_id_for_customer A cw cd c) Customer as_customer cache)
     (\<lambda>(cu, cache). and_then (fit_i64 bd (c_balance cu - h_amount))
     (\<lambda>balance. and_then (fit_i64 bd (c_ytd_payment cu + h_amount))
     (\<lambda>paid. and_then (fit_u32 bd (c_payment_cnt cu + 1))
     (\<lambda>cnt. and_then (encode_tpcc_object A (object_id_for_warehouse A w) next_v Warehouse (WarehouseRow (wh\<lparr>w_ytd := wytd\<rparr>)))
     (\<lambda>bw. and_then (encode_tpcc_object A (object_id_for_district A w d) next_v District (DistrictRow (di\<lparr>d_ytd := dytd\<rparr>)))
     (\<lambda>bd'. and_then (encode_tpcc_object A (object_id_for_customer A cw cd c) next_v Customer
               (CustomerRow (cu\<lparr>c_balance := balance, c_ytd_payment := paid, c_payment_cnt := cnt\<rparr>)))
     (\<lambda>bc. Inr (bt_insert (object_id_for_customer A cw cd c) bc
                 (bt_insert (object_id_for_district A w d) bd' [(object_id_for_warehouse A w, bw)]), cache))))))))))))"

fun execute_tpcc_logic ::
  "build \<Rightarrow> ('o::linorder, 'b, 'w, 'm, 'c) tpcc_api \<Rightarrow> ('o, 'b) object_store \<Rightarrow> tpcc_transaction \<Rightarrow> version \<Rightarrow>
   ('o \<rightharpoonup> 'b) \<Rightarrow> (('o, 'b) btree \<times> ('o \<rightharpoonup> 'b)) res" where
  "execute_tpcc_logic bd A s (NewOrder w d c items) v cache = execute_new_order bd A s v w d c items cache"
| "execute_tpcc_logic bd A s (Payment w d cw cd c h_amount) v cache = execute_payment bd A s v w d cw cd c h_amount cache"


section \<open>Execution\<close>

fun tpcc_output_objects ::
  "('o::linorder, 'b, 'w, 'm, 'c) tpcc_api \<Rightarrow> ('o, 'b) object_store \<Rightarrow> version \<Rightarrow> ('o, 'b) btree \<Rightarrow> 'o input_object_kind list \<Rightarrow>
   ('o \<rightharpoonup> 'b) \<Rightarrow> ('o, 'b) btree \<Rightarrow> ('o, 'b) btree res" where
  "tpcc_output_objects A s v updated [] cache new_state = Inr new_state"
| "tpcc_output_objects A s v updated (reference # refs) cache new_state =
     (let i = kind_object_id reference in
      case map_of updated i of
        Some b \<Rightarrow> tpcc_output_objects A s v updated refs cache (bt_insert i b new_state)
      | None \<Rightarrow>
          and_then (get_object s i cache)
            (\<lambda>(input, cache). and_then (update_tpcc_object_with_version A input v)
               (\<lambda>b. tpcc_output_objects A s v updated refs cache (bt_insert i b new_state))))"

definition tpcc_execute ::
  "(version \<Rightarrow> version) \<Rightarrow> build \<Rightarrow> ('o::linorder, 'b, 'w, 'm, 'c) tpcc_api \<Rightarrow> ('o, 'b) object_store \<Rightarrow> (('d, 'o) tpcc_executable, 'o) txn_ts \<Rightarrow>
   (('o, 'b) object_store \<times> (('d, 'o) tpcc_executable, 'o, ('d, 'o) tpcc_effects, 'b) execution_results) res" where
  "tpcc_execute nxt bd A s t =
     (let (max_version, modified_at_versions) = scan_versions (shared_objects t) 2 [];
          next_v = nxt max_version
      in and_then (execute_tpcc_logic bd A s (te_txn (transaction t)) next_v Map.empty)
           (\<lambda>(updated, cache). and_then (tpcc_output_objects A s next_v updated (te_inputs (transaction t)) cache [])
              (\<lambda>new_state.
                 let updates = \<lparr>tf_transaction_digest = te_digest (transaction t), tf_modified_at_versions = modified_at_versions\<rparr>
                 in Inr (tpcc_commit_objects s updates new_state, results_new t (Some updates) (Some new_state)))))"

fun tpcc_check_inputs ::
  "('o, 'b, 'w, 'm, 'c) tpcc_api \<Rightarrow> ('o, 'b) object_store \<Rightarrow> ('o, version option) btree \<Rightarrow> 'o input_object_kind list \<Rightarrow> bool" where
  "tpcc_check_inputs A s shared [] = True"
| "tpcc_check_inputs A s shared (reference # refs) =
     (let i = kind_object_id reference in
      case tpcc_read_object s i of
        None \<Rightarrow> False
      | Some b \<Rightarrow>
          (if is_shared_kind reference
           then (case map_of shared i of
                   Some (Some expected_version) \<Rightarrow> (if tp_version A b \<noteq> expected_version then False else tpcc_check_inputs A s shared refs)
                 | _ \<Rightarrow> tpcc_check_inputs A s shared refs)
           else tpcc_check_inputs A s shared refs))"

definition tpcc_pre_execute_check ::
  "('o, 'b, 'w, 'm, 'c) tpcc_api \<Rightarrow> ('o, 'b) object_store \<Rightarrow> (('d, 'o) tpcc_executable, 'o) txn_ts \<Rightarrow> bool res" where
  "tpcc_pre_execute_check A s t = Inr (tpcc_check_inputs A s (shared_objects t) (te_inputs (transaction t)))"

definition tpcc_ops ::
  "(version \<Rightarrow> version) \<Rightarrow> build \<Rightarrow> ('o::linorder, 'b, 'w, 'm, 'c) tpcc_api \<Rightarrow>
   ((('d, 'o) tpcc_executable, 'o) txn_ts \<Rightarrow> 'd verification_request) \<Rightarrow> ('d verification_request \<Rightarrow> bool) \<Rightarrow>
   (('d, 'o) tpcc_executable, 'd, 'o, ('d, 'o) tpcc_effects, 'b) executor_ops" where
  "tpcc_ops nxt bd A make_request verify =
     \<lparr>ex_trait = tpcc_transaction_trait, ex_make_verification_request = make_request, ex_verify_transaction = verify,
      ex_pre_execute_check = tpcc_pre_execute_check A, ex_execute = tpcc_execute nxt bd A\<rparr>"

end
