(* ===== verification/Tpcc_Consistency.thy ===== *)
theory Tpcc_Consistency
  imports Tpcc_Spec
begin

text \<open>
  The consistency of the TPC-C database.  For the transactions that the benchmark generates, and for fewer than \<open>2\<^sup>2\<^sup>4\<close>
  of them, no arithmetic operation of the code overflows, so debug and release builds agree, and the
  database keeps its invariant: the year-to-date amount of a warehouse is the sum of those of its districts, what a
  customer paid is what the balance lost, and stock quantities stay between 10 and 100.
\<close>


section \<open>Transactions of the benchmark\<close>

definition order_item_ok :: "nat \<Rightarrow> order_item \<Rightarrow> bool" where
  "order_item_ok W it \<longleftrightarrow>
     1 \<le> oi_i_id it \<and> oi_i_id it \<le> NUM_ITEMS \<and> 1 \<le> oi_supply_w_id it \<and> oi_supply_w_id it \<le> W \<and>
     1 \<le> oi_quantity it \<and> oi_quantity it \<le> int MAX_OL_QUANTITY"

fun tpcc_txn_ok :: "nat \<Rightarrow> tpcc_transaction \<Rightarrow> bool" where
  "tpcc_txn_ok W (NewOrder w d c items) \<longleftrightarrow>
     1 \<le> w \<and> w \<le> W \<and> 1 \<le> d \<and> d \<le> DISTRICTS_PER_WAREHOUSE \<and> 1 \<le> c \<and> c \<le> CUSTOMERS_PER_DISTRICT \<and>
     MIN_OL_CNT \<le> length items \<and> length items \<le> MAX_OL_CNT \<and> list_all (order_item_ok W) items"
| "tpcc_txn_ok W (Payment w d cw cd c h) \<longleftrightarrow>
     1 \<le> w \<and> w \<le> W \<and> 1 \<le> d \<and> d \<le> DISTRICTS_PER_WAREHOUSE \<and> 1 \<le> cw \<and> cw \<le> W \<and> 1 \<le> cd \<and> cd \<le> DISTRICTS_PER_WAREHOUSE \<and>
     1 \<le> c \<and> c \<le> CUSTOMERS_PER_DISTRICT \<and> int MIN_PAYMENT_CENTS \<le> h \<and> h \<le> int MAX_PAYMENT_CENTS"

fun key_in_db :: "nat \<Rightarrow> tpcc_key \<Rightarrow> bool" where
  "key_in_db W (KWarehouse w) \<longleftrightarrow> 1 \<le> w \<and> w \<le> W"
| "key_in_db W (KDistrict w d) \<longleftrightarrow> 1 \<le> w \<and> w \<le> W \<and> 1 \<le> d \<and> d \<le> DISTRICTS_PER_WAREHOUSE"
| "key_in_db W (KCustomer w d c) \<longleftrightarrow> 1 \<le> w \<and> w \<le> W \<and> 1 \<le> d \<and> d \<le> DISTRICTS_PER_WAREHOUSE \<and> 1 \<le> c \<and> c \<le> CUSTOMERS_PER_DISTRICT"
| "key_in_db W (KStock w i) \<longleftrightarrow> 1 \<le> w \<and> w \<le> W \<and> 1 \<le> i \<and> i \<le> STOCK_PER_WAREHOUSE"
| "key_in_db W (KItem i) \<longleftrightarrow> 1 \<le> i \<and> i \<le> NUM_ITEMS"

definition db_keys :: "nat \<Rightarrow> tpcc_key set" where
  "db_keys W = {k. key_in_db W k}"

lemma txn_ok_keys: "tpcc_txn_ok W t \<Longrightarrow> access_keys t \<union> item_keys t \<subseteq> db_keys W"
  by (cases t) (auto simp: db_keys_def list_all_iff order_item_ok_def tpcc_constants)


section \<open>Rows after \<open>n\<close> transactions\<close>

fun row_ok :: "nat \<Rightarrow> tpcc_row \<Rightarrow> bool" where
  "row_ok n (WarehouseRow r) \<longleftrightarrow> 0 \<le> w_ytd r \<and> w_ytd r \<le> INITIAL_W_YTD_CENTS + 500000 * int n \<and> 0 \<le> w_tax r \<and> w_tax r \<le> int MAX_TAX_BPS"
| "row_ok n (DistrictRow r) \<longleftrightarrow>
     0 \<le> d_ytd r \<and> d_ytd r \<le> INITIAL_D_YTD_CENTS + 500000 * int n \<and> 0 \<le> d_tax r \<and> d_tax r \<le> int MAX_TAX_BPS \<and>
     0 \<le> d_next_o_id r \<and> d_next_o_id r \<le> INITIAL_NEXT_O_ID + int n"
| "row_ok n (CustomerRow r) \<longleftrightarrow>
     c_balance r + c_ytd_payment r = 0 \<and> 0 \<le> c_ytd_payment r \<and> c_ytd_payment r \<le> INITIAL_YTD_PAYMENT_CENTS + 500000 * int n \<and>
     0 \<le> c_payment_cnt r \<and> c_payment_cnt r \<le> INITIAL_PAYMENT_CNT + int n \<and> 0 \<le> c_discount r \<and> c_discount r \<le> int MAX_DISCOUNT_BPS"
| "row_ok n (StockRow r) \<longleftrightarrow>
     int MIN_QUANTITY \<le> s_quantity r \<and> s_quantity r \<le> int MAX_QUANTITY \<and> 0 \<le> s_ytd r \<and> s_ytd r \<le> 150 * int n \<and>
     0 \<le> s_order_cnt r \<and> s_order_cnt r \<le> 15 * int n \<and> 0 \<le> s_remote_cnt r \<and> s_remote_cnt r \<le> s_order_cnt r"
| "row_ok n (ItemRow r) \<longleftrightarrow> int MIN_PRICE_CENTS \<le> i_price r \<and> i_price r \<le> int MAX_PRICE_CENTS"

lemma row_ok_mono: "row_ok n r \<Longrightarrow> n \<le> m \<Longrightarrow> row_ok m r"
  by (cases r) auto

definition ytd_sum_ok :: "nat \<Rightarrow> tpcc_db \<Rightarrow> bool" where
  "ytd_sum_ok W R \<longleftrightarrow>
     (\<forall>w \<in> {1..W}. w_ytd (the_warehouse (R (KWarehouse w))) =
        (\<Sum>d \<in> {1..DISTRICTS_PER_WAREHOUSE}. d_ytd (the_district (R (KDistrict w d)))))"

definition db_ok :: "nat \<Rightarrow> nat \<Rightarrow> tpcc_db \<Rightarrow> bool" where
  "db_ok W n R \<longleftrightarrow> db_typed (db_keys W) R \<and> (\<forall>k \<in> db_keys W. row_ok n (R k)) \<and> ytd_sum_ok W R"

lemma db_okD:
  assumes "db_ok W n R" "k \<in> db_keys W"
  shows "row_kind (R k) = key_kind k" "row_ok n (R k)"
  using assms by (auto simp: db_ok_def db_typed_def)

lemma db_ok_rows:
  assumes "db_ok W n R"
  shows "KWarehouse w \<in> db_keys W \<Longrightarrow> row_ok n (WarehouseRow (the_warehouse (R (KWarehouse w))))"
    "KDistrict w d \<in> db_keys W \<Longrightarrow> row_ok n (DistrictRow (the_district (R (KDistrict w d))))"
    "KCustomer w d c \<in> db_keys W \<Longrightarrow> row_ok n (CustomerRow (the_customer (R (KCustomer w d c))))"
    "KStock w i \<in> db_keys W \<Longrightarrow> row_ok n (StockRow (the_stock (R (KStock w i))))"
    "KItem i \<in> db_keys W \<Longrightarrow> row_ok n (ItemRow (the_item (R (KItem i))))"
  using db_okD[OF assms] row_of_kind by (metis key_kind.simps)+


section \<open>PAYMENT\<close>

lemma fits:
  "- (10 ^ 18) \<le> x \<Longrightarrow> x \<le> 10 ^ 18 \<Longrightarrow> fit_i64 bd x = Inr x" "0 \<le> x \<Longrightarrow> x \<le> 4000000000 \<Longrightarrow> fit_u32 bd x = Inr x"
  "- 2000000000 \<le> x \<Longrightarrow> x \<le> 2000000000 \<Longrightarrow> fit_i32 bd x = Inr x" "- (10 ^ 30) \<le> x \<Longrightarrow> x \<le> 10 ^ 30 \<Longrightarrow> fit_i128 bd x = Inr x"
  by (simp_all add: fit_signed_def fit_unsigned_def)

lemma payment_spec_ok:
  assumes ok: "db_ok W n R" and t: "tpcc_txn_ok W (Payment w d cw cd c h)" and n: "n < 2 ^ 24"
  shows "\<exists>R'. payment_spec bd w d cw cd c h R = Inr R' \<and> db_ok W (Suc n) R'"
proof -
  let ?wh = "the_warehouse (R (KWarehouse w))" and ?di = "the_district (R (KDistrict w d))" and ?cu = "the_customer (R (KCustomer cw cd c))"
  have k: "KWarehouse w \<in> db_keys W" "KDistrict w d \<in> db_keys W" "KCustomer cw cd c \<in> db_keys W" using txn_ok_keys[OF t] by auto
  note r = db_ok_rows(1)[OF ok k(1)] db_ok_rows(2)[OF ok k(2)] db_ok_rows(3)[OF ok k(3)]
  have h: "100 \<le> h" "h \<le> 500000" using t by (simp_all add: tpcc_constants)
  have n': "int n < 16777216" using n by simp
  let ?R = "R(KWarehouse w := WarehouseRow (?wh\<lparr>w_ytd := w_ytd ?wh + h\<rparr>), KDistrict w d := DistrictRow (?di\<lparr>d_ytd := d_ytd ?di + h\<rparr>),
     KCustomer cw cd c := CustomerRow (?cu\<lparr>c_balance := c_balance ?cu - h, c_ytd_payment := c_ytd_payment ?cu + h, c_payment_cnt := c_payment_cnt ?cu + 1\<rparr>))"
  have run: "payment_spec bd w d cw cd c h R = Inr ?R"
    using r h n' by (simp add: payment_spec_def Let_def fits tpcc_constants)
  have "db_typed (db_keys W) ?R"
    using tpcc_spec_typed[of bd "Payment w d cw cd c h" R ?R "db_keys W"] run ok txn_ok_keys[OF t] by (simp add: db_ok_def)
  moreover have "row_ok (Suc n) (?R k)" if "k \<in> db_keys W" for k
    using row_ok_mono[OF db_okD(2)[OF ok that], of "Suc n"] r h by (auto simp: tpcc_constants)
  moreover have "ytd_sum_ok W ?R"
    unfolding ytd_sum_ok_def
  proof
    fix v assume v: "v \<in> {1..W}"
    have old: "w_ytd (the_warehouse (R (KWarehouse v))) = (\<Sum>e \<in> {1..DISTRICTS_PER_WAREHOUSE}. d_ytd (the_district (R (KDistrict v e))))"
      using ok v by (simp add: db_ok_def ytd_sum_ok_def)
    show "w_ytd (the_warehouse (?R (KWarehouse v))) = (\<Sum>e \<in> {1..DISTRICTS_PER_WAREHOUSE}. d_ytd (the_district (?R (KDistrict v e))))"
    proof (cases "v = w")
      case True
      have D: "d_ytd (the_district (?R (KDistrict w e))) = d_ytd (the_district (R (KDistrict w e))) + (if e = d then h else 0)" for e by simp
      have W: "w_ytd (the_warehouse (?R (KWarehouse w))) = w_ytd (the_warehouse (R (KWarehouse w))) + h" by simp
      have "(\<Sum>e \<in> {1..DISTRICTS_PER_WAREHOUSE}. (if e = d then h else 0)) = h" using t by simp
      then show ?thesis unfolding True unfolding D W unfolding sum.distrib using old True by simp
    next
      case False
      then show ?thesis using old by simp
    qed
  qed
  ultimately show ?thesis using run by (auto simp: db_ok_def)
qed


section \<open>NEW\_ORDER\<close>

text \<open>One order line changes a stock entry: the quantity stays in its range, the counters grow by at most the quantity and one.\<close>

lemma update_stock_ok:
  assumes "int MIN_QUANTITY \<le> s_quantity st" "s_quantity st \<le> int MAX_QUANTITY" "0 \<le> s_ytd st" "s_ytd st \<le> 3 * 10 ^ 9"
    "0 \<le> s_order_cnt st" "s_order_cnt st \<le> 3 * 10 ^ 9" "0 \<le> s_remote_cnt st" "s_remote_cnt st \<le> s_order_cnt st"
    and q: "1 \<le> oi_quantity it" "oi_quantity it \<le> int MAX_OL_QUANTITY"
  shows "\<exists>st'. update_stock bd w it st = Inr st' \<and> int MIN_QUANTITY \<le> s_quantity st' \<and> s_quantity st' \<le> int MAX_QUANTITY \<and>
           s_ytd st' = s_ytd st + oi_quantity it \<and> s_order_cnt st' = s_order_cnt st + 1 \<and>
           s_remote_cnt st' = s_remote_cnt st + (if oi_supply_w_id it \<noteq> w then 1 else 0)"
proof -
  have w: "wrap_signed 32 (oi_quantity it) = oi_quantity it"
    using q by (intro wrap_signed_id) (simp_all add: tpcc_constants)
  show ?thesis
    using assms unfolding update_stock_def w Let_def by (simp add: fits tpcc_constants)
qed

text \<open>A stock entry in the middle of an order of the transaction after \<open>n\<close> others, when \<open>j\<close> lines have been processed.\<close>

definition stock_mid :: "nat \<Rightarrow> nat \<Rightarrow> stock \<Rightarrow> bool" where
  "stock_mid n j st \<longleftrightarrow>
     int MIN_QUANTITY \<le> s_quantity st \<and> s_quantity st \<le> int MAX_QUANTITY \<and> 0 \<le> s_ytd st \<and> s_ytd st \<le> 150 * int n + 10 * int j \<and>
     0 \<le> s_order_cnt st \<and> s_order_cnt st \<le> 15 * int n + int j \<and> 0 \<le> s_remote_cnt st \<and> s_remote_cnt st \<le> s_order_cnt st"

lemma stock_mid_0: "stock_mid n 0 st \<longleftrightarrow> row_ok n (StockRow st)"
  by (simp add: stock_mid_def)

lemma stock_mid_end: "stock_mid n j st \<Longrightarrow> j \<le> MAX_OL_CNT \<Longrightarrow> row_ok (Suc n) (StockRow st)"
  by (simp add: stock_mid_def tpcc_constants)

lemma stock_mid_mono: "stock_mid n j st \<Longrightarrow> j \<le> j' \<Longrightarrow> stock_mid n j' st"
  by (simp add: stock_mid_def)

lemma update_stock_mid:
  assumes "stock_mid n j st" "order_item_ok W it" "n < 2 ^ 24" "j < 15"
  shows "\<exists>st'. update_stock bd w it st = Inr st' \<and> stock_mid n (Suc j) st'"
proof -
  have q: "1 \<le> oi_quantity it" "oi_quantity it \<le> int MAX_OL_QUANTITY" using assms(2) by (simp_all add: order_item_ok_def)
  have n: "int n < 16777216" "int j < 15" using assms(3,4) by simp_all
  have "\<exists>st'. update_stock bd w it st = Inr st' \<and> int MIN_QUANTITY \<le> s_quantity st' \<and> s_quantity st' \<le> int MAX_QUANTITY \<and>
           s_ytd st' = s_ytd st + oi_quantity it \<and> s_order_cnt st' = s_order_cnt st + 1 \<and>
           s_remote_cnt st' = s_remote_cnt st + (if oi_supply_w_id it \<noteq> w then 1 else 0)"
    by (rule update_stock_ok[OF _ _ _ _ _ _ _ _ q]) (use assms(1) n in \<open>simp_all add: stock_mid_def\<close>)
  then obtain st' where u: "update_stock bd w it st = Inr st'" "int MIN_QUANTITY \<le> s_quantity st'" "s_quantity st' \<le> int MAX_QUANTITY"
      "s_ytd st' = s_ytd st + oi_quantity it" "s_order_cnt st' = s_order_cnt st + 1"
      "s_remote_cnt st' = s_remote_cnt st + (if oi_supply_w_id it \<noteq> w then 1 else 0)"
    by auto
  have "stock_mid n (Suc j) st'" using assms(1) q u(2-6) by (simp add: stock_mid_def MAX_OL_QUANTITY_def split: if_splits)
  with u(1) show ?thesis by blast
qed

definition mid_db :: "nat \<Rightarrow> nat \<Rightarrow> nat \<Rightarrow> tpcc_db \<Rightarrow> bool" where
  "mid_db W n j R \<longleftrightarrow>
     (\<forall>w i. KStock w i \<in> db_keys W \<longrightarrow> stock_mid n j (the_stock (R (KStock w i)))) \<and>
     (\<forall>i. KItem i \<in> db_keys W \<longrightarrow> row_ok n (R (KItem i)) \<and> row_kind (R (KItem i)) = Item)"

lemma order_lines_spec_ok:
  assumes "mid_db W n j R" "list_all (order_item_ok W) items" "j + length items \<le> MAX_OL_CNT" "n < 2 ^ 24"
    "0 \<le> tot" "tot \<le> 100000 * int j"
  shows "\<exists>tot' R'. order_lines_spec bd w items (tot, R) = Inr (tot', R') \<and> mid_db W n (j + length items) R' \<and>
           0 \<le> tot' \<and> tot' \<le> 100000 * int (j + length items)"
  using assms
proof (induction items arbitrary: j tot R)
  case (Cons it items)
  let ?k = "KStock (oi_supply_w_id it) (oi_i_id it)" and ?it = "the_item (R (KItem (oi_i_id it)))"
  have it: "order_item_ok W it" and j: "j < 15" using Cons.prems(2,3) by (simp_all add: tpcc_constants)
  have k: "?k \<in> db_keys W" "KItem (oi_i_id it) \<in> db_keys W" using it by (simp_all add: order_item_ok_def db_keys_def tpcc_constants)
  have s: "stock_mid n j (the_stock (R ?k))" and i: "row_ok n (R (KItem (oi_i_id it)))" "row_kind (R (KItem (oi_i_id it))) = Item"
    using Cons.prems(1) k by (simp_all add: mid_db_def)
  obtain st' where st: "update_stock bd w it (the_stock (R ?k)) = Inr st'" "stock_mid n (Suc j) st'"
    using update_stock_mid[OF s it Cons.prems(4) j] by blast
  have "R (KItem (oi_i_id it)) = ItemRow ?it" by (rule row_of_kind(5)[OF i(2)])
  with i(1) have p: "100 \<le> i_price ?it" "i_price ?it \<le> 10000" by (metis row_ok.simps(5) of_nat_numeral tpcc_constants(10,11))+
  have q: "1 \<le> oi_quantity it" "oi_quantity it \<le> 10" using it by (simp_all add: order_item_ok_def tpcc_constants)
  let ?a = "i_price ?it * oi_quantity it"
  have a: "0 \<le> ?a" "?a \<le> 10000 * 10" using p q mult_mono[of "i_price ?it" 10000 "oi_quantity it" 10] by simp_all
  have tot: "0 \<le> tot + ?a" "tot + ?a \<le> 100000 * int (Suc j)" "100000 * int j \<le> 1500000" using a Cons.prems(5,6) j by simp_all
  have f: "fit_i64 bd ?a = Inr ?a" "fit_i64 bd (tot + ?a) = Inr (tot + ?a)" using a tot by (simp_all add: fits)
  let ?R = "R(?k := StockRow st')"
  have mid: "mid_db W n (Suc j) ?R"
    using Cons.prems(1) st(2) stock_mid_mono[of n j _ "Suc j"] by (auto simp: mid_db_def)
  have "\<exists>tot' R'. order_lines_spec bd w items (tot + ?a, ?R) = Inr (tot', R') \<and> mid_db W n (Suc j + length items) R' \<and>
      0 \<le> tot' \<and> tot' \<le> 100000 * int (Suc j + length items)"
    by (rule Cons.IH[OF mid _ _ Cons.prems(4) tot(1,2)]) (use Cons.prems(2,3) in simp_all)
  then show ?case using st(1) f by (simp add: Let_def)
qed simp

lemma new_order_spec_ok:
  assumes ok: "db_ok W n R" and t: "tpcc_txn_ok W (NewOrder w d c items)" and n: "n < 2 ^ 24"
  shows "\<exists>R'. new_order_spec bd w d c items R = Inr R' \<and> db_ok W (Suc n) R'"
proof -
  let ?wh = "the_warehouse (R (KWarehouse w))" and ?di = "the_district (R (KDistrict w d))" and ?cu = "the_customer (R (KCustomer w d c))"
  have k: "KWarehouse w \<in> db_keys W" "KDistrict w d \<in> db_keys W" "KCustomer w d c \<in> db_keys W" using txn_ok_keys[OF t] by auto
  note r = db_ok_rows(1)[OF ok k(1)] db_ok_rows(2)[OF ok k(2)] db_ok_rows(3)[OF ok k(3)]
  have n': "int n < 16777216" using n by simp
  have "mid_db W n 0 R" using db_ok_rows(4)[OF ok] db_okD[OF ok] by (auto simp: mid_db_def stock_mid_0)
  then obtain tot R1 where lines: "order_lines_spec bd w items (0, R) = Inr (tot, R1)" "mid_db W n (length items) R1"
      "0 \<le> tot" "tot \<le> 100000 * int (length items)"
    using order_lines_spec_ok[of W n 0 R items 0 bd w] t n by auto
  have tot: "tot \<le> 1500000" using lines(4) t by (simp add: tpcc_constants)
  let ?x = "tot * (RATE_SCALE - c_discount ?cu)" and ?y = "RATE_SCALE + w_tax ?wh + d_tax ?di"
  have x: "0 \<le> ?x" "?x \<le> 1500000 * 10000"
    using r(3) lines(3) tot mult_mono[of tot 1500000 "RATE_SCALE - c_discount ?cu" 10000] by (simp_all add: tpcc_constants)
  have y: "0 \<le> ?y" "?y \<le> 14000" using r(1,2) by (simp_all add: tpcc_constants)
  have xy: "0 \<le> ?x * ?y" "?x * ?y \<le> 15000000000 * 14000" using x y mult_mono[of ?x 15000000000 ?y 14000] by simp_all
  have "\<exists>z. final_total_cents bd tot (c_discount ?cu) (w_tax ?wh) (d_tax ?di) = Inr z"
    using x xy by (simp add: final_total_cents_def fits)
  moreover have "fit_u32 bd (d_next_o_id ?di + 1) = Inr (d_next_o_id ?di + 1)"
    using r(2) n' by (simp add: fits tpcc_constants)
  ultimately have run: "new_order_spec bd w d c items R = Inr (R1(KDistrict w d := DistrictRow (?di\<lparr>d_next_o_id := d_next_o_id ?di + 1\<rparr>)))"
    (is "_ = Inr ?R") using lines(1) by (auto simp: new_order_spec_def Let_def)
  have frame: "R1 k = R k" if "key_kind k \<noteq> Stock" for k
    by (rule order_lines_spec_frame[OF lines(1)]) (use that in auto)
  have typed: "db_typed (db_keys W) ?R"
    using tpcc_spec_typed[of bd "NewOrder w d c items" R ?R "db_keys W"] run ok txn_ok_keys[OF t] by (simp add: db_ok_def)
  moreover have "row_ok (Suc n) (?R k)" if kin: "k \<in> db_keys W" for k
  proof (cases "key_kind k = Stock")
    case True
    then obtain v i where k: "k = KStock v i" by (cases k) simp_all
    have "R1 k = StockRow (the_stock (R1 k))" using db_typedD(1)[OF typed kin] row_of_kind(4) by (simp add: k)
    moreover have "row_ok (Suc n) (StockRow (the_stock (R1 k)))"
      by (rule stock_mid_end[of n "length items"]) (use lines(2) kin t in \<open>simp_all add: mid_db_def k\<close>)
    ultimately show ?thesis by (simp add: k)
  next
    case False
    then show ?thesis using row_ok_mono[OF db_okD(2)[OF ok kin], of "Suc n"] frame[OF False] r(2) by (auto simp: tpcc_constants)
  qed
  moreover have "ytd_sum_ok W ?R"
  proof -
    have D: "d_ytd (the_district (?R (KDistrict v e))) = d_ytd (the_district (R (KDistrict v e)))" for v e by (simp add: frame)
    have W: "w_ytd (the_warehouse (?R (KWarehouse v))) = w_ytd (the_warehouse (R (KWarehouse v)))" for v by (simp add: frame)
    show ?thesis using ok unfolding db_ok_def ytd_sum_ok_def D W by blast
  qed
  ultimately show ?thesis using run by (auto simp: db_ok_def)
qed

lemma tpcc_spec_ok:
  assumes "db_ok W n R" "tpcc_txn_ok W t" "n < 2 ^ 24"
  shows "\<exists>R'. tpcc_spec bd t R = Inr R' \<and> db_ok W (Suc n) R'"
  using assms payment_spec_ok new_order_spec_ok by (cases t) auto


section \<open>Runs\<close>

lemma tpcc_spec_run_ok:
  assumes "db_ok W n R" "list_all (tpcc_txn_ok W) ts" "n + length ts \<le> 2 ^ 24"
  shows "\<exists>R'. tpcc_spec_run bd ts R = Inr R' \<and> db_ok W (n + length ts) R'"
  using assms
proof (induction ts arbitrary: n R)
  case (Cons t ts)
  obtain R1 where R1: "tpcc_spec bd t R = Inr R1" "db_ok W (Suc n) R1"
    using tpcc_spec_ok[OF Cons.prems(1), of t bd] Cons.prems(2,3) by auto
  have "\<exists>R'. tpcc_spec_run bd ts R1 = Inr R' \<and> db_ok W (Suc n + length ts) R'"
    by (rule Cons.IH[OF R1(2)]) (use Cons.prems(2,3) in simp_all)
  with R1(1) show ?case by simp
qed simp

end
