(* ===== verification/Tpcc_Refinement.thy ===== *)
theory Tpcc_Refinement
  imports Tpcc_Executor Tpcc_Consistency
begin

text \<open>
  The executor refines the specification of the TPC-C transactions.  \<open>represents\<close> relates a store of objects to a
  database of rows; the read cache, the map of updated stock entries and the map of updated objects are the intermediate
  states of the simulation.
\<close>


section \<open>The refinement relation\<close>

definition represents :: "('o, 'b, 'w, 'm, 'c) tpcc_api \<Rightarrow> tpcc_key set \<Rightarrow> ('o, 'b) object_store \<Rightarrow> tpcc_db \<Rightarrow> bool" where
  "represents A K s R \<longleftrightarrow>
     inj_on (key_id A) K \<and> (\<forall>k \<in> K. row_kind (R k) = key_kind k \<and> (\<exists>b. s (key_id A k) = Some b \<and> holds_row A b (key_id A k) (R k)))"

definition cache_ok :: "('o, 'b) object_store \<Rightarrow> ('o \<rightharpoonup> 'b) \<Rightarrow> bool" where
  "cache_ok s cache \<longleftrightarrow> (\<forall>i b. cache i = Some b \<longrightarrow> s i = Some b)"

lemma representsD:
  assumes "represents A K s R" "k \<in> K"
  shows "row_kind (R k) = key_kind k" "\<exists>b. s (key_id A k) = Some b \<and> holds_row A b (key_id A k) (R k)" "short_names (R k)"
  using assms by (auto simp: represents_def holds_row_def)

lemma represents_inj: "represents A K s R \<Longrightarrow> k \<in> K \<Longrightarrow> k' \<in> K \<Longrightarrow> key_id A k = key_id A k' \<longleftrightarrow> k = k'"
  by (auto simp: represents_def inj_on_def)

lemma represents_typed: "represents A K s R \<Longrightarrow> db_typed K R"
  using representsD by (metis db_typed_def)

lemma cache_ok_empty: "cache_ok s Map.empty"
  by (simp add: cache_ok_def)

lemma get_object_ok:
  assumes "cache_ok s cache" "s i = Some b"
  shows "\<exists>cache'. get_object s i cache = Inr (b, cache') \<and> cache_ok s cache'"
  using assms by (cases "cache i") (auto simp: get_object_def tpcc_read_object_def cache_ok_def)

lemma read_tpcc_data_ok:
  assumes "tpcc_laws A" "represents A K s R" "k \<in> K" "cache_ok s cache"
  shows "\<exists>cache'. read_tpcc_data bd A s (key_id A k) (key_kind k) cache = Inr (R k, cache') \<and> cache_ok s cache'"
proof -
  obtain b where b: "s (key_id A k) = Some b" "holds_row A b (key_id A k) (R k)" using representsD(2)[OF assms(2,3)] by blast
  obtain cache' where "get_object s (key_id A k) cache = Inr (b, cache')" "cache_ok s cache'"
    using get_object_ok[OF assms(4) b(1)] by blast
  moreover have "decode_tpcc_data bd A b (key_kind k) = Inr (R k)"
    using decode_holds_row(1)[OF assms(1) b(2)] representsD(1)[OF assms(2,3)] by simp
  ultimately show ?thesis by (simp add: read_tpcc_data_def)
qed

lemma as_row_of_kind:
  "row_kind r = Warehouse \<Longrightarrow> as_warehouse r = Inr (the_warehouse r)" "row_kind r = District \<Longrightarrow> as_district r = Inr (the_district r)"
  "row_kind r = Customer \<Longrightarrow> as_customer r = Inr (the_customer r)" "row_kind r = Stock \<Longrightarrow> as_stock r = Inr (the_stock r)"
  "row_kind r = Item \<Longrightarrow> as_item r = Inr (the_item r)"
  by (cases r; simp)+

lemma read_as_key:
  assumes "tpcc_laws A" "represents A K s R" "cache_ok s cache" "k \<in> K" "\<And>r. row_kind r = key_kind k \<Longrightarrow> as_row r = Inr (f r)"
  shows "\<exists>cache'. read_as bd A s (key_id A k) (key_kind k) as_row cache = Inr (f (R k), cache') \<and> cache_ok s cache'"
  using read_tpcc_data_ok[OF assms(1,2,4,3), of bd] assms(5)[OF representsD(1)[OF assms(2,4)]] by (auto simp: read_as_def)

lemma read_as_ok:
  assumes "tpcc_laws A" "represents A K s R" "cache_ok s cache"
  shows "KWarehouse w \<in> K \<Longrightarrow> \<exists>cache'. read_as bd A s (object_id_for_warehouse A w) Warehouse as_warehouse cache =
           Inr (the_warehouse (R (KWarehouse w)), cache') \<and> cache_ok s cache'"
    and "KDistrict w d \<in> K \<Longrightarrow> \<exists>cache'. read_as bd A s (object_id_for_district A w d) District as_district cache =
           Inr (the_district (R (KDistrict w d)), cache') \<and> cache_ok s cache'"
    and "KCustomer w d c \<in> K \<Longrightarrow> \<exists>cache'. read_as bd A s (object_id_for_customer A w d c) Customer as_customer cache =
           Inr (the_customer (R (KCustomer w d c)), cache') \<and> cache_ok s cache'"
    and "KStock w i \<in> K \<Longrightarrow> \<exists>cache'. read_as bd A s (object_id_for_stock A w i) Stock as_stock cache =
           Inr (the_stock (R (KStock w i)), cache') \<and> cache_ok s cache'"
    and "KItem i \<in> K \<Longrightarrow> \<exists>cache'. read_as bd A s (object_id_for_item A i) Item as_item cache =
           Inr (the_item (R (KItem i)), cache') \<and> cache_ok s cache'"
  unfolding key_id_simps
  using read_as_key[OF assms, of _ as_warehouse the_warehouse] read_as_key[OF assms, of _ as_district the_district]
    read_as_key[OF assms, of _ as_customer the_customer] read_as_key[OF assms, of _ as_stock the_stock]
    read_as_key[OF assms, of _ as_item the_item] as_row_of_kind
  by (metis key_kind.simps)+


section \<open>Order lines\<close>

text \<open>The map of stock entries holds the rows that differ from the store.\<close>

definition tracks :: "('o, 'b, 'w, 'm, 'c) tpcc_api \<Rightarrow> tpcc_key set \<Rightarrow> tpcc_db \<Rightarrow> ('o::linorder, stock) btree \<Rightarrow> tpcc_db \<Rightarrow> bool" where
  "tracks A K R0 stocks R \<longleftrightarrow>
     bt_wf stocks \<and> (\<forall>k \<in> K. R k = (case map_of stocks (key_id A k) of None \<Rightarrow> R0 k | Some st \<Rightarrow> StockRow st)) \<and>
     (\<forall>i \<in> fst ` set stocks. \<exists>k \<in> K. key_kind k = Stock \<and> i = key_id A k)"

lemma tracks_other:
  assumes "represents A K s R0" "tracks A K R0 stocks R" "k \<in> K" "key_kind k \<noteq> Stock"
  shows "map_of stocks (key_id A k) = None" "R k = R0 k"
proof -
  have "key_id A k \<notin> fst ` set stocks"
    using assms represents_inj[OF assms(1,3)] by (metis tracks_def)
  then show "map_of stocks (key_id A k) = None" by (simp add: map_of_eq_None_iff)
  with assms(2,3) show "R k = R0 k" by (simp add: tracks_def)
qed

lemma tracks_insert:
  assumes "represents A K s R0" "tracks A K R0 stocks R" "k \<in> K" "key_kind k = Stock"
  shows "tracks A K R0 (bt_insert (key_id A k) st stocks) (R(k := StockRow st))"
  using assms represents_inj[OF assms(1) _ assms(3)] by (auto simp: tracks_def)

lemma tracks_start: "tracks A K R0 [] R0"
  by (simp add: tracks_def)

text \<open>The stock entry of a line: from the map of updated entries, from the store at the first use.\<close>

lemma stock_entry_ok:
  assumes "tpcc_laws A" "represents A K s R0" "tracks A K R0 stocks R" "cache_ok s cache" "KStock w i \<in> K"
  shows "\<exists>cache'. (case map_of stocks (object_id_for_stock A w i) of Some entry \<Rightarrow> Inr (entry, cache)
            | None \<Rightarrow> read_as bd A s (object_id_for_stock A w i) Stock as_stock cache) = Inr (the_stock (R (KStock w i)), cache') \<and>
          cache_ok s cache'"
proof (cases "map_of stocks (key_id A (KStock w i))")
  case None
  then have "R (KStock w i) = R0 (KStock w i)" using assms(3,5) by (simp add: tracks_def)
  then show ?thesis using read_as_ok(4)[OF assms(1,2,4,5), of bd] None by (simp add: key_id_simps)
next
  case (Some st)
  then have "R (KStock w i) = StockRow st" using assms(3,5) by (simp add: tracks_def)
  then show ?thesis using Some assms(4) by (simp add: key_id_simps)
qed

lemma order_lines_refines:
  assumes "tpcc_laws A" "represents A K s R0" "tracks A K R0 stocks R" "cache_ok s cache"
    and "\<forall>it \<in> set items. KItem (oi_i_id it) \<in> K \<and> KStock (oi_supply_w_id it) (oi_i_id it) \<in> K"
  shows "refines (\<lambda>(cache', tot', stocks') (tot'', R'). tot' = tot'' \<and> tracks A K R0 stocks' R' \<and> cache_ok s cache')
           (order_lines bd A s w items (cache, tot, stocks)) (order_lines_spec bd w items (tot, R))"
  using assms(3-)
proof (induction items arbitrary: cache tot stocks R)
  case (Cons it items)
  let ?sk = "KStock (oi_supply_w_id it) (oi_i_id it)" and ?ik = "KItem (oi_i_id it)"
  have k: "?sk \<in> K" "?ik \<in> K" using Cons.prems(3) by simp_all
  have item: "R0 ?ik = R ?ik" using tracks_other(2)[OF assms(2) Cons.prems(1) k(2)] by simp
  obtain c1 where c1: "read_as bd A s (object_id_for_item A (oi_i_id it)) Item as_item cache = Inr (the_item (R ?ik), c1)" "cache_ok s c1"
    using read_as_ok(5)[OF assms(1,2) Cons.prems(2) k(2), of bd] item by auto
  obtain c2 where c2: "(case map_of stocks (object_id_for_stock A (oi_supply_w_id it) (oi_i_id it)) of Some entry \<Rightarrow> Inr (entry, c1)
      | None \<Rightarrow> read_as bd A s (object_id_for_stock A (oi_supply_w_id it) (oi_i_id it)) Stock as_stock c1) = Inr (the_stock (R ?sk), c2)"
      "cache_ok s c2"
    using stock_entry_ok[OF assms(1,2) Cons.prems(1) c1(2) k(1), of bd] by blast
  have items: "\<forall>it \<in> set items. KItem (oi_i_id it) \<in> K \<and> KStock (oi_supply_w_id it) (oi_i_id it) \<in> K" using Cons.prems(3) by simp
  note tr = tracks_insert[OF assms(2) Cons.prems(1) k(1) key_kind.simps(4), folded key_id_simps(4)]
  show ?case
    unfolding order_lines.simps order_lines_spec.simps c1(1) and_then_Inr prod.case Let_def c2(1)
    by (intro refines_same Cons.IH[OF tr c2(2) items])
qed (simp add: refines_Inr)


section \<open>Updated objects\<close>

text \<open>The map of updated objects: each holds its row at the new version.\<close>

definition updated_ok :: "('o, 'b, 'w, 'm, 'c) tpcc_api \<Rightarrow> version \<Rightarrow> ('o \<rightharpoonup> tpcc_row) \<Rightarrow> ('o, 'b) btree \<Rightarrow> bool" where
  "updated_ok A v rows updated \<longleftrightarrow>
     (\<forall>i. rows i = None \<longrightarrow> map_of updated i = None) \<and>
     (\<forall>i r. rows i = Some r \<longrightarrow> (\<exists>b. map_of updated i = Some b \<and> holds_row A b i r \<and> tp_version A b = v))"

lemma updated_ok_Nil: "updated_ok A v Map.empty []"
  by (simp add: updated_ok_def)

lemma updated_ok_None: "updated_ok A v rows updated \<Longrightarrow> map_of updated i = None \<longleftrightarrow> rows i = None"
  unfolding updated_ok_def by (metis option.distinct(1) option.exhaust)

lemma updated_ok_insert:
  assumes "updated_ok A v rows updated" "holds_row A b i r" "tp_version A b = v"
  shows "updated_ok A v (rows(i \<mapsto> r)) (bt_insert i b updated)"
  using assms by (simp add: updated_ok_def)

lemma encode_stocks_ok:
  assumes "tpcc_laws A" "distinct (map fst stocks)" "updated_ok A v rows updated"
  shows "\<exists>updated'. encode_stocks A v stocks updated = Inr updated' \<and>
           updated_ok A v (rows ++ (map_option StockRow \<circ> map_of stocks)) updated'"
  using assms(2,3)
proof (induction stocks arbitrary: rows updated)
  case (Cons x stocks)
  obtain i st where x: "x = (i, st)" by (cases x)
  obtain b where b: "encode_tpcc_object A i v Stock (StockRow st) = Inr b" "holds_row A b i (StockRow st)" "tp_version A b = v"
    using encode_holds_row[OF assms(1) short_names_update(5)[of st]] by auto
  have step: "rows(i \<mapsto> StockRow st) ++ (map_option StockRow \<circ> map_of stocks) = rows ++ (map_option StockRow \<circ> map_of (x # stocks))"
  proof
    fix j
    have "map_of stocks i = None" using Cons.prems(1) x by (simp add: map_of_eq_None_iff)
    then show "(rows(i \<mapsto> StockRow st) ++ (map_option StockRow \<circ> map_of stocks)) j = (rows ++ (map_option StockRow \<circ> map_of (x # stocks))) j"
      by (simp add: x map_add_def split: option.splits)
  qed
  have "distinct (map fst stocks)" using Cons.prems(1) by simp
  then have "\<exists>updated'. encode_stocks A v stocks (bt_insert i b updated) = Inr updated' \<and>
      updated_ok A v (rows ++ (map_option StockRow \<circ> map_of (x # stocks))) updated'"
    using Cons.IH[OF _ updated_ok_insert[OF Cons.prems(2) b(2,3)]] unfolding step by blast
  moreover have "encode_stocks A v (x # stocks) updated = encode_stocks A v stocks (bt_insert i b updated)" using b(1) x by simp
  ultimately show ?case by (simp only:)
qed (simp add: comp_def)

lemma bump_ok:
  assumes "tpcc_laws A" "holds_row A b i r"
  shows "\<exists>b'. update_tpcc_object_with_version A b v = Inr b' \<and> holds_row A b' i r \<and> tp_version A b' = v"
proof -
  obtain m where m: "tp_as_move A b = Some m" "tp_type A m = tpcc_struct_tag (row_kind r)" "tp_contents A m = tp_to_bcs A i r"
      "tp_is_shared A b" "short_names r" using assms(2) by (auto simp: holds_row_def)
  let ?m = "tp_increment_version_to A v m" and ?b = "tp_new_move A (tp_increment_version_to A v m) (tp_shared_owner A v)"
  note law = tpcc_lawsD[OF assms(1)]
  have c: "tp_contents A ?m = tp_to_bcs A i r" "tp_type A ?m = tpcc_struct_tag (row_kind r)" using law(7,8) m by simp_all
  have "holds_row A ?b i r" "tp_version A ?b = v"
    using law(5)[of ?m] law(6)[OF c(1)] law(9,10) c m(5) by (simp_all add: holds_row_def)
  then show ?thesis using m by (simp add: update_tpcc_object_with_version_def)
qed

lemma tpcc_output_objects_ok:
  assumes "tpcc_laws A" "updated_ok A v rows updated"
    and "\<forall>r \<in> set refs. \<exists>b. s (kind_object_id r) = Some b \<and> holds_row A b (kind_object_id r) (old (kind_object_id r))"
    and "cache_ok s cache" "updated_ok A v news new_state"
  shows "\<exists>new_state'. tpcc_output_objects A s v updated refs cache new_state = Inr new_state' \<and>
     updated_ok A v (news ++ (\<lambda>i. if i \<in> kind_object_id ` set refs then Some (case rows i of Some r \<Rightarrow> r | None \<Rightarrow> old i) else None)) new_state'"
  using assms(3-)
proof (induction refs arbitrary: cache news new_state)
  case (Cons ref refs)
  let ?i = "kind_object_id ref" and ?row = "\<lambda>i. case rows i of Some r \<Rightarrow> r | None \<Rightarrow> old i"
  let ?N = "\<lambda>refs i. if i \<in> kind_object_id ` set refs then Some (?row i) else None"
  have step: "news(?i \<mapsto> ?row ?i) ++ ?N refs = news ++ ?N (ref # refs)"
    by (auto simp: map_add_def fun_eq_iff split: option.splits)
  have refs: "\<forall>r \<in> set refs. \<exists>b. s (kind_object_id r) = Some b \<and> holds_row A b (kind_object_id r) (old (kind_object_id r))"
    using Cons.prems(1) by simp
  show ?case
  proof (cases "rows ?i")
    case (Some r)
    then have "\<exists>b. map_of updated ?i = Some b \<and> holds_row A b ?i (?row ?i) \<and> tp_version A b = v"
      using assms(2) by (simp add: updated_ok_def)
    then obtain b where b: "map_of updated ?i = Some b" "holds_row A b ?i (?row ?i)" "tp_version A b = v" by blast
    show ?thesis using Cons.IH[OF refs Cons.prems(2) updated_ok_insert[OF Cons.prems(3) b(2,3)]] b(1)
      unfolding step by (simp add: Let_def)
  next
    case None
    then have u: "map_of updated ?i = None" using assms(2) by (simp add: updated_ok_def)
    obtain b where b: "s ?i = Some b" "holds_row A b ?i (?row ?i)" using Cons.prems(1) None by auto
    obtain cache' where c: "get_object s ?i cache = Inr (b, cache')" "cache_ok s cache'" using get_object_ok[OF Cons.prems(2) b(1)] by blast
    obtain b' where b': "update_tpcc_object_with_version A b v = Inr b'" "holds_row A b' ?i (?row ?i)" "tp_version A b' = v"
      using bump_ok[OF assms(1) b(2)] by blast
    show ?thesis using Cons.IH[OF refs c(2) updated_ok_insert[OF Cons.prems(3) b'(2,3)]] u c(1) b'(1)
      unfolding step by (simp add: Let_def)
  qed
qed (simp add: map_add_def)


section \<open>The two transactions\<close>

text \<open>Relation of the map of updated rows with the database before and after.\<close>

definition rows_step :: "('o, 'b, 'w, 'm, 'c) tpcc_api \<Rightarrow> tpcc_key set \<Rightarrow> ('o \<rightharpoonup> tpcc_row) \<Rightarrow> tpcc_db \<Rightarrow> tpcc_db \<Rightarrow> bool" where
  "rows_step A K rows R R' \<longleftrightarrow> (\<forall>k \<in> K. R' k = (case rows (key_id A k) of None \<Rightarrow> R k | Some r \<Rightarrow> r))"

definition logic_ok ::
  "('o, 'b, 'w, 'm, 'c) tpcc_api \<Rightarrow> tpcc_key set \<Rightarrow> ('o, 'b) object_store \<Rightarrow> version \<Rightarrow> tpcc_db \<Rightarrow> ('o, 'b) btree \<times> ('o \<rightharpoonup> 'b) \<Rightarrow> tpcc_db \<Rightarrow> bool" where
  "logic_ok A K s v R uc R' \<longleftrightarrow> cache_ok s (snd uc) \<and> (\<exists>rows. updated_ok A v rows (fst uc) \<and> rows_step A K rows R R')"

lemma encode_row_ok:
  assumes "tpcc_laws A" "short_names r" "row_kind r = kind"
  shows "\<exists>b. encode_tpcc_object A i v kind r = Inr b \<and> holds_row A b i r \<and> tp_version A b = v"
  using encode_holds_row[OF assms(1,2)] assms(3) by simp

lemma execute_payment_refines:
  assumes "tpcc_laws A" "represents A K s R" "cache_ok s cache" "access_keys (Payment w d cw cd c h) \<subseteq> K"
  shows "refines (logic_ok A K s v R) (execute_payment bd A s v w d cw cd c h cache) (payment_spec bd w d cw cd c h R)"
proof -
  let ?kw = "KWarehouse w" and ?kd = "KDistrict w d" and ?kc = "KCustomer cw cd c"
  let ?wh = "the_warehouse (R ?kw)" and ?di = "the_district (R ?kd)" and ?cu = "the_customer (R ?kc)"
  have k: "?kw \<in> K" "?kd \<in> K" "?kc \<in> K" using assms(4) by simp_all
  obtain c1 where c1: "read_as bd A s (object_id_for_warehouse A w) Warehouse as_warehouse cache = Inr (?wh, c1)" "cache_ok s c1"
    using read_as_ok(1)[OF assms(1,2,3) k(1)] by blast
  obtain c2 where c2: "read_as bd A s (object_id_for_district A w d) District as_district c1 = Inr (?di, c2)" "cache_ok s c2"
    using read_as_ok(2)[OF assms(1,2) c1(2) k(2)] by blast
  obtain c3 where c3: "read_as bd A s (object_id_for_customer A cw cd c) Customer as_customer c2 = Inr (?cu, c3)" "cache_ok s c3"
    using read_as_ok(3)[OF assms(1,2) c2(2) k(3)] by blast
  have short: "short_names (WarehouseRow ?wh)" "short_names (DistrictRow ?di)" "short_names (CustomerRow ?cu)"
    using representsD(1,3)[OF assms(2)] k row_of_kind by (metis key_kind.simps)+
  note inj = represents_inj[OF assms(2)]
  have final: "refines (logic_ok A K s v R)
      (and_then (encode_tpcc_object A (object_id_for_warehouse A w) v Warehouse (WarehouseRow (?wh\<lparr>w_ytd := wytd\<rparr>)))
       (\<lambda>bw. and_then (encode_tpcc_object A (object_id_for_district A w d) v District (DistrictRow (?di\<lparr>d_ytd := dytd\<rparr>)))
       (\<lambda>bd'. and_then (encode_tpcc_object A (object_id_for_customer A cw cd c) v Customer
               (CustomerRow (?cu\<lparr>c_balance := balance, c_ytd_payment := paid, c_payment_cnt := cnt\<rparr>)))
       (\<lambda>bc. Inr (bt_insert (object_id_for_customer A cw cd c) bc
                 (bt_insert (object_id_for_district A w d) bd' [(object_id_for_warehouse A w, bw)]), c3)))))
      (Inr (R(?kw := WarehouseRow (?wh\<lparr>w_ytd := wytd\<rparr>), ?kd := DistrictRow (?di\<lparr>d_ytd := dytd\<rparr>),
              ?kc := CustomerRow (?cu\<lparr>c_balance := balance, c_ytd_payment := paid, c_payment_cnt := cnt\<rparr>))))"
    (is "refines _ _ (Inr (R(?kw := ?rw, ?kd := ?rd, ?kc := ?rc)))") for wytd dytd balance paid cnt
  proof -
    have short': "short_names ?rw" "short_names ?rd" "short_names ?rc" using short by (simp_all add: short_names_update)
    obtain bw where bw: "encode_tpcc_object A (key_id A ?kw) v Warehouse ?rw = Inr bw" "holds_row A bw (key_id A ?kw) ?rw" "tp_version A bw = v"
      using encode_row_ok[OF assms(1) short'(1) row_kind.simps(1)] by blast
    obtain b' where b': "encode_tpcc_object A (key_id A ?kd) v District ?rd = Inr b'" "holds_row A b' (key_id A ?kd) ?rd" "tp_version A b' = v"
      using encode_row_ok[OF assms(1) short'(2) row_kind.simps(2)] by blast
    obtain bc where bc: "encode_tpcc_object A (key_id A ?kc) v Customer ?rc = Inr bc" "holds_row A bc (key_id A ?kc) ?rc" "tp_version A bc = v"
      using encode_row_ok[OF assms(1) short'(3) row_kind.simps(3)] by blast
    let ?rows = "[key_id A ?kw \<mapsto> ?rw, key_id A ?kd \<mapsto> ?rd, key_id A ?kc \<mapsto> ?rc]"
    have "updated_ok A v ?rows (bt_insert (key_id A ?kc) bc (bt_insert (key_id A ?kd) b' (bt_insert (key_id A ?kw) bw [])))"
      using bw b' bc by (intro updated_ok_insert updated_ok_Nil)
    moreover have "rows_step A K ?rows R (R(?kw := ?rw, ?kd := ?rd, ?kc := ?rc))"
      using k by (simp add: rows_step_def inj)
    ultimately show ?thesis using bw(1) b'(1) bc(1) c3(2)
      by (auto simp: key_id_simps logic_ok_def intro!: refines_Inr)
  qed
  show ?thesis
    unfolding execute_payment_def payment_spec_def Let_def c1(1) c2(1) c3(1) and_then_Inr prod.case
    by (intro refines_same final)
qed

lemma execute_new_order_refines:
  assumes "tpcc_laws A" "represents A K s R" "cache_ok s cache"
    and "access_keys (NewOrder w d c items) \<subseteq> K" "item_keys (NewOrder w d c items) \<subseteq> K"
  shows "refines (logic_ok A K s v R) (execute_new_order bd A s v w d c items cache) (new_order_spec bd w d c items R)"
proof -
  let ?kd = "KDistrict w d"
  let ?wh = "the_warehouse (R (KWarehouse w))" and ?di = "the_district (R ?kd)" and ?cu = "the_customer (R (KCustomer w d c))"
  have k: "KWarehouse w \<in> K" "?kd \<in> K" "KCustomer w d c \<in> K" using assms(4) by simp_all
  obtain c1 where c1: "read_as bd A s (object_id_for_warehouse A w) Warehouse as_warehouse cache = Inr (?wh, c1)" "cache_ok s c1"
    using read_as_ok(1)[OF assms(1,2,3) k(1)] by blast
  obtain c2 where c2: "read_as bd A s (object_id_for_district A w d) District as_district c1 = Inr (?di, c2)" "cache_ok s c2"
    using read_as_ok(2)[OF assms(1,2) c1(2) k(2)] by blast
  obtain c3 where c3: "read_as bd A s (object_id_for_customer A w d c) Customer as_customer c2 = Inr (?cu, c3)" "cache_ok s c3"
    using read_as_ok(3)[OF assms(1,2) c2(2) k(3)] by blast
  have items: "\<forall>it \<in> set items. KItem (oi_i_id it) \<in> K \<and> KStock (oi_supply_w_id it) (oi_i_id it) \<in> K" using assms(4,5) by auto
  note inj = represents_inj[OF assms(2)]
  have short: "short_names (DistrictRow (?di\<lparr>d_next_o_id := x\<rparr>))" for x
    using representsD(1,3)[OF assms(2) k(2)] row_of_kind(2)[of "R ?kd"] by (metis key_kind.simps(2) short_names_update(3))
  have final: "refines (logic_ok A K s v R)
      (and_then (encode_tpcc_object A (object_id_for_district A w d) v District (DistrictRow (?di\<lparr>d_next_o_id := o_id\<rparr>)))
        (\<lambda>b. and_then (encode_stocks A v stocks [(object_id_for_district A w d, b)]) (\<lambda>updated. Inr (updated, cache'))))
      (Inr (R1(?kd := DistrictRow (?di\<lparr>d_next_o_id := o_id\<rparr>))))"
    (is "refines _ _ (Inr (R1(?kd := ?rd)))")
    if tr: "tracks A K R stocks R1" and c: "cache_ok s cache'" for stocks R1 o_id cache'
  proof -
    obtain b where b: "encode_tpcc_object A (key_id A ?kd) v District ?rd = Inr b" "holds_row A b (key_id A ?kd) ?rd" "tp_version A b = v"
      using encode_row_ok[OF assms(1) short row_kind.simps(2)] by blast
    have u: "updated_ok A v [key_id A ?kd \<mapsto> ?rd] (bt_insert (key_id A ?kd) b [])"
      using b by (intro updated_ok_insert updated_ok_Nil)
    have "distinct (map fst stocks)" using tr bt_wf_distinct by (auto simp: tracks_def)
    from encode_stocks_ok[OF assms(1) this u] obtain updated where e: "encode_stocks A v stocks [(key_id A ?kd, b)] = Inr updated"
        "updated_ok A v ([key_id A ?kd \<mapsto> ?rd] ++ (map_option StockRow \<circ> map_of stocks)) updated" by auto
    have "rows_step A K ([key_id A ?kd \<mapsto> ?rd] ++ (map_option StockRow \<circ> map_of stocks)) R (R1(?kd := ?rd))"
      unfolding rows_step_def
    proof
      fix k' assume k': "k' \<in> K"
      show "(R1(?kd := ?rd)) k' = (case ([key_id A ?kd \<mapsto> ?rd] ++ (map_option StockRow \<circ> map_of stocks)) (key_id A k') of None \<Rightarrow> R k' | Some r \<Rightarrow> r)"
        using tracks_other(1)[OF assms(2) tr k(2)] tr k' inj[OF k' k(2)]
        by (cases "k' = ?kd") (auto simp: tracks_def map_add_def split: option.splits)
    qed
    then show ?thesis using b(1) e c by (auto simp: key_id_simps logic_ok_def intro!: refines_Inr)
  qed
  show ?thesis
    unfolding execute_new_order_def new_order_spec_def Let_def c1(1) c2(1) c3(1) and_then_Inr prod.case
    by (intro refines_same refines_bind[OF order_lines_refines[OF assms(1,2) tracks_start c3(2) items]])
      (auto intro!: refines_same final)
qed

lemma execute_tpcc_logic_refines:
  assumes "tpcc_laws A" "represents A K s R" "cache_ok s cache" "access_keys t \<union> item_keys t \<subseteq> K"
  shows "refines (logic_ok A K s v R) (execute_tpcc_logic bd A s t v cache) (tpcc_spec bd t R)"
  using assms execute_payment_refines[OF assms(1-3)] execute_new_order_refines[OF assms(1-3)] by (cases t) simp_all


section \<open>Execution\<close>

lemma commit_updated: "distinct (map fst new_state) \<Longrightarrow> tpcc_commit_objects s u new_state = s ++ map_of new_state"
proof (induction new_state arbitrary: s)
  case (Cons x xs)
  have "map_of xs (fst x) = None" using Cons.prems by (simp add: map_of_eq_None_iff)
  then show ?case using Cons
    by (cases x) (auto simp: tpcc_commit_objects_def map_add_def fun_eq_iff split: option.splits)
qed (simp add: tpcc_commit_objects_def)

lemma output_objects_wf: "tpcc_output_objects A s v updated refs cache new_state = Inr new_state' \<Longrightarrow> bt_wf new_state \<Longrightarrow> bt_wf new_state'"
proof (induction refs arbitrary: cache new_state)
  case (Cons ref refs)
  then show ?case by (auto simp: Let_def and_then_eq_Inr split: option.splits)
qed simp

definition executed ::
  "('o, 'b, 'w, 'm, 'c) tpcc_api \<Rightarrow> tpcc_key set \<Rightarrow> ('o, 'b) object_store \<Rightarrow> version \<Rightarrow> tpcc_transaction \<Rightarrow> ('o, 'b) object_store \<Rightarrow> tpcc_db \<Rightarrow> bool" where
  "executed A K s v t s' R' \<longleftrightarrow>
     represents A K s' R' \<and> (\<forall>k \<in> access_keys t. \<exists>b. s' (key_id A k) = Some b \<and> tp_version A b = v) \<and>
     (\<forall>i. i \<notin> key_id A ` access_keys t \<longrightarrow> s' i = s i)"

lemma logic_to_store:
  assumes "tpcc_laws A" "represents A K s R" "access_keys t \<subseteq> K" "tpcc_spec bd t R = Inr R'"
    and ok: "logic_ok A K s v R (updated, cache) R'" and refs: "kind_object_id ` set refs = key_id A ` access_keys t"
  shows "\<exists>new_state. tpcc_output_objects A s v updated refs cache [] = Inr new_state \<and>
           executed A K s v t (tpcc_commit_objects s u new_state) R' \<and>
           map_of new_state = tpcc_commit_objects s u new_state |` (key_id A ` access_keys t)"
proof -
  obtain rows where rows: "cache_ok s cache" "updated_ok A v rows updated" "rows_step A K rows R R'" using ok by (auto simp: logic_ok_def)
  note inj = represents_inj[OF assms(2)]
  define old where "old i = R (inv_into K (key_id A) i)" for i
  have old: "old (key_id A k) = R k" if "k \<in> K" for k using that assms(2) by (simp add: old_def represents_def)
  have "\<forall>r \<in> set refs. \<exists>b. s (kind_object_id r) = Some b \<and> holds_row A b (kind_object_id r) (old (kind_object_id r))"
  proof
    fix r assume "r \<in> set refs"
    then obtain k where "k \<in> K" "kind_object_id r = key_id A k" using refs assms(3) by blast
    then show "\<exists>b. s (kind_object_id r) = Some b \<and> holds_row A b (kind_object_id r) (old (kind_object_id r))"
      using representsD(2)[OF assms(2)] old by simp
  qed
  from tpcc_output_objects_ok[OF assms(1) rows(2) this rows(1) updated_ok_Nil] obtain new_state where
    n: "tpcc_output_objects A s v updated refs cache [] = Inr new_state"
      "updated_ok A v (\<lambda>i. if i \<in> key_id A ` access_keys t then Some (case rows i of Some r \<Rightarrow> r | None \<Rightarrow> old i) else None) new_state"
    unfolding refs by auto
  let ?s' = "tpcc_commit_objects s u new_state"
  have s': "?s' = s ++ map_of new_state"
    by (rule commit_updated[OF bt_wf_distinct[OF output_objects_wf[OF n(1) bt_wf_Nil]]])
  have new: "\<exists>b. ?s' (key_id A k) = Some b \<and> holds_row A b (key_id A k) (R' k) \<and> tp_version A b = v" if k: "k \<in> access_keys t" for k
  proof -
    have kK: "k \<in> K" using k assms(3) by blast
    have "R' k = (case rows (key_id A k) of Some r \<Rightarrow> r | None \<Rightarrow> old (key_id A k))"
      unfolding old[OF kK] using rows(3) kK by (simp add: rows_step_def)
    then show ?thesis using n(2) k unfolding updated_ok_def s' by (simp add: map_add_def) (metis imageI option.simps(5))
  qed
  have frame: "?s' i = s i" if "i \<notin> key_id A ` access_keys t" for i
    using n(2) that unfolding updated_ok_def s' by (simp add: map_add_def)
  have "row_kind (R' k) = key_kind k \<and> (\<exists>b. ?s' (key_id A k) = Some b \<and> holds_row A b (key_id A k) (R' k))" if k: "k \<in> K" for k
  proof (cases "k \<in> access_keys t")
    case True
    then show ?thesis using new tpcc_spec_typed[OF assms(4) represents_typed[OF assms(2)] assms(3)] k db_typedD(1) by blast
  next
    case False
    then have "key_id A k \<notin> key_id A ` access_keys t" using inj[OF k] assms(3) by auto
    then show ?thesis using frame tpcc_spec_frame[OF assms(4) False] representsD[OF assms(2) k] by simp
  qed
  then have "represents A K ?s' R'" using assms(2) by (simp add: represents_def)
  moreover have "map_of new_state = ?s' |` (key_id A ` access_keys t)"
  proof
    fix i
    show "map_of new_state i = (?s' |` (key_id A ` access_keys t)) i"
      using updated_ok_None[OF n(2), of i] unfolding s' by (auto simp: map_add_def restrict_map_def split: option.splits if_splits)
  qed
  ultimately show ?thesis using n(1) new frame by (auto simp: executed_def)
qed

lemma new_inputs: "kind_object_id ` set (te_inputs (tpcc_executable_new A dg txn)) = key_id A ` access_keys txn"
  by (simp add: tpcc_executable_new_def image_image set_access_set_keys[symmetric])

lemma tpcc_execute_refines:
  assumes "tpcc_laws A" "represents A K s R" "access_keys txn \<union> item_keys txn \<subseteq> K" "transaction t = tpcc_executable_new A dg txn"
  shows "refines (\<lambda>(s', results) R'. executed A K s (nxt (fst (scan_versions (shared_objects t) 2 []))) txn s' R' \<and>
           results = results_new t (er_updates results) (er_new_state results) \<and> er_updates results \<noteq> None \<and>
           map_option map_of (er_new_state results) = Some (s' |` (key_id A ` access_keys txn)))
           (tpcc_execute nxt bd A s t) (tpcc_spec bd txn R)"
proof -
  let ?v = "nxt (fst (scan_versions (shared_objects t) 2 []))"
  have txn: "te_txn (transaction t) = txn" by (simp add: assms(4) tpcc_executable_new_def)
  note logic = execute_tpcc_logic_refines[OF assms(1,2) cache_ok_empty assms(3), of ?v bd]
  show ?thesis
  proof (cases "tpcc_spec bd txn R")
    case (Inl e)
    then have "execute_tpcc_logic bd A s txn ?v Map.empty = Inl e" using logic refines_InlD by metis
    then show ?thesis using Inl txn by (simp add: tpcc_execute_def case_prod_beta Let_def refines_def)
  next
    case (Inr R')
    then obtain updated cache where l: "execute_tpcc_logic bd A s txn ?v Map.empty = Inr (updated, cache)" "logic_ok A K s ?v R (updated, cache) R'"
      using refines_InrD[of _ "execute_tpcc_logic bd A s txn ?v Map.empty" R'] logic by (metis surj_pair)
    let ?u = "\<lparr>tf_transaction_digest = te_digest (transaction t), tf_modified_at_versions = snd (scan_versions (shared_objects t) 2 [])\<rparr>"
    obtain new_state where n: "tpcc_output_objects A s ?v updated (te_inputs (transaction t)) cache [] = Inr new_state"
        "executed A K s ?v txn (tpcc_commit_objects s ?u new_state) R'"
        "map_of new_state = tpcc_commit_objects s ?u new_state |` (key_id A ` access_keys txn)"
      using logic_to_store[OF assms(1,2) _ Inr l(2) new_inputs[of A dg txn, folded assms(4)]] assms(3) by blast
    then show ?thesis using Inr l(1) txn
      by (simp add: tpcc_execute_def case_prod_beta Let_def refines_def results_new_def)
  qed
qed

end
