(* ===== verification/Tpcc_Identifiers.thy ===== *)
theory Tpcc_Identifiers
  imports Tpcc_Consistency
begin

text \<open>
  Object identifiers of rows: when two rows share one, and a concrete instance of the libraries, on which the
  properties of the TPC-C theories are evaluated.  The instance encodes a row as itself and hashes a text to the number that its characters
  write in base 17, which has no collision on a database of fewer than 1000 warehouses.
\<close>


section \<open>A concrete instance of the libraries\<close>

definition sample_digit :: "char \<Rightarrow> nat" where
  "sample_digit c =
     (let n = of_char c in
      if 48 \<le> n \<and> n < 58 then n - 47
      else if c = CHR ''_'' then 11 else if c = CHR ''W'' then 12 else if c = CHR ''D'' then 13
      else if c = CHR ''C'' then 14 else if c = CHR ''S'' then 15 else 16)"

definition sample_number :: "string \<Rightarrow> nat" where
  "sample_number cs = foldl (\<lambda>h c. h * 17 + sample_digit c) 0 cs"

definition sample_from_bytes :: "byte list \<Rightarrow> nat" where
  "sample_from_bytes bs = foldr (\<lambda>b n. unat b + 256 * n) bs 0"

type_synonym sample_move = "struct_tag \<times> version \<times> nat \<times> tpcc_row"

definition sample_api :: "(nat, sample_move \<times> version option, version option, sample_move, nat \<times> tpcc_row) tpcc_api" where
  "sample_api =
     \<lparr>tp_hash = (\<lambda>cs. of_nat (sample_number cs)), tp_from_bytes = sample_from_bytes, tp_to_bcs = Pair,
      tp_from_bcs = (\<lambda>kind (i, r). if row_kind r = kind then Some (i, r) else None),
      tp_size = (\<lambda>(i, r). 100 + sum_list (map length (row_names r))),
      tp_new_from_execution = (\<lambda>tag _ v c n. if (case c of (i, r) \<Rightarrow> 100 + sum_list (map length (row_names r))) \<le> n then Some (tag, v, c) else None),
      tp_contents = (\<lambda>(tag, v, c). c), tp_type = fst, tp_increment_version_to = (\<lambda>v (tag, _, c). (tag, v, c)),
      tp_new_move = Pair, tp_as_move = (\<lambda>(m, w). Some m), tp_id = (\<lambda>((tag, v, i, r), w). i), tp_version = (\<lambda>((tag, v, c), w). v),
      tp_is_shared = (\<lambda>(m, w). w \<noteq> None), tp_shared_owner = Some, tp_single_owner = (\<lambda>(m, w). Some w)\<rparr>"

lemma sample_from_bytes_inj: "length xs = length ys \<Longrightarrow> sample_from_bytes xs = sample_from_bytes ys \<Longrightarrow> xs = ys"
proof (induction xs ys rule: list_induct2)
  case (Cons x xs y ys)
  have lt: "unat x < 256" "unat y < 256" using unsigned_less[of x] unsigned_less[of y] by simp_all
  have e: "unat x + 256 * sample_from_bytes xs = unat y + 256 * sample_from_bytes ys" using Cons.prems by (simp add: sample_from_bytes_def)
  then have "(unat x + 256 * sample_from_bytes xs) mod 256 = (unat y + 256 * sample_from_bytes ys) mod 256" by simp
  then have "unat x = unat y" using lt by simp
  with e Cons.IH show ?case by (simp add: word_unat_eq_iff)
qed simp

lemma sample_size: "short_names r \<Longrightarrow> 100 + sum_list (map length (row_names r)) \<le> MAX_TPCC_OBJECT_SIZE"
  by (cases r) (auto simp: short_names_def MAX_TPCC_OBJECT_SIZE_def)

lemma sample_api_laws: "tpcc_laws sample_api"
  unfolding tpcc_laws_def
  by (auto simp: sample_api_def sample_size intro: sample_from_bytes_inj split: prod.splits)

subsection \<open>The hash has no collision\<close>

lemma sample_digit_bounds: "sample_digit c \<noteq> 0" "sample_digit c < 17"
  by (auto simp: sample_digit_def Let_def)

lemma sample_number_snoc: "sample_number (cs @ [c]) = sample_number cs * 17 + sample_digit c"
  by (simp add: sample_number_def)

lemma sample_number_bound: "sample_number cs < 17 ^ length cs"
proof (induction cs rule: rev_induct)
  case (snoc c cs)
  then show ?case using sample_digit_bounds(2)[of c] by (simp add: sample_number_snoc)
qed (simp add: sample_number_def)

lemma sample_number_inj: "sample_number cs = sample_number ds \<Longrightarrow> map sample_digit cs = map sample_digit ds"
proof (induction cs arbitrary: ds rule: rev_induct)
  case Nil
  then show ?case using sample_digit_bounds(1) by (cases ds rule: rev_cases) (auto simp: sample_number_snoc sample_number_def[of "[]"])
next
  case (snoc c cs)
  show ?case
  proof (cases ds rule: rev_cases)
    case Nil
    then show ?thesis using snoc.prems sample_digit_bounds(1)[of c] by (simp add: sample_number_snoc sample_number_def[of "[]"])
  next
    case (snoc ds' d)
    have e: "sample_number cs * 17 + sample_digit c = sample_number ds' * 17 + sample_digit d"
      using snoc.prems unfolding snoc sample_number_snoc .
    then have "(sample_number cs * 17 + sample_digit c) mod 17 = (sample_number ds' * 17 + sample_digit d) mod 17" by simp
    then have "sample_digit c = sample_digit d" using sample_digit_bounds(2) by simp
    with e snoc.IH[of ds'] show ?thesis by (simp add: snoc)
  qed
qed

definition key_chars :: "char set" where
  "key_chars = {c. 48 \<le> (of_char c :: nat) \<and> of_char c < (58 :: nat)} \<union> set ''_WDCSI''"

lemma sample_digit_inj: "inj_on sample_digit key_chars"
proof (rule inj_onI)
  fix x y assume x: "x \<in> key_chars" "y \<in> key_chars" and e: "sample_digit x = sample_digit y"
  have d: "sample_digit c = of_char c - 47 \<and> sample_digit c \<le> 10" if "48 \<le> (of_char c :: nat)" "of_char c < (58 :: nat)" for c
    using that by (auto simp: sample_digit_def Let_def)
  have l: "map sample_digit ''_WDCSI'' = [11, 12, 13, 14, 15, 16]" by (simp add: sample_digit_def)
  have "x = y \<or> 48 \<le> (of_char x :: nat) \<and> of_char x < (58 :: nat) \<and> 48 \<le> (of_char y :: nat) \<and> of_char y < (58 :: nat)"
    using x e d l by (auto simp: key_chars_def)
  then show "x = y"
  proof
    assume "48 \<le> (of_char x :: nat) \<and> of_char x < (58 :: nat) \<and> 48 \<le> (of_char y :: nat) \<and> of_char y < (58 :: nat)"
    then have "(of_char x :: nat) = of_char y" using d[of x] d[of y] e by linarith
    then show "x = y" by simp
  qed
qed

lemma key_text_chars: "set (key_text k) \<subseteq> key_chars"
proof -
  have "set (show_nat n) \<subseteq> key_chars" for n using show_nat_digits by (auto simp: key_chars_def)
  then have "set (underscored ns) \<subseteq> key_chars" for ns by (auto simp: underscored_def key_chars_def)
  then show ?thesis by (cases k) (auto simp: key_text_def key_chars_def)
qed

lemma length_show_nat: "0 < m \<Longrightarrow> n < 10 ^ m \<Longrightarrow> length (show_nat n) \<le> m"
proof (induction n arbitrary: m rule: show_nat.induct)
  case (1 n)
  show ?case
  proof (cases "n < 10")
    case True
    then show ?thesis using 1(2) by (subst show_nat.simps) simp
  next
    case False
    then obtain m' where m: "m = Suc m'" "0 < m'" using 1(2,3) by (cases m; cases "m - 1") auto
    then have "n div 10 < 10 ^ m'" using 1(3) by (simp add: less_mult_imp_div_less mult.commute)
    then show ?thesis using 1(1)[OF False m(2)] False m by (subst show_nat.simps) simp
  qed
qed

lemma key_text_length: "W < 1000 \<Longrightarrow> k \<in> db_keys W \<Longrightarrow> length (key_text k) \<le> 15"
proof (cases k)
  case (KCustomer w d c)
  assume "W < 1000" "k \<in> db_keys W"
  then have "length (show_nat w) \<le> 3" "length (show_nat d) \<le> 2" "length (show_nat c) \<le> 4"
    using KCustomer by (simp_all add: length_show_nat db_keys_def tpcc_constants)
  then show ?thesis by (simp add: KCustomer key_text_def underscored_def)
next
  case (KWarehouse w)
  assume "W < 1000" "k \<in> db_keys W"
  then have "length (show_nat w) \<le> 3" using KWarehouse by (simp add: length_show_nat db_keys_def)
  then show ?thesis by (simp add: KWarehouse key_text_def underscored_def)
next
  case (KDistrict w d)
  assume "W < 1000" "k \<in> db_keys W"
  then have "length (show_nat w) \<le> 3" "length (show_nat d) \<le> 2" using KDistrict by (simp_all add: length_show_nat db_keys_def tpcc_constants)
  then show ?thesis by (simp add: KDistrict key_text_def underscored_def)
next
  case (KStock w i)
  assume "W < 1000" "k \<in> db_keys W"
  then have "length (show_nat w) \<le> 3" "length (show_nat i) \<le> 6" using KStock by (simp_all add: length_show_nat db_keys_def tpcc_constants)
  then show ?thesis by (simp add: KStock key_text_def underscored_def)
next
  case (KItem i)
  assume "W < 1000" "k \<in> db_keys W"
  then have "length (show_nat i) \<le> 6" using KItem by (simp add: length_show_nat db_keys_def tpcc_constants)
  then show ?thesis by (simp add: KItem key_text_def underscored_def)
qed

lemma sample_hash_inj:
  assumes "length cs \<le> 15" "length ds \<le> 15" "(of_nat (sample_number cs) :: 64 word) = of_nat (sample_number ds)"
  shows "sample_number cs = sample_number ds"
proof -
  have lt: "sample_number xs < 2 ^ 64" if "length xs \<le> 15" for xs
  proof -
    have "sample_number xs < 17 ^ length xs" by (rule sample_number_bound)
    also have "\<dots> \<le> 17 ^ 15" using that by (rule power_increasing) simp
    finally show ?thesis by simp
  qed
  have "unat (of_nat (sample_number cs) :: 64 word) = unat (of_nat (sample_number ds) :: 64 word)" using assms(3) by simp
  then show ?thesis using lt[OF assms(1)] lt[OF assms(2)] by (simp add: unat_of_nat)
qed

lemma sample_key_id_inj: "W < 1000 \<Longrightarrow> inj_on (key_id sample_api) (db_keys W)"
proof (rule inj_onI)
  fix k k' assume W: "W < 1000" and k: "k \<in> db_keys W" "k' \<in> db_keys W" and "key_id sample_api k = key_id sample_api k'"
  then have "(of_nat (sample_number (key_text k)) :: 64 word) = of_nat (sample_number (key_text k'))"
    using key_id_eq_iff[OF sample_api_laws, of k k'] by (simp add: sample_api_def)
  then have "map sample_digit (key_text k) = map sample_digit (key_text k')"
    using sample_hash_inj[OF key_text_length[OF W k(1)] key_text_length[OF W k(2)]] sample_number_inj by blast
  then have "key_text k = key_text k'"
    using inj_on_map_eq_map[OF inj_on_subset[OF sample_digit_inj], of "key_text k" "key_text k'"] key_text_chars by auto
  then show "k = k'" by (simp add: key_text_inj)
qed


section \<open>Rows and objects\<close>



text \<open>
  The object encoding is lossless: encoding a row of any table at any version succeeds, and the object that comes out has
  the given identifier and version, is shared, and decodes to the same identifier and row with either decoding function, in both
  builds, without tripping the debug assertions; decoding it as a row of another table fails in a debug build.
\<close>

theorem tpcc_object_roundtrip:
  assumes "tpcc_laws A" "short_names r"
  shows "\<exists>b. encode_tpcc_object A i v (row_kind r) r = Inr b \<and> tp_id A b = i \<and> tp_version A b = v \<and> tp_is_shared A b \<and>
           decode_tpcc_object A b (row_kind r) = Inr (i, r) \<and> decode_tpcc_data Debug A b (row_kind r) = Inr r \<and>
           decode_tpcc_data Release A b (row_kind r) = Inr r \<and>
           (kind = row_kind r \<or> (\<exists>e. decode_tpcc_data Debug A b kind = Inl e))"
proof -
  obtain b where b: "encode_tpcc_object A i v (row_kind r) r = Inr b" "holds_row A b i r" "tp_version A b = v"
    using encode_holds_row[OF assms] by blast
  obtain m where "tp_as_move A b = Some m" "tp_type A m = tpcc_struct_tag (row_kind r)" "tp_id A b = i" "tp_is_shared A b"
    using b(2) by (auto simp: holds_row_def)
  moreover from this have "kind = row_kind r \<or> (\<exists>e. decode_tpcc_data Debug A b kind = Inl e)"
    by (auto simp: decode_tpcc_data_def tpcc_struct_tag_inj)
  ultimately show ?thesis using b decode_holds_row[OF assms(1) b(2)] by blast
qed

definition sample_stock :: stock where
  "sample_stock = \<lparr>s_i_id = 7, s_w_id = 1, s_quantity = 50, s_ytd = 0, s_order_cnt = 0, s_remote_cnt = 0\<rparr>"

theorem tpcc_object_roundtrip_witness:
  "tpcc_laws sample_api \<and> short_names (StockRow sample_stock) \<and>
   (\<exists>b. encode_tpcc_object sample_api 5 3 Stock (StockRow sample_stock) = Inr b \<and> tp_version sample_api b = 3 \<and>
        decode_tpcc_data Debug sample_api b Stock = Inr (StockRow sample_stock))"
  using sample_api_laws tpcc_object_roundtrip[OF sample_api_laws, of "StockRow sample_stock" 5 3 Stock]
  by (auto simp: short_names_def)

end
