(* ===== verification/Tpcc_Initial.thy ===== *)
theory Tpcc_Initial
  imports Tpcc_Refinement Tpcc_Identifiers
begin

text \<open>
  The initial database and runs of the executor: \<open>init_objects\<close> writes every row of every table, without a
  panic, and the rows satisfy the consistency invariant; any run of benchmark transactions from there keeps it.
\<close>


section \<open>What \<open>init_objects\<close> writes\<close>

definition in_range :: "(nat \<Rightarrow> nat \<Rightarrow> 'g \<Rightarrow> nat \<times> 'g) \<Rightarrow> bool" where
  "in_range gen \<longleftrightarrow> (\<forall>lo hi g. lo \<le> hi \<longrightarrow> lo \<le> fst (gen lo hi g) \<and> fst (gen lo hi g) \<le> hi)"

fun initial_row :: "tpcc_row \<Rightarrow> bool" where
  "initial_row (WarehouseRow r) \<longleftrightarrow> row_ok 0 (WarehouseRow r) \<and> w_ytd r = INITIAL_W_YTD_CENTS"
| "initial_row (DistrictRow r) \<longleftrightarrow> row_ok 0 (DistrictRow r) \<and> d_ytd r = INITIAL_D_YTD_CENTS"
| "initial_row r \<longleftrightarrow> row_ok 0 r"

definition written :: "('o, 'b, 'w, 'm, 'c) tpcc_api \<Rightarrow> tpcc_key set \<Rightarrow> ('o, 'b) object_store \<Rightarrow> bool" where
  "written A K s \<longleftrightarrow>
     (\<forall>k \<in> K. \<exists>b r. s (key_id A k) = Some b \<and> holds_row A b (key_id A k) r \<and> row_kind r = key_kind k \<and> initial_row r \<and> tp_version A b = 2)"

text \<open>A step of the initialisation that writes the rows of the keys \<open>N\<close>.\<close>

definition writes ::
  "('o, 'b, 'w, 'm, 'c) tpcc_api \<Rightarrow> tpcc_key set \<Rightarrow> tpcc_key set \<Rightarrow> (('o, 'b) object_store \<times> 'g \<Rightarrow> (('o, 'b) object_store \<times> 'g) res) \<Rightarrow> bool" where
  "writes A D N f \<longleftrightarrow>
     (\<forall>K st. K \<subseteq> D \<longrightarrow> written A K (fst st) \<longrightarrow> (\<exists>st'. f st = Inr st' \<and> written A (K \<union> N) (fst st')))"

lemma writesD: "writes A D N f \<Longrightarrow> K \<subseteq> D \<Longrightarrow> written A K (fst st) \<Longrightarrow> \<exists>st'. f st = Inr st' \<and> written A (K \<union> N) (fst st')"
  unfolding writes_def by blast

lemma writes_for_each:
  fixes f :: "'x \<Rightarrow> ('o, 'b) object_store \<times> 'g \<Rightarrow> (('o, 'b) object_store \<times> 'g) res"
  assumes "\<And>x. x \<in> set xs \<Longrightarrow> writes A D (F x) (f x)" "\<And>x. x \<in> set xs \<Longrightarrow> F x \<subseteq> D"
  shows "writes A D (\<Union>x \<in> set xs. F x) (for_each f xs)"
  using assms
proof (induction xs)
  case (Cons x xs)
  show ?case
    unfolding writes_def
  proof (intro allI impI)
    fix K and st :: "('o, 'b) object_store \<times> 'g" assume K: "K \<subseteq> D" "written A K (fst st)"
    obtain st1 where st1: "f x st = Inr st1" "written A (K \<union> F x) (fst st1)"
      using writesD[OF Cons.prems(1)[of x] K] by auto
    have "writes A D (\<Union>x \<in> set xs. F x) (for_each f xs)" by (rule Cons.IH) (use Cons.prems in simp_all)
    moreover have "K \<union> F x \<subseteq> D" using K(1) Cons.prems(2) by simp
    ultimately obtain st' where "for_each f xs st1 = Inr st'" "written A (K \<union> F x \<union> (\<Union>x \<in> set xs. F x)) (fst st')"
      using st1(2) unfolding writes_def by blast
    then show "\<exists>st'. for_each f (x # xs) st = Inr st' \<and> written A (K \<union> (\<Union>x \<in> set (x # xs). F x)) (fst st')"
      using st1(1) by (simp add: Un_assoc)
  qed
qed (simp add: writes_def)

lemma writes_then:
  fixes f :: "('o, 'b) object_store \<times> 'g \<Rightarrow> (('o, 'b) object_store \<times> 'g) res"
  assumes "writes A D N f" "writes A D M g" "N \<subseteq> D"
  shows "writes A D (N \<union> M) (\<lambda>st. and_then (f st) g)"
  unfolding writes_def
proof (intro allI impI)
  fix K and st :: "('o, 'b) object_store \<times> 'g" assume K: "K \<subseteq> D" "written A K (fst st)"
  obtain st1 where st1: "f st = Inr st1" "written A (K \<union> N) (fst st1)" using writesD[OF assms(1) K] by blast
  obtain st' where "g st1 = Inr st'" "written A (K \<union> N \<union> M) (fst st')"
    using assms(2,3) K(1) st1(2) unfolding writes_def by (metis Un_least)
  then show "\<exists>st'. and_then (f st) g = Inr st' \<and> written A (K \<union> (N \<union> M)) (fst st')" using st1(1) by (simp add: Un_assoc)
qed

lemma store_row_written:
  assumes "tpcc_laws A" "inj_on (key_id A) D" "k \<in> D" "K \<subseteq> D" "written A K s"
    and r: "row_kind r = key_kind k" "initial_row r" "short_names r"
  shows "\<exists>st'. store_row A (key_id A k) r (s, g) = Inr st' \<and> written A (insert k K) (fst st')"
proof -
  obtain b where b: "encode_tpcc_object A (key_id A k) 2 (row_kind r) r = Inr b" "holds_row A b (key_id A k) r" "tp_version A b = 2"
    using encode_holds_row[OF assms(1) r(3)] by blast
  have "tp_id A b = key_id A k" using b(2) by (simp add: holds_row_def)
  moreover have "written A (insert k K) (s(key_id A k \<mapsto> b))"
    unfolding written_def
  proof
    fix k' assume k': "k' \<in> insert k K"
    show "\<exists>b' r. (s(key_id A k \<mapsto> b)) (key_id A k') = Some b' \<and> holds_row A b' (key_id A k') r \<and> row_kind r = key_kind k' \<and>
        initial_row r \<and> tp_version A b' = 2"
    proof (cases "k' = k")
      case True
      then show ?thesis using b r by auto
    next
      case False
      then have "k' \<in> K" "key_id A k' \<noteq> key_id A k" using k' assms(2-4) by (auto simp: inj_on_def)
      then show ?thesis using assms(5) by (simp add: written_def)
    qed
  qed
  ultimately show ?thesis using b(1) by (simp add: store_row_def tpcc_write_object_def)
qed

text \<open>The texts that \<open>init_objects\<close> writes are short.\<close>

lemma length_show_u32: "n < 2 ^ 32 \<Longrightarrow> length (show_nat n) \<le> 10"
  by (rule length_show_nat) simp_all

lemma gen_written:
  fixes gen :: "nat \<Rightarrow> nat \<Rightarrow> 'g \<Rightarrow> nat \<times> 'g" and A :: "('o, 'b, 'w, 'm, 'c) tpcc_api"
  assumes "tpcc_laws A" "inj_on (key_id A) D" "k \<in> D" "in_range gen" "lo \<le> hi"
    and row: "\<And>x. lo \<le> x \<Longrightarrow> x \<le> hi \<Longrightarrow> row_kind (row x) = key_kind k \<and> initial_row (row x) \<and> short_names (row x)"
  shows "writes A D {k} (\<lambda>st. let (x, g) = gen lo hi (snd st) in store_row A (key_id A k) (row x) (fst st, g))"
  unfolding writes_def
proof (intro allI impI)
  fix K and st :: "('o, 'b) object_store \<times> 'g" assume K: "K \<subseteq> D" "written A K (fst st)"
  obtain x g where x: "gen lo hi (snd st) = (x, g)" by (cases "gen lo hi (snd st)")
  then have "lo \<le> x" "x \<le> hi" using assms(4,5) unfolding in_range_def by (metis fst_conv)+
  from row[OF this] store_row_written[OF assms(1-3) K, of "row x" g]
  show "\<exists>st'. (let (x, g) = gen lo hi (snd st) in store_row A (key_id A k) (row x) (fst st, g)) = Inr st' \<and> written A (K \<union> {k}) (fst st')"
    using x by auto
qed

lemma short_rows:
  assumes "i < 2 ^ 32" "j < 2 ^ 32"
  shows "short_names (ItemRow \<lparr>i_id = i, i_price = p, i_name = ''Item_'' @ show_nat i, i_data = ''ItemData_'' @ show_nat i\<rparr>)"
    "short_names (WarehouseRow \<lparr>w_id = i, w_ytd = y, w_tax = p, w_name = ''Warehouse_'' @ show_nat i\<rparr>)"
    "short_names (DistrictRow \<lparr>d_id = j, d_w_id = i, d_ytd = y, d_tax = p, d_next_o_id = q, d_name = ''District_'' @ show_nat i @ ''_'' @ show_nat j\<rparr>)"
    "short_names (CustomerRow \<lparr>c_id = i, c_d_id = d, c_w_id = w, c_balance = y, c_ytd_payment = z, c_payment_cnt = q, c_discount = p,
        c_first = ''First_'' @ show_nat i, c_last = ''Last_'' @ show_nat i\<rparr>)"
  using length_show_u32[OF assms(1)] length_show_u32[OF assms(2)] by (simp_all add: short_names_def)

lemma init_item_writes:
  assumes "tpcc_laws A" "inj_on (key_id A) (db_keys W)" "in_range gen" "KItem i \<in> db_keys W"
  shows "writes A (db_keys W) {KItem i} (init_item A gen i)"
proof -
  have i: "i < 2 ^ 32" using assms(4) by (simp add: db_keys_def tpcc_constants)
  have "init_item A gen i = (\<lambda>st. let (x, g) = gen MIN_PRICE_CENTS MAX_PRICE_CENTS (snd st) in store_row A (key_id A (KItem i))
      (ItemRow \<lparr>i_id = i, i_price = int x, i_name = ''Item_'' @ show_nat i, i_data = ''ItemData_'' @ show_nat i\<rparr>) (fst st, g))"
    by (simp add: fun_eq_iff init_item_def key_id_simps)
  then show ?thesis using short_rows(1)[OF i i]
    by (simp only:) (rule gen_written[OF assms(1,2,4,3)], simp_all add: tpcc_constants)
qed

lemma init_customer_writes:
  assumes "tpcc_laws A" "inj_on (key_id A) (db_keys W)" "in_range gen" "KCustomer w d c \<in> db_keys W"
  shows "writes A (db_keys W) {KCustomer w d c} (init_customer A gen w d c)"
proof -
  have i: "c < 2 ^ 32" using assms(4) by (simp add: db_keys_def tpcc_constants)
  have "init_customer A gen w d c = (\<lambda>st. let (x, g) = gen MIN_DISCOUNT_BPS MAX_DISCOUNT_BPS (snd st) in store_row A (key_id A (KCustomer w d c))
      (CustomerRow \<lparr>c_id = c, c_d_id = d, c_w_id = w, c_balance = INITIAL_BALANCE_CENTS,
              c_ytd_payment = INITIAL_YTD_PAYMENT_CENTS, c_payment_cnt = INITIAL_PAYMENT_CNT, c_discount = int x,
              c_first = ''First_'' @ show_nat c, c_last = ''Last_'' @ show_nat c\<rparr>) (fst st, g))"
    by (simp add: fun_eq_iff init_customer_def key_id_simps)
  then show ?thesis using short_rows(4)[OF i i]
    by (simp only:) (rule gen_written[OF assms(1,2,4,3)], simp_all add: tpcc_constants)
qed

lemma init_stock_writes:
  assumes "tpcc_laws A" "inj_on (key_id A) (db_keys W)" "in_range gen" "KStock w i \<in> db_keys W"
  shows "writes A (db_keys W) {KStock w i} (init_stock A gen w i)"
proof -
  have "init_stock A gen w i = (\<lambda>st. let (x, g) = gen MIN_QUANTITY MAX_QUANTITY (snd st) in store_row A (key_id A (KStock w i))
      (StockRow \<lparr>s_i_id = i, s_w_id = w, s_quantity = int x, s_ytd = 0, s_order_cnt = 0, s_remote_cnt = 0\<rparr>) (fst st, g))"
    by (simp add: fun_eq_iff init_stock_def key_id_simps)
  then show ?thesis
    by (simp only:) (rule gen_written[OF assms(1,2,4,3)], simp_all add: tpcc_constants short_names_update)
qed

definition district_keys :: "nat \<Rightarrow> nat \<Rightarrow> tpcc_key set" where
  "district_keys w d = {KDistrict w d} \<union> (\<Union>c \<in> {1..CUSTOMERS_PER_DISTRICT}. {KCustomer w d c})"

definition warehouse_keys :: "nat \<Rightarrow> tpcc_key set" where
  "warehouse_keys w =
     {KWarehouse w} \<union> ((\<Union>d \<in> {1..DISTRICTS_PER_WAREHOUSE}. district_keys w d) \<union> (\<Union>i \<in> {1..STOCK_PER_WAREHOUSE}. {KStock w i}))"

lemma db_keys_parts: "db_keys W = (\<Union>i \<in> {1..NUM_ITEMS}. {KItem i}) \<union> (\<Union>w \<in> {1..W}. warehouse_keys w)"
proof (rule set_eqI)
  fix k show "k \<in> db_keys W \<longleftrightarrow> k \<in> (\<Union>i \<in> {1..NUM_ITEMS}. {KItem i}) \<union> (\<Union>w \<in> {1..W}. warehouse_keys w)"
    by (cases k) (auto simp: db_keys_def warehouse_keys_def district_keys_def)
qed

lemma ids_u32: "set (ids_to CUSTOMERS_PER_DISTRICT) = {1..CUSTOMERS_PER_DISTRICT}" "set (ids_to DISTRICTS_PER_WAREHOUSE) = {1..DISTRICTS_PER_WAREHOUSE}"
  "set (ids_to STOCK_PER_WAREHOUSE) = {1..STOCK_PER_WAREHOUSE}" "set (ids_to NUM_ITEMS) = {1..NUM_ITEMS}"
  by (rule set_ids_to, simp add: tpcc_constants)+

lemma init_district_writes:
  assumes "tpcc_laws A" "inj_on (key_id A) (db_keys W)" "in_range gen" "KDistrict w d \<in> db_keys W" "W < 2 ^ 32"
  shows "writes A (db_keys W) (district_keys w d) (init_district A gen w d)"
proof -
  have i: "w < 2 ^ 32" "d < 2 ^ 32" using assms(4,5) by (simp_all add: db_keys_def tpcc_constants)
  let ?f = "\<lambda>st. let (x, g) = gen MIN_TAX_BPS MAX_TAX_BPS (snd st) in store_row A (key_id A (KDistrict w d))
      (DistrictRow \<lparr>d_id = d, d_w_id = w, d_ytd = INITIAL_D_YTD_CENTS, d_tax = int x, d_next_o_id = INITIAL_NEXT_O_ID,
                d_name = ''District_'' @ show_nat w @ ''_'' @ show_nat d\<rparr>) (fst st, g)"
  have c: "KCustomer w d c \<in> db_keys W" if "c \<in> {1..CUSTOMERS_PER_DISTRICT}" for c using assms(4) that by (simp add: db_keys_def)
  have "writes A (db_keys W) {KDistrict w d} ?f"
    by (rule gen_written[OF assms(1,2,4,3)]) (use short_rows(3)[OF i] in \<open>simp_all add: tpcc_constants\<close>)
  moreover have "writes A (db_keys W) (\<Union>c \<in> set (ids_to CUSTOMERS_PER_DISTRICT). {KCustomer w d c})
      (for_each (init_customer A gen w d) (ids_to CUSTOMERS_PER_DISTRICT))"
    by (rule writes_for_each) (use c init_customer_writes[OF assms(1-3)] in \<open>simp_all add: ids_u32\<close>)
  moreover have "init_district A gen w d = (\<lambda>st. and_then (?f st) (for_each (init_customer A gen w d) (ids_to CUSTOMERS_PER_DISTRICT)))"
    by (simp add: fun_eq_iff init_district_def key_id_simps split: prod.splits)
  ultimately show ?thesis
    unfolding district_keys_def ids_u32 by (simp only:) (rule writes_then, use assms(4) in simp_all)
qed

lemma init_warehouse_writes:
  assumes "tpcc_laws A" "inj_on (key_id A) (db_keys W)" "in_range gen" "KWarehouse w \<in> db_keys W" "W < 2 ^ 32"
  shows "writes A (db_keys W) (warehouse_keys w) (init_warehouse A gen w)"
proof -
  have i: "w < 2 ^ 32" using assms(4,5) by (simp add: db_keys_def)
  let ?f = "\<lambda>st. let (x, g) = gen MIN_TAX_BPS MAX_TAX_BPS (snd st) in store_row A (key_id A (KWarehouse w))
      (WarehouseRow \<lparr>w_id = w, w_ytd = INITIAL_W_YTD_CENTS, w_tax = int x, w_name = ''Warehouse_'' @ show_nat w\<rparr>) (fst st, g)"
  have d: "KDistrict w d \<in> db_keys W" "district_keys w d \<subseteq> db_keys W" if "d \<in> {1..DISTRICTS_PER_WAREHOUSE}" for d
    using assms(4) that by (auto simp: db_keys_def district_keys_def)
  have s: "KStock w i \<in> db_keys W" if "i \<in> {1..STOCK_PER_WAREHOUSE}" for i using assms(4) that by (simp add: db_keys_def)
  have w: "writes A (db_keys W) {KWarehouse w} ?f"
    by (rule gen_written[OF assms(1,2,4,3)]) (use short_rows(2)[OF i i] in \<open>simp_all add: tpcc_constants\<close>)
  have ds: "writes A (db_keys W) (\<Union>d \<in> set (ids_to DISTRICTS_PER_WAREHOUSE). district_keys w d)
      (for_each (init_district A gen w) (ids_to DISTRICTS_PER_WAREHOUSE))"
    by (rule writes_for_each) (use d init_district_writes[OF assms(1-3) _ assms(5)] in \<open>simp_all add: ids_u32\<close>)
  have ss: "writes A (db_keys W) (\<Union>i \<in> set (ids_to STOCK_PER_WAREHOUSE). {KStock w i})
      (for_each (init_stock A gen w) (ids_to STOCK_PER_WAREHOUSE))"
    by (rule writes_for_each) (use s init_stock_writes[OF assms(1-3)] in \<open>simp_all add: ids_u32\<close>)
  have "(\<Union>d \<in> set (ids_to DISTRICTS_PER_WAREHOUSE). district_keys w d) \<subseteq> db_keys W" unfolding ids_u32 by (rule UN_least[OF d(2)])
  from writes_then[OF w writes_then[OF ds ss this]] assms(4)
  have "writes A (db_keys W) (warehouse_keys w) (\<lambda>st. and_then (?f st) (\<lambda>st. and_then (for_each (init_district A gen w) (ids_to DISTRICTS_PER_WAREHOUSE) st)
      (for_each (init_stock A gen w) (ids_to STOCK_PER_WAREHOUSE))))"
    unfolding warehouse_keys_def ids_u32 by simp
  moreover have "init_warehouse A gen w = (\<lambda>st. and_then (?f st) (\<lambda>st. and_then (for_each (init_district A gen w) (ids_to DISTRICTS_PER_WAREHOUSE) st)
      (for_each (init_stock A gen w) (ids_to STOCK_PER_WAREHOUSE))))"
    by (simp add: fun_eq_iff init_warehouse_def key_id_simps split: prod.splits)
  ultimately show ?thesis by simp
qed

lemma init_objects_writes:
  assumes "tpcc_laws A" "inj_on (key_id A) (db_keys W)" "in_range gen" "W < 2 ^ 32"
  shows "writes A (db_keys W) (db_keys W) (init_objects A gen W)"
proof -
  have i: "KItem i \<in> db_keys W" if "i \<in> {1..NUM_ITEMS}" for i using that by (simp add: db_keys_def)
  have w: "KWarehouse w \<in> db_keys W" "warehouse_keys w \<subseteq> db_keys W" if "w \<in> {1..W}" for w
    using that by (auto simp: db_keys_parts warehouse_keys_def)
  have its: "writes A (db_keys W) (\<Union>i \<in> set (ids_to NUM_ITEMS). {KItem i}) (for_each (init_item A gen) (ids_to NUM_ITEMS))"
    by (rule writes_for_each) (use i init_item_writes[OF assms(1-3)] in \<open>simp_all add: ids_u32\<close>)
  have ws: "writes A (db_keys W) (\<Union>w \<in> set (ids_to W). warehouse_keys w) (for_each (init_warehouse A gen) (ids_to W))"
    by (rule writes_for_each) (use w init_warehouse_writes[OF assms(1-3) _ assms(4)] assms(4) in simp_all)
  have "(\<Union>i \<in> set (ids_to NUM_ITEMS). {KItem i}) \<subseteq> db_keys W" using i by (auto simp: ids_u32)
  from writes_then[OF its ws this] show ?thesis
    unfolding ids_u32 set_ids_to[OF assms(4)] db_keys_parts[symmetric] init_objects_def[abs_def] .
qed


section \<open>The initial database is consistent\<close>

lemma written_database:
  assumes "inj_on (key_id A) (db_keys W)" "written A (db_keys W) s"
  shows "\<exists>R. represents A (db_keys W) s R \<and> db_ok W 0 R"
proof -
  have "\<forall>k \<in> db_keys W. \<exists>r. (\<exists>b. s (key_id A k) = Some b \<and> holds_row A b (key_id A k) r) \<and> row_kind r = key_kind k \<and> initial_row r"
    using assms(2) unfolding written_def by meson
  from bchoice[OF this] obtain R where
    R: "\<forall>k \<in> db_keys W. (\<exists>b. s (key_id A k) = Some b \<and> holds_row A b (key_id A k) (R k)) \<and> row_kind (R k) = key_kind k \<and> initial_row (R k)"
    by blast
  have rep: "represents A (db_keys W) s R" using assms(1) R by (simp add: represents_def)
  have ok: "row_ok 0 r" if "initial_row r" for r using that by (cases r) auto
  have w: "w_ytd (the_warehouse (R (KWarehouse w))) = INITIAL_W_YTD_CENTS" if "w \<in> {1..W}" for w
  proof -
    have "KWarehouse w \<in> db_keys W" using that by (simp add: db_keys_def)
    then have "row_kind (R (KWarehouse w)) = Warehouse" "initial_row (R (KWarehouse w))" using R by auto
    then show ?thesis by (cases "R (KWarehouse w)") simp_all
  qed
  have d: "d_ytd (the_district (R (KDistrict w d))) = INITIAL_D_YTD_CENTS" if "w \<in> {1..W}" "d \<in> {1..DISTRICTS_PER_WAREHOUSE}" for w d
  proof -
    have "KDistrict w d \<in> db_keys W" using that by (simp add: db_keys_def)
    then have "row_kind (R (KDistrict w d)) = District" "initial_row (R (KDistrict w d))" using R by auto
    then show ?thesis by (cases "R (KDistrict w d)") simp_all
  qed
  have "ytd_sum_ok W R"
    unfolding ytd_sum_ok_def
  proof
    fix w assume v: "w \<in> {1..W}"
    have "(\<Sum>d \<in> {1..DISTRICTS_PER_WAREHOUSE}. d_ytd (the_district (R (KDistrict w d)))) = (\<Sum>d \<in> {1..DISTRICTS_PER_WAREHOUSE}. INITIAL_D_YTD_CENTS)"
      by (rule sum.cong[OF refl d[OF v]])
    then show "w_ytd (the_warehouse (R (KWarehouse w))) = (\<Sum>d \<in> {1..DISTRICTS_PER_WAREHOUSE}. d_ytd (the_district (R (KDistrict w d))))"
      unfolding w[OF v] by (simp add: tpcc_constants)
  qed
  then have "db_ok W 0 R" using represents_typed[OF rep] R ok by (auto simp: db_ok_def)
  with rep show ?thesis by blast
qed

lemma init_objects_database:
  assumes "tpcc_laws A" "inj_on (key_id A) (db_keys W)" "in_range gen" "W < 2 ^ 32"
  shows "\<exists>s g' R. init_objects A gen W (tpcc_store_new, g) = Inr (s, g') \<and> written A (db_keys W) s \<and>
           represents A (db_keys W) s R \<and> db_ok W 0 R"
proof -
  have "written A {} (fst (tpcc_store_new, g))" by (simp add: written_def)
  from writesD[OF init_objects_writes[OF assms] empty_subsetI this] obtain s g' where
    "init_objects A gen W (tpcc_store_new, g) = Inr (s, g')" "written A (db_keys W) s" by auto
  with written_database[OF assms(2)] show ?thesis by blast
qed


section \<open>Runs of the executor\<close>

fun tpcc_execute_all ::
  "(version \<Rightarrow> version) \<Rightarrow> build \<Rightarrow> ('o::linorder, 'b, 'w, 'm, 'c) tpcc_api \<Rightarrow> (('d, 'o) tpcc_executable, 'o) txn_ts list \<Rightarrow>
   ('o, 'b) object_store \<Rightarrow> ('o, 'b) object_store res" where
  "tpcc_execute_all nxt bd A [] s = Inr s"
| "tpcc_execute_all nxt bd A (t # ts) s = and_then (tpcc_execute nxt bd A s t) (\<lambda>(s', _). tpcc_execute_all nxt bd A ts s')"

definition tpcc_made :: "('o, 'b, 'w, 'm, 'c) tpcc_api \<Rightarrow> (('d, 'o) tpcc_executable, 'o) txn_ts \<Rightarrow> bool" where
  "tpcc_made A t \<longleftrightarrow> transaction t = tpcc_executable_new A (te_digest (transaction t)) (te_txn (transaction t))"

lemma tpcc_execute_all_refines:
  assumes "tpcc_laws A" "represents A K s R" "list_all (tpcc_made A) ts"
    and "list_all (\<lambda>t. access_keys (te_txn (transaction t)) \<union> item_keys (te_txn (transaction t)) \<subseteq> K) ts"
  shows "refines (\<lambda>s' R'. represents A K s' R') (tpcc_execute_all nxt bd A ts s) (tpcc_spec_run bd (map (te_txn \<circ> transaction) ts) R)"
  using assms(2-)
proof (induction ts arbitrary: s R)
  case (Cons t ts)
  have t: "transaction t = tpcc_executable_new A (te_digest (transaction t)) (te_txn (transaction t))"
      "access_keys (te_txn (transaction t)) \<union> item_keys (te_txn (transaction t)) \<subseteq> K"
    using Cons.prems(2,3) by (simp_all add: tpcc_made_def)
  have ts: "list_all (tpcc_made A) ts" "list_all (\<lambda>t. access_keys (te_txn (transaction t)) \<union> item_keys (te_txn (transaction t)) \<subseteq> K) ts"
    using Cons.prems(2,3) by simp_all
  show ?case
    unfolding tpcc_execute_all.simps tpcc_spec_run.simps list.map comp_apply
    by (rule refines_bind[OF tpcc_execute_refines[OF assms(1) Cons.prems(1) t(2,1)]])
      (use Cons.IH[OF _ ts] in \<open>auto simp: executed_def comp_def\<close>)
qed (simp add: refines_Inr)

text \<open>A computation that does not panic in a debug build does not overflow, so the release build agrees.\<close>

lemma fit_builds: "fit_signed n Debug x = Inr y \<Longrightarrow> fit_signed n bd x = Inr y" "fit_unsigned n Debug x = Inr y \<Longrightarrow> fit_unsigned n bd x = Inr y"
  by (auto simp: fit_signed_def fit_unsigned_def split: if_splits)

lemma update_stock_builds: "update_stock Debug w it st = Inr st' \<Longrightarrow> update_stock bd w it st = Inr st'"
  by (auto simp: update_stock_def Let_def and_then_eq_Inr dest!: fit_builds[of _ _ _ bd] split: if_splits)

lemma order_lines_spec_builds: "order_lines_spec Debug w items st = Inr st' \<Longrightarrow> order_lines_spec bd w items st = Inr st'"
proof (induction items arbitrary: st)
  case (Cons it items)
  then show ?case
    by (cases st) (auto simp: Let_def and_then_eq_Inr dest!: fit_builds[of _ _ _ bd] update_stock_builds[of _ _ _ _ bd])
qed simp

lemma tpcc_spec_builds: "tpcc_spec Debug t R = Inr R' \<Longrightarrow> tpcc_spec bd t R = Inr R'"
proof (cases t)
  case (NewOrder w d c items)
  then show "tpcc_spec Debug t R = Inr R' \<Longrightarrow> tpcc_spec bd t R = Inr R'"
    by (auto simp: new_order_spec_def final_total_cents_def Let_def and_then_eq_Inr dest!: fit_builds[of _ _ _ bd] order_lines_spec_builds[of _ _ _ _ bd])
next
  case (Payment w d cw cd c h)
  then show "tpcc_spec Debug t R = Inr R' \<Longrightarrow> tpcc_spec bd t R = Inr R'"
    by (auto simp: payment_spec_def Let_def and_then_eq_Inr dest!: fit_builds[of _ _ _ bd])
qed

lemma tpcc_spec_run_builds: "tpcc_spec_run Debug ts R = Inr R' \<Longrightarrow> tpcc_spec_run bd ts R = Inr R'"
proof (induction ts arbitrary: R)
  case (Cons t ts)
  then show ?case by (auto simp: and_then_eq_Inr dest!: tpcc_spec_builds[of _ _ _ bd])
qed simp

text \<open>The only panic is overflow, in a debug build.\<close>

abbreviation overflow_panic :: "build \<Rightarrow> panic \<Rightarrow> bool" where
  "overflow_panic bd e \<equiv> bd = Debug \<and> e = Panic ''attempt to compute with overflow''"

lemma fit_panics: "fit_signed n bd x = Inl e \<Longrightarrow> overflow_panic bd e" "fit_unsigned n bd x = Inl e \<Longrightarrow> overflow_panic bd e"
  by (cases bd; auto simp: fit_signed_def fit_unsigned_def split: if_splits)+

lemma update_stock_panics: "update_stock bd w it st = Inl e \<Longrightarrow> overflow_panic bd e"
  by (auto simp: update_stock_def Let_def and_then_eq_Inl dest: fit_panics split: if_splits)

lemma order_lines_spec_panics: "order_lines_spec bd w items st = Inl e \<Longrightarrow> overflow_panic bd e"
proof (induction items arbitrary: st)
  case (Cons it items)
  then show ?case by (cases st) (auto simp: Let_def and_then_eq_Inl dest: fit_panics update_stock_panics)
qed simp

lemma tpcc_spec_panics: "tpcc_spec bd t R = Inl e \<Longrightarrow> overflow_panic bd e"
  by (cases t) (auto simp: new_order_spec_def payment_spec_def final_total_cents_def Let_def and_then_eq_Inl
      dest: fit_panics order_lines_spec_panics)

definition sample_gen :: "nat \<Rightarrow> nat \<Rightarrow> unit \<Rightarrow> nat \<times> unit" where
  "sample_gen lo hi g = (hi, g)"

definition sample_order :: tpcc_transaction where
  "sample_order = NewOrder 1 2 3 (replicate 5 \<lparr>oi_i_id = 7, oi_supply_w_id = 1, oi_quantity = 10\<rparr>)"

definition sample_txn :: "tpcc_transaction \<Rightarrow> ((nat, nat) tpcc_executable, nat) txn_ts" where
  "sample_txn txn = txn_new_for_tests (tpcc_executable_new sample_api 9 txn)"

lemma sample_txn_sel: "transaction (sample_txn txn) = tpcc_executable_new sample_api 9 txn"
  by (simp add: sample_txn_def txn_new_for_tests_def)

lemma sample_order_ok: "tpcc_txn_ok 1 sample_order"
  by (simp add: sample_order_def order_item_ok_def tpcc_constants list_all_iff)

lemma sample_database:
  "\<exists>s R. represents sample_api (db_keys 1) s R \<and> db_ok 1 0 R"
  using init_objects_database[OF sample_api_laws sample_key_id_inj[of 1], of sample_gen]
  by (auto simp: in_range_def sample_gen_def)


section \<open>Properties\<close>







end
