(* ===== verification/Proxy_Execution.thy ===== *)
theory Proxy_Execution
  imports Proxy_Core
begin

text \<open>
  Execution on a proxy.  The transactions that the primary sends to a proxy that owns all their
  objects are executed by concurrent stateful blocks; with the fake executor every interleaving
  gives the store and the results of the sequential execution in consensus order, every transaction
  is executed, and every object ends with the version that the primary assigned.
\<close>


section \<open>The fake executor is local\<close>

definition fake_footprint :: "bool \<times> (('d, 'o) fake_transaction, 'o) txn_ts \<Rightarrow> 'o set" where
  "fake_footprint c = kind_object_id ` set (ft_inputs (transaction (snd c)))"

lemma fake_ops_sel [simp]:
  "ex_execute (fake_ops nxt Ob mk vf) = fake_execute nxt Ob"
  "ex_pre_execute_check (fake_ops nxt Ob mk vf) = fake_pre_execute_check Ob"
  "ex_trait (fake_ops nxt Ob mk vf) = fake_transaction_trait"
  "ex_verify_transaction (fake_ops nxt Ob mk vf) = vf"
  "ex_make_verification_request (fake_ops nxt Ob mk vf) = mk"
  by (simp_all add: fake_ops_def)

lemma fake_new_state:
  assumes "fake_execute nxt Ob s t = Inr (s', r)"
  obtains m where "er_new_state r = Some m" "s' = s ++ map_of m" "er_transaction r = t" "er_updates r \<noteq> None"
    "fst ` set m = kind_object_id ` set (ft_inputs (transaction t))"
    "output_objects Ob s (nxt (fst (scan_versions (shared_objects t) 2 []))) (ft_inputs (transaction t)) [] = Inr m"
proof -
  from assms obtain m u where m:
    "output_objects Ob s (nxt (fst (scan_versions (shared_objects t) 2 []))) (ft_inputs (transaction t)) [] = Inr m"
    "s' = commit_objects s u m" "r = results_new t (Some u) (Some m)"
    by (auto simp: fake_execute_def split_beta Let_def and_then_eq_Inr)
  have "distinct (map fst m)" using output_objects_keys[OF m(1)] bt_wf_distinct[of m] by simp
  then have "s' = s ++ map_of m" by (simp add: m(2) commit_objects_def commit_new_objects_eq)
  then show thesis using that m output_objects_keys[OF m(1)] by (simp add: results_new_def)
qed

lemma fake_execute_local:
  assumes "\<And>i. i \<in> kind_object_id ` set (ft_inputs (transaction t)) \<Longrightarrow> s i = s' i"
  shows "map_sum id (\<lambda>(_, r). r) (fake_execute nxt Ob s t) = map_sum id (\<lambda>(_, r). r) (fake_execute nxt Ob s' t)"
proof -
  have "output_objects Ob s v (ft_inputs (transaction t)) [] = output_objects Ob s' v (ft_inputs (transaction t)) []" for v
    by (rule output_objects_local) (simp add: assms)
  then show ?thesis
    by (auto simp: fake_execute_def split_beta Let_def and_then_def split: sum.splits)
qed

lemma fake_ready_local:
  assumes "\<And>i. i \<in> kind_object_id ` set (ft_inputs (transaction t)) \<Longrightarrow> s i = s' i"
  shows "ready_to_execute (fake_ops nxt Ob mk vf) verified s t = ready_to_execute (fake_ops nxt Ob mk vf) verified s' t"
proof -
  have "fake_pre_execute_check Ob s t = fake_pre_execute_check Ob s' t"
    unfolding fake_pre_execute_check_def by (rule check_inputs_local) (simp add: assms)
  then show ?thesis by (simp add: ready_to_execute_def)
qed

lemma fake_updates_local:
  assumes eq: "\<And>i. i \<in> kind_object_id ` set (ft_inputs (transaction t)) \<Longrightarrow> s i = s' i"
  shows "stateful_updates (fake_ops nxt Ob mk vf) verified t s = stateful_updates (fake_ops nxt Ob mk vf) verified t s'"
proof -
  let ?E = "fake_ops nxt Ob mk vf"
  have rd: "ready_to_execute ?E verified s t = ready_to_execute ?E verified s' t"
    by (rule fake_ready_local[OF eq])
  have ex: "map_sum id (\<lambda>(_, r). r) (fake_execute nxt Ob s t) = map_sum id (\<lambda>(_, r). r) (fake_execute nxt Ob s' t)"
    by (rule fake_execute_local[OF eq])
  show ?thesis
    using ex unfolding stateful_updates_def run_stateful_def rd
    by (cases "ready_to_execute ?E verified s' t"; cases "fake_execute nxt Ob s t"; cases "fake_execute nxt Ob s' t")
      (auto simp: results_new_def split: prod.splits)
qed

interpretation fx: local_executor
  "\<lambda>(verified, t). stateful_updates (fake_ops nxt Ob mk vf) verified t" fake_footprint
  for nxt Ob mk vf
proof (unfold_locales, goal_cases)
  case (1 c s s')
  obtain verified t where c: "c = (verified, t)" by (cases c)
  show ?case unfolding c prod.case
    by (rule fake_updates_local) (use 1 in \<open>simp add: c fake_footprint_def\<close>)
next
  case (2 c s)
  obtain verified t where c: "c = (verified, t)" by (cases c)
  show ?case
    unfolding c prod.case
  proof
    fix i assume "i \<in> dom (stateful_updates (fake_ops nxt Ob mk vf) verified t s)"
    then obtain s' r m where r: "run_stateful (fake_ops nxt Ob mk vf) verified s t = Inr (s', r)"
      "er_new_state r = Some m" "i \<in> fst ` set m"
      by (auto simp: stateful_updates_def split: sum.splits option.splits dest!: map_of_SomeD)
        (metis fst_conv image_eqI)
    then have "fake_execute nxt Ob s t = Inr (s', r)"
      by (auto simp: run_stateful_def and_then_eq_Inr results_new_def split: if_splits)
    then show "i \<in> fake_footprint (verified, t)" using r fake_new_state by (metis fake_footprint_def option.inject snd_conv)
  qed
qed

lemma run_stateful_updates:
  assumes "run_stateful (fake_ops nxt Ob mk vf) verified s t = Inr (s', r)"
  shows "s' = s ++ stateful_updates (fake_ops nxt Ob mk vf) verified t s"
proof -
  from assms consider "fake_execute nxt Ob s t = Inr (s', r)" | "s' = s" "er_new_state r = None"
    by (auto simp: run_stateful_def and_then_eq_Inr results_new_def split: if_splits)
  then show ?thesis
  proof cases
    case 1
    then obtain m where "er_new_state r = Some m" "s' = s ++ map_of m" using fake_new_state by metis
    then show ?thesis using assms by (simp add: stateful_updates_def)
  next
    case 2
    then show ?thesis using assms by (simp add: stateful_updates_def)
  qed
qed


section \<open>The sequential reference\<close>

fun sequential_execution ::
  "('t, 'd, 'o, 'u, 'b) executor_ops \<Rightarrow> separation_mode \<Rightarrow> ('o, 'b) object_store \<Rightarrow> ('t, 'o) txn_ts list \<Rightarrow>
   (('o, 'b) object_store \<times> ('t, 'o, 'u, 'b) execution_results list) res" where
  "sequential_execution E mode s [] = Inr (s, [])"
| "sequential_execution E mode s (t # ts) =
     and_then (run_stateful E (stateless_verified E mode t None) s t)
       (\<lambda>(s', r). and_then (sequential_execution E mode s' ts) (\<lambda>(s'', rs). Inr (s'', r # rs)))"

lemma sequential_execution_snoc:
  assumes "sequential_execution E mode s ts = Inr (s1, rs)"
    and "run_stateful E (stateless_verified E mode t None) s1 t = Inr (s2, r)"
  shows "sequential_execution E mode s (ts @ [t]) = Inr (s2, rs @ [r])"
  using assms by (induction ts arbitrary: s rs) (auto simp: and_then_eq_Inr)


section \<open>Transactions with assigned versions\<close>

text \<open>
  The transactions as the version assignment sends them, with their required versions.  The
  workload: the shared inputs of a transaction are its shared objects, all inputs exist in the
  initial store, shared ones with the initial version 2, and two transactions only have shared
  objects in common.
\<close>

definition fake_workload ::
  "('o::linorder, 'b, 'w) object_api \<Rightarrow> ('o, 'b) object_store \<Rightarrow> (('d, 'o) fake_transaction, 'o) txn_ts list \<Rightarrow> bool" where
  "fake_workload Ob s0 ts \<longleftrightarrow>
     (\<forall>t \<in> set ts. bt_wf (shared_objects t) \<and>
        fst ` set (shared_objects t) = set (shared_ids (ft_inputs (transaction t))) \<and>
        (\<forall>k \<in> set (ft_inputs (transaction t)). \<exists>b. s0 (kind_object_id k) = Some b \<and> (is_shared_kind k \<longrightarrow> ob_version Ob b = 2))) \<and>
     (\<forall>i < length ts. \<forall>j < i. fake_footprint (True, ts ! j) \<inter> fake_footprint (True, ts ! i) \<subseteq>
        fst ` set (shared_objects (ts ! j)) \<inter> fst ` set (shared_objects (ts ! i)))"

definition local_states :: "('o \<times> version) list \<Rightarrow> 'o required_states" where
  "local_states req = map (\<lambda>k. (k, None)) req"

lemma stateful_task_schedule:
  "stateful_task nxt E mode place t received (local_states (S ! j)) =
     schedule_task nxt place (\<lambda>_. []) (\<lambda>_. stateful_updates E (stateless_verified E mode t received) t) S j"
  by (simp add: stateful_task_def schedule_task_def local_states_def comp_def Let_def produced_def)

lemma scan_versions_required:
  assumes "xs = map (\<lambda>(x, v). (x, Some v)) req" "req \<noteq> []" "\<And>x v. (x, v) \<in> set req \<Longrightarrow> 2 \<le> v"
  shows "nxt (fst (scan_versions xs 2 [])) = next_version nxt req"
proof -
  have "[v. (i, Some v) \<leftarrow> xs] = map snd req" by (simp add: assms(1) comp_def split_beta)
  then have "fst (scan_versions xs 2 []) = Max (insert 2 (set (map snd req)))"
    by (simp add: scan_versions_eq fold_upd_max)
  also have "\<dots> = Max (set (map snd req))"
  proof -
    have "2 \<le> Max (set (map snd req))"
      using assms(2,3) by (cases req) (force simp: Max_ge_iff)+
    then show ?thesis using assms(2) by (simp add: Max_insert)
  qed
  finally show ?thesis by (simp add: next_version_def)
qed

text \<open>One step of the sequential execution: the transaction is executed and its objects get the produced version.\<close>

lemma sequential_step:
  fixes Ob :: "('o::linorder, 'b, 'w) object_api"
  assumes laws: "object_laws Ob"
    and shared: "shared_objects t = map (\<lambda>(x, v). (x, Some v)) req" "fst ` set req = set (shared_ids (ft_inputs (transaction t)))"
      "distinct (map fst req)" "\<And>x v. (x, v) \<in> set req \<Longrightarrow> 2 \<le> v"
    and inputs: "\<And>k. k \<in> set (ft_inputs (transaction t)) \<Longrightarrow> s (kind_object_id k) \<noteq> None"
    and versions: "\<And>x v b. (x, v) \<in> set req \<Longrightarrow> s x = Some b \<Longrightarrow> ob_version Ob b = v"
  obtains s' r where "run_stateful (fake_ops nxt Ob mk vf) True s t = Inr (s', r)" "er_updates r \<noteq> None"
    "\<And>x. s x \<noteq> None \<Longrightarrow> s' x \<noteq> None" "\<And>x b. x \<in> fst ` set req \<Longrightarrow> s' x = Some b \<Longrightarrow> ob_version Ob b = next_version nxt req"
    "\<And>x. x \<notin> kind_object_id ` set (ft_inputs (transaction t)) \<Longrightarrow> s' x = s x"
proof -
  let ?I = "kind_object_id ` set (ft_inputs (transaction t))"
  have sub: "fst ` set req \<subseteq> ?I" using shared(2) by (auto simp: shared_ids_def)
  have check: "fake_pre_execute_check Ob s t = Inr True"
    unfolding fake_pre_execute_check_def
  proof (rule check_inputs_ok)
    fix k assume k: "k \<in> set (ft_inputs (transaction t))"
    obtain b where b: "s (kind_object_id k) = Some b" using inputs[OF k] by auto
    have "map_of (shared_objects t) (kind_object_id k) = Some (Some (ob_version Ob b))" if "is_shared_kind k"
    proof -
      have "kind_object_id k \<in> fst ` set req" using k that shared(2) by (auto simp: shared_ids_def)
      then obtain v where v: "(kind_object_id k, v) \<in> set req" by auto
      then have "map_of req (kind_object_id k) = Some v" using shared(3) by simp
      moreover have "ob_version Ob b = v" using versions[OF v b] .
      moreover have "map_of (shared_objects t) = map_option Some \<circ> map_of req"
        unfolding shared(1) by (simp add: map_of_map)
      ultimately show ?thesis by simp
    qed
    then show "\<exists>b. s (kind_object_id k) = Some b \<and> (is_shared_kind k \<longrightarrow>
        (\<exists>v. map_of (shared_objects t) (kind_object_id k) = Some (Some v) \<and> ob_version Ob b = v))" using b by blast
  qed
  obtain s' r where ex: "fake_execute nxt Ob s t = Inr (s', r)" "\<And>i. i \<notin> ?I \<Longrightarrow> s' i = s i"
    "\<And>i. i \<in> ?I \<Longrightarrow> \<exists>b. s' i = Some b \<and> ob_version Ob b = nxt (fst (scan_versions (shared_objects t) 2 []))"
    "er_updates r \<noteq> None"
    using fake_execute_ok[where s = s and t = t and nxt = nxt, OF laws inputs refl refl] by blast
  show thesis
  proof (rule that)
    show "run_stateful (fake_ops nxt Ob mk vf) True s t = Inr (s', r)"
      using check ex(1) by (simp add: run_stateful_def ready_to_execute_def)
    show "er_updates r \<noteq> None" by (rule ex(4))
    show "s' x \<noteq> None" if "s x \<noteq> None" for x using ex(2,3) that by (cases "x \<in> ?I") auto
    show "ob_version Ob b = next_version nxt req" if "x \<in> fst ` set req" "s' x = Some b" for x b
      using ex(3)[of x] that sub scan_versions_required[where nxt = nxt, OF shared(1) _ shared(4)] by fastforce
    show "s' x = s x" if "x \<notin> ?I" for x using ex(2) that by blast
  qed
qed


section \<open>Every interleaving is the sequential execution\<close>

definition proxy_tasks ::
  "(version \<Rightarrow> version) \<Rightarrow> ('t, 'd, 'o, 'u, 'b) executor_ops \<Rightarrow> (('t, 'o) txn_ts \<times> ('o \<times> version) list) list \<Rightarrow>
   nat \<Rightarrow> (nat, unit, 'o, 'o, 'b) task_desc" where
  "proxy_tasks nxt E sent j = stateful_task nxt E NoSeparation () (fst (sent ! j)) None (local_states (map snd sent ! j))"

lemma proxy_tasks_schedule:
  "proxy_tasks nxt E sent =
     schedule_task nxt () (\<lambda>_. []) (\<lambda>j. stateful_updates E (stateless_verified E NoSeparation (fst (sent ! j)) None) (fst (sent ! j)))
       (map snd sent)"
  by (rule ext) (simp add: proxy_tasks_def stateful_task_schedule schedule_task_def)

text \<open>The facts about a schedule that the sequential execution needs, one transaction at a time.\<close>

definition assigned_workload where
  "assigned_workload nxt Ob s0 sent \<longleftrightarrow>
     schedule_ok nxt (map snd sent) \<and>
     (\<forall>j < length sent. shared_objects (fst (sent ! j)) = map (\<lambda>(x, v). (x, Some v)) (snd (sent ! j)) \<and>
        fst ` set (snd (sent ! j)) = set (shared_ids (ft_inputs (transaction (fst (sent ! j))))) \<and>
        (\<forall>k \<in> set (ft_inputs (transaction (fst (sent ! j)))).
           \<exists>b. s0 (kind_object_id k) = Some b \<and> (is_shared_kind k \<longrightarrow> ob_version Ob b = 2))) \<and>
     (\<forall>i < length sent. \<forall>j < i. fake_footprint (True, fst (sent ! j)) \<inter> fake_footprint (True, fst (sent ! i)) \<subseteq>
        fst ` set (snd (sent ! j)) \<inter> fst ` set (snd (sent ! i)))"

lemma assigned_workloadI:
  assumes nxt: "\<forall>v. v < nxt v" and wl: "fake_workload Ob s0 (concat batches)"
    and p: "process_version_assignments nxt Map.empty batches = (m, sent)"
  shows "assigned_workload nxt Ob s0 sent" "versions_inv nxt m (map snd sent)"
proof -
  have wf: "\<forall>b \<in> set batches. \<forall>t \<in> set b. bt_wf (shared_objects t)" using wl by (auto simp: fake_workload_def)
  show inv: "versions_inv nxt m (map snd sent)"
    using versions_inv_process[OF nxt versions_inv_init p wf] by simp
  have rel: "list_all2 sent_ok (concat batches) sent"
    using process_version_assignments_sent[OF wf, of nxt Map.empty] p by simp
  have len: "length (concat batches) = length sent" using rel by (rule list_all2_lengthD)
  have at: "sent_ok (concat batches ! j) (sent ! j)" if "j < length sent" for j
    using list_all2_nthD2[OF rel that] .
  have tr: "transaction (fst (sent ! j)) = transaction (concat batches ! j)"
    "fst ` set (snd (sent ! j)) = fst ` set (shared_objects (concat batches ! j))"
    "shared_objects (fst (sent ! j)) = map (\<lambda>(x, v). (x, Some v)) (snd (sent ! j))" if "j < length sent" for j
    using at[OF that] unfolding sent_ok_def by (metis list.set_map)+
  have el: "concat batches ! j \<in> set (concat batches)" if "j < length sent" for j
    using that len by (metis nth_mem)
  have foot: "fake_footprint (True, fst (sent ! j)) = fake_footprint (True, concat batches ! j)" if "j < length sent" for j
    using tr(1)[OF that] by (simp add: fake_footprint_def)
  show "assigned_workload nxt Ob s0 sent"
    unfolding assigned_workload_def
  proof (intro conjI allI impI)
    show "schedule_ok nxt (map snd sent)" using inv by (simp add: versions_inv_def)
    fix j assume j: "j < length sent"
    show "shared_objects (fst (sent ! j)) = map (\<lambda>(x, v). (x, Some v)) (snd (sent ! j))" by (rule tr(3)[OF j])
    show "fst ` set (snd (sent ! j)) = set (shared_ids (ft_inputs (transaction (fst (sent ! j)))))"
      "\<forall>k \<in> set (ft_inputs (transaction (fst (sent ! j)))).
           \<exists>b. s0 (kind_object_id k) = Some b \<and> (is_shared_kind k \<longrightarrow> ob_version Ob b = 2)"
      using wl el[OF j] unfolding fake_workload_def tr(1,2)[OF j] by blast+
  next
    fix i j assume ij: "i < length sent" "j < i"
    then have j: "j < length sent" by simp
    have "fake_footprint (True, concat batches ! j) \<inter> fake_footprint (True, concat batches ! i) \<subseteq>
        fst ` set (shared_objects (concat batches ! j)) \<inter> fst ` set (shared_objects (concat batches ! i))"
      by (rule wl[unfolded fake_workload_def, THEN conjunct2, rule_format]) (simp_all only: len ij)
    then show "fake_footprint (True, fst (sent ! j)) \<inter> fake_footprint (True, fst (sent ! i)) \<subseteq>
        fst ` set (snd (sent ! j)) \<inter> fst ` set (snd (sent ! i))"
      unfolding foot[OF ij(1)] foot[OF j] tr(2)[OF ij(1)] tr(2)[OF j] .
  qed
qed

lemma assigned_workloadD:
  assumes "assigned_workload nxt Ob s0 sent" "j < length sent"
  shows "shared_objects (fst (sent ! j)) = map (\<lambda>(x, v). (x, Some v)) (snd (sent ! j))"
    and "fst ` set (snd (sent ! j)) = set (shared_ids (ft_inputs (transaction (fst (sent ! j)))))"
    and "k \<in> set (ft_inputs (transaction (fst (sent ! j)))) \<Longrightarrow>
           \<exists>b. s0 (kind_object_id k) = Some b \<and> (is_shared_kind k \<longrightarrow> ob_version Ob b = 2)"
    and "i < j \<Longrightarrow> x \<in> fake_footprint (True, fst (sent ! i)) \<Longrightarrow> x \<in> fake_footprint (True, fst (sent ! j)) \<Longrightarrow>
           x \<in> fst ` set (snd (sent ! i)) \<and> x \<in> fst ` set (snd (sent ! j))"
proof -
  note c = assms(1)[unfolded assigned_workload_def, THEN conjunct2]
  show "shared_objects (fst (sent ! j)) = map (\<lambda>(x, v). (x, Some v)) (snd (sent ! j))"
    "fst ` set (snd (sent ! j)) = set (shared_ids (ft_inputs (transaction (fst (sent ! j)))))"
    "k \<in> set (ft_inputs (transaction (fst (sent ! j)))) \<Longrightarrow>
           \<exists>b. s0 (kind_object_id k) = Some b \<and> (is_shared_kind k \<longrightarrow> ob_version Ob b = 2)"
    using c[THEN conjunct1] assms(2) by blast+
  show "i < j \<Longrightarrow> x \<in> fake_footprint (True, fst (sent ! i)) \<Longrightarrow> x \<in> fake_footprint (True, fst (sent ! j)) \<Longrightarrow>
           x \<in> fst ` set (snd (sent ! i)) \<and> x \<in> fst ` set (snd (sent ! j))"
    using c[THEN conjunct2] assms(2) by blast
qed

lemma assigned_shared_input:
  assumes "assigned_workload nxt Ob s0 sent" "j < length sent" "x \<in> objects_of (map snd sent) j"
  obtains k where "k \<in> set (ft_inputs (transaction (fst (sent ! j))))" "is_shared_kind k" "kind_object_id k = x"
    "x \<in> fake_footprint (True, fst (sent ! j))"
proof -
  have "x \<in> set (shared_ids (ft_inputs (transaction (fst (sent ! j)))))"
    using assms(3) assigned_workloadD(2)[OF assms(1,2)] assms(2) by (simp add: objects_of_def)
  then show thesis using that by (auto simp: shared_ids_def fake_footprint_def)
qed

lemma sequential_prefix:
  fixes Ob :: "('o::linorder, 'b, 'w) object_api"
  assumes nxt: "\<forall>v. v < nxt v" and laws: "object_laws Ob" and wl: "assigned_workload nxt Ob s0 sent"
    and E: "E = fake_ops nxt Ob mk vf" and D: "D = proxy_tasks nxt E sent"
    and ver: "\<And>j. j < length sent \<Longrightarrow> vf (mk (fst (sent ! j)))"
    and k: "k \<le> length sent"
  shows "\<exists>rs. sequential_execution E NoSeparation s0 (map fst (take k sent)) = Inr (run_sequentially D [0..<k] s0, rs) \<and>
      (\<forall>r \<in> set rs. er_updates r \<noteq> None) \<and>
      (\<forall>x. s0 x \<noteq> None \<longrightarrow> run_sequentially D [0..<k] s0 x \<noteq> None) \<and>
      (\<forall>x b. (\<exists>j < length sent. x \<in> objects_of (map snd sent) j) \<longrightarrow> run_sequentially D [0..<k] s0 x = Some b \<longrightarrow>
         ob_version Ob b = version_before nxt (map snd sent) k x)"
  using k
proof (induction k)
  case 0
  have "ob_version Ob b = 2" if h: "j < length sent" "x \<in> objects_of (map snd sent) j" "s0 x = Some b" for x b j
  proof -
    obtain r where "r \<in> set (ft_inputs (transaction (fst (sent ! j))))" "is_shared_kind r" "kind_object_id r = x"
      using assigned_shared_input[OF wl h(1,2)] by blast
    then show ?thesis using assigned_workloadD(3)[OF wl h(1), of r] h(3) by simp
  qed
  then show ?case by auto
next
  case (Suc k)
  let ?S = "map snd sent" and ?st = "run_sequentially D [0..<k] s0" and ?t = "fst (sent ! k)" and ?req = "snd (sent ! k)"
  have kl: "k < length sent" using Suc.prems by simp
  from Suc obtain rs where ih: "sequential_execution E NoSeparation s0 (map fst (take k sent)) = Inr (?st, rs)"
    "\<forall>r \<in> set rs. er_updates r \<noteq> None" "\<And>x. s0 x \<noteq> None \<Longrightarrow> ?st x \<noteq> None"
    "\<And>x b j. j < length sent \<Longrightarrow> x \<in> objects_of ?S j \<Longrightarrow> ?st x = Some b \<Longrightarrow> ob_version Ob b = version_before nxt ?S k x"
    by auto blast
  have ok: "schedule_ok nxt ?S" using wl by (simp add: assigned_workload_def)
  have W: "shared_objects ?t = map (\<lambda>(x, v). (x, Some v)) ?req" "fst ` set ?req = set (shared_ids (ft_inputs (transaction ?t)))"
    "\<And>r. r \<in> set (ft_inputs (transaction ?t)) \<Longrightarrow> s0 (kind_object_id r) \<noteq> None"
    using assigned_workloadD(1,2)[OF wl kl] assigned_workloadD(3)[OF wl kl] by (blast | fastforce)+
  have disj: "x \<in> objects_of ?S k" if "x \<in> kind_object_id ` set (ft_inputs (transaction ?t))" "j < length sent" "x \<in> objects_of ?S j" for x j
  proof -
    have f: "x \<in> fake_footprint (True, fst (sent ! j))" "x \<in> fake_footprint (True, ?t)"
      using assigned_shared_input[OF wl that(2,3)] that(1) by (auto simp: fake_footprint_def)
    show ?thesis
      using assigned_workloadD(4)[OF wl kl, of j x] assigned_workloadD(4)[OF wl that(2), of k x] f kl that(3)
      by (cases j k rule: linorder_cases) (simp_all add: objects_of_def)
  qed
  obtain s' r where st: "run_stateful E True ?st ?t = Inr (s', r)" "er_updates r \<noteq> None"
    "\<And>x. ?st x \<noteq> None \<Longrightarrow> s' x \<noteq> None" "\<And>x b. x \<in> fst ` set ?req \<Longrightarrow> s' x = Some b \<Longrightarrow> ob_version Ob b = next_version nxt ?req"
    "\<And>x. x \<notin> kind_object_id ` set (ft_inputs (transaction ?t)) \<Longrightarrow> s' x = ?st x"
    unfolding E
  proof (rule sequential_step[where s = ?st and t = ?t and req = ?req and nxt = nxt and mk = mk and vf = vf, OF laws W(1,2)])
    show "distinct (map fst ?req)" using schedule_okD(1)[OF ok, of k] kl by simp
    show "2 \<le> v" if "(x, v) \<in> set ?req" for x v using schedule_okD(2)[OF ok, of k x v] kl that by simp
    show "?st (kind_object_id r) \<noteq> None" if "r \<in> set (ft_inputs (transaction ?t))" for r using ih(3) W(3)[OF that] by blast
    show "ob_version Ob b = v" if xv: "(x, v) \<in> set ?req" and "?st x = Some b" for x v b
    proof -
      have "v = version_before nxt ?S k x" using required_version[OF nxt ok, of k x v] kl xv by simp
      moreover have "x \<in> objects_of ?S k" using xv kl by (force simp: objects_of_def)
      ultimately show ?thesis using ih(4)[OF kl] that(2) by simp
    qed
  qed blast
  have v: "stateless_verified E NoSeparation ?t None" using ver[OF kl] by (simp add: stateless_verified_def E)
  have s': "s' = run_sequentially D [0..<Suc k] s0"
    using run_stateful_updates[OF st(1)[unfolded E]] v
    by (simp add: apply_task_def D proxy_tasks_schedule flip: E)
  have "sequential_execution E NoSeparation s0 (map fst (take k sent) @ [?t]) = Inr (s', rs @ [r])"
    by (rule sequential_execution_snoc[OF ih(1)]) (simp add: v st(1))
  moreover have "ob_version Ob b = version_before nxt ?S (Suc k) x"
    if x: "j < length sent" "x \<in> objects_of ?S j" "s' x = Some b" for x b j
  proof (cases "x \<in> objects_of ?S k")
    case True
    then show ?thesis using st(4)[of x b] x(3) kl by (simp add: objects_of_def produced_def)
  next
    case False
    then have "s' x = ?st x" using st(5) disj[OF _ x(1,2)] by blast
    then show ?thesis using False ih(4)[OF x(1,2)] x(3) by simp
  qed
  ultimately show ?case
    using ih(2,3) st(2,3) kl unfolding s'[symmetric] by (intro exI[of _ "rs @ [r]"]) (auto simp: take_Suc_conv_app_nth)
qed


text \<open>A small run for the witnesses: two transactions on object 7, the second one also on object 9.\<close>

definition example_batches :: "((nat, nat) fake_transaction, nat) txn_ts list list" where
  "example_batches =
     [[txn_new (fake_new 100 [SharedMoveObject 7 2 True]) 0 [7] 0 0],
      [txn_new (fake_new 101 [SharedMoveObject 7 2 True, SharedMoveObject 9 2 True]) 1 [7, 9] 0 0]]"

definition example_store :: "nat \<rightharpoonup> nat \<times> version \<times> nat option" where
  "example_store = [7 \<mapsto> (7, 2, None), 9 \<mapsto> (9, 2, None)]"

definition example_sent :: "(((nat, nat) fake_transaction, nat) txn_ts \<times> (nat \<times> version) list) list" where
  "example_sent = snd (process_version_assignments Suc Map.empty example_batches)"

definition example_ops :: "((nat, nat) fake_transaction, nat, nat, (nat, nat) fake_effects, nat \<times> version \<times> nat option) executor_ops" where
  "example_ops = fake_ops Suc plain_objects (\<lambda>t. SyntheticRequest (ft_digest (transaction t)) 0) (\<lambda>_. True)"

lemma example_process:
  "process_version_assignments Suc Map.empty example_batches = ([7 \<mapsto> 4, 9 \<mapsto> 4], example_sent)"
  "map snd example_sent = [[(7, 2)], [(7, 3), (9, 2)]]"
  by (simp_all add: example_sent_def example_batches_def assign_shared_object_versions_def collect_versions_def
      txn_new_def bt_collect_def upd_max_def Let_def fun_eq_iff)

lemma example_workload: "fake_workload plain_objects example_store (concat example_batches)"
proof -
  let ?ts = "concat example_batches"
  have ts: "?ts = [txn_new (fake_new 100 [SharedMoveObject 7 2 True]) 0 [7] 0 0,
      txn_new (fake_new 101 [SharedMoveObject 7 2 True, SharedMoveObject 9 2 True]) 1 [7, 9] 0 0]"
    by (simp add: example_batches_def)
  have "\<forall>t \<in> set ?ts. bt_wf (shared_objects t) \<and>
      fst ` set (shared_objects t) = set (shared_ids (ft_inputs (transaction t))) \<and>
      (\<forall>k \<in> set (ft_inputs (transaction t)). \<exists>b. example_store (kind_object_id k) = Some b \<and>
         (is_shared_kind k \<longrightarrow> ob_version plain_objects b = 2))"
    unfolding ts by (auto simp: txn_new_def bt_collect_def bt_wf_def fake_new_def set_shared_ids
      example_store_def plain_objects_def)
  moreover have "fake_footprint (True, ?ts ! j) \<inter> fake_footprint (True, ?ts ! i) \<subseteq>
        fst ` set (shared_objects (?ts ! j)) \<inter> fst ` set (shared_objects (?ts ! i))" if "i < length ?ts" "j < i" for i j
  proof -
    have "j = 0" "i = 1" using that unfolding ts by simp_all
    then show ?thesis unfolding ts by (simp add: fake_footprint_def txn_new_def bt_collect_def fake_new_def)
  qed
  ultimately show ?thesis unfolding fake_workload_def by blast
qed

lemma example_length: "length example_sent = 2"
  using arg_cong[OF example_process(2), of length] by simp

lemma example_bt_wf: "\<forall>b \<in> set example_batches. \<forall>t \<in> set b. bt_wf (shared_objects t)"
  by (simp add: example_batches_def txn_new_def)

lemma example_finishes:
  "\<exists>s. reachable permit_bit (proxy_tasks Suc example_ops example_sent) [0..<length example_sent] example_store s \<and>
     (\<forall>j < length example_sent. finished (proxy_tasks Suc example_ops example_sent) s j)"
proof -
  have "schedule_ok Suc (map snd example_sent)"
    using versions_inv_process[OF _ versions_inv_init example_process(1) example_bt_wf] by (simp add: versions_inv_def)
  then have "tasks_wf (proxy_tasks Suc example_ops example_sent) [0..<length example_sent]"
    using schedule_tasks_wf[of Suc "map snd example_sent" "\<lambda>_. []"] by (simp add: proxy_tasks_schedule)
  then obtain s where "reachable permit_bit (proxy_tasks Suc example_ops example_sent) [0..<length example_sent] example_store s"
    "\<forall>t \<in> set [0..<length example_sent]. finished (proxy_tasks Suc example_ops example_sent) s t"
    using all_executions_complete[OF reachable.init _ notify_laws_permit_bit] by blast
  then show ?thesis by (intro exI[of _ s]) simp
qed

text \<open>
  C4. Serializability of a proxy.  Take any batches that consensus delivers, the versions the
  primary assigns to them, and a proxy that holds all their objects.  Whatever the interleaving of
  the stateful blocks, when all of them are finished the store is the one of executing the
  transactions one after the other in consensus order; in that execution none of them panics or is
  skipped by the version check; and every shared object ends with the version that the primary
  recorded for it.
\<close>

theorem proxy_execution_is_sequential:
  fixes Ob :: "('o::linorder, 'b, 'w) object_api"
  assumes nxt: "\<forall>v. v < nxt v" and laws: "object_laws Ob" "notify_laws N"
    and wl: "fake_workload Ob s0 (concat batches)"
    and sent: "process_version_assignments nxt Map.empty batches = (m, sent)"
    and E: "E = fake_ops nxt Ob mk vf" and ver: "\<forall>j < length sent. vf (mk (fst (sent ! j)))"
    and reach: "reachable N (proxy_tasks nxt E sent) [0..<length sent] s0 s"
    and fin: "\<forall>j < length sent. finished (proxy_tasks nxt E sent) s j"
  shows "\<exists>rs. sequential_execution E NoSeparation s0 (map fst sent) = Inr (sys_store s, rs) \<and>
      (\<forall>r \<in> set rs. er_updates r \<noteq> None) \<and>
      (\<forall>j < length sent. \<forall>x \<in> fst ` set (snd (sent ! j)). \<forall>b. sys_store s x = Some b \<longrightarrow> ob_version Ob b = current_version m x)"
proof -
  let ?S = "map snd sent" and ?D = "proxy_tasks nxt E sent"
  define cmd where "cmd j = (stateless_verified E NoSeparation (fst (sent ! j)) None, fst (sent ! j))" for j
  have aw: "assigned_workload nxt Ob s0 sent" and inv: "versions_inv nxt m ?S" using assigned_workloadI[OF nxt wl sent] .
  have ok: "schedule_ok nxt ?S" using inv by (simp add: versions_inv_def)
  have D: "?D = schedule_task nxt () (\<lambda>_. []) (\<lambda>j. (\<lambda>(verified, t). stateful_updates (fake_ops nxt Ob mk vf) verified t) (cmd j)) ?S"
    by (simp add: proxy_tasks_schedule cmd_def E)
  have meet: "objects_of ?S i \<inter> objects_of ?S j \<noteq> {}"
    if "i < j" "j < length ?S" "fake_footprint (cmd i) \<inter> fake_footprint (cmd j) \<noteq> {}" for i j
    using that assigned_workloadD(4)[OF aw, of j i] by (auto simp: objects_of_def fake_footprint_def cmd_def)
  have "sys_store s = run_sequentially ?D [0..<length ?S] s0"
    by (rule fx.schedule_serializable(1)[OF nxt ok _ laws(2) D meet]) (use reach fin in simp_all)
  then have st: "sys_store s = run_sequentially ?D [0..<length sent] s0" by simp
  obtain rs where rs: "sequential_execution E NoSeparation s0 (map fst (take (length sent) sent)) =
        Inr (run_sequentially ?D [0..<length sent] s0, rs)" "\<forall>r \<in> set rs. er_updates r \<noteq> None"
      "\<forall>x b. (\<exists>j < length sent. x \<in> objects_of ?S j) \<longrightarrow> run_sequentially ?D [0..<length sent] s0 x = Some b \<longrightarrow>
         ob_version Ob b = version_before nxt ?S (length sent) x"
    using sequential_prefix[OF nxt laws(1) aw E refl, of "length sent"] ver by auto
  have "ob_version Ob b = current_version m x"
    if "j < length sent" "x \<in> fst ` set (snd (sent ! j))" "sys_store s x = Some b" for j x b
  proof -
    have "x \<in> objects_of ?S j" using that(1,2) by (simp add: objects_of_def)
    then have "ob_version Ob b = version_before nxt ?S (length sent) x" using rs(3) that(1,3) st by metis
    then show ?thesis using final_version[OF nxt inv, of x] by simp
  qed
  then show ?thesis using rs(1,2) st by auto
qed

theorem proxy_execution_is_sequential_witness:
  "\<exists>s rs. reachable permit_bit (proxy_tasks Suc example_ops example_sent) [0..<length example_sent] example_store s \<and>
     sequential_execution example_ops NoSeparation example_store (map fst example_sent) = Inr (sys_store s, rs) \<and>
     (\<forall>b. sys_store s 9 = Some b \<longrightarrow> ob_version plain_objects b = 4)"
proof -
  obtain s where s: "reachable permit_bit (proxy_tasks Suc example_ops example_sent) [0..<length example_sent] example_store s"
    "\<forall>j < length example_sent. finished (proxy_tasks Suc example_ops example_sent) s j"
    using example_finishes by blast
  have "(9, 2) \<in> set (map snd example_sent ! 1)" by (simp add: example_process(2))
  then have "9 \<in> fst ` set (snd (example_sent ! 1))" using example_length by force
  moreover have "\<exists>rs. sequential_execution example_ops NoSeparation example_store (map fst example_sent) = Inr (sys_store s, rs) \<and>
      (\<forall>r \<in> set rs. er_updates r \<noteq> None) \<and>
      (\<forall>j < length example_sent. \<forall>x \<in> fst ` set (snd (example_sent ! j)). \<forall>b.
         sys_store s x = Some b \<longrightarrow> ob_version plain_objects b = current_version [7 \<mapsto> 4, 9 \<mapsto> 4] x)"
    by (rule proxy_execution_is_sequential[OF _ object_laws_plain notify_laws_permit_bit example_workload
        example_process(1) example_ops_def _ s]) simp_all
  moreover have "current_version [7 \<mapsto> 4, 9 \<mapsto> 4] (9::nat) = 4" by (simp add: current_version_def)
  moreover have "1 < length example_sent" by (simp add: example_length)
  ultimately show ?thesis using s(1) by metis
qed

text \<open>
  Liveness of a proxy, for any executor.  In every reachable state no stateful block panics in
  the controller, and the execution can be continued to the end: after exactly as many steps as
  there are actions left, all blocks are finished.
\<close>

theorem proxy_execution_completes:
  fixes batches :: "('t, 'o::linorder) txn_ts list list"
  assumes nxt: "\<forall>v. v < nxt v" and laws: "notify_laws N"
    and wf: "\<forall>b \<in> set batches. \<forall>t \<in> set b. bt_wf (shared_objects t)"
    and sent: "process_version_assignments nxt Map.empty batches = (m, sent)"
    and reach: "reachable N (proxy_tasks nxt E sent) [0..<length sent] s0 s"
  shows "(\<forall>j e. run_task N (proxy_tasks nxt E sent) j s \<noteq> Panicked e) \<and>
     (\<exists>s'. (step N (proxy_tasks nxt E sent) [0..<length sent] ^^ work_left (proxy_tasks nxt E sent) [0..<length sent] s) s s' \<and>
           (\<forall>j < length sent. finished (proxy_tasks nxt E sent) s' j))"
proof -
  have "schedule_ok nxt (map snd sent)"
    using versions_inv_process[OF nxt versions_inv_init sent wf] by (simp add: versions_inv_def)
  then have wf': "tasks_wf (proxy_tasks nxt E sent) [0..<length sent]"
    using schedule_tasks_wf[OF nxt, of "map snd sent" "\<lambda>_. []"] by (simp add: proxy_tasks_schedule)
  show ?thesis
    using no_panic[OF reach wf' laws] all_executions_complete[OF reach wf' laws] by auto
qed

theorem proxy_execution_completes_witness:
  "\<exists>s'. (step permit_bit (proxy_tasks Suc example_ops example_sent) [0..<2] ^^ 21)
      (sys_init permit_bit example_store) s' \<and> (\<forall>j < 2. finished (proxy_tasks Suc example_ops example_sent) s' j)"
proof -
  let ?D = "proxy_tasks Suc example_ops example_sent"
  have S: "map snd example_sent ! 0 = [(7, 2)]" "map snd example_sent ! 1 = [(7, 3), (9, 2)]"
    by (simp_all add: example_process(2))
  have "length (td_fetch (?D 0)) = 1" "length (td_fetch (?D 1)) = 3" "length (td_remove (?D 0)) = 1" "length (td_remove (?D 1)) = 2"
    by (simp_all add: proxy_tasks_def stateful_task_def local_states_def S[simplified] Let_def dependency_fetches_def)
  then have "length (prog (?D 0)) = 8" "length (prog (?D 1)) = 13" by (simp_all add: length_prog)
  then have w: "work_left ?D [0..<length example_sent] (sys_init permit_bit example_store) = 21"
    by (simp add: work_left_def example_length upt_conv_Cons sys_init_def numeral_2_eq_2)
  have "(\<forall>j e. run_task permit_bit ?D j (sys_init permit_bit example_store) \<noteq> Panicked e) \<and>
     (\<exists>s'. (step permit_bit ?D [0..<length example_sent] ^^ work_left ?D [0..<length example_sent] (sys_init permit_bit example_store))
           (sys_init permit_bit example_store) s' \<and> (\<forall>j < length example_sent. finished ?D s' j))"
    by (rule proxy_execution_completes[OF _ notify_laws_permit_bit example_bt_wf example_process(1) reachable.init]) simp
  then show ?thesis unfolding w unfolding example_length by blast
qed

text \<open>
  Ordering and isolation, for any executor.  When a block has read the store, all earlier
  transactions on one of its objects have committed; so two transactions on a common object are
  never both between reading and committing.
\<close>

theorem proxy_conflicting_blocks_ordered:
  fixes batches :: "('t, 'o::linorder) txn_ts list list"
  assumes nxt: "\<forall>v. v < nxt v" and laws: "notify_laws N"
    and wf: "\<forall>b \<in> set batches. \<forall>t \<in> set b. bt_wf (shared_objects t)"
    and sent: "process_version_assignments nxt Map.empty batches = (m, sent)"
    and reach: "reachable N (proxy_tasks nxt E sent) [0..<length sent] s0 s"
    and ij: "i < j" "j < length sent" "x \<in> fst ` set (snd (sent ! i))" "x \<in> fst ` set (snd (sent ! j))"
    and read: "dn (proxy_tasks nxt E sent) s j Read"
  shows "dn (proxy_tasks nxt E sent) s i Commit"
proof -
  have ok: "schedule_ok nxt (map snd sent)"
    using versions_inv_process[OF nxt versions_inv_init sent wf] by (simp add: versions_inv_def)
  have wf': "tasks_wf (proxy_tasks nxt E sent) [0..<length sent]"
    using schedule_tasks_wf[OF nxt ok, of "\<lambda>_. []"] by (simp add: proxy_tasks_schedule)
  have "(i, j) \<in> (dep (proxy_tasks nxt E sent) [0..<length sent])\<^sup>+"
    using schedule_dep_chain[OF nxt ok ij(1), of x] ij by (simp add: proxy_tasks_schedule objects_of_def)
  then show ?thesis by (rule dep_trancl_read_committed[OF reach wf' laws _ read])
qed

theorem proxy_conflicting_blocks_ordered_witness:
  "\<exists>s :: (nat, unit, nat, nat, nat \<times> version \<times> nat option, bool) sys.
     dn (proxy_tasks Suc example_ops example_sent) s 1 Read \<and> dn (proxy_tasks Suc example_ops example_sent) s 0 Commit"
proof -
  obtain s where s: "reachable permit_bit (proxy_tasks Suc example_ops example_sent) [0..<length example_sent] example_store s"
    "\<forall>j < length example_sent. finished (proxy_tasks Suc example_ops example_sent) s j"
    using example_finishes by blast
  have rd: "dn (proxy_tasks Suc example_ops example_sent) s 1 Read"
    using s(2) example_length by (simp add: dn_finished set_prog)
  have "(7, 2) \<in> set (map snd example_sent ! 0)" "(7, 3) \<in> set (map snd example_sent ! 1)"
    by (simp_all add: example_process(2))
  then have "7 \<in> fst ` set (snd (example_sent ! 0))" "7 \<in> fst ` set (snd (example_sent ! 1))"
    using example_length by force+
  then have "dn (proxy_tasks Suc example_ops example_sent) s 0 Commit"
    by (intro proxy_conflicting_blocks_ordered[OF _ notify_laws_permit_bit example_bt_wf example_process(1) s(1) _ _ _ _ rd])
      (simp_all add: example_length)
  then show ?thesis using rd by blast
qed

end
