(* ===== verification/Tpcc_Proxy.thy ===== *)
theory Tpcc_Proxy
  imports Tpcc_Initial Proxy_Execution
begin

text \<open>
  TPC-C on a proxy: the stateful blocks of a proxy that runs the TPC-C executor.  A transaction writes the objects of its
  access set and also reads the items that it orders, which are in no access set and never written; so blocks on different
  objects of the schedule do not conflict, every interleaving is the sequential execution in consensus order, and the database
  that it leaves is the one of the specification.
\<close>


section \<open>What an execution reads and writes\<close>

definition tpcc_reads :: "('o, 'b, 'w, 'm, 'c) tpcc_api \<Rightarrow> bool \<times> (('d, 'o) tpcc_executable, 'o) txn_ts \<Rightarrow> 'o set" where
  "tpcc_reads A c =
     (let x = transaction (snd c)
      in kind_object_id ` set (te_inputs x) \<union> key_id A ` (access_keys (te_txn x) \<union> item_keys (te_txn x)))"

definition tpcc_writes :: "bool \<times> (('d, 'o) tpcc_executable, 'o) txn_ts \<Rightarrow> 'o set" where
  "tpcc_writes c = kind_object_id ` set (te_inputs (transaction (snd c)))"

lemma get_object_local: "s i = s' i \<Longrightarrow> get_object s i = get_object s' i"
  by (auto simp: get_object_def tpcc_read_object_def fun_eq_iff split: option.splits)

lemma read_as_local: "s i = s' i \<Longrightarrow> read_as bd A s i = read_as bd A s' i"
  by (simp add: read_as_def read_tpcc_data_def get_object_local[of s i s'] fun_eq_iff)

lemma order_lines_local:
  assumes "\<And>k. k \<in> (\<lambda>it. KStock (oi_supply_w_id it) (oi_i_id it)) ` set items \<union> (\<lambda>it. KItem (oi_i_id it)) ` set items \<Longrightarrow> s (key_id A k) = s' (key_id A k)"
  shows "order_lines bd A s w items st = order_lines bd A s' w items st"
  using assms
proof (induction items arbitrary: st)
  case (Cons it items)
  obtain cache total stocks where st: "st = (cache, total, stocks)" by (cases st)
  have r: "read_as bd A s (key_id A (KItem (oi_i_id it))) = read_as bd A s' (key_id A (KItem (oi_i_id it)))"
    "read_as bd A s (key_id A (KStock (oi_supply_w_id it) (oi_i_id it))) = read_as bd A s' (key_id A (KStock (oi_supply_w_id it) (oi_i_id it)))"
    by (rule read_as_local, rule Cons.prems, simp)+
  have o: "order_lines bd A s w items = order_lines bd A s' w items" by (rule ext, rule Cons.IH, rule Cons.prems) auto
  show ?case unfolding st order_lines.simps key_id_simps Let_def r o ..
qed simp

lemma execute_tpcc_logic_local:
  assumes "\<And>k. k \<in> access_keys txn \<union> item_keys txn \<Longrightarrow> s (key_id A k) = s' (key_id A k)"
  shows "execute_tpcc_logic bd A s txn v cache = execute_tpcc_logic bd A s' txn v cache"
proof -
  have r: "read_as bd A s (key_id A k) = read_as bd A s' (key_id A k)" if "k \<in> access_keys txn \<union> item_keys txn" for k
    by (rule read_as_local) (rule assms[OF that])
  show ?thesis
  proof (cases txn)
    case (NewOrder w d c items)
    have o: "order_lines bd A s w items = order_lines bd A s' w items"
      by (rule ext, rule order_lines_local, rule assms) (auto simp: NewOrder)
    have k: "KWarehouse w \<in> access_keys txn \<union> item_keys txn" "KDistrict w d \<in> access_keys txn \<union> item_keys txn" "KCustomer w d c \<in> access_keys txn \<union> item_keys txn"
      by (simp_all add: NewOrder)
    show ?thesis unfolding NewOrder execute_tpcc_logic.simps execute_new_order_def key_id_simps o r[OF k(1)] r[OF k(2)] r[OF k(3)] ..
  next
    case (Payment w d cw cd c h)
    have k: "KWarehouse w \<in> access_keys txn \<union> item_keys txn" "KDistrict w d \<in> access_keys txn \<union> item_keys txn" "KCustomer cw cd c \<in> access_keys txn \<union> item_keys txn"
      by (simp_all add: Payment)
    show ?thesis unfolding Payment execute_tpcc_logic.simps execute_payment_def key_id_simps r[OF k(1)] r[OF k(2)] r[OF k(3)] ..
  qed
qed

lemma tpcc_output_objects_local:
  assumes "\<And>i. i \<in> kind_object_id ` set refs \<Longrightarrow> s i = s' i"
  shows "tpcc_output_objects A s v updated refs cache new_state = tpcc_output_objects A s' v updated refs cache new_state"
  using assms
proof (induction refs arbitrary: cache new_state)
  case (Cons ref refs)
  have g: "get_object s (kind_object_id ref) = get_object s' (kind_object_id ref)" by (rule get_object_local) (simp add: Cons.prems)
  have o: "tpcc_output_objects A s v updated refs = tpcc_output_objects A s' v updated refs"
    by (intro ext Cons.IH Cons.prems) simp
  show ?case unfolding tpcc_output_objects.simps Let_def g o ..
qed simp

lemma tpcc_output_objects_keys:
  "tpcc_output_objects A s v updated refs cache new_state = Inr new_state' \<Longrightarrow>
     fst ` set new_state' \<subseteq> fst ` set new_state \<union> kind_object_id ` set refs"
proof (induction refs arbitrary: cache new_state)
  case (Cons ref refs)
  from Cons.prems obtain cache' b where
    "tpcc_output_objects A s v updated refs cache' (bt_insert (kind_object_id ref) b new_state) = Inr new_state'"
    by (auto simp: Let_def and_then_eq_Inr split: option.splits)
  from Cons.IH[OF this] show ?case by auto
qed simp

lemma tpcc_check_inputs_local:
  "(\<And>i. i \<in> kind_object_id ` set refs \<Longrightarrow> s i = s' i) \<Longrightarrow> tpcc_check_inputs A s shared refs = tpcc_check_inputs A s' shared refs"
  by (induction refs) (simp_all add: tpcc_read_object_def Let_def split: option.splits)


section \<open>The executor interface\<close>

lemma tpcc_ops_sel [simp]:
  "ex_execute (tpcc_ops nxt bd A mk vf) = tpcc_execute nxt bd A"
  "ex_pre_execute_check (tpcc_ops nxt bd A mk vf) = tpcc_pre_execute_check A"
  "ex_trait (tpcc_ops nxt bd A mk vf) = tpcc_transaction_trait"
  "ex_verify_transaction (tpcc_ops nxt bd A mk vf) = vf"
  "ex_make_verification_request (tpcc_ops nxt bd A mk vf) = mk"
  by (simp_all add: tpcc_ops_def)

lemma tpcc_execute_local:
  assumes "\<And>i. i \<in> tpcc_reads A (verified, t) \<Longrightarrow> s i = s' i"
  shows "map_sum id snd (tpcc_execute nxt bd A s t) = map_sum id snd (tpcc_execute nxt bd A s' t)"
proof -
  let ?x = "transaction t"
  have l: "execute_tpcc_logic bd A s (te_txn ?x) v cache = execute_tpcc_logic bd A s' (te_txn ?x) v cache" for v cache
    by (rule execute_tpcc_logic_local) (use assms in \<open>simp add: tpcc_reads_def Let_def\<close>)
  have o: "tpcc_output_objects A s v updated (te_inputs ?x) cache [] = tpcc_output_objects A s' v updated (te_inputs ?x) cache []" for v updated cache
    by (rule tpcc_output_objects_local) (use assms in \<open>simp add: tpcc_reads_def Let_def\<close>)
  show ?thesis
    by (auto simp: tpcc_execute_def l o split_beta Let_def and_then_def split: sum.splits)
qed

lemma tpcc_updates_local:
  assumes "\<And>i. i \<in> tpcc_reads A (verified, t) \<Longrightarrow> s i = s' i"
  shows "stateful_updates (tpcc_ops nxt bd A mk vf) verified t s = stateful_updates (tpcc_ops nxt bd A mk vf) verified t s'"
proof -
  let ?E = "tpcc_ops nxt bd A mk vf"
  have "tpcc_check_inputs A s (shared_objects t) (te_inputs (transaction t)) = tpcc_check_inputs A s' (shared_objects t) (te_inputs (transaction t))"
    by (rule tpcc_check_inputs_local) (use assms in \<open>simp add: tpcc_reads_def Let_def\<close>)
  then have rd: "ready_to_execute ?E verified s t = ready_to_execute ?E verified s' t"
    by (simp add: ready_to_execute_def tpcc_pre_execute_check_def)
  have ex: "map_sum id snd (tpcc_execute nxt bd A s t) = map_sum id snd (tpcc_execute nxt bd A s' t)"
    by (rule tpcc_execute_local, rule assms)
  show ?thesis
    using ex unfolding stateful_updates_def run_stateful_def rd
    by (cases "ready_to_execute ?E verified s' t"; cases "tpcc_execute nxt bd A s t"; cases "tpcc_execute nxt bd A s' t")
      (auto simp: results_new_def split: prod.splits)
qed

interpretation tx: transactional_executor
  "\<lambda>(verified, t). stateful_updates (tpcc_ops nxt bd A mk vf) verified t" "tpcc_reads A" tpcc_writes
  for nxt bd A mk vf
proof (unfold_locales, goal_cases)
  case (1 c s s')
  obtain verified t where c: "c = (verified, t)" by (cases c)
  show ?case unfolding c prod.case by (rule tpcc_updates_local) (use 1 in \<open>simp add: c\<close>)
next
  case (2 c s)
  obtain verified t where c: "c = (verified, t)" by (cases c)
  show ?case
    unfolding c prod.case
  proof
    fix i assume "i \<in> dom (stateful_updates (tpcc_ops nxt bd A mk vf) verified t s)"
    then obtain s' r m b where r: "run_stateful (tpcc_ops nxt bd A mk vf) verified s t = Inr (s', r)"
      "er_new_state r = Some m" "(i, b) \<in> set m"
      by (auto simp: stateful_updates_def split: sum.splits option.splits dest!: map_of_SomeD)
    then have "tpcc_execute nxt bd A s t = Inr (s', r)"
      by (auto simp: run_stateful_def and_then_eq_Inr results_new_def split: if_splits)
    then obtain v updated cache where "tpcc_output_objects A s v updated (te_inputs (transaction t)) cache [] = Inr m"
      using r(2) by (auto simp: tpcc_execute_def split_beta Let_def and_then_eq_Inr results_new_def)
    from tpcc_output_objects_keys[OF this] show "i \<in> tpcc_writes (verified, t)" using r(3) by (force simp: tpcc_writes_def)
  qed
qed


section \<open>One transaction\<close>

text \<open>
  The transactions of the benchmark as the generator submits them: built from parameters in range, with the objects of
  their access set as shared objects.
\<close>

definition tpcc_workload :: "('o::linorder, 'b, 'w, 'm, 'c) tpcc_api \<Rightarrow> nat \<Rightarrow> (('d, 'o) tpcc_executable, 'o) txn_ts list \<Rightarrow> bool" where
  "tpcc_workload A W ts \<longleftrightarrow>
     list_all (\<lambda>t. tpcc_made A t \<and> tpcc_txn_ok W (te_txn (transaction t)) \<and> bt_wf (shared_objects t) \<and>
       fst ` set (shared_objects t) = set (access_set A (te_txn (transaction t)))) ts"

lemma tpcc_check_inputs_ok:
  assumes "\<And>i. i \<in> kind_object_id ` set refs \<Longrightarrow> \<exists>b. s i = Some b \<and> map_of shared i = Some (Some (tp_version A b))"
  shows "tpcc_check_inputs A s shared refs"
  using assms
proof (induction refs)
  case (Cons ref refs)
  from Cons.prems[of "kind_object_id ref"] obtain b where
    "s (kind_object_id ref) = Some b" "map_of shared (kind_object_id ref) = Some (Some (tp_version A b))" by auto
  with Cons show ?case by (simp add: tpcc_read_object_def)
qed simp

lemma map_of_assigned: "map_of (map (\<lambda>(x, v). (x, Some v)) req) x = map_option Some (map_of req x)"
  by (induction req) auto

lemma tpcc_step:
  fixes A :: "('o::linorder, 'b, 'w, 'm, 'c) tpcc_api"
  assumes laws: "tpcc_laws A" and rep: "represents A (db_keys W) s R" and ok: "db_ok W n R" "n < 2 ^ 24"
    and made: "tpcc_made A t" and txn: "tpcc_txn_ok W (te_txn (transaction t))"
    and shared: "shared_objects t = map (\<lambda>(x, v). (x, Some v)) req" "fst ` set req = set (access_set A (te_txn (transaction t)))"
      "distinct (map fst req)" "\<And>x v. (x, v) \<in> set req \<Longrightarrow> 2 \<le> v"
    and versions: "\<And>x v b. (x, v) \<in> set req \<Longrightarrow> s x = Some b \<Longrightarrow> tp_version A b = v"
  obtains s' r R' where "run_stateful (tpcc_ops nxt bd A mk vf) True s t = Inr (s', r)" "er_updates r \<noteq> None"
    "tpcc_spec bd (te_txn (transaction t)) R = Inr R'" "represents A (db_keys W) s' R'" "db_ok W (Suc n) R'"
    "s' = s ++ stateful_updates (tpcc_ops nxt bd A mk vf) True t s"
    "\<And>x b. x \<in> fst ` set req \<Longrightarrow> s' x = Some b \<Longrightarrow> tp_version A b = next_version nxt req"
    "\<And>x. x \<notin> fst ` set req \<Longrightarrow> s' x = s x"
proof -
  let ?E = "tpcc_ops nxt bd A mk vf" and ?txn = "te_txn (transaction t)"
  note keys = txn_ok_keys[OF txn]
  note t = made[unfolded tpcc_made_def]
  have ids: "kind_object_id ` set (te_inputs (transaction t)) = key_id A ` access_keys ?txn"
    using new_inputs[of A "te_digest (transaction t)" ?txn] t by simp
  have req: "fst ` set req = key_id A ` access_keys ?txn" using shared(2) by (simp add: set_access_set_keys)
  obtain R' where R': "tpcc_spec bd ?txn R = Inr R'" "db_ok W (Suc n) R'" using tpcc_spec_ok[OF ok(1) txn ok(2)] by blast
  from refines_InrD[OF tpcc_execute_refines[OF laws rep keys t, of nxt bd, unfolded R'(1)]] obtain s' r where
    e: "tpcc_execute nxt bd A s t = Inr (s', r)" "executed A (db_keys W) s (nxt (fst (scan_versions (shared_objects t) 2 []))) ?txn s' R'"
      "er_updates r \<noteq> None" "map_option map_of (er_new_state r) = Some (s' |` (key_id A ` access_keys ?txn))"
    by auto
  have v: "nxt (fst (scan_versions (shared_objects t) 2 [])) = next_version nxt req"
  proof (rule scan_versions_required[OF shared(1) _ shared(4)])
    show "req \<noteq> []" using req by (cases ?txn) auto
  qed
  have "tpcc_check_inputs A s (shared_objects t) (te_inputs (transaction t))"
  proof (rule tpcc_check_inputs_ok)
    fix i assume "i \<in> kind_object_id ` set (te_inputs (transaction t))"
    then obtain k where k: "k \<in> access_keys ?txn" "i = key_id A k" using ids by blast
    then obtain b where b: "s i = Some b" using representsD(2)[OF rep, of k] keys by blast
    have "i \<in> fst ` set req" using req k by blast
    then obtain w where w: "(i, w) \<in> set req" by auto
    then have "map_of req i = Some w" using shared(3) by simp
    then show "\<exists>b. s i = Some b \<and> map_of (shared_objects t) i = Some (Some (tp_version A b))"
      using b versions[OF w b] by (simp add: shared(1) map_of_assigned)
  qed
  then have run: "run_stateful ?E True s t = Inr (s', r)"
    using e(1) by (simp add: run_stateful_def ready_to_execute_def tpcc_pre_execute_check_def)
  have s': "s' i = s i" if "i \<notin> key_id A ` access_keys ?txn" for i using e(2) that by (simp add: executed_def)
  have new: "\<exists>b. s' (key_id A k) = Some b \<and> tp_version A b = next_version nxt req" if "k \<in> access_keys ?txn" for k
    using e(2)[unfolded executed_def v, THEN conjunct2, THEN conjunct1, rule_format, OF that] .
  obtain m where m: "er_new_state r = Some m" "map_of m = s' |` (key_id A ` access_keys ?txn)" using e(4) by auto
  show thesis
  proof (rule that[OF run e(3) R'(1) _ R'(2)])
    show "represents A (db_keys W) s' R'" using e(2) by (simp add: executed_def)
    have upd: "stateful_updates ?E True t s = map_of m" by (simp add: stateful_updates_def run m(1))
    show "s' = s ++ stateful_updates ?E True t s"
    proof
      fix i
      show "s' i = (s ++ stateful_updates ?E True t s) i"
      proof (cases "i \<in> key_id A ` access_keys ?txn")
        case True
        then obtain b where "s' i = Some b" using new by blast
        then show ?thesis using True by (simp add: upd m(2) map_add_def)
      next
        case False
        then show ?thesis using s'[of i] by (simp add: upd m(2) map_add_def)
      qed
    qed
    show "tp_version A b = next_version nxt req" if x: "x \<in> fst ` set req" "s' x = Some b" for x b
    proof -
      obtain k where k: "x = key_id A k" "k \<in> access_keys ?txn" using x(1)[unfolded req] by (rule imageE)
      show ?thesis using new[OF k(2)] x(2) unfolding k(1) by simp
    qed
    show "s' x = s x" if "x \<notin> fst ` set req" for x using s' that unfolding req by simp
  qed
qed


section \<open>A run\<close>

definition tpcc_assigned where
  "tpcc_assigned nxt A W sent \<longleftrightarrow>
     schedule_ok nxt (map snd sent) \<and>
     (\<forall>j < length sent. tpcc_made A (fst (sent ! j)) \<and> tpcc_txn_ok W (te_txn (transaction (fst (sent ! j)))) \<and>
        shared_objects (fst (sent ! j)) = map (\<lambda>(x, v). (x, Some v)) (snd (sent ! j)) \<and>
        fst ` set (snd (sent ! j)) = set (access_set A (te_txn (transaction (fst (sent ! j))))))"

lemma tpcc_assignedI:
  fixes batches :: "(('d, 'o::linorder) tpcc_executable, 'o) txn_ts list list"
  assumes nxt: "\<forall>v. v < nxt v" and wl: "tpcc_workload A W (concat batches)"
    and p: "process_version_assignments nxt Map.empty batches = (m, sent)"
  shows "tpcc_assigned nxt A W sent" "versions_inv nxt m (map snd sent)"
    "map (te_txn \<circ> transaction \<circ> fst) sent = map (te_txn \<circ> transaction) (concat batches)" "length sent = length (concat batches)"
proof -
  have wf: "\<forall>b \<in> set batches. \<forall>t \<in> set b. bt_wf (shared_objects t)" using wl by (auto simp: tpcc_workload_def list_all_iff)
  show inv: "versions_inv nxt m (map snd sent)" using versions_inv_process[OF nxt versions_inv_init p wf] by simp
  have rel: "list_all2 sent_ok (concat batches) sent" using process_version_assignments_sent[OF wf, of nxt Map.empty] p by simp
  show len: "length sent = length (concat batches)" using list_all2_lengthD[OF rel] by simp
  have at: "transaction (fst (sent ! j)) = transaction (concat batches ! j)"
    "fst ` set (snd (sent ! j)) = fst ` set (shared_objects (concat batches ! j))"
    "shared_objects (fst (sent ! j)) = map (\<lambda>(x, v). (x, Some v)) (snd (sent ! j))" if "j < length sent" for j
    using list_all2_nthD2[OF rel that] unfolding sent_ok_def by (metis list.set_map)+
  have wlj: "tpcc_made A (concat batches ! j)" "tpcc_txn_ok W (te_txn (transaction (concat batches ! j)))"
    "fst ` set (shared_objects (concat batches ! j)) = set (access_set A (te_txn (transaction (concat batches ! j))))" if "j < length sent" for j
    using wl that unfolding tpcc_workload_def len list_all_length by blast+
  show "tpcc_assigned nxt A W sent"
    unfolding tpcc_assigned_def tpcc_made_def
    using inv at wlj by (simp add: versions_inv_def tpcc_made_def)
  show "map (te_txn \<circ> transaction \<circ> fst) sent = map (te_txn \<circ> transaction) (concat batches)"
    by (rule nth_equalityI) (use at len in simp_all)
qed

lemma tpcc_spec_run_snoc:
  "tpcc_spec_run bd ts R = Inr R1 \<Longrightarrow> tpcc_spec bd t R1 = Inr R2 \<Longrightarrow> tpcc_spec_run bd (ts @ [t]) R = Inr R2"
  by (induction ts arbitrary: R) (auto simp: and_then_eq_Inr)

lemma tpcc_prefix:
  fixes A :: "('o::linorder, 'b, 'w, 'm, 'c) tpcc_api"
  assumes nxt: "\<forall>v. v < nxt v" and laws: "tpcc_laws A" and aw: "tpcc_assigned nxt A W sent"
    and init: "represents A (db_keys W) s0 R0" "db_ok W 0 R0" "\<And>x b. x \<in> key_id A ` db_keys W \<Longrightarrow> s0 x = Some b \<Longrightarrow> tp_version A b = 2"
    and E: "E = tpcc_ops nxt bd A mk vf" and D: "D = proxy_tasks nxt E sent"
    and ver: "\<And>j. j < length sent \<Longrightarrow> vf (mk (fst (sent ! j)))"
    and k: "k \<le> length sent" "length sent \<le> 2 ^ 24"
  shows "\<exists>rs R. sequential_execution E NoSeparation s0 (map fst (take k sent)) = Inr (run_sequentially D [0..<k] s0, rs) \<and>
      (\<forall>r \<in> set rs. er_updates r \<noteq> None) \<and>
      tpcc_spec_run bd (map (te_txn \<circ> transaction \<circ> fst) (take k sent)) R0 = Inr R \<and>
      represents A (db_keys W) (run_sequentially D [0..<k] s0) R \<and> db_ok W k R \<and>
      (\<forall>x b. x \<in> key_id A ` db_keys W \<longrightarrow> run_sequentially D [0..<k] s0 x = Some b \<longrightarrow> tp_version A b = version_before nxt (map snd sent) k x)"
  using k(1)
proof (induction k)
  case 0
  then show ?case using init by auto
next
  case (Suc k)
  let ?S = "map snd sent" and ?st = "run_sequentially D [0..<k] s0" and ?t = "fst (sent ! k)" and ?req = "snd (sent ! k)"
  have kl: "k < length sent" using Suc.prems by simp
  obtain rs R where ih: "sequential_execution E NoSeparation s0 (map fst (take k sent)) = Inr (?st, rs)"
    "\<forall>r \<in> set rs. er_updates r \<noteq> None" "tpcc_spec_run bd (map (te_txn \<circ> transaction \<circ> fst) (take k sent)) R0 = Inr R"
    "represents A (db_keys W) ?st R" "db_ok W k R"
    "\<And>x b. x \<in> key_id A ` db_keys W \<Longrightarrow> ?st x = Some b \<Longrightarrow> tp_version A b = version_before nxt ?S k x"
    using Suc.IH[OF less_imp_le[OF kl]] by blast
  have ok: "schedule_ok nxt ?S" using aw by (simp add: tpcc_assigned_def)
  have W: "tpcc_made A ?t" "tpcc_txn_ok W (te_txn (transaction ?t))" "shared_objects ?t = map (\<lambda>(x, v). (x, Some v)) ?req"
    "fst ` set ?req = set (access_set A (te_txn (transaction ?t)))"
    using aw kl unfolding tpcc_assigned_def by blast+
  have objs: "x \<in> key_id A ` db_keys W" if "x \<in> fst ` set ?req" for x
    using that txn_ok_keys[OF W(2)] unfolding W(4) set_access_set_keys by blast
  obtain s' r R' where st: "run_stateful E True ?st ?t = Inr (s', r)" "er_updates r \<noteq> None"
    "tpcc_spec bd (te_txn (transaction ?t)) R = Inr R'" "represents A (db_keys W) s' R'" "db_ok W (Suc k) R'"
    "s' = ?st ++ stateful_updates E True ?t ?st"
    "\<And>x b. x \<in> fst ` set ?req \<Longrightarrow> s' x = Some b \<Longrightarrow> tp_version A b = next_version nxt ?req" "\<And>x. x \<notin> fst ` set ?req \<Longrightarrow> s' x = ?st x"
    unfolding E
  proof (rule tpcc_step[where req = ?req and nxt = nxt and bd = bd and mk = mk and vf = vf, OF laws ih(4,5) _ W])
    show "k < 2 ^ 24" using kl k(2) by simp
    show "distinct (map fst ?req)" using schedule_okD(1)[OF ok, of k] kl by simp
    show "2 \<le> v" if "(x, v) \<in> set ?req" for x v using schedule_okD(2)[OF ok, of k x v] kl that by simp
    show "tp_version A b = v" if xv: "(x, v) \<in> set ?req" "?st x = Some b" for x v b
      using required_version[OF nxt ok, of k x v] kl xv ih(6)[OF objs xv(2)] by force
  qed blast
  have v: "stateless_verified E NoSeparation ?t None" using ver[OF kl] by (simp add: stateless_verified_def E)
  have s': "s' = run_sequentially D [0..<Suc k] s0"
    using st(6) v by (simp add: apply_task_def D proxy_tasks_schedule)
  have "sequential_execution E NoSeparation s0 (map fst (take k sent) @ [?t]) = Inr (s', rs @ [r])"
    by (rule sequential_execution_snoc[OF ih(1)]) (simp add: v st(1))
  moreover have "tp_version A b = version_before nxt ?S (Suc k) x" if "x \<in> key_id A ` db_keys W" "s' x = Some b" for x b
    using st(7,8)[of x] ih(6)[OF that(1)] that(2) kl by (auto simp: objects_of_def produced_def)
  moreover have "tpcc_spec_run bd (map (te_txn \<circ> transaction \<circ> fst) (take k sent) @ [te_txn (transaction ?t)]) R0 = Inr R'"
    by (rule tpcc_spec_run_snoc[OF ih(3) st(3)])
  ultimately show ?case
    using ih(2) st(2,4,5) kl unfolding s'[symmetric]
    by (intro exI[of _ "rs @ [r]"] exI[of _ R']) (simp add: take_Suc_conv_app_nth comp_def)
qed


section \<open>Every interleaving leaves a consistent database\<close>

lemma tpcc_assigned_keys:
  assumes "tpcc_assigned nxt A W sent" "j < length sent"
  shows "tpcc_writes (v, fst (sent ! j)) = objects_of (map snd sent) j"
    and "objects_of (map snd sent) j = key_id A ` access_keys (te_txn (transaction (fst (sent ! j))))"
    and "tpcc_reads A (v, fst (sent ! j)) = objects_of (map snd sent) j \<union> key_id A ` item_keys (te_txn (transaction (fst (sent ! j))))"
    and "access_keys (te_txn (transaction (fst (sent ! j)))) \<union> item_keys (te_txn (transaction (fst (sent ! j)))) \<subseteq> db_keys W"
proof -
  let ?x = "transaction (fst (sent ! j))"
  have a: "?x = tpcc_executable_new A (te_digest ?x) (te_txn ?x)" "tpcc_txn_ok W (te_txn ?x)" "fst ` set (snd (sent ! j)) = set (access_set A (te_txn ?x))"
    using assms unfolding tpcc_assigned_def tpcc_made_def by blast+
  have i: "kind_object_id ` set (te_inputs ?x) = key_id A ` access_keys (te_txn ?x)"
    using new_inputs[of A "te_digest ?x" "te_txn ?x"] a(1) by simp
  show o: "objects_of (map snd sent) j = key_id A ` access_keys (te_txn ?x)"
    using a(3) assms(2) by (simp add: objects_of_def set_access_set_keys)
  show "tpcc_writes (v, fst (sent ! j)) = objects_of (map snd sent) j" unfolding o by (simp add: tpcc_writes_def i)
  show "tpcc_reads A (v, fst (sent ! j)) = objects_of (map snd sent) j \<union> key_id A ` item_keys (te_txn ?x)"
    unfolding o by (auto simp: tpcc_reads_def Let_def i)
  show "access_keys (te_txn ?x) \<union> item_keys (te_txn ?x) \<subseteq> db_keys W" by (rule txn_ok_keys[OF a(2)])
qed

lemma item_not_accessed: "k \<in> item_keys t \<Longrightarrow> k \<notin> access_keys t'"
  by (cases t; cases t') auto

text \<open>Two transactions conflict only on objects that both have in their access sets: items are only read.\<close>

lemma tpcc_conflict_objects:
  assumes aw: "tpcc_assigned nxt A W sent" and inj: "inj_on (key_id A) (db_keys W)" and i: "i < length sent" and j: "j < length sent"
    and c: "tpcc_writes (v, fst (sent ! i)) \<inter> (tpcc_reads A (v', fst (sent ! j)) \<union> tpcc_writes (v', fst (sent ! j))) \<noteq> {}"
  shows "objects_of (map snd sent) i \<inter> objects_of (map snd sent) j \<noteq> {}"
proof -
  note I = tpcc_assigned_keys[OF aw i] and J = tpcc_assigned_keys[OF aw j]
  let ?ti = "te_txn (transaction (fst (sent ! i)))" and ?tj = "te_txn (transaction (fst (sent ! j)))"
  from c obtain x where x: "x \<in> objects_of (map snd sent) i" "x \<in> objects_of (map snd sent) j \<or> x \<in> key_id A ` item_keys ?tj"
    unfolding I(1) J(1,3) by blast
  have "x \<notin> key_id A ` item_keys ?tj"
  proof
    assume "x \<in> key_id A ` item_keys ?tj"
    then obtain k k' where k: "k \<in> item_keys ?tj" "k' \<in> access_keys ?ti" "key_id A k = key_id A k'" using x(1) unfolding I(2) by force
    then have "k = k'" using inj I(4) J(4) unfolding inj_on_def by blast
    then show False using k item_not_accessed by blast
  qed
  then show ?thesis using x by blast
qed

text \<open>
  C5. TPC-C on a proxy.  Initialise the database of \<open>W\<close> warehouses, let consensus deliver any batches of at most \<open>2\<^sup>2\<^sup>4\<close>
  benchmark transactions, and let a proxy that holds the objects execute them in concurrent blocks.  Whatever the interleaving, when
  all blocks are finished the store is the one of executing the transactions one after the other in consensus order, in which none panics or is
  skipped; it holds exactly the rows that the specification of the transactions computes from the initial rows; these rows satisfy the consistency
  conditions of the benchmark; and every object is at the version that the primary recorded for it.
\<close>

theorem tpcc_proxy_execution_consistent:
  fixes A :: "('o::linorder, 'b, 'w, 'm, 'c) tpcc_api"
  assumes nxt: "\<forall>v. v < nxt v" and laws: "tpcc_laws A" "notify_laws N"
    and db: "inj_on (key_id A) (db_keys W)" "in_range gen" "W < 2 ^ 32" "init_objects A gen W (tpcc_store_new, g) = Inr (s0, g')"
    and wl: "tpcc_workload A W (concat batches)" "length (concat batches) \<le> 2 ^ 24"
    and sent: "process_version_assignments nxt Map.empty batches = (m, sent)"
    and E: "E = tpcc_ops nxt bd A mk vf" and ver: "\<forall>j < length sent. vf (mk (fst (sent ! j)))"
    and reach: "reachable N (proxy_tasks nxt E sent) [0..<length sent] s0 s"
    and fin: "\<forall>j < length sent. finished (proxy_tasks nxt E sent) s j"
  shows "\<exists>rs R0 R. sequential_execution E NoSeparation s0 (map fst sent) = Inr (sys_store s, rs) \<and>
      (\<forall>r \<in> set rs. er_updates r \<noteq> None) \<and> represents A (db_keys W) s0 R0 \<and>
      tpcc_spec_run bd (map (te_txn \<circ> transaction) (concat batches)) R0 = Inr R \<and>
      represents A (db_keys W) (sys_store s) R \<and> db_ok W (length sent) R \<and>
      (\<forall>k \<in> db_keys W. \<forall>b. sys_store s (key_id A k) = Some b \<longrightarrow> tp_version A b = current_version m (key_id A k))"
proof -
  let ?S = "map snd sent" and ?D = "proxy_tasks nxt E sent"
  define cmd where "cmd j = (stateless_verified E NoSeparation (fst (sent ! j)) None, fst (sent ! j))" for j
  note aw = tpcc_assignedI[OF nxt wl(1) sent]
  have ok: "schedule_ok nxt ?S" using aw(1) by (simp add: tpcc_assigned_def)
  obtain R0 where w: "written A (db_keys W) s0" and R0: "represents A (db_keys W) s0 R0" "db_ok W 0 R0"
    using init_objects_database[OF laws(1) db(1-3), of g] db(4) by auto
  have two: "tp_version A b = 2" if "x \<in> key_id A ` db_keys W" "s0 x = Some b" for x b
    using w that unfolding written_def by fastforce
  have D: "?D = schedule_task nxt () (\<lambda>_. []) (\<lambda>j. (\<lambda>(verified, t). stateful_updates (tpcc_ops nxt bd A mk vf) verified t) (cmd j)) ?S"
    by (simp add: proxy_tasks_schedule cmd_def E)
  have meet: "objects_of ?S i \<inter> objects_of ?S j \<noteq> {}"
    if ij: "i < j" "j < length ?S" "conflict (\<lambda>t. tpcc_reads A (cmd t)) (\<lambda>t. tpcc_writes (cmd t)) i j" for i j
  proof -
    have l: "i < length sent" "j < length sent" using ij by simp_all
    from ij(3)[unfolded conflict_def cmd_def] show ?thesis
      using tpcc_conflict_objects[OF aw(1) db(1) l] tpcc_conflict_objects[OF aw(1) db(1) l(2,1)] Int_commute by metis
  qed
  have "sys_store s = run_sequentially ?D [0..<length ?S] s0"
    by (rule tx.conflict_serializable(1)[OF nxt ok _ laws(2) D meet]) (use reach fin in simp_all)
  then have st: "sys_store s = run_sequentially ?D [0..<length sent] s0" by simp
  have "\<exists>rs R. sequential_execution E NoSeparation s0 (map fst (take (length sent) sent)) = Inr (run_sequentially ?D [0..<length sent] s0, rs) \<and>
      (\<forall>r \<in> set rs. er_updates r \<noteq> None) \<and>
      tpcc_spec_run bd (map (te_txn \<circ> transaction \<circ> fst) (take (length sent) sent)) R0 = Inr R \<and>
      represents A (db_keys W) (run_sequentially ?D [0..<length sent] s0) R \<and> db_ok W (length sent) R \<and>
      (\<forall>x b. x \<in> key_id A ` db_keys W \<longrightarrow> run_sequentially ?D [0..<length sent] s0 x = Some b \<longrightarrow> tp_version A b = version_before nxt ?S (length sent) x)"
    by (rule tpcc_prefix[OF nxt laws(1) aw(1) R0 _ E refl]) (use two ver wl(2) aw(4) in simp_all)
  then obtain rs R where
    rs: "sequential_execution E NoSeparation s0 (map fst sent) = Inr (sys_store s, rs)" "\<forall>r \<in> set rs. er_updates r \<noteq> None"
      "tpcc_spec_run bd (map (te_txn \<circ> transaction \<circ> fst) sent) R0 = Inr R" "represents A (db_keys W) (sys_store s) R" "db_ok W (length sent) R"
      "\<And>x b. x \<in> key_id A ` db_keys W \<Longrightarrow> sys_store s x = Some b \<Longrightarrow> tp_version A b = version_before nxt ?S (length ?S) x"
    unfolding st take_all[OF order_refl] length_map by blast
  have "tp_version A b = current_version m (key_id A k)" if "k \<in> db_keys W" "sys_store s (key_id A k) = Some b" for k b
    using rs(6)[OF imageI[OF that(1)] that(2)] final_version[OF nxt aw(2)] by simp
  then show ?thesis using rs(1-5) R0(1) unfolding aw(3) by blast
qed


text \<open>Two batches of one transaction each, on a database of one warehouse.\<close>

definition tpcc_submit :: "nat \<Rightarrow> tpcc_transaction \<Rightarrow> ((nat, nat) tpcc_executable, nat) txn_ts" where
  "tpcc_submit dg txn = txn_new (tpcc_executable_new sample_api dg txn) 0 (access_set sample_api txn) 0 0"

definition tpcc_example_batches :: "((nat, nat) tpcc_executable, nat) txn_ts list list" where
  "tpcc_example_batches = [[tpcc_submit 1 sample_order], [tpcc_submit 2 (Payment 1 2 1 3 4 500)]]"

lemma tpcc_submit_workload: "tpcc_txn_ok W txn \<Longrightarrow> tpcc_workload sample_api W [tpcc_submit dg txn]"
  by (simp add: tpcc_workload_def tpcc_submit_def txn_new_def tpcc_made_def image_image)
    (simp add: tpcc_executable_new_def)

lemma tpcc_workload_append: "tpcc_workload A W (xs @ ys) \<longleftrightarrow> tpcc_workload A W xs \<and> tpcc_workload A W ys"
  by (simp add: tpcc_workload_def)

lemma tpcc_example_workload: "tpcc_workload sample_api 1 (concat tpcc_example_batches)"
  using tpcc_submit_workload[OF sample_order_ok, of 1] tpcc_submit_workload[of 1 "Payment 1 2 1 3 4 500" 2] tpcc_workload_append[of sample_api 1 "[tpcc_submit 1 sample_order]"]
  by (simp add: tpcc_example_batches_def tpcc_constants)

theorem tpcc_proxy_execution_consistent_witness:
  "\<exists>sent s0 s rs R.
     snd (process_version_assignments Suc Map.empty tpcc_example_batches) = sent \<and> length sent = 2 \<and>
     sequential_execution (tpcc_ops Suc Debug sample_api (\<lambda>t. SyntheticRequest (te_digest (transaction t)) 0) (\<lambda>_. True)) NoSeparation s0 (map fst sent) = Inr (sys_store s, rs) \<and>
     reachable permit_bit (proxy_tasks Suc (tpcc_ops Suc Debug sample_api (\<lambda>t. SyntheticRequest (te_digest (transaction t)) 0) (\<lambda>_. True)) sent) [0..<length sent] s0 s \<and>
     represents sample_api (db_keys 1) (sys_store s) R \<and> db_ok 1 2 R"
proof -
  let ?E = "tpcc_ops Suc Debug sample_api (\<lambda>t. SyntheticRequest (te_digest (transaction t)) 0) (\<lambda>_. True)"
  obtain m sent where p: "process_version_assignments Suc Map.empty tpcc_example_batches = (m, sent)" by fastforce
  note wl = tpcc_example_workload
  have len: "length (concat tpcc_example_batches) = 2" by (simp add: tpcc_example_batches_def)
  have nxt: "\<forall>v. v < Suc v" by simp
  note aw = tpcc_assignedI[OF nxt wl p]
  have r: "in_range sample_gen" by (simp add: in_range_def sample_gen_def)
  obtain s0 g' where i: "init_objects sample_api sample_gen 1 (tpcc_store_new, ()) = Inr (s0, g')"
    using init_objects_database[OF sample_api_laws sample_key_id_inj r, of 1 "()"] by auto
  have "tasks_wf (proxy_tasks Suc ?E sent) [0..<length sent]"
    using schedule_tasks_wf[of Suc "map snd sent" "\<lambda>_. []"] aw(1) by (simp add: proxy_tasks_schedule tpcc_assigned_def)
  then obtain s where s: "reachable permit_bit (proxy_tasks Suc ?E sent) [0..<length sent] s0 s"
    "\<forall>t \<in> set [0..<length sent]. finished (proxy_tasks Suc ?E sent) s t"
    using all_executions_complete[OF reachable.init _ notify_laws_permit_bit] by blast
  have "\<exists>rs R0 R. sequential_execution ?E NoSeparation s0 (map fst sent) = Inr (sys_store s, rs) \<and>
      (\<forall>r \<in> set rs. er_updates r \<noteq> None) \<and> represents sample_api (db_keys 1) s0 R0 \<and>
      tpcc_spec_run Debug (map (te_txn \<circ> transaction) (concat tpcc_example_batches)) R0 = Inr R \<and>
      represents sample_api (db_keys 1) (sys_store s) R \<and> db_ok 1 (length sent) R \<and>
      (\<forall>k \<in> db_keys 1. \<forall>b. sys_store s (key_id sample_api k) = Some b \<longrightarrow> tp_version sample_api b = current_version m (key_id sample_api k))"
    by (rule tpcc_proxy_execution_consistent[OF nxt sample_api_laws notify_laws_permit_bit sample_key_id_inj r _ i wl _ p refl])
      (use s len in simp_all)
  then show ?thesis using p s(1) aw(4) len by (metis snd_conv)
qed

end
