(* ===== verification/Worker_Pool.thy ===== *)
theory Worker_Pool
  imports Prelude
begin

text \<open>
  The generic worker pool (\<^verbatim>\<open>src/executor/worker_pool.rs\<close>): one queue per worker thread and round-robin
  distribution.  A worker handles one task of its queue after the other and waits for each of them to
  finish.  Threads, core pinning and the buffer size of the queues are not modelled: \<open>available\<close> is the
  number that \<^verbatim>\<open>available_parallelism\<close> reports.
\<close>

record worker_pool_config =
  num_workers :: "nat option"
  buffer_size :: nat
  enable_core_affinity :: bool
  core_offset :: "nat option"

definition worker_pool_config_default :: worker_pool_config where
  "worker_pool_config_default =
     \<lparr>num_workers = None, buffer_size = 100000, enable_core_affinity = True, core_offset = None\<rparr>"

record 'a worker_pool =
  queues :: "'a list list"
  next_worker :: nat

definition worker_pool_new :: "nat option \<Rightarrow> worker_pool_config \<Rightarrow> 'a worker_pool" where
  "worker_pool_new available cfg =
     (let n = (case num_workers cfg of Some n \<Rightarrow> n | None \<Rightarrow> (case available of Some n \<Rightarrow> n | None \<Rightarrow> 4))
      in \<lparr>queues = replicate n [], next_worker = 0\<rparr>)"

definition worker_count :: "'a worker_pool \<Rightarrow> nat" where
  "worker_count w = length (queues w)"

definition send_task :: "'a \<Rightarrow> 'a worker_pool \<Rightarrow> 'a worker_pool res" where
  "send_task task w =
     (let worker_index = next_worker w;
          n = length (queues w)
      in if n = 0 then Inl (Panic ''attempt to calculate the remainder with a divisor of zero'')
         else and_then (nth_or_panic (queues w) worker_index)
                (\<lambda>q. Inr (w\<lparr>queues := (queues w)[worker_index := q @ [task]], next_worker := (next_worker w + 1) mod n\<rparr>)))"

fun send_tasks :: "'a list \<Rightarrow> 'a worker_pool \<Rightarrow> 'a worker_pool res" where
  "send_tasks [] w = Inr w"
| "send_tasks (t # ts) w = and_then (send_task t w) (send_tasks ts)"

fun worker_loop :: "('a \<Rightarrow> 's \<Rightarrow> 's) \<Rightarrow> 'a list \<Rightarrow> 's \<Rightarrow> 's" where
  "worker_loop process [] s = s"
| "worker_loop process (t # ts) s = worker_loop process ts (process t s)"


section \<open>Round robin\<close>

text \<open>The tasks that worker \<open>i\<close> of \<open>n\<close> gets: every \<open>n\<close>-th one.\<close>

definition worker_share :: "nat \<Rightarrow> nat \<Rightarrow> 'a list \<Rightarrow> 'a list" where
  "worker_share n i ts = map (\<lambda>k. ts ! k) (filter (\<lambda>k. k mod n = i) [0..<length ts])"

lemma worker_share_snoc:
  "worker_share n i (ts @ [t]) = worker_share n i ts @ (if length ts mod n = i then [t] else [])"
  by (auto simp: worker_share_def nth_append intro!: map_cong)

lemma send_tasks_snoc: "send_tasks (ts @ [t]) w = and_then (send_tasks ts w) (send_task t)"
proof (induction ts arbitrary: w)
  case Nil
  show ?case by (cases "send_task t w") auto
next
  case (Cons u ts)
  then show ?case by (cases "send_task u w") auto
qed

text \<open>
  Functional behaviour of the worker pool: from a new pool with at least one worker, any
  sequence of tasks is distributed without a panic, worker \<open>i\<close> of \<open>n\<close> receives exactly the tasks at
  positions \<open>i\<close>, \<open>i + n\<close>, \<open>i + 2 n\<close> and so on, in this order, and the next worker is the number of tasks
  modulo \<open>n\<close>.
\<close>

theorem worker_pool_round_robin:
  assumes "0 < n"
  shows "send_tasks ts \<lparr>queues = replicate n [], next_worker = 0\<rparr> =
           Inr \<lparr>queues = map (\<lambda>i. worker_share n i ts) [0..<n], next_worker = length ts mod n\<rparr>"
proof (induction ts rule: rev_induct)
  case Nil
  have "map (\<lambda>i. worker_share n i []) [0..<n] = replicate n ([] :: 'a list)"
    by (simp add: worker_share_def map_replicate_const)
  then show ?case by simp
next
  case (snoc t ts)
  have "(map (\<lambda>i. worker_share n i ts) [0..<n])[length ts mod n := worker_share n (length ts mod n) ts @ [t]] =
      map (\<lambda>i. worker_share n i (ts @ [t])) [0..<n]"
    by (rule nth_equalityI) (auto simp: worker_share_snoc nth_list_update)
  then show ?case
    using assms by (simp add: send_tasks_snoc snoc send_task_def nth_or_panic_def Let_def mod_Suc_eq)
qed

theorem worker_pool_round_robin_witness:
  "send_tasks [10, 11, 12, 13 :: nat] \<lparr>queues = replicate 3 [], next_worker = 0\<rparr> =
     Inr \<lparr>queues = [[10, 13], [11], [12]], next_worker = 1\<rparr>"
  using worker_pool_round_robin[of 3 "[10, 11, 12, 13 :: nat]"]
  by (simp add: worker_share_def upt_rec)

text \<open>The predecessor of a task on its worker is the task \<open>n\<close> positions earlier.\<close>

definition worker_predecessor :: "nat \<Rightarrow> nat \<Rightarrow> nat list" where
  "worker_predecessor n j = (if n \<le> j \<and> 0 < n then [j - n] else [])"

lemma worker_predecessor_less: "u \<in> set (worker_predecessor n j) \<Longrightarrow> u < j"
  by (auto simp: worker_predecessor_def split: if_splits)

lemma filter_mod_snoc:
  assumes "0 < n" "j mod n = i" "n \<le> j"
  shows "filter (\<lambda>k. k mod n = i) [0..<j] = filter (\<lambda>k. k mod n = i) [0..<j - n] @ [j - n]"
proof -
  have split: "[0..<j] = [0..<j - n] @ [j - n] @ [Suc (j - n)..<j]"
    using assms by (metis append.assoc append_Cons append_Nil diff_less le0 less_le_trans upt_add_eq_append upt_conv_Cons le_add_diff_inverse2 diff_le_self)
  have "(j - n) mod n = i" using assms by (metis le_mod_geq)
  moreover have "k mod n \<noteq> i" if "j - n < k" "k < j" for k
  proof
    assume "k mod n = i"
    then have "n dvd j - k" using assms(2) that by (metis less_imp_le_nat mod_eq_dvd_iff_nat)
    then show False using that assms by (auto dest: dvd_imp_le)
  qed
  then have "filter (\<lambda>k. k mod n = i) [Suc (j - n)..<j] = []" by (auto simp: filter_empty_conv)
  ultimately show ?thesis by (subst split) simp
qed

text \<open>In the queue of its worker, task \<open>j\<close> directly follows its predecessor.\<close>

lemma worker_queue_predecessor:
  assumes "0 < n"
  shows "filter (\<lambda>k. k mod n = j mod n) [0..<Suc j] =
           (case worker_predecessor n j of [] \<Rightarrow> [j] | u # _ \<Rightarrow> filter (\<lambda>k. k mod n = j mod n) [0..<u] @ [u, j])"
proof (cases "n \<le> j")
  case True
  then show ?thesis using filter_mod_snoc[OF assms refl True] assms by (simp add: worker_predecessor_def)
next
  case False
  then have "filter (\<lambda>k. k mod n = j mod n) [0..<j] = []" by (auto simp: filter_empty_conv)
  then show ?thesis using False by (simp add: worker_predecessor_def)
qed

end
