(* ===== verification/Forwarder.thy ===== *)
theory Forwarder
  imports Worker_Pool Schedule_Tasks
begin

text \<open>
  The shared-object forwarder of the primary (\<^verbatim>\<open>SharedObjTxnForwarder\<close> and
  \<^verbatim>\<open>StatelessTxnForwarder\<close> of \<^verbatim>\<open>src/primary/shared_obj_txn_forwarder.rs\<close>): it chooses the proxy of each
  transaction, works out which object states that proxy has to fetch from which other proxy, and
  sends the transaction.

  \<open>forwarder\<close> holds the maps that the workers share.  \<open>fw_connections\<close> lists the connected proxies in the
  order in which the connection map is iterated; sending to a proxy appends to \<open>fw_sent\<close>, and a message
  to a proxy that is not connected is dropped with a warning, as in the code.
\<close>


section \<open>State\<close>

record ('t, 'd, 'o) forwarder =
  fw_connections :: "proxy_id list"
  fw_routing_plan :: "'d \<rightharpoonup> proxy_id"
  fw_states_to_proxy :: "('o \<times> version) \<rightharpoonup> proxy_id"
  fw_stateless_table :: "'d \<rightharpoonup> proxy_id"
  fw_proxy_loads :: "proxy_id \<rightharpoonup> nat"
  fw_mode :: separation_mode
  fw_policy :: pre_consensus_policy
  fw_sent :: "(proxy_id \<times> ('t, 'd, 'o) primary_to_proxy) list"

definition forwarder_new ::
  "proxy_id list \<Rightarrow> ('d \<rightharpoonup> proxy_id) \<Rightarrow> (('o \<times> version) \<rightharpoonup> proxy_id) \<Rightarrow> ('d \<rightharpoonup> proxy_id) \<Rightarrow> separation_mode \<Rightarrow> pre_consensus_policy \<Rightarrow>
   (proxy_id \<rightharpoonup> nat) \<Rightarrow> ('t, 'd, 'o) forwarder" where
  "forwarder_new conns plan states table mode policy loads =
     \<lparr>fw_connections = conns, fw_routing_plan = plan, fw_states_to_proxy = states, fw_stateless_table = table,
      fw_proxy_loads = loads, fw_mode = mode, fw_policy = policy, fw_sent = []\<rparr>"

definition proxy_count :: "('t, 'd, 'o) forwarder \<Rightarrow> nat" where
  "proxy_count f = length (fw_connections f)"

definition load_of :: "(proxy_id \<rightharpoonup> nat) \<Rightarrow> proxy_id \<Rightarrow> nat" where
  "load_of loads p = (case loads p of Some l \<Rightarrow> l | None \<Rightarrow> 0)"

definition add_load :: "proxy_id \<Rightarrow> nat \<Rightarrow> (proxy_id \<rightharpoonup> nat) \<Rightarrow> (proxy_id \<rightharpoonup> nat)" where
  "add_load p w loads = loads(p \<mapsto> (case loads p of Some l \<Rightarrow> l + w | None \<Rightarrow> w))"

definition send_to_proxy ::
  "proxy_id \<Rightarrow> ('t, 'd, 'o) primary_to_proxy \<Rightarrow> ('t, 'd, 'o) forwarder \<Rightarrow> ('t, 'd, 'o) forwarder" where
  "send_to_proxy dest msg f =
     (if dest \<in> set (fw_connections f) then f\<lparr>fw_sent := fw_sent f @ [(dest, msg)]\<rparr> else f)"


section \<open>Choosing a proxy\<close>

text \<open>Counting the required states per proxy.\<close>

fun count_states :: "(('o \<times> version) \<rightharpoonup> proxy_id) \<Rightarrow> nat \<Rightarrow> ('o \<times> version) list \<Rightarrow> nat list \<Rightarrow> nat list" where
  "count_states states n [] counts = counts"
| "count_states states n (k # ks) counts =
     count_states states n ks
       (case states k of
          Some p \<Rightarrow> if p < n then counts[p := counts ! p + 1] else counts
        | None \<Rightarrow> counts)"

text \<open>The pass over the counts: the indices that share the largest count so far.\<close>

fun best_indices :: "nat list \<Rightarrow> nat \<Rightarrow> nat \<Rightarrow> nat list \<Rightarrow> nat list" where
  "best_indices [] index max_count best = best"
| "best_indices (c # cs) index max_count best =
     (if c > max_count then best_indices cs (index + 1) c [index]
      else if c = max_count then best_indices cs (index + 1) max_count (best @ [index])
      else best_indices cs (index + 1) max_count best)"

definition get_proxy_for_shared_objects_most_states ::
  "nat \<Rightarrow> (('o \<times> version) \<rightharpoonup> proxy_id) \<Rightarrow> ('o \<times> version) list \<Rightarrow> nat \<Rightarrow> proxy_id option res" where
  "get_proxy_for_shared_objects_most_states count states required_versions txn_cnt =
     (if count = 0 then Inr None
      else if required_versions = [] then Inr (Some 0)
      else
        let counts = count_states states count required_versions (replicate count 0);
            best = best_indices counts 0 0 []
        in if length best > 1 then and_then (nth_or_panic best (txn_cnt mod length best)) (\<lambda>p. Inr (Some p))
           else and_then (nth_or_panic best 0) (\<lambda>p. Inr (Some p)))"

definition fallback_proxy ::
  "pre_consensus_policy \<Rightarrow> nat \<Rightarrow> (('o \<times> version) \<rightharpoonup> proxy_id) \<Rightarrow> ('o \<times> version) list \<Rightarrow> nat \<Rightarrow> proxy_id res" where
  "fallback_proxy policy count states required_versions counter =
     (case policy of
        LSDS \<Rightarrow>
          and_then (get_proxy_for_shared_objects_most_states count states required_versions counter)
            (\<lambda>r. if count = 0 then Inl (Panic ''attempt to calculate the remainder with a divisor of zero'')
                 else Inr (case r of Some p \<Rightarrow> p | None \<Rightarrow> counter mod count))
      | RSDS \<Rightarrow>
          (if count = 0 then Inl (Panic ''attempt to calculate the remainder with a divisor of zero'')
           else Inr (counter mod count)))"

text \<open>\<open>min_by_key\<close> keeps the first of several minimal elements.\<close>

fun min_by_key :: "('a \<Rightarrow> nat) \<Rightarrow> 'a list \<Rightarrow> 'a option" where
  "min_by_key key [] = None"
| "min_by_key key (x # xs) =
     (case min_by_key key xs of
        None \<Rightarrow> Some x
      | Some y \<Rightarrow> if key x \<le> key y then Some x else Some y)"

definition pick_stateless_proxy ::
  "proxy_id list \<Rightarrow> duration \<Rightarrow> (proxy_id \<rightharpoonup> nat) \<Rightarrow> proxy_id \<times> (proxy_id \<rightharpoonup> nat)" where
  "pick_stateless_proxy conn dur loads =
     (let proxy = (case min_by_key (load_of loads) conn of Some p \<Rightarrow> p | None \<Rightarrow> 0);
          weight = as_micros dur
      in (proxy, add_load proxy weight loads))"


section \<open>Missing states\<close>

text \<open>
  The loop over the required versions: where each state is, and the move of its entry to the
  version that the transaction produces.
\<close>

fun missing_states_loop ::
  "proxy_id \<Rightarrow> version \<Rightarrow> ('o \<times> version) list \<Rightarrow> (('o \<times> version) \<rightharpoonup> proxy_id) \<Rightarrow> 'o required_states \<Rightarrow>
   (('o \<times> version) \<rightharpoonup> proxy_id) \<times> 'o required_states" where
  "missing_states_loop proxy next_v [] states acc = (states, acc)"
| "missing_states_loop proxy next_v ((object_id, seq_num) # rs) states acc =
     (let previous_owner = (case states (object_id, seq_num) of
                              Some owner \<Rightarrow> if owner \<noteq> proxy then Some owner else None
                            | None \<Rightarrow> None)
      in missing_states_loop proxy next_v rs
           ((states((object_id, next_v) \<mapsto> proxy))((object_id, seq_num) := None))
           (acc @ [((object_id, seq_num), previous_owner)]))"

definition get_missing_states_for_transaction ::
  "(version \<Rightarrow> version) \<Rightarrow> ('o \<times> version) list option \<Rightarrow> proxy_id \<Rightarrow> (('o \<times> version) \<rightharpoonup> proxy_id) \<Rightarrow>
   (('o \<times> version) \<rightharpoonup> proxy_id) \<times> 'o required_states" where
  "get_missing_states_for_transaction nxt required_versions proxy states =
     (case required_versions of
        None \<Rightarrow> (states, [])
      | Some rv \<Rightarrow>
          let max_version = fold (\<lambda>k mx. upd_max (snd k) mx) rv 2
          in missing_states_loop proxy (nxt max_version) rv states [])"


section \<open>Forwarding a transaction\<close>

record ('t, 'o) forwarding_task =
  task_transaction :: "('t, 'o) txn_ts"
  task_required_versions :: "('o \<times> version) list"
  task_counter :: nat

text \<open>
  \<open>dg\<close> is the digest of the transaction and \<open>make_request\<close> the executor's method that builds its
  verification request.  The definition covers the block between the waits on the prior handles and
  the signals to the next ones.
\<close>

definition choose_proxy ::
  "'d \<Rightarrow> ('t, 'o) forwarding_task \<Rightarrow> ('t, 'd, 'o) forwarder \<Rightarrow> (('t, 'd, 'o) forwarder \<times> proxy_id) res" where
  "choose_proxy dg task f =
     (case fw_routing_plan f dg of
        Some p \<Rightarrow> Inr (f\<lparr>fw_routing_plan := (fw_routing_plan f)(dg := None)\<rparr>, p)
      | None \<Rightarrow>
          and_then (fallback_proxy (fw_policy f) (proxy_count f) (fw_states_to_proxy f)
                      (task_required_versions task) (task_counter task))
            (\<lambda>p. Inr (f\<lparr>fw_proxy_loads := add_load p (as_micros (expected_stateful_duration (task_transaction task)))
                            (fw_proxy_loads f)\<rparr>, p)))"

definition stateless_proxy_for ::
  "'d \<Rightarrow> 'd verification_request \<Rightarrow> ('t, 'o) txn_ts \<Rightarrow> ('t, 'd, 'o) forwarder \<Rightarrow> ('t, 'd, 'o) forwarder \<times> proxy_id" where
  "stateless_proxy_for dg request t f =
     (if fw_mode f = PrimaryPostSeparation
      then let (proxy, loads) = pick_stateless_proxy (fw_connections f) (verification_duration t) (fw_proxy_loads f)
           in (send_to_proxy proxy (StatelessTxn request) (f\<lparr>fw_proxy_loads := loads\<rparr>), proxy)
      else (f\<lparr>fw_stateless_table := (fw_stateless_table f)(dg := None)\<rparr>,
            case fw_stateless_table f dg of Some p \<Rightarrow> p | None \<Rightarrow> 0))"

definition process_forwarding_task ::
  "(version \<Rightarrow> version) \<Rightarrow> (('t, 'o) txn_ts \<Rightarrow> 'd) \<Rightarrow> (('t, 'o) txn_ts \<Rightarrow> 'd verification_request) \<Rightarrow>
   ('t, 'o) forwarding_task \<Rightarrow> ('t, 'd, 'o) forwarder \<Rightarrow> ('t, 'd, 'o) forwarder res" where
  "process_forwarding_task nxt digest make_request task f =
     (let t = task_transaction task; dg = digest t in
      and_then (choose_proxy dg task f)
        (\<lambda>(f, proxy_id).
           let (states, missing) = get_missing_states_for_transaction nxt (Some (task_required_versions task))
                                     proxy_id (fw_states_to_proxy f);
               f = f\<lparr>fw_states_to_proxy := states\<rparr>;
               (f, msg) = (if \<not> is_primary_separation (fw_mode f) then (f, CombinedTxn t proxy_id missing)
                           else let (f, sp) = stateless_proxy_for dg (make_request t) t f in (f, Txn t sp missing))
           in Inr (send_to_proxy proxy_id msg f)))"

text \<open>The receiver loop: numbers the transactions and hands them to the worker pool.\<close>

definition process_shared_txns ::
  "(('t, 'o) txn_ts \<times> ('o \<times> version) list) list \<Rightarrow> ('t, 'o) forwarding_task list" where
  "process_shared_txns received =
     map (\<lambda>(counter, (t, rv)). \<lparr>task_transaction = t, task_required_versions = rv, task_counter = counter\<rparr>)
       (zip [0..<length received] received)"

definition process_stateless_task ::
  "'d verification_request \<Rightarrow> ('t, 'd, 'o) forwarder \<Rightarrow> ('t, 'd, 'o) forwarder" where
  "process_stateless_task request f =
     (let dg = request_digest request;
          (proxy, loads) = pick_stateless_proxy (fw_connections f) (cost_hint request) (fw_proxy_loads f);
          f = send_to_proxy proxy (StatelessTxn request) (f\<lparr>fw_proxy_loads := loads\<rparr>)
      in f\<lparr>fw_stateless_table := (fw_stateless_table f)(dg \<mapsto> proxy)\<rparr>)"

definition forward_stateless_txn ::
  "'d verification_request list \<Rightarrow> ('t, 'd, 'o) forwarder \<Rightarrow> ('t, 'd, 'o) forwarder" where
  "forward_stateless_txn requests f = fold process_stateless_task requests f"


section \<open>The choice of a proxy is a proxy with the most states\<close>

definition states_at :: "(('o \<times> version) \<rightharpoonup> proxy_id) \<Rightarrow> ('o \<times> version) list \<Rightarrow> proxy_id \<Rightarrow> nat" where
  "states_at states ks p = length (filter (\<lambda>k. states k = Some p) ks)"

lemma count_states_nth:
  "length counts = n \<Longrightarrow> p < n \<Longrightarrow> length (count_states states n ks counts) = n \<and>
     count_states states n ks counts ! p = counts ! p + states_at states ks p"
proof (induction states n ks counts rule: count_states.induct)
  case (2 states n k ks counts)
  then show ?case
    by (cases "states k") (auto simp: states_at_def nth_list_update)
qed (simp add: states_at_def)

lemma best_indices_spec:
  assumes "\<forall>b \<in> set best. b < index" "best = [] \<longrightarrow> max_count = 0"
  shows "b \<in> set (best_indices cs index max_count best) \<longleftrightarrow>
     (b \<in> set best \<and> (\<forall>c \<in> set cs. c \<le> max_count)) \<or>
     (\<exists>i < length cs. b = index + i \<and> cs ! i \<ge> max_count \<and> (\<forall>c \<in> set cs. c \<le> cs ! i))"
  using assms
proof (induction cs index max_count best rule: best_indices.induct)
  case (2 c cs index max_count best)
  have ex: "(\<exists>i < length (c # cs). P i) \<longleftrightarrow> P 0 \<or> (\<exists>i < length cs. P (Suc i))" for P
    by (auto simp: less_Suc_eq_0_disj)
  show ?case
  proof (cases c max_count rule: linorder_cases)
    case less
    then have "b \<in> set (best_indices (c # cs) index max_count best) \<longleftrightarrow> b \<in> set (best_indices cs (index + 1) max_count best)"
      by simp
    also have "\<dots> \<longleftrightarrow> (b \<in> set best \<and> (\<forall>c \<in> set cs. c \<le> max_count)) \<or>
        (\<exists>i < length cs. b = index + 1 + i \<and> cs ! i \<ge> max_count \<and> (\<forall>c \<in> set cs. c \<le> cs ! i))"
      using 2(3) less 2(4,5) by fastforce
    finally show ?thesis unfolding ex using less by fastforce
  next
    case equal
    then have "b \<in> set (best_indices (c # cs) index max_count best) \<longleftrightarrow> b \<in> set (best_indices cs (index + 1) max_count (best @ [index]))"
      by simp
    also have "\<dots> \<longleftrightarrow> (b \<in> set (best @ [index]) \<and> (\<forall>c \<in> set cs. c \<le> max_count)) \<or>
        (\<exists>i < length cs. b = index + 1 + i \<and> cs ! i \<ge> max_count \<and> (\<forall>c \<in> set cs. c \<le> cs ! i))"
      using 2(2) equal 2(4,5) by fastforce
    finally show ?thesis unfolding ex using equal by auto
  next
    case greater
    then have "b \<in> set (best_indices (c # cs) index max_count best) \<longleftrightarrow> b \<in> set (best_indices cs (index + 1) c [index])"
      by simp
    also have "\<dots> \<longleftrightarrow> (b \<in> set [index] \<and> (\<forall>d \<in> set cs. d \<le> c)) \<or>
        (\<exists>i < length cs. b = index + 1 + i \<and> cs ! i \<ge> c \<and> (\<forall>d \<in> set cs. d \<le> cs ! i))"
      using 2(1) greater by fastforce
    finally show ?thesis unfolding ex using greater by (auto; fastforce)
  qed
qed simp

lemma best_indices_top:
  "b \<in> set (best_indices cs 0 0 []) \<longleftrightarrow> b < length cs \<and> (\<forall>c \<in> set cs. c \<le> cs ! b)"
  using best_indices_spec[of "[]" 0 0 b cs] by auto

lemma best_indices_nonempty:
  assumes "cs \<noteq> []"
  shows "best_indices cs 0 0 [] \<noteq> []"
proof -
  obtain b where "b < length cs" "cs ! b = Max (set cs)"
    using assms by (metis List.finite_set Max_in in_set_conv_nth set_empty)
  then have "b \<in> set (best_indices cs 0 0 [])" by (simp add: best_indices_top)
  then show ?thesis by auto
qed

lemma most_states_best:
  assumes "0 < n" "ks \<noteq> []"
  shows "\<exists>p. get_proxy_for_shared_objects_most_states n states ks cnt = Inr (Some p) \<and> p < n \<and>
           (\<forall>q < n. states_at states ks q \<le> states_at states ks p)"
proof -
  let ?counts = "count_states states n ks (replicate n 0)" and ?best = "best_indices (count_states states n ks (replicate n 0)) 0 0 []"
  have len: "length ?counts = n" using count_states_nth[of "replicate n 0" n 0 states ks] assms(1) by simp
  have nth: "q < n \<Longrightarrow> ?counts ! q = states_at states ks q" for q using count_states_nth[of "replicate n 0" n q states ks] by simp
  have ne: "?best \<noteq> []" using best_indices_nonempty[of ?counts] len assms(1) by (metis less_irrefl list.size(3))
  have good: "b < n \<and> (\<forall>q < n. states_at states ks q \<le> states_at states ks b)" if "b \<in> set ?best" for b
  proof -
    have "b < n" "\<forall>c \<in> set ?counts. c \<le> ?counts ! b" using that len by (auto simp: best_indices_top)
    moreover have "?counts ! q \<in> set ?counts" if "q < n" for q using that len by simp
    ultimately show ?thesis using nth by metis
  qed
  have "\<exists>p \<in> set ?best. get_proxy_for_shared_objects_most_states n states ks cnt = Inr (Some p)"
    using assms ne
    by (auto simp: get_proxy_for_shared_objects_most_states_def Let_def nth_or_panic_def)
  then show ?thesis using good by blast
qed

text \<open>
  Locality of the fallback choice: with at least one connected proxy and at least one required
  state, \<^verbatim>\<open>get_proxy_for_shared_objects_most_states\<close> returns a valid proxy index without a panic, and
  no proxy holds more of the required states than the chosen one.
\<close>

theorem most_states_proxy_optimal:
  assumes "0 < n" "ks \<noteq> []"
  shows "\<exists>p. get_proxy_for_shared_objects_most_states n states ks cnt = Inr (Some p) \<and> p < n \<and>
           (\<forall>q < n. states_at states ks q \<le> states_at states ks p)"
  by (rule most_states_best[OF assms])

theorem most_states_proxy_optimal_witness:
  "\<exists>p. get_proxy_for_shared_objects_most_states 3 [(7 :: nat, 3) \<mapsto> 2, (8, 4) \<mapsto> 1, (9, 3) \<mapsto> 2] [(7, 3), (8, 4), (9, 3)] 5 = Inr (Some p) \<and> p = 2"
  using most_states_proxy_optimal[of 3 "[(7 :: nat, 3), (8, 4), (9, 3)]" "[(7, 3) \<mapsto> 2, (8, 4) \<mapsto> 1, (9, 3) \<mapsto> 2]" 5]
  by (auto simp: states_at_def less_Suc_eq numeral_3_eq_3)

lemma min_by_key_None: "min_by_key key xs = None \<longleftrightarrow> xs = []"
  by (cases xs) (auto split: option.splits)

lemma min_by_key_min:
  "min_by_key key xs = Some x \<Longrightarrow> x \<in> set xs \<and> (\<forall>y \<in> set xs. key x \<le> key y)"
proof (induction xs arbitrary: x)
  case (Cons a xs)
  show ?case
  proof (cases "min_by_key key xs")
    case None
    then have "xs = []" by (simp add: min_by_key_None)
    then show ?thesis using Cons.prems by simp
  next
    case (Some y)
    then show ?thesis using Cons.IH[OF Some] Cons.prems by (auto split: if_splits)
  qed
qed simp

text \<open>
  Load balancing of stateless verification: with at least one connection the picked proxy is
  connected and has the smallest load of all connected proxies, and exactly its load grows by the
  cost of the transaction in microseconds.
\<close>

theorem pick_stateless_proxy_least_loaded:
  assumes "conn \<noteq> []" "pick_stateless_proxy conn dur loads = (p, loads')"
  shows "p \<in> set conn \<and> (\<forall>q \<in> set conn. load_of loads p \<le> load_of loads q) \<and>
         load_of loads' p = load_of loads p + as_micros dur \<and> (\<forall>q. q \<noteq> p \<longrightarrow> loads' q = loads q)"
proof -
  obtain x where x: "min_by_key (load_of loads) conn = Some x" using assms(1) min_by_key_None[of "load_of loads" conn] by auto
  then have "p = x" "loads' = add_load x (as_micros dur) loads"
    using assms(2) by (auto simp: pick_stateless_proxy_def Let_def)
  then show ?thesis
    using min_by_key_min[OF x] by (auto simp: add_load_def load_of_def split: option.splits)
qed

theorem pick_stateless_proxy_least_loaded_witness:
  "\<exists>p l. pick_stateless_proxy [4, 2, 7] 3000 [4 \<mapsto> 10, 2 \<mapsto> 5] = (p, l) \<and> p \<in> {4, 2, 7} \<and> load_of l p = load_of [4 \<mapsto> 10, 2 \<mapsto> 5] p + 3"
proof -
  obtain p l where pl: "pick_stateless_proxy [4, 2, 7] 3000 [4 \<mapsto> 10, 2 \<mapsto> 5] = (p, l)" by fastforce
  from pick_stateless_proxy_least_loaded[OF _ this] show ?thesis using pl by (auto simp: as_micros_def)
qed

end
