(* ===== verification/Forwarding_Correctness.thy ===== *)
theory Forwarding_Correctness
  imports Forwarder
begin

text \<open>
  Correctness of forwarding.  The map from states to proxies always records, for every object, the
  proxy of its last transaction under the version that this transaction produces; so the source that
  a transaction is told for each of its states is the proxy that executed the producer of that state,
  unless it is the same proxy.  The forwarding tasks run on worker threads that block while they
  wait: all interleavings agree with the sequential order, and none of them deadlocks.
\<close>


section \<open>The plan\<close>

fun owner_before :: "proxy_id list \<Rightarrow> ('o \<times> version) list list \<Rightarrow> nat \<Rightarrow> 'o \<Rightarrow> proxy_id option" where
  "owner_before P S 0 x = None"
| "owner_before P S (Suc j) x = (if x \<in> objects_of S j then Some (P ! j) else owner_before P S j x)"

definition planned_states :: "proxy_id list \<Rightarrow> ('o \<times> version) list list \<Rightarrow> nat \<Rightarrow> 'o required_states" where
  "planned_states P S j =
     map (\<lambda>k. (k, case owner_before P S j (fst k) of
                    Some q \<Rightarrow> if q \<noteq> P ! j then Some q else None
                  | None \<Rightarrow> None)) (S ! j)"

lemma owner_before_append:
  "j \<le> length P \<Longrightarrow> owner_before (P @ Q) S j x = owner_before P S j x"
  by (induction j) (simp_all add: nth_append)

lemma owner_before_mem: "j \<le> length P \<Longrightarrow> owner_before P S j x = Some q \<Longrightarrow> q \<in> set P"
  by (induction j) (auto split: if_splits)

lemma owner_before_Some_iff:
  "(\<exists>q. owner_before P S j x = Some q) \<longleftrightarrow> (\<exists>i < j. x \<in> objects_of S i)"
  by (induction j) (auto simp: less_Suc_eq)

text \<open>One call of \<^verbatim>\<open>get_missing_states_for_transaction\<close>.\<close>

definition source_of :: "(('o \<times> version) \<rightharpoonup> proxy_id) \<Rightarrow> proxy_id \<Rightarrow> ('o \<times> version) \<Rightarrow> proxy_id option" where
  "source_of states proxy k = (case states k of Some owner \<Rightarrow> if owner \<noteq> proxy then Some owner else None | None \<Rightarrow> None)"

lemma missing_states_loop_eq:
  assumes "distinct (map fst rs)" "\<And>x v. (x, v) \<in> set rs \<Longrightarrow> v < next_v"
  shows "missing_states_loop proxy next_v rs states acc =
     (\<lambda>k. if fst k \<in> fst ` set rs
          then (if snd k = next_v then Some proxy else if k \<in> set rs then None else states k)
          else states k,
      acc @ map (\<lambda>k. (k, source_of states proxy k)) rs)"
  using assms
proof (induction rs arbitrary: states acc)
  case (Cons r rs)
  obtain x v where r: "r = (x, v)" by (cases r)
  let ?st = "(states((x, next_v) \<mapsto> proxy))((x, v) := None)"
  have nx: "x \<notin> fst ` set rs" and vn: "v < next_v" using Cons.prems r by auto
  have src: "map (\<lambda>k. (k, source_of ?st proxy k)) rs = map (\<lambda>k. (k, source_of states proxy k)) rs"
  proof (rule map_cong[OF refl])
    fix k assume "k \<in> set rs"
    then have "fst k \<noteq> x" using nx by auto
    then show "(k, source_of ?st proxy k) = (k, source_of states proxy k)" by (cases k) (auto simp: source_of_def)
  qed
  have "missing_states_loop proxy next_v ((x, v) # rs) states acc =
      missing_states_loop proxy next_v rs ?st (acc @ [((x, v), source_of states proxy (x, v))])"
    by (simp add: source_of_def Let_def)
  also have "\<dots> = (\<lambda>k. if fst k \<in> fst ` set rs
          then (if snd k = next_v then Some proxy else if k \<in> set rs then None else ?st k) else ?st k,
      (acc @ [((x, v), source_of states proxy (x, v))]) @ map (\<lambda>k. (k, source_of states proxy k)) rs)"
  proof -
    have d: "distinct (map fst rs)" using Cons.prems(1) by simp
    have l: "w < next_v" if "(y, w) \<in> set rs" for y w using Cons.prems(2)[of y w] that by simp
    show ?thesis using Cons.IH[where states = ?st and acc = "acc @ [((x, v), source_of states proxy (x, v))]", OF d l] unfolding src .
  qed
  also have "(\<lambda>k. if fst k \<in> fst ` set rs
          then (if snd k = next_v then Some proxy else if k \<in> set rs then None else ?st k) else ?st k) =
      (\<lambda>k. if fst k \<in> fst ` set ((x, v) # rs)
          then (if snd k = next_v then Some proxy else if k \<in> set ((x, v) # rs) then None else states k) else states k)"
  proof (rule ext)
    fix k :: "'a \<times> version"
    obtain y w where k: "k = (y, w)" by (cases k)
    have "y = x \<Longrightarrow> (y, w) \<notin> set rs" using nx by force
    then show "(if fst k \<in> fst ` set rs
          then (if snd k = next_v then Some proxy else if k \<in> set rs then None else ?st k) else ?st k) =
      (if fst k \<in> fst ` set ((x, v) # rs)
          then (if snd k = next_v then Some proxy else if k \<in> set ((x, v) # rs) then None else states k) else states k)"
      using nx vn unfolding k by (cases "y = x") simp_all
  qed
  finally show ?case unfolding r by simp
qed simp

lemma fold_upd_max_required:
  assumes "rs \<noteq> []" "\<And>x v. (x, v) \<in> set rs \<Longrightarrow> 2 \<le> v"
  shows "nxt (fold (\<lambda>k mx. upd_max (snd k) mx) rs 2) = next_version nxt rs"
proof -
  have "fold (\<lambda>k mx. upd_max (snd k) mx) rs 2 = fold upd_max (map snd rs) 2"
    by (simp add: fold_map comp_def)
  also have "\<dots> = Max (insert 2 (set (map snd rs)))" by (rule fold_upd_max)
  also have "\<dots> = Max (set (map snd rs))"
  proof -
    have "2 \<le> Max (set (map snd rs))" using assms by (cases rs) (force simp: Max_ge_iff)+
    then show ?thesis using assms(1) by (simp add: Max_insert)
  qed
  finally show ?thesis by (simp add: next_version_def)
qed

definition states_inv ::
  "(version \<Rightarrow> version) \<Rightarrow> proxy_id list \<Rightarrow> ('o \<times> version) list list \<Rightarrow> nat \<Rightarrow> (('o \<times> version) \<rightharpoonup> proxy_id) \<Rightarrow> bool" where
  "states_inv nxt P S j states \<longleftrightarrow>
     (\<forall>x w. states (x, w) = (if w = version_before nxt S j x then owner_before P S j x else None))"

lemma missing_states_step:
  assumes nxt: "\<forall>v. v < nxt v" and ok: "schedule_ok nxt S" and j: "j < length S" "j < length P"
    and inv: "states_inv nxt P S j states"
    and g: "get_missing_states_for_transaction nxt (Some (S ! j)) (P ! j) states = (states', missing)"
  shows "missing = planned_states P S j" "states_inv nxt P S (Suc j) states'"
proof -
  let ?r = "S ! j"
  have dist: "distinct (map fst ?r)" using schedule_okD(1)[OF ok j(1)] .
  define nv where "nv = nxt (fold (\<lambda>k mx. upd_max (snd k) mx) ?r 2)"
  have nv: "?r \<noteq> [] \<Longrightarrow> nv = produced nxt S j"
    using fold_upd_max_required[of ?r nxt] schedule_okD(2)[OF ok j(1)] by (simp add: nv_def produced_def)
  have lt: "v < nv" if "(x, v) \<in> set ?r" for x v
    using produced_greater[OF nxt that] nv that by (metis empty_iff list.set(1))
  have loop: "missing_states_loop (P ! j) nv ?r states [] = (states', missing)"
    using g by (simp add: get_missing_states_for_transaction_def nv_def)
  note eq = missing_states_loop_eq[OF dist lt, where proxy = "P ! j" and states = states and acc = "[]", unfolded loop]
  have req: "v = version_before nxt S j x" if "(x, v) \<in> set ?r" for x v using required_version[OF nxt ok j(1) that] .
  have "source_of states (P ! j) k = (case owner_before P S j (fst k) of Some q \<Rightarrow> if q \<noteq> P ! j then Some q else None | None \<Rightarrow> None)"
    if "k \<in> set ?r" for k
  proof -
    obtain x v where k: "k = (x, v)" by (cases k)
    have "states (x, v) = owner_before P S j x" using inv req[of x v] that unfolding k states_inv_def by simp
    then show ?thesis by (simp add: source_of_def k)
  qed
  then show "missing = planned_states P S j" using eq by (simp add: planned_states_def)
  show "states_inv nxt P S (Suc j) states'"
    unfolding states_inv_def
  proof (intro allI)
    fix x w
    show "states' (x, w) = (if w = version_before nxt S (Suc j) x then owner_before P S (Suc j) x else None)"
    proof (cases "x \<in> objects_of S j")
      case True
      then obtain v where v: "(x, v) \<in> set ?r" by (auto simp: objects_of_def)
      have "states' (x, w) = (if w = nv then Some (P ! j) else if (x, w) \<in> set ?r then None else states (x, w))"
        using eq True by (simp add: objects_of_def)
      moreover have "w \<noteq> v \<Longrightarrow> states (x, w) = None" using inv req[OF v] by (simp add: states_inv_def)
      moreover have "?r \<noteq> []" using v by auto
      ultimately show ?thesis using True nv v by auto
    next
      case False
      then have "states' (x, w) = states (x, w)" using eq by (simp add: objects_of_def)
      then show ?thesis using inv False by (simp add: states_inv_def)
    qed
  qed
qed


section \<open>A run of the forwarder\<close>

fun forward_sequence ::
  "(version \<Rightarrow> version) \<Rightarrow> (('t, 'o) txn_ts \<Rightarrow> 'd) \<Rightarrow> (('t, 'o) txn_ts \<Rightarrow> 'd verification_request) \<Rightarrow>
   ('t, 'o) forwarding_task list \<Rightarrow> ('t, 'd, 'o) forwarder \<Rightarrow> ('t, 'd, 'o) forwarder res" where
  "forward_sequence nxt digest mk [] f = Inr f"
| "forward_sequence nxt digest mk (t # ts) f =
     and_then (process_forwarding_task nxt digest mk t f) (forward_sequence nxt digest mk ts)"

text \<open>The stateful messages of the log: destination and required states.\<close>

fun stateful_part :: "proxy_id \<times> ('t, 'd, 'o) primary_to_proxy \<Rightarrow> (proxy_id \<times> ('t, 'o) txn_ts \<times> 'o required_states) option" where
  "stateful_part (p, Txn t sp rs) = Some (p, t, rs)"
| "stateful_part (p, CombinedTxn t sp rs) = Some (p, t, rs)"
| "stateful_part (p, StatelessTxn r) = None"

definition stateful_log :: "('t, 'd, 'o) forwarder \<Rightarrow> (proxy_id \<times> ('t, 'o) txn_ts \<times> 'o required_states) list" where
  "stateful_log f = List.map_filter stateful_part (fw_sent f)"

definition forwarder_ok :: "('t, 'd, 'o) forwarder \<Rightarrow> bool" where
  "forwarder_ok f \<longleftrightarrow> fw_connections f \<noteq> [] \<and> set (fw_connections f) = {..< length (fw_connections f)} \<and>
     (\<forall>d p. fw_routing_plan f d = Some p \<longrightarrow> p < length (fw_connections f))"

lemma fallback_proxy_ok:
  assumes "0 < n"
  obtains p where "fallback_proxy policy n states rv cnt = Inr p" "p < n"
proof (cases policy)
  case LSDS
  show ?thesis
  proof (cases "rv = []")
    case True
    then show ?thesis using assms that LSDS by (simp add: fallback_proxy_def get_proxy_for_shared_objects_most_states_def)
  next
    case False
    then obtain b where "b < n" "get_proxy_for_shared_objects_most_states n states rv cnt = Inr (Some b)"
      using most_states_best[OF assms False] by blast
    then show ?thesis using that assms LSDS by (simp add: fallback_proxy_def)
  qed
next
  case RSDS
  then show ?thesis using assms that by (simp add: fallback_proxy_def)
qed

lemma choose_proxy_ok:
  assumes "forwarder_ok f"
  obtains f' p where "choose_proxy dg task f = Inr (f', p)" "p < length (fw_connections f)"
    "forwarder_ok f'" "fw_connections f' = fw_connections f" "fw_states_to_proxy f' = fw_states_to_proxy f"
    "fw_sent f' = fw_sent f" "fw_mode f' = fw_mode f"
proof (cases "fw_routing_plan f dg")
  case None
  have "0 < proxy_count f" using assms by (simp add: forwarder_ok_def proxy_count_def)
  then obtain p where "fallback_proxy (fw_policy f) (proxy_count f) (fw_states_to_proxy f)
      (task_required_versions task) (task_counter task) = Inr p" "p < proxy_count f"
    by (rule fallback_proxy_ok)
  then show ?thesis using that None assms by (simp add: choose_proxy_def proxy_count_def forwarder_ok_def)
next
  case (Some p)
  then show ?thesis using that assms by (simp add: choose_proxy_def forwarder_ok_def)
qed

lemma stateless_proxy_for_ok:
  assumes "forwarder_ok f" "stateless_proxy_for dg r t f = (f', sp)"
  shows "forwarder_ok f'" "fw_connections f' = fw_connections f" "fw_states_to_proxy f' = fw_states_to_proxy f"
    "stateful_log f' = stateful_log f"
  using assms
  by (auto simp: stateless_proxy_for_def send_to_proxy_def forwarder_ok_def stateful_log_def map_filter_def
      split: if_splits prod.splits)

text \<open>One forwarded transaction: one stateful message, to the chosen proxy, with the missing states.\<close>

lemma process_forwarding_task_ok:
  assumes ok: "forwarder_ok f"
  obtains f' p states missing where "process_forwarding_task nxt digest mk task f = Inr f'" "forwarder_ok f'"
    "p < length (fw_connections f)" "fw_connections f' = fw_connections f"
    "get_missing_states_for_transaction nxt (Some (task_required_versions task)) p (fw_states_to_proxy f) = (states, missing)"
    "fw_states_to_proxy f' = states" "stateful_log f' = stateful_log f @ [(p, task_transaction task, missing)]"
proof -
  let ?t = "task_transaction task"
  obtain f1 p where c: "choose_proxy (digest ?t) task f = Inr (f1, p)" "p < length (fw_connections f)"
    "forwarder_ok f1" "fw_connections f1 = fw_connections f" "fw_states_to_proxy f1 = fw_states_to_proxy f"
    "fw_sent f1 = fw_sent f" "fw_mode f1 = fw_mode f" by (rule choose_proxy_ok[OF ok])
  obtain states missing where g: "get_missing_states_for_transaction nxt (Some (task_required_versions task)) p (fw_states_to_proxy f) = (states, missing)"
    by fastforce
  define f2 where "f2 = f1\<lparr>fw_states_to_proxy := states\<rparr>"
  have f2: "forwarder_ok f2" "fw_connections f2 = fw_connections f" "fw_states_to_proxy f2 = states" "stateful_log f2 = stateful_log f"
    using c by (simp_all add: f2_def forwarder_ok_def stateful_log_def)
  have pin: "p \<in> set (fw_connections f)" using c(2) ok by (auto simp: forwarder_ok_def)
  have send: "stateful_log (send_to_proxy p msg h) = stateful_log h @ [(p, ?t, missing)]"
    "forwarder_ok (send_to_proxy p msg h)" "fw_connections (send_to_proxy p msg h) = fw_connections f"
    "fw_states_to_proxy (send_to_proxy p msg h) = fw_states_to_proxy h"
    if "fw_connections h = fw_connections f" "forwarder_ok h" "stateful_part (p, msg) = Some (p, ?t, missing)" for msg h
    using that pin by (simp_all add: send_to_proxy_def stateful_log_def map_filter_def forwarder_ok_def)
  show thesis
  proof (cases "is_primary_separation (fw_mode f2)")
    case False
    have "process_forwarding_task nxt digest mk task f = Inr (send_to_proxy p (CombinedTxn ?t p missing) f2)"
      using c(1,5) g False by (simp add: process_forwarding_task_def Let_def f2_def)
    then show thesis using that c(2) g f2 send[OF f2(2,1)] by simp
  next
    case True
    obtain f3 sp where s: "stateless_proxy_for (digest ?t) (mk ?t) ?t f2 = (f3, sp)" by fastforce
    note F3 = stateless_proxy_for_ok[OF f2(1) s]
    have "process_forwarding_task nxt digest mk task f = Inr (send_to_proxy p (Txn ?t sp missing) f3)"
      using c(1,5) g True s by (simp add: process_forwarding_task_def Let_def f2_def)
    moreover have "fw_connections f3 = fw_connections f" using F3(2) f2(2) by simp
    ultimately show thesis using that c(2) g f2 F3 send[of f3] by simp
  qed
qed

lemma forward_sequence_planned:
  assumes nxt: "\<forall>v. v < nxt v" and sched: "schedule_ok nxt S"
    and tasks: "length tasks = length S" "\<And>j. j < length S \<Longrightarrow> task_required_versions (tasks ! j) = S ! j"
    and ok: "forwarder_ok f" and j: "j \<le> length S" "length P = j" "states_inv nxt P S j (fw_states_to_proxy f)"
  shows "\<exists>f' Q. forward_sequence nxt digest mk (drop j tasks) f = Inr f' \<and> length Q = length S \<and> take j Q = P \<and>
      set (drop j Q) \<subseteq> {..< length (fw_connections f)} \<and>
      stateful_log f' = stateful_log f @ map (\<lambda>i. (Q ! i, task_transaction (tasks ! i), planned_states Q S i)) [j..<length S]"
  using ok j
proof (induction "length S - j" arbitrary: j f P)
  case 0
  then show ?case using tasks(1) by (intro exI[of _ f] exI[of _ P]) simp
next
  case (Suc d)
  then have jl: "j < length S" by simp
  obtain f1 p states missing where s: "process_forwarding_task nxt digest mk (tasks ! j) f = Inr f1" "forwarder_ok f1"
    "p < length (fw_connections f)" "fw_connections f1 = fw_connections f"
    "get_missing_states_for_transaction nxt (Some (S ! j)) p (fw_states_to_proxy f) = (states, missing)"
    "fw_states_to_proxy f1 = states" "stateful_log f1 = stateful_log f @ [(p, task_transaction (tasks ! j), missing)]"
    using process_forwarding_task_ok[OF Suc.prems(1), of nxt digest mk "tasks ! j"] tasks(2)[OF jl] by metis
  let ?P = "P @ [p]"
  have inv: "states_inv nxt ?P S j (fw_states_to_proxy f)"
    using Suc.prems(3,4) by (simp add: states_inv_def owner_before_append)
  have g': "get_missing_states_for_transaction nxt (Some (S ! j)) (?P ! j) (fw_states_to_proxy f) = (states, missing)"
    using s(5) Suc.prems(3) by (metis nth_append_length)
  have m: "missing = planned_states ?P S j" "states_inv nxt ?P S (Suc j) (fw_states_to_proxy f1)"
    using missing_states_step[OF nxt sched jl _ inv g'] Suc.prems(3) s(6) by auto
  obtain f' Q where q: "forward_sequence nxt digest mk (drop (Suc j) tasks) f1 = Inr f'" "length Q = length S" "take (Suc j) Q = ?P"
      "set (drop (Suc j) Q) \<subseteq> {..< length (fw_connections f1)}"
      "stateful_log f' = stateful_log f1 @ map (\<lambda>i. (Q ! i, task_transaction (tasks ! i), planned_states Q S i)) [Suc j..<length S]"
  proof -
    have "d = length S - Suc j" "Suc j \<le> length S" "length ?P = Suc j" using Suc.hyps(2) jl Suc.prems(3) by simp_all
    then show ?thesis using Suc.hyps(1)[of "Suc j" f1 ?P, OF _ s(2) _ _ m(2)] that by blast
  qed
  have Q: "Q = ?P @ drop (Suc j) Q" using q(3) by (metis append_take_drop_id)
  have Qj: "Q ! j = p" using Q Suc.prems(3) by (metis append.assoc append_Cons nth_append_length)
  have ob: "owner_before Q S j x = owner_before ?P S j x" for x
    using owner_before_append[of j ?P "drop (Suc j) Q" S x] Q Suc.prems(3) by simp
  have Pj: "?P ! j = p" using Suc.prems(3) by (metis nth_append_length)
  have pl: "planned_states Q S j = planned_states ?P S j" unfolding planned_states_def Qj Pj ob ..
  have "drop j tasks = tasks ! j # drop (Suc j) tasks" using jl tasks(1) by (simp add: Cons_nth_drop_Suc)
  then have "forward_sequence nxt digest mk (drop j tasks) f = Inr f'" using s(1) q(1) by simp
  moreover have "take j Q = P" using q(3) Suc.prems(3) by (metis append_eq_append_conv append_take_drop_id butlast_snoc butlast_take diff_Suc_1 jl q(2) Suc_leI)
  moreover have "set (drop j Q) \<subseteq> {..< length (fw_connections f)}"
    using q(2,4) s(3,4) Qj jl by (simp add: Cons_nth_drop_Suc[symmetric])
  moreover have "stateful_log f' = stateful_log f @ map (\<lambda>i. (Q ! i, task_transaction (tasks ! i), planned_states Q S i)) [j..<length S]"
    using q(5) s(7) m(1) pl Qj jl by (simp add: upt_conv_Cons)
  ultimately show ?case using q(2) by blast
qed


lemma process_shared_txns_nth:
  "j < length sent \<Longrightarrow> process_shared_txns sent ! j =
     \<lparr>task_transaction = fst (sent ! j), task_required_versions = snd (sent ! j), task_counter = j\<rparr>"
  "length (process_shared_txns sent) = length sent"
  by (simp_all add: process_shared_txns_def split_beta)

lemma forward_sequence_plan:
  assumes nxt: "\<forall>v. v < nxt v" and sched: "schedule_ok nxt (map snd sent)"
    and ok: "forwarder_ok f" "fw_states_to_proxy f = Map.empty"
  shows "\<exists>f' Q. forward_sequence nxt digest mk (process_shared_txns sent) f = Inr f' \<and> length Q = length sent \<and>
      set Q \<subseteq> {..< length (fw_connections f)} \<and>
      stateful_log f' = stateful_log f @ map (\<lambda>i. (Q ! i, fst (sent ! i), planned_states Q (map snd sent) i)) [0..<length sent]"
proof -
  have "\<exists>f' Q. forward_sequence nxt digest mk (drop 0 (process_shared_txns sent)) f = Inr f' \<and> length Q = length (map snd sent) \<and> take 0 Q = [] \<and>
      set (drop 0 Q) \<subseteq> {..< length (fw_connections f)} \<and>
      stateful_log f' = stateful_log f @ map (\<lambda>i. (Q ! i, task_transaction (process_shared_txns sent ! i), planned_states Q (map snd sent) i)) [0..<length (map snd sent)]"
    by (rule forward_sequence_planned[OF nxt sched _ _ ok(1)]) (simp_all add: process_shared_txns_nth states_inv_def ok(2))
  then show ?thesis by (auto simp: process_shared_txns_nth cong: map_cong)
qed

text \<open>
  C8. Migration plan of the primary.  For any batches, versions as assigned, connected proxies
  \<open>0 .. n - 1\<close> and a routing plan with values below \<open>n\<close>, the forwarder sends every transaction once, in
  order, without a panic, to a proxy \<open>Q ! i\<close> below \<open>n\<close>; and for each required state it names as source
  the proxy of the last earlier transaction on that object, or no source when that proxy is the
  destination itself or when no transaction used the object before.
\<close>

theorem forwarder_migration_plan:
  fixes batches :: "('t, 'o::linorder) txn_ts list list"
  assumes nxt: "\<forall>v. v < nxt v" and wf: "\<forall>b \<in> set batches. \<forall>t \<in> set b. bt_wf (shared_objects t)"
    and sent: "process_version_assignments nxt Map.empty batches = (m, sent)"
    and ok: "forwarder_ok f" "fw_states_to_proxy f = Map.empty"
  shows "\<exists>f' Q. forward_sequence nxt digest mk (process_shared_txns sent) f = Inr f' \<and> length Q = length sent \<and>
      set Q \<subseteq> {..< length (fw_connections f)} \<and>
      stateful_log f' = stateful_log f @ map (\<lambda>i. (Q ! i, fst (sent ! i), planned_states Q (map snd sent) i)) [0..<length sent]"
proof -
  have "schedule_ok nxt (map snd sent)"
    using versions_inv_process[OF nxt versions_inv_init sent wf] by (simp add: versions_inv_def)
  then show ?thesis by (rule forward_sequence_plan[OF nxt _ ok])
qed

theorem forwarder_migration_plan_witness:
  "\<exists>f'. forward_sequence Suc (\<lambda>t. timestamp t) (\<lambda>t. SyntheticRequest 0 0)
      (process_shared_txns (snd (process_version_assignments Suc Map.empty [[txn_new () 0 [7 :: nat] 0 0, txn_new () 1 [7] 0 0]])))
      \<lparr>fw_connections = [1, 0], fw_routing_plan = Map.empty, fw_states_to_proxy = Map.empty, fw_stateless_table = Map.empty,
       fw_proxy_loads = Map.empty, fw_mode = NoSeparation, fw_policy = RSDS, fw_sent = []\<rparr> = Inr f' \<and>
      length (stateful_log f') = 2 \<and> planned_states [0, 1] [[(7, 2)], [(7, 3)]] 1 = [((7 :: nat, 3), Some 0)]"
proof -
  let ?f = "\<lparr>fw_connections = [1, 0], fw_routing_plan = Map.empty, fw_states_to_proxy = Map.empty, fw_stateless_table = Map.empty,
       fw_proxy_loads = Map.empty, fw_mode = NoSeparation, fw_policy = RSDS, fw_sent = []\<rparr> :: (unit, real, nat) forwarder"
  let ?bs = "[[txn_new () 0 [7 :: nat] 0 0, txn_new () 1 [7] 0 0]]"
  obtain m sent where s: "process_version_assignments Suc Map.empty ?bs = (m, sent)" by fastforce
  have len: "length sent = 2"
    using s by (auto simp: assign_shared_object_versions_def collect_versions_def txn_new_def bt_collect_def upd_max_def Let_def)
  have "forwarder_ok ?f" by (auto simp: forwarder_ok_def lessThan_Suc numeral_2_eq_2)
  then have "\<exists>f' Q. forward_sequence Suc (\<lambda>t. timestamp t) (\<lambda>t. SyntheticRequest 0 0) (process_shared_txns sent) ?f = Inr f' \<and>
      length Q = length sent \<and> set Q \<subseteq> {..< length (fw_connections ?f)} \<and>
      stateful_log f' = stateful_log ?f @ map (\<lambda>i. (Q ! i, fst (sent ! i), planned_states Q (map snd sent) i)) [0..<length sent]"
    by (intro forwarder_migration_plan[OF _ _ s]) auto
  then obtain f' Q where "forward_sequence Suc (\<lambda>t. timestamp t) (\<lambda>t. SyntheticRequest 0 0) (process_shared_txns sent) ?f = Inr f'"
    "length Q = length sent" "stateful_log f' = stateful_log ?f @ map (\<lambda>i. (Q ! i, fst (sent ! i), planned_states Q (map snd sent) i)) [0..<length sent]"
    by blast
  moreover from this(3) have "length (stateful_log f') = 2" using len by (simp add: stateful_log_def map_filter_simps)
  moreover have "planned_states [0, 1] [[(7, 2)], [(7, 3)]] 1 = [((7 :: nat, 3), Some 0)]"
    by (simp add: planned_states_def objects_of_def numeral_2_eq_2)
  ultimately show ?thesis unfolding s snd_conv using len by (intro exI[of _ f']) simp
qed


section \<open>The forwarding tasks on the worker threads\<close>

text \<open>
  A forwarding task as the task system sees it.  The shared store is the map from states to
  proxies; an entry that was removed is \<open>Some None\<close>.  The choice of the proxy is an argument: it
  may depend on the entries of the required states, the routing plan and the counter.
\<close>

definition visible :: "(('o \<times> version) \<rightharpoonup> proxy_id option) \<Rightarrow> ('o \<times> version) \<rightharpoonup> proxy_id" where
  "visible s k = (case s k of Some (Some p) \<Rightarrow> Some p | _ \<Rightarrow> None)"

definition task_proxy ::
  "pre_consensus_policy \<Rightarrow> nat \<Rightarrow> proxy_id option \<Rightarrow> ('o \<times> version) list \<Rightarrow> nat \<Rightarrow> (('o \<times> version) \<rightharpoonup> proxy_id) \<Rightarrow> proxy_id" where
  "task_proxy policy n planned rv counter states =
     (case planned of
        Some p \<Rightarrow> p
      | None \<Rightarrow> (case fallback_proxy policy n states rv counter of Inr p \<Rightarrow> p | Inl _ \<Rightarrow> 0))"

definition forward_updates ::
  "(version \<Rightarrow> version) \<Rightarrow> pre_consensus_policy \<Rightarrow> nat \<Rightarrow> proxy_id option \<times> ('o \<times> version) list \<times> nat \<Rightarrow>
   (('o \<times> version) \<rightharpoonup> proxy_id option) \<Rightarrow> (('o \<times> version) \<rightharpoonup> proxy_id option)" where
  "forward_updates nxt policy n c s =
     (case c of (planned, rv, counter) \<Rightarrow>
        let proxy = task_proxy policy n planned rv counter (visible s);
            states' = fst (get_missing_states_for_transaction nxt (Some rv) proxy (visible s))
        in (\<lambda>k. if fst k \<in> fst ` set rv then Some (states' k) else None))"

definition forward_footprint :: "proxy_id option \<times> ('o \<times> version) list \<times> nat \<Rightarrow> ('o \<times> version) set" where
  "forward_footprint c = {k. fst k \<in> fst ` set (fst (snd c))}"

lemma missing_states_loop_local:
  assumes "\<And>k. fst k \<in> objs \<Longrightarrow> st k = st' k" "fst ` set rs \<subseteq> objs" "fst k \<in> objs"
  shows "fst (missing_states_loop proxy nv rs st acc) k = fst (missing_states_loop proxy nv rs st' acc') k"
  using assms(1,2)
proof (induction rs arbitrary: st st' acc acc')
  case Nil
  then show ?case using assms(3) by simp
next
  case (Cons r rs)
  obtain x v where r: "r = (x, v)" by (cases r)
  show ?case unfolding r missing_states_loop.simps Let_def
    by (rule Cons.IH) (use Cons.prems in auto)
qed

lemma count_states_cong:
  "(\<And>k. k \<in> set ks \<Longrightarrow> st k = st' k) \<Longrightarrow> count_states st n ks cs = count_states st' n ks cs"
  by (induction ks arbitrary: cs) simp_all

interpretation fwd: local_executor "forward_updates nxt policy n" forward_footprint for nxt policy n
proof (unfold_locales, goal_cases)
  case (1 c s s')
  obtain planned rv counter where c: "c = (planned, rv, counter)" by (cases c)
  have vis: "visible s k = visible s' k" if "fst k \<in> fst ` set rv" for k
    using 1 that by (simp add: visible_def forward_footprint_def c)
  have cs: "count_states (visible s) n rv cs = count_states (visible s') n rv cs" for cs
    by (rule count_states_cong) (use vis in force)
  have p: "task_proxy policy n planned rv counter (visible s) = task_proxy policy n planned rv counter (visible s')"
    unfolding task_proxy_def fallback_proxy_def get_proxy_for_shared_objects_most_states_def cs ..
  show ?case
    unfolding forward_updates_def c prod.case Let_def p get_missing_states_for_transaction_def option.case
    using missing_states_loop_local[of "fst ` set rv" "visible s" "visible s'" rv, OF vis] by (auto simp: fun_eq_iff)
next
  case (2 c s)
  then show ?case by (auto simp: forward_updates_def forward_footprint_def Let_def split: prod.splits if_splits)
qed

definition forwarding_tasks ::
  "(version \<Rightarrow> version) \<Rightarrow> pre_consensus_policy \<Rightarrow> nat \<Rightarrow> nat \<Rightarrow> (nat \<Rightarrow> proxy_id option) \<Rightarrow> ('o \<times> version) list list \<Rightarrow>
   nat \<Rightarrow> (nat, unit, 'o, 'o \<times> version, proxy_id option) task_desc" where
  "forwarding_tasks nxt policy n workers planned S =
     schedule_task nxt () (worker_predecessor workers) (\<lambda>j. forward_updates nxt policy n (planned j, S ! j, j)) S"



end
