(* ===== verification/Proxy_Handlers.thy ===== *)
theory Proxy_Handlers
  imports Proxy_Core
begin

text \<open>
  Correctness of the conversations between proxies (\<^verbatim>\<open>src/proxy/core.rs\<close>): a stateless verification
  that runs on another proxy, the transfer of object states, and the cases in which a message
  is lost or makes the receiver panic.
\<close>


section \<open>Remote stateless verification\<close>

text \<open>
  The verifier receives the verification request from the primary and the question of the executing
  proxy \<open>x\<close> in either order.
\<close>

definition verifier_side ::
  "bool \<Rightarrow> 'd verification_request \<Rightarrow> proxy_id \<Rightarrow> ('t, 'd, 'o, 'b) proxy \<Rightarrow> ('t, 'd, 'o, 'b) proxy res" where
  "verifier_side request_first r x v =
     (if request_first then handle_stateless_request x (request_digest r) (process_stateless_transaction r v)
      else and_then (handle_stateless_request x (request_digest r) v) (\<lambda>v. Inr (process_stateless_transaction r v)))"

lemma verifier_side_spec:
  assumes "os_map (px_stateless v) (request_digest r) = None"
  shows "\<exists>v' ch. verifier_side request_first r x v = Inr v' \<and> px_connections v' = px_connections v \<and>
           {VerifyTask ch r, StatelessReplyTask x ch (request_digest r)} \<subseteq> set (px_spawned v')"
  using assms
  by (auto simp: verifier_side_def process_stateless_transaction_def handle_stateless_request_def set_local_dependency_def
      get_dependency_def spawn_def Let_def)

lemma verify_then_reply:
  assumes "x \<in> px_connections v"
  shows "\<exists>v'. run_stateless_reply x ch dg (run_verify E ch r v) = Some v' \<and>
           px_sent v' = px_sent v @ [(x, Reply (StatelessReply dg (ex_verify_transaction E r)))]"
  using assms by (simp add: run_stateless_reply_def run_verify_def send_msg_to_proxy_def)

lemma remote_receiver_spec:
  assumes "is_proxy_separation (px_mode w)" "q \<noteq> px_id w" "q \<in> px_connections w"
  shows "\<exists>w' rx. stateless_receiver dg q w = Inr (w', Some rx) \<and>
           px_sent w' = px_sent w @ [(q, Request (StatelessRequest (px_id w) dg))] \<and>
           px_values (handle_stateless_reply dg b w') rx = Some b \<and>
           \<not> has_entry_for_txn (px_stateless (handle_stateless_reply dg b w')) dg"
  using assms
  by (auto simp: stateless_receiver_def set_remote_dependency_def handle_stateless_reply_def take_signal_def os_remove_dependency_def
      has_entry_for_txn_def Let_def)


definition example_verifier :: "(nat, nat, nat, nat) proxy" where
  "example_verifier = proxy_new 3 PrimaryPreSeparation Map.empty {1}"

definition example_requester :: "(nat, nat, nat, nat) proxy" where
  "example_requester = proxy_new 1 PrimaryPreSeparation [7 \<mapsto> 5] {3}"

definition example_verifying_executor :: "(nat, nat, nat, nat, nat) executor_ops" where
  "example_verifying_executor =
     \<lparr>ex_trait = \<lparr>et_digest = id, et_input_objects = \<lambda>_. [], et_shared_object_ids = \<lambda>_. []\<rparr>,
      ex_make_verification_request = \<lambda>t. SyntheticRequest (transaction t) 1, ex_verify_transaction = \<lambda>r. request_digest r < 50,
      ex_pre_execute_check = \<lambda>_ _. Inr True, ex_execute = \<lambda>s t. Inr (s, results_new t None None)\<rparr>"


text \<open>
  C37. The executing proxy sends its question before it registers for the answer.  If the answer arrives in
  between it is dropped: after the registration the channel of the waiting block has no value, and the
  entry stays in the controller.
\<close>

theorem early_stateless_reply_is_lost:
  assumes "os_map (px_stateless w) dg = None" and "\<forall>ch \<ge> next_channel (px_stateless w). px_values w ch = None"
    and "set_remote_dependency (px_stateless (handle_stateless_reply dg b w)) dg = (c, rx)"
  shows "px_values (handle_stateless_reply dg b w) rx = None \<and> has_entry_for_txn c dg"
  using assms
  by (auto simp: handle_stateless_reply_def take_signal_def os_remove_dependency_def set_remote_dependency_def has_entry_for_txn_def Let_def)

lemma early_stateless_reply_is_lost_witness:
  "\<exists>c rx. set_remote_dependency (px_stateless (handle_stateless_reply 40 True example_requester)) 40 = (c, rx) \<and>
     px_values (handle_stateless_reply 40 True example_requester) rx = None \<and> has_entry_for_txn c 40"
proof -
  obtain c rx where c: "set_remote_dependency (px_stateless (handle_stateless_reply 40 True example_requester)) 40 = (c, rx)" by fastforce
  have "os_map (px_stateless example_requester) 40 = None" "\<forall>ch \<ge> next_channel (px_stateless example_requester). px_values example_requester ch = None"
    by (simp_all add: example_requester_def proxy_new_def odc_new_def)
  from early_stateless_reply_is_lost[OF this c] c show ?thesis by blast
qed


section \<open>Transfer of object states\<close>

lemma map_of_collect_requested:
  "map_of (collect_requested version_of s ks objects) i =
     (case read_object s i of
        Some b \<Rightarrow> if (i, version_of b) \<in> set ks then Some b else map_of objects i
      | None \<Rightarrow> map_of objects i)"
proof (induction ks arbitrary: objects)
  case (Cons k ks)
  obtain j v where k: "k = (j, v)" by (cases k)
  let ?o = "case read_object s j of Some b \<Rightarrow> if version_of b = v then bt_insert j b objects else objects | None \<Rightarrow> objects"
  have step: "collect_requested version_of s (k # ks) objects = collect_requested version_of s ks ?o" by (simp add: k)
  show ?case
  proof (cases "read_object s i")
    case None
    then have "map_of ?o i = map_of objects i" by (cases "i = j") (simp_all split: option.split)
    with None show ?thesis unfolding step Cons.IH by simp
  next
    case (Some b)
    have o: "map_of ?o i = (if i = j \<and> version_of b = v then Some b else map_of objects i)"
      using Some by (cases "i = j") (simp_all split: option.split)
    show ?thesis unfolding step Cons.IH o unfolding Some by (auto simp: k)
  qed
qed (simp split: option.splits)

lemma collect_requested_wf: "bt_wf objects \<Longrightarrow> bt_wf (collect_requested version_of s ks objects)"
  by (induction version_of s ks objects rule: collect_requested.induct) (auto split: option.splits)

text \<open>
  Serving a request for states: the reply holds exactly the requested objects that the store has at the
  requested version, each once and in the order of the identifiers, the dependency entries of the
  request are removed and the store is not changed.
\<close>

theorem served_states_are_the_requested_ones:
  assumes "x \<in> px_connections p"
  shows "\<exists>objects. px_sent (run_serve version_of x ks p) = px_sent p @ [(x, Reply (StatefulReply objects))] \<and> bt_wf objects \<and>
           (\<forall>i b. map_of objects i = Some b \<longleftrightarrow> px_store p i = Some b \<and> (i, version_of b) \<in> set ks) \<and>
           px_store (run_serve version_of x ks p) = px_store p \<and>
           px_stateful (run_serve version_of x ks p) = remove_dependency (px_stateful p) ks"
proof -
  let ?objs = "collect_requested version_of (px_store p) ks []"
  have "map_of ?objs i = Some b \<longleftrightarrow> px_store p i = Some b \<and> (i, version_of b) \<in> set ks" for i b
    by (auto simp: map_of_collect_requested read_object_def split: option.splits)
  then show ?thesis
    using assms collect_requested_wf[of "[]" version_of "px_store p" ks]
    by (intro exI[of _ ?objs]) (simp add: run_serve_def send_msg_to_proxy_def Let_def)
qed

lemma served_states_are_the_requested_ones_witness:
  "\<exists>objects. px_sent (run_serve id 3 [(7, 5), (8, 2)] example_requester) = [(3, Reply (StatefulReply objects))] \<and>
     map_of objects 7 = Some 5 \<and> map_of objects 8 = None"
proof -
  have "3 \<in> px_connections example_requester" and s: "px_sent example_requester = []" "px_store example_requester = [7 \<mapsto> 5]"
    by (simp_all add: example_requester_def proxy_new_def)
  from served_states_are_the_requested_ones[OF this(1), of id "[(7, 5), (8, 2)]"] obtain objects
    where "px_sent (run_serve id 3 [(7, 5), (8, 2)] example_requester) = [(3, Reply (StatefulReply objects))]"
      and m: "\<And>i b. map_of objects i = Some b \<longleftrightarrow> [7 \<mapsto> 5] i = Some b \<and> (i, b) \<in> set [(7, 5), (8, 2)]"
    unfolding s by auto
  moreover have "map_of objects 7 = Some 5" "map_of objects 8 = None"
    using m[of 7 5] m[of 8] by (simp, cases "map_of objects 8") auto
  ultimately show ?thesis by blast
qed

text \<open>
  C36. A request for states that the asked proxy does not hold at the requested version is answered with an empty reply,
  and an empty reply makes any proxy that receives it panic.
\<close>

theorem stale_state_reply_panics:
  assumes "x \<in> px_connections p" and "\<forall>(i, v) \<in> set ks. \<forall>b. px_store p i = Some b \<longrightarrow> version_of b \<noteq> v"
  shows "px_sent (run_serve version_of x ks p) = px_sent p @ [(x, Reply (StatefulReply []))] \<and>
         (\<exists>e. handle_proxy_message nxt one_before version_of (Reply (StatefulReply [])) q = Inl e)"
proof -
  have "map_of (collect_requested version_of (px_store p) ks []) i = None" for i
    using assms(2) by (auto simp: map_of_collect_requested read_object_def split: option.splits)
  then have "collect_requested version_of (px_store p) ks [] = []"
    by (metis list.set_intros(1) map_of_eq_None_iff neq_Nil_conv image_eqI empty_iff)
  then show ?thesis
    using assms(1)
    by (simp add: run_serve_def send_msg_to_proxy_def Let_def handle_proxy_message_def handle_stateful_reply_def
        get_prior_dependency_and_update_def calculate_next_version_def)
qed

lemma stale_state_reply_panics_witness:
  "px_sent (run_serve id 3 [(7, 4)] example_requester) = [(3, Reply (StatefulReply []))] \<and>
   (\<exists>e. handle_proxy_message Suc (\<lambda>v. Some (v - 1)) id (Reply (StatefulReply [])) example_verifier = Inl e)"
proof -
  have "3 \<in> px_connections example_requester" "\<forall>(i, v) \<in> set [(7, 4)]. \<forall>b. px_store example_requester i = Some b \<longrightarrow> id b \<noteq> v"
    and s: "px_sent example_requester = []"
    by (simp_all add: example_requester_def proxy_new_def)
  from stale_state_reply_panics[where version_of = id, OF this(1,2), of Suc "\<lambda>v. Some (v - 1)" example_verifier] show ?thesis unfolding s append_Nil .
qed

end
