(* ===== verification/Migration_Blocks.thy ===== *)
theory Migration_Blocks
  imports Forwarding_Correctness Proxy_Handlers
begin

text \<open>
  The blocks of all proxies.  Every transaction runs at the proxy that the forwarder chose for it; a state that another proxy holds is
  requested from there, served when the block that produces it is done, sent back and installed before the waiting block
  reads the store.  Each proxy has its own controller and its own store; a reply that is under way is a cell of its own.
  The results: the blocks of all proxies are one well-formed task set (every key of every controller has one signaller and one waiter), and
  two blocks that conflict are ordered by the keys and the messages.
\<close>


section \<open>The blocks of all proxies\<close>

text \<open>
  \<open>Execute j\<close> is the stateful block of transaction \<open>j\<close>; \<open>ServeFor j q k\<close> is the block that proxy \<open>q\<close> spawns for the request of the
  state \<open>k\<close> by the proxy of transaction \<open>j\<close>, and \<open>InstallFor j q k\<close> the block that the reply spawns there.
\<close>

datatype 'o block = Execute nat | ServeFor nat proxy_id "'o \<times> version" | InstallFor nat proxy_id "'o \<times> version"

datatype 'o location = ObjectAt proxy_id 'o | ReplyFor nat 'o

definition local_view :: "proxy_id \<Rightarrow> ('o location \<rightharpoonup> 'b) \<Rightarrow> ('o, 'b) object_store" where
  "local_view p s = (\<lambda>x. s (ObjectAt p x))"

definition reply_content :: "nat \<Rightarrow> ('o location \<rightharpoonup> 'b) \<Rightarrow> ('o, 'b) object_store" where
  "reply_content j s = (\<lambda>x. s (ReplyFor j x))"

definition local_writes :: "proxy_id \<Rightarrow> ('o, 'b) object_store \<Rightarrow> ('o location \<rightharpoonup> 'b)" where
  "local_writes p u = (\<lambda>l. case l of ObjectAt q x \<Rightarrow> if q = p then u x else None | ReplyFor _ _ \<Rightarrow> None)"

definition reply_writes :: "nat \<Rightarrow> ('o, 'b) object_store \<Rightarrow> ('o location \<rightharpoonup> 'b)" where
  "reply_writes j u = (\<lambda>l. case l of ObjectAt _ _ \<Rightarrow> None | ReplyFor i x \<Rightarrow> if i = j then u x else None)"

definition execute_block ::
  "(version \<Rightarrow> version) \<Rightarrow> (('o, 'b) object_store \<Rightarrow> ('o, 'b) object_store) \<Rightarrow> proxy_id \<Rightarrow> 'o required_states \<Rightarrow>
   ('o block, proxy_id, 'o, 'o location, 'b) task_desc" where
  "execute_block nxt updates p required =
     (let obj_ids = map fst required in
      \<lparr>td_place = p, td_after = [],
       td_fetch = (if obj_ids = [] then [] else dependency_fetches 2 (next_version nxt obj_ids) False False obj_ids),
       td_remove = obj_ids, td_body = (\<lambda>s. local_writes p (updates (local_view p s)))\<rparr>)"

definition serve_block ::
  "(version \<Rightarrow> version) \<Rightarrow> ('b \<Rightarrow> version) \<Rightarrow> nat \<Rightarrow> proxy_id \<Rightarrow> 'o::linorder \<times> version \<Rightarrow>
   ('o block, proxy_id, 'o, 'o location, 'b) task_desc" where
  "serve_block nxt version_of j q k =
     \<lparr>td_place = q, td_after = [],
      td_fetch = dependency_fetches 2 (next_version nxt [k]) False True [k],
      td_remove = [k],
      td_body = (\<lambda>s. reply_writes j (map_of (collect_requested version_of (local_view q s) [k] [])))\<rparr>"

definition install_block ::
  "(version \<Rightarrow> version) \<Rightarrow> (version \<Rightarrow> version option) \<Rightarrow> nat \<Rightarrow> proxy_id \<Rightarrow> proxy_id \<Rightarrow> 'o \<times> version \<Rightarrow>
   ('o block, proxy_id, 'o, 'o location, 'b) task_desc" where
  "install_block nxt one_before j p q k =
     \<lparr>td_place = p, td_after = [ServeFor j q k],
      td_fetch = (case one_before (snd k) of
                    Some u \<Rightarrow> dependency_fetches 2 (next_version nxt [(fst k, u)]) True False [(fst k, u)]
                  | None \<Rightarrow> []),
      td_remove = [],
      td_body = (\<lambda>s. local_writes p (reply_content j s |` {fst k}))\<rparr>"

fun distributed_task ::
  "(version \<Rightarrow> version) \<Rightarrow> (version \<Rightarrow> version option) \<Rightarrow> ('b \<Rightarrow> version) \<Rightarrow>
   (nat \<Rightarrow> ('o, 'b) object_store \<Rightarrow> ('o, 'b) object_store) \<Rightarrow> proxy_id list \<Rightarrow> ('o::linorder \<times> version) list list \<Rightarrow>
   'o block \<Rightarrow> ('o block, proxy_id, 'o, 'o location, 'b) task_desc" where
  "distributed_task nxt one_before version_of updates P S (Execute j) =
     execute_block nxt (updates j) (P ! j) (planned_states P S j)"
| "distributed_task nxt one_before version_of updates P S (ServeFor j q k) = serve_block nxt version_of j q k"
| "distributed_task nxt one_before version_of updates P S (InstallFor j q k) = install_block nxt one_before j (P ! j) q k"

definition missing_states :: "'o required_states \<Rightarrow> (('o \<times> version) \<times> proxy_id) list" where
  "missing_states required = List.map_filter (\<lambda>(k, source). map_option (Pair k) source) required"

definition migration_blocks :: "proxy_id list \<Rightarrow> ('o \<times> version) list list \<Rightarrow> nat \<Rightarrow> 'o block list" where
  "migration_blocks P S j =
     (let missing = missing_states (planned_states P S j)
      in map (\<lambda>(k, q). ServeFor j q k) missing @ map (\<lambda>(k, q). InstallFor j q k) missing)"

definition blocks_of :: "proxy_id list \<Rightarrow> ('o \<times> version) list list \<Rightarrow> nat \<Rightarrow> 'o block list" where
  "blocks_of P S j = migration_blocks P S j @ [Execute j]"

definition distributed_blocks :: "proxy_id list \<Rightarrow> ('o \<times> version) list list \<Rightarrow> 'o block list" where
  "distributed_blocks P S = concat (map (blocks_of P S) [0..<length S])"

lemma set_missing_states: "(k, q) \<in> set (missing_states required) \<longleftrightarrow> (k, Some q) \<in> set required"
  by (force simp: missing_states_def map_filter_def)

lemma set_blocks_of:
  "Execute i \<in> set (blocks_of P S j) \<longleftrightarrow> i = j"
  "ServeFor i q k \<in> set (blocks_of P S j) \<longleftrightarrow> i = j \<and> (k, Some q) \<in> set (planned_states P S j)"
  "InstallFor i q k \<in> set (blocks_of P S j) \<longleftrightarrow> i = j \<and> (k, Some q) \<in> set (planned_states P S j)"
  by (auto simp: blocks_of_def migration_blocks_def Let_def set_missing_states)

lemma set_distributed_blocks:
  "Execute j \<in> set (distributed_blocks P S) \<longleftrightarrow> j < length S"
  "ServeFor j q k \<in> set (distributed_blocks P S) \<longleftrightarrow> j < length S \<and> (k, Some q) \<in> set (planned_states P S j)"
  "InstallFor j q k \<in> set (distributed_blocks P S) \<longleftrightarrow> j < length S \<and> (k, Some q) \<in> set (planned_states P S j)"
  by (auto simp: distributed_blocks_def set_blocks_of)


section \<open>The source of a state\<close>

lemma owner_before_last:
  "((\<forall>i < k. x \<notin> objects_of S i) \<and> version_before nxt S k x = 2 \<and> owner_before P S k x = None) \<or>
   (\<exists>i < k. x \<in> objects_of S i \<and> version_before nxt S k x = produced nxt S i \<and> owner_before P S k x = Some (P ! i) \<and>
      (\<forall>i' < k. x \<in> objects_of S i' \<longrightarrow> i' \<le> i))"
proof (induction k)
  case (Suc k)
  show ?case
  proof (cases "x \<in> objects_of S k")
    case True
    then show ?thesis by (intro disjI2 exI[of _ k]) auto
  next
    case False
    from Suc show ?thesis
    proof
      assume "\<exists>i < k. x \<in> objects_of S i \<and> version_before nxt S k x = produced nxt S i \<and> owner_before P S k x = Some (P ! i) \<and>
          (\<forall>i' < k. x \<in> objects_of S i' \<longrightarrow> i' \<le> i)"
      then show ?thesis using False by (auto simp: less_Suc_eq)
    qed (use False in \<open>auto simp: less_Suc_eq\<close>)
  qed
qed simp

lemma planned_states_fst: "map fst (planned_states P S j) = S ! j"
  by (simp add: planned_states_def comp_def)

text \<open>The producer of a required state and where it runs.\<close>

lemma required_state_producer:
  assumes nxt: "\<forall>v. v < nxt v" and ok: "schedule_ok nxt S" and j: "j < length S" and xv: "(x, v) \<in> set (S ! j)"
  shows "v = 2 \<and> owner_before P S j x = None \<or>
     2 < v \<and> (\<exists>i < j. x \<in> objects_of S i \<and> produced nxt S i = v \<and> owner_before P S j x = Some (P ! i) \<and>
       (\<forall>i' < j. x \<in> objects_of S i' \<longrightarrow> i' \<le> i))"
proof -
  have v: "v = version_before nxt S j x" by (rule required_version[OF nxt ok j xv])
  have "2 < produced nxt S i" if "i < j" "x \<in> objects_of S i" for i
  proof -
    obtain w where w: "(x, w) \<in> set (S ! i)" using \<open>x \<in> objects_of S i\<close> by (auto simp: objects_of_def)
    show ?thesis using schedule_okD(2)[OF ok _ w] produced_greater[OF nxt w] that j by fastforce
  qed
  then show ?thesis using owner_before_last[of j x S nxt P] v by metis
qed

lemma planned_source:
  assumes nxt: "\<forall>v. v < nxt v" and ok: "schedule_ok nxt S" and j: "j < length S"
    and s: "((x, v), Some q) \<in> set (planned_states P S j)"
  obtains i where "i < j" "x \<in> objects_of S i" "produced nxt S i = v" "P ! i = q" "q \<noteq> P ! j" "2 < v" "(x, v) \<in> set (S ! j)"
    "\<And>i'. i' < j \<Longrightarrow> x \<in> objects_of S i' \<Longrightarrow> i' \<le> i"
proof -
  have xv: "(x, v) \<in> set (S ! j)" using s by (auto simp: planned_states_def)
  have "owner_before P S j x = Some q" "q \<noteq> P ! j" using s by (auto simp: planned_states_def split: option.splits if_splits)
  then show thesis using required_state_producer[OF nxt ok j xv, of P] that xv by auto
qed

lemma planned_migration:
  assumes nxt: "\<forall>v. v < nxt v" and ok: "schedule_ok nxt S" and j: "j < length S"
    and xv: "(x, v) \<in> set (S ! j)" and i: "i < j" "x \<in> objects_of S i" "produced nxt S i = v" "P ! i \<noteq> P ! j"
  shows "((x, v), Some (P ! i)) \<in> set (planned_states P S j)"
proof -
  obtain w where w: "(x, w) \<in> set (S ! i)" using i(2) by (auto simp: objects_of_def)
  have "2 < v" using schedule_okD(2)[OF ok _ w] produced_greater[OF nxt w] i(1,3) j by fastforce
  then obtain i' where i': "i' < j" "x \<in> objects_of S i'" "produced nxt S i' = v" "owner_before P S j x = Some (P ! i')"
    using required_state_producer[OF nxt ok j xv, of P] by auto
  obtain w' where w': "(x, w') \<in> set (S ! i')" using i'(2) by (auto simp: objects_of_def)
  have "i' = i"
    using schedule_ok_increasing(2)[OF nxt ok _ _ w w'] schedule_ok_increasing(2)[OF nxt ok _ _ w' w] i i' j
    by (cases i i' rule: linorder_cases) auto
  then show ?thesis using xv i(4) i'(4) by (force simp: planned_states_def)
qed


section \<open>The blocks are a well-formed task set\<close>

text \<open>What \<^verbatim>\<open>one_before\<close> promises: every version after the initial one is the successor of the version before it.\<close>

definition one_before_laws :: "(version \<Rightarrow> version) \<Rightarrow> (version \<Rightarrow> version option) \<Rightarrow> bool" where
  "one_before_laws nxt one_before \<longleftrightarrow> (\<forall>v > 2. \<exists>u. one_before v = Some u \<and> nxt u = v)"

lemma block_fields [simp]:
  "td_place (execute_block nxt f p rs) = p" "td_after (execute_block nxt f p rs) = []" "td_remove (execute_block nxt f p rs) = map fst rs"
  "td_place (serve_block nxt ver j q k) = q" "td_after (serve_block nxt ver j q k) = []" "td_remove (serve_block nxt ver j q k) = [k]"
  "td_place (install_block nxt ob j p q k) = p" "td_after (install_block nxt ob j p q k) = [ServeFor j q k]"
  "td_remove (install_block nxt ob j p q k) = []"
  by (simp_all add: execute_block_def serve_block_def install_block_def Let_def)

lemma execute_block_fetch:
  "(True, k) \<in> set (td_fetch (execute_block nxt f p (planned_states P S j))) \<longleftrightarrow> k \<in> set (S ! j) \<and> 2 < snd k"
  "(False, k) \<in> set (td_fetch (execute_block nxt f p (planned_states P S j))) \<longleftrightarrow> fst k \<in> objects_of S j \<and> snd k = produced nxt S j"
  by (auto simp: execute_block_def Let_def planned_states_fst set_dependency_fetches objects_of_def produced_def)

lemma serve_block_fetch:
  "(True, k') \<in> set (td_fetch (serve_block nxt ver j q k)) \<longleftrightarrow> k' = k \<and> 2 < snd k"
  "(False, k') \<notin> set (td_fetch (serve_block nxt ver j q k))"
  by (auto simp: serve_block_def set_dependency_fetches)

lemma install_block_fetch:
  "(True, k') \<notin> set (td_fetch (install_block nxt ob j p q k))"
  "one_before_laws nxt ob \<Longrightarrow> 2 < snd k \<Longrightarrow> (False, k') \<in> set (td_fetch (install_block nxt ob j p q k)) \<longleftrightarrow> k' = k"
  by (auto simp: install_block_def set_dependency_fetches one_before_laws_def next_version_def prod_eq_iff split: option.splits)

lemmas block_fetches = execute_block_fetch serve_block_fetch install_block_fetch

lemma block_fetch_distinct:
  assumes nxt: "\<forall>v. v < nxt v" and d: "distinct (map fst (S ! j))"
  shows "distinct (map snd (td_fetch (execute_block nxt f p (planned_states P S j))))"
    and "distinct (map snd (td_fetch (serve_block nxt ver i q k)))"
    and "distinct (map snd (td_fetch (install_block nxt ob i p q k)))"
proof -
  have "distinct (map snd (dependency_fetches 2 (produced nxt S j) False False (S ! j)))"
    by (rule distinct_dependency_fetches[OF d produced_greater[OF nxt]])
  then show "distinct (map snd (td_fetch (execute_block nxt f p (planned_states P S j))))"
    by (simp add: execute_block_def Let_def planned_states_fst produced_def)
qed (simp_all add: serve_block_def install_block_def dependency_fetches_def split: option.split prod.split)

fun block_rank :: "'o block \<Rightarrow> nat" where
  "block_rank (ServeFor j q k) = 3 * j"
| "block_rank (InstallFor j q k) = 3 * j + 1"
| "block_rank (Execute j) = 3 * j + 2"

lemma sorted_blocks: "sorted (map block_rank (concat (map (blocks_of P S) [0..<n])))"
proof (induction n)
  case (Suc n)
  have "sorted (map block_rank (blocks_of P S n))"
    by (auto simp: blocks_of_def migration_blocks_def Let_def sorted_append comp_def split_beta sorted_wrt_map intro!: sorted_const_map)
  moreover have "block_rank t < 3 * n" if t: "t \<in> set (concat (map (blocks_of P S) [0..<n]))" for t
    using t by (auto simp: blocks_of_def migration_blocks_def Let_def)
  moreover have "3 * n \<le> block_rank t" if t: "t \<in> set (blocks_of P S n)" for t
    using t by (auto simp: blocks_of_def migration_blocks_def Let_def)
  ultimately show ?case using Suc by (fastforce simp: sorted_append)
qed simp

lemma distinct_blocks:
  assumes "\<And>j. j < n \<Longrightarrow> distinct (S ! j)"
  shows "distinct (concat (map (blocks_of P S) [0..<n]))"
  using assms
proof (induction n)
  case (Suc n)
  have "distinct (map fst (missing_states rs))" if "distinct (map fst rs)" for rs :: "'a required_states"
    using that
  proof (induction rs)
    case (Cons r rs)
    have "fst r \<notin> set (map fst (missing_states rs))" using Cons.prems by (force simp: set_missing_states)
    then show ?case using Cons by (cases r) (auto simp: missing_states_def map_filter_simps split: option.split)
  qed (simp add: missing_states_def map_filter_simps)
  then have "distinct (map fst (missing_states (planned_states P S n)))" using Suc.prems[of n] by (simp add: planned_states_fst)
  then have m: "distinct (missing_states (planned_states P S n))" by (simp add: distinct_map)
  have "distinct (blocks_of P S n)"
    using m by (auto simp: blocks_of_def migration_blocks_def Let_def distinct_map intro!: inj_onI)
  moreover have "set (blocks_of P S i) \<inter> set (blocks_of P S n) = {}" if "i < n" for i
    using that by (auto simp: blocks_of_def migration_blocks_def Let_def)
  ultimately show ?case using Suc by fastforce
qed simp

lemma planned_sourceD:
  assumes "\<forall>v. v < nxt v" "schedule_ok nxt S" "j < length S" "((x, v), Some q) \<in> set (planned_states P S j)"
  shows "(x, v) \<in> set (S ! j)" "2 < v" "q \<noteq> P ! j"
  using planned_source[OF assms] by blast+

lemma planned_source_unique:
  "((x, v), Some q) \<in> set (planned_states P S j) \<Longrightarrow> ((x, w), Some r) \<in> set (planned_states P S j) \<Longrightarrow> q = r"
  by (auto simp: planned_states_def split: option.splits if_splits)

text \<open>Who signals and who awaits a key.\<close>

lemma block_signals:
  assumes nxt: "\<forall>v. v < nxt v" and ok: "schedule_ok nxt S" and ob: "one_before_laws nxt ob"
    and t: "t \<in> set (distributed_blocks P S)"
  shows "(False, x, v) \<in> set (td_fetch (distributed_task nxt ob ver f P S t)) \<longleftrightarrow>
     (\<exists>j. t = Execute j \<and> x \<in> objects_of S j \<and> produced nxt S j = v) \<or>
     (\<exists>j q. t = InstallFor j q (x, v))"
proof (cases t)
  case (InstallFor j q k)
  then have "2 < snd k" using t planned_sourceD(2)[OF nxt ok] by (cases k) (auto simp: set_distributed_blocks)
  then show ?thesis using InstallFor by (auto simp: block_fetches ob)
qed (auto simp: block_fetches)

lemma block_awaits:
  assumes nxt: "\<forall>v. v < nxt v" and ok: "schedule_ok nxt S"
    and t: "t \<in> set (distributed_blocks P S)"
  shows "(True, x, v) \<in> set (td_fetch (distributed_task nxt ob ver f P S t)) \<longleftrightarrow>
     (\<exists>j. t = Execute j \<and> (x, v) \<in> set (S ! j) \<and> 2 < v) \<or> (\<exists>j q. t = ServeFor j q (x, v))"
proof (cases t)
  case (ServeFor j q k)
  then have "2 < snd k" using t planned_sourceD(2)[OF nxt ok] by (cases k) (auto simp: set_distributed_blocks)
  then show ?thesis using ServeFor by (auto simp: block_fetches)
qed (auto simp: block_fetches)

lemma same_object_index:
  assumes nxt: "\<forall>v. v < nxt v" and ok: "schedule_ok nxt S" and l: "i < length S" "j < length S"
  shows "(x, v) \<in> set (S ! i) \<Longrightarrow> (x, v) \<in> set (S ! j) \<Longrightarrow> i = j"
    and "x \<in> objects_of S i \<Longrightarrow> x \<in> objects_of S j \<Longrightarrow> produced nxt S i = produced nxt S j \<Longrightarrow> i = j"
proof -
  note inc = schedule_ok_increasing[OF nxt ok]
  show "(x, v) \<in> set (S ! i) \<Longrightarrow> (x, v) \<in> set (S ! j) \<Longrightarrow> i = j"
    using inc(1)[of i j x v v] inc(1)[of j i x v v] l by (cases i j rule: linorder_cases) auto
  assume "x \<in> objects_of S i" "x \<in> objects_of S j" and eq: "produced nxt S i = produced nxt S j"
  then obtain v w where vw: "(x, v) \<in> set (S ! i)" "(x, w) \<in> set (S ! j)" by (auto simp: objects_of_def)
  then show "i = j"
    using inc(2)[OF _ l(2) vw] inc(2)[OF _ l(1) vw(2,1)] eq by (cases i j rule: linorder_cases) auto
qed

lemma signaller_unique:
  assumes nxt: "\<forall>v. v < nxt v" and ok: "schedule_ok nxt S" and ob: "one_before_laws nxt ob" and D: "D = distributed_task nxt ob ver f P S"
    and t: "t \<in> set (distributed_blocks P S)" and u: "u \<in> set (distributed_blocks P S)" and p: "td_place (D t) = td_place (D u)"
    and k: "(False, x, v) \<in> set (td_fetch (D t))" "(False, x, v) \<in> set (td_fetch (D u))"
  shows "t = u"
proof -
  note kt = k(1)[unfolded D block_signals[OF nxt ok ob t]] and ku = k(2)[unfolded D block_signals[OF nxt ok ob u]]
  note same = same_object_index[OF nxt ok]
  have mixed: False if i: "t' = Execute i" "x \<in> objects_of S i" "produced nxt S i = v" and j: "u' = InstallFor j q (x, v)"
    and mem: "t' \<in> set (distributed_blocks P S)" "u' \<in> set (distributed_blocks P S)" and pl: "P ! i = P ! j" for t' u' i j q
  proof -
    have l: "i < length S" "j < length S" "((x, v), Some q) \<in> set (planned_states P S j)" using mem i(1) j by (simp_all add: set_distributed_blocks)
    obtain i' where "i' < j" "x \<in> objects_of S i'" "produced nxt S i' = v" "P ! i' = q" "q \<noteq> P ! j" using planned_source[OF nxt ok l(2,3)] by blast
    then show False using same(2)[of i i' x] i l pl by auto
  qed
  from kt ku consider i j where "t = Execute i" "u = Execute j" "x \<in> objects_of S i" "x \<in> objects_of S j" "produced nxt S i = produced nxt S j"
    | i j q where "t = Execute i" "x \<in> objects_of S i" "produced nxt S i = v" "u = InstallFor j q (x, v)"
    | i j q where "u = Execute i" "x \<in> objects_of S i" "produced nxt S i = v" "t = InstallFor j q (x, v)"
    | i j q r where "t = InstallFor i q (x, v)" "u = InstallFor j r (x, v)" by auto
  then show ?thesis
  proof cases
    case 1
    then show ?thesis using same(2) t u by (auto simp: set_distributed_blocks)
  next
    case 2
    then show ?thesis using mixed[OF 2 t u] p unfolding D by simp
  next
    case 3
    then show ?thesis using mixed[OF 3 u t] p unfolding D by simp
  next
    case 4
    then have l: "i < length S" "j < length S" "((x, v), Some q) \<in> set (planned_states P S i)" "((x, v), Some r) \<in> set (planned_states P S j)"
      using t u by (simp_all add: set_distributed_blocks)
    then have "i = j" using same(1) planned_sourceD(1)[OF nxt ok l(1,3)] planned_sourceD(1)[OF nxt ok l(2,4)] l(1,2) by blast
    moreover have "q = r" using l(3,4) \<open>i = j\<close> planned_source_unique by metis
    ultimately show ?thesis using 4 by simp
  qed
qed

lemma waiter_unique:
  assumes nxt: "\<forall>v. v < nxt v" and ok: "schedule_ok nxt S" and D: "D = distributed_task nxt ob ver f P S"
    and t: "t \<in> set (distributed_blocks P S)" and u: "u \<in> set (distributed_blocks P S)" and p: "td_place (D t) = td_place (D u)"
    and k: "(True, x, v) \<in> set (td_fetch (D t))" "(True, x, v) \<in> set (td_fetch (D u))"
  shows "t = u"
proof -
  have role: "\<exists>j < length S. (x, v) \<in> set (S ! j) \<and>
      (t' = Execute j \<or> (\<exists>q. t' = ServeFor j q (x, v) \<and> ((x, v), Some q) \<in> set (planned_states P S j) \<and> q \<noteq> P ! j))"
    if mem: "t' \<in> set (distributed_blocks P S)" and k: "(True, x, v) \<in> set (td_fetch (D t'))" for t'
    using k mem planned_sourceD(1,3)[OF nxt ok, of _ x v _ P] unfolding D block_awaits[OF nxt ok mem] by (auto simp: set_distributed_blocks)
  obtain i where i: "i < length S" "(x, v) \<in> set (S ! i)"
    "t = Execute i \<or> (\<exists>q. t = ServeFor i q (x, v) \<and> ((x, v), Some q) \<in> set (planned_states P S i) \<and> q \<noteq> P ! i)" using role[OF t k(1)] by blast
  obtain j where j: "j < length S" "(x, v) \<in> set (S ! j)"
    "u = Execute j \<or> (\<exists>q. u = ServeFor j q (x, v) \<and> ((x, v), Some q) \<in> set (planned_states P S j) \<and> q \<noteq> P ! j)" using role[OF u k(2)] by blast
  have "i = j" using same_object_index(1)[OF nxt ok i(1) j(1) i(2) j(2)] .
  then show ?thesis using i(3) j(3) p planned_source_unique[of x v _ P S j v] unfolding D by auto
qed

lemma awaited_is_signalled:
  assumes nxt: "\<forall>v. v < nxt v" and ok: "schedule_ok nxt S" and ob: "one_before_laws nxt ob" and D: "D = distributed_task nxt ob ver f P S"
    and t: "t \<in> set (distributed_blocks P S)" and k: "(True, x, v) \<in> set (td_fetch (D t))"
  shows "\<exists>u \<in> set (distributed_blocks P S). td_place (D u) = td_place (D t) \<and> (False, x, v) \<in> set (td_fetch (D u))"
proof -
  from k[unfolded D block_awaits[OF nxt ok t]] consider j where "t = Execute j" "(x, v) \<in> set (S ! j)" "2 < v" | j q where "t = ServeFor j q (x, v)" by blast
  then show ?thesis
  proof cases
    case (1 j)
    then have j: "j < length S" using t by (simp add: set_distributed_blocks)
    then obtain i where i: "i < j" "x \<in> objects_of S i" "produced nxt S i = v" using schedule_okD(3)[OF ok j 1(2,3)] by blast
    show ?thesis
    proof (cases "P ! i = P ! j")
      case True
      have mem: "Execute i \<in> set (distributed_blocks P S)" using i(1) j by (simp add: set_distributed_blocks)
      then show ?thesis using True i 1(1) block_signals[OF nxt ok ob mem, of x v ver f] unfolding D by (intro bexI[OF _ mem]) auto
    next
      case False
      have mem: "InstallFor j (P ! i) (x, v) \<in> set (distributed_blocks P S)"
        using planned_migration[OF nxt ok j 1(2) i False] j by (simp add: set_distributed_blocks)
      then show ?thesis using 1(1) block_signals[OF nxt ok ob mem, of x v ver f] unfolding D by (intro bexI[OF _ mem]) auto
    qed
  next
    case (2 j q)
    then have l: "j < length S" "((x, v), Some q) \<in> set (planned_states P S j)" using t by (simp_all add: set_distributed_blocks)
    obtain i where i: "i < j" "x \<in> objects_of S i" "produced nxt S i = v" "P ! i = q" using planned_source[OF nxt ok l] by blast
    have mem: "Execute i \<in> set (distributed_blocks P S)" using i(1) l by (simp add: set_distributed_blocks)
    then show ?thesis using i 2 block_signals[OF nxt ok ob mem, of x v ver f] unfolding D by (intro bexI[OF _ mem]) auto
  qed
qed

lemma dep_rank:
  assumes nxt: "\<forall>v. v < nxt v" and ok: "schedule_ok nxt S" and ob: "one_before_laws nxt ob" and D: "D = distributed_task nxt ob ver f P S"
    and d: "(u, t) \<in> dep D (distributed_blocks P S)"
  shows "block_rank u < block_rank t"
proof -
  have t: "t \<in> set (distributed_blocks P S)" and u: "u \<in> set (distributed_blocks P S)" using d by (auto simp: dep_def)
  have later: "i < j" if x: "x \<in> objects_of S i" "(x, produced nxt S i) \<in> set (S ! j)" "i < length S" "j < length S" for i j x
  proof (rule ccontr)
    assume "\<not> i < j"
    obtain w where w: "(x, w) \<in> set (S ! i)" using x(1) by (auto simp: objects_of_def)
    then have "w < produced nxt S i" by (rule produced_greater[OF nxt])
    moreover have "j < i \<Longrightarrow> produced nxt S i < w" using schedule_ok_increasing(1)[OF nxt ok _ x(3) x(2) w] .
    moreover have "i = j \<Longrightarrow> produced nxt S i = w" using schedule_okD(1)[OF ok x(3)] w x(2) by (metis eq_key_imp_eq_value)
    ultimately show False using \<open>\<not> i < j\<close> by (cases i j rule: linorder_cases) auto
  qed
  show ?thesis
  proof (cases "u \<in> set (td_after (D t))")
    case True
    then show ?thesis unfolding D by (cases t) auto
  next
    case False
    then obtain x v where k: "(False, x, v) \<in> set (td_fetch (D u))" "(True, x, v) \<in> set (td_fetch (D t))" "td_place (D u) = td_place (D t)"
      using d by (auto simp: dep_def)
    note ku = k(1)[unfolded D block_signals[OF nxt ok ob u]] and kt = k(2)[unfolded D block_awaits[OF nxt ok t]]
    have tj: "\<exists>j < length S. (x, v) \<in> set (S ! j) \<and> 3 * j \<le> block_rank t \<and> (t = Execute j \<or> (\<exists>q. t = ServeFor j q (x, v) \<and> q \<noteq> P ! j))"
      using kt t planned_sourceD(1,3)[OF nxt ok, of _ x v _ P] by (auto simp: set_distributed_blocks)
    then obtain j where j: "j < length S" "(x, v) \<in> set (S ! j)" "3 * j \<le> block_rank t" "t = Execute j \<or> (\<exists>q. t = ServeFor j q (x, v) \<and> q \<noteq> P ! j)"
      by blast
    from ku show ?thesis
    proof
      assume "\<exists>i. u = Execute i \<and> x \<in> objects_of S i \<and> produced nxt S i = v"
      then obtain i where i: "u = Execute i" "x \<in> objects_of S i" "produced nxt S i = v" by blast
      then have "i < j" using later[of x i j] j u by (auto simp: set_distributed_blocks)
      then show ?thesis using i(1) j(3) by simp
    next
      assume "\<exists>i q. u = InstallFor i q (x, v)"
      then obtain i q where i: "u = InstallFor i q (x, v)" by blast
      then have l: "i < length S" "((x, v), Some q) \<in> set (planned_states P S i)" using u by (simp_all add: set_distributed_blocks)
      then have "i = j" using same_object_index(1)[OF nxt ok l(1) j(1)] j(2) planned_sourceD(1)[OF nxt ok l] by blast
      then show ?thesis using i j(4) k(3) unfolding D by auto
    qed
  qed
qed

lemma distributed_tasks_wf:
  assumes nxt: "\<forall>v. v < nxt v" and ok: "schedule_ok nxt S" and ob: "one_before_laws nxt ob" and D: "D = distributed_task nxt ob ver f P S"
  shows "tasks_wf D (distributed_blocks P S)"
proof (rule tasks_wfI, goal_cases)
  case 1
  show ?case unfolding distributed_blocks_def
    by (rule distinct_blocks) (use schedule_okD(1)[OF ok] in \<open>simp add: distinct_map\<close>)
next
  case 2
  have "sorted_wrt (\<lambda>x y. block_rank x \<le> block_rank y) (distributed_blocks P S)"
    using sorted_blocks[of P S "length S"] unfolding distributed_blocks_def sorted_map .
  then show ?case
    by (rule sorted_wrt_mono_rel[rotated]) (use dep_rank[OF nxt ok ob D] in fastforce)
next
  case (3 t)
  note d = schedule_okD(1)[OF ok]
  show ?case
  proof (cases t)
    case (Execute j)
    then have "j < length S" using 3 by (simp add: set_distributed_blocks)
    then show ?thesis using block_fetch_distinct(1)[OF nxt d] d unfolding D Execute by (simp add: planned_states_fst distinct_map)
  next
    case (ServeFor j q k)
    then have "j < length S" using 3 by (simp add: set_distributed_blocks)
    then show ?thesis using block_fetch_distinct(2)[OF nxt d] unfolding D ServeFor by simp
  next
    case (InstallFor j q k)
    then have "j < length S" "ServeFor j q k \<in> set (distributed_blocks P S)" using 3 by (simp_all add: set_distributed_blocks)
    then show ?thesis using block_fetch_distinct(3)[OF nxt d] unfolding D InstallFor by simp
  qed
next
  case (4 t u b k)
  then show ?case
    using signaller_unique[OF nxt ok ob D] waiter_unique[OF nxt ok D] by (cases b; cases k) auto
next
  case (5 t k)
  then show ?case using awaited_is_signalled[OF nxt ok ob D] by (cases k) auto
next
  case (6 t k)
  obtain x v where k: "k = (x, v)" by (cases k)
  have "k \<notin> snd ` set (td_fetch (D u))" if v: "v \<le> 2" and u: "u \<in> set (distributed_blocks P S)" for u
  proof
    assume "k \<in> snd ` set (td_fetch (D u))"
    then obtain b where b: "(b, x, v) \<in> set (td_fetch (D u))" unfolding k by force
    then have "2 < v"
    proof (cases b)
      case True
      then show ?thesis using b True u planned_sourceD(2)[OF nxt ok, of _ x v _ P] unfolding D by (auto simp: block_awaits[OF nxt ok u] set_distributed_blocks)
    next
      case False
      have "2 < produced nxt S j" if j: "x \<in> objects_of S j" "j < length S" for j
      proof -
        obtain w where "(x, w) \<in> set (S ! j)" using j(1) by (auto simp: objects_of_def)
        then show ?thesis using schedule_okD(2)[OF ok j(2)] produced_greater[OF nxt] by (meson le_less_trans)
      qed
      then show ?thesis using b False u planned_sourceD(2)[OF nxt ok, of _ x v _ P] unfolding D by (auto simp: block_signals[OF nxt ok ob u] set_distributed_blocks)
    qed
    then show False using v by simp
  qed
  moreover have "2 < v \<Longrightarrow> (True, k) \<in> set (td_fetch (D t))"
    using 6(2) unfolding D k block_awaits[OF nxt ok 6(1)] by (cases t) (auto simp: planned_states_fst)
  ultimately show ?case by (cases "v \<le> 2") auto
qed


section \<open>Conflicting blocks are ordered\<close>

fun block_index :: "'o block \<Rightarrow> nat" where
  "block_index (Execute j) = j"
| "block_index (ServeFor j q k) = j"
| "block_index (InstallFor j q k) = j"

fun block_objects :: "('o \<times> version) list list \<Rightarrow> 'o block \<Rightarrow> 'o set" where
  "block_objects S (Execute j) = objects_of S j"
| "block_objects S (ServeFor j q k) = {fst k}"
| "block_objects S (InstallFor j q k) = {fst k}"

fun block_reads :: "(nat \<Rightarrow> 'o set) \<Rightarrow> proxy_id list \<Rightarrow> 'o block \<Rightarrow> 'o location set" where
  "block_reads R P (Execute j) = ObjectAt (P ! j) ` R j"
| "block_reads R P (ServeFor j q k) = {ObjectAt q (fst k)}"
| "block_reads R P (InstallFor j q k) = {ReplyFor j (fst k)}"

fun block_writes :: "(nat \<Rightarrow> 'o set) \<Rightarrow> proxy_id list \<Rightarrow> 'o block \<Rightarrow> 'o location set" where
  "block_writes W P (Execute j) = ObjectAt (P ! j) ` W j"
| "block_writes W P (ServeFor j q k) = {ReplyFor j (fst k)}"
| "block_writes W P (InstallFor j q k) = {ObjectAt (P ! j) (fst k)}"

lemma distributed_block_cases:
  assumes "t \<in> set (distributed_blocks P S)"
  obtains (execute) j where "t = Execute j" "j < length S"
    | (serve) j q x v where "t = ServeFor j q (x, v)" "j < length S" "((x, v), Some q) \<in> set (planned_states P S j)"
    | (install) j q x v where "t = InstallFor j q (x, v)" "j < length S" "((x, v), Some q) \<in> set (planned_states P S j)"
proof (cases t)
  case (Execute j)
  then show thesis using that(1) assms by (simp add: set_distributed_blocks)
next
  case (ServeFor j q k)
  then show thesis using that(2)[of j q "fst k" "snd k"] assms by (simp add: set_distributed_blocks)
next
  case (InstallFor j q k)
  then show thesis using that(3)[of j q "fst k" "snd k"] assms by (simp add: set_distributed_blocks)
qed

lemma migration_block:
  assumes "t \<in> set (distributed_blocks P S)" "t \<noteq> Execute (block_index t)" "x \<in> block_objects S t"
  shows "\<exists>k q. (t = ServeFor (block_index t) q k \<or> t = InstallFor (block_index t) q k) \<and>
     (k, Some q) \<in> set (planned_states P S (block_index t)) \<and> fst k = x"
  by (cases t) (use assms in \<open>auto simp: set_distributed_blocks\<close>)

text \<open>A transaction that accesses what another one declares or writes declares it, and so does the other one.\<close>

definition declared_accesses :: "('o \<times> version) list list \<Rightarrow> (nat \<Rightarrow> 'o set) \<Rightarrow> (nat \<Rightarrow> 'o set) \<Rightarrow> bool" where
  "declared_accesses S R W \<longleftrightarrow>
     (\<forall>i < length S. \<forall>j < length S. i \<noteq> j \<longrightarrow>
        (\<forall>x \<in> R j \<union> W j. x \<in> objects_of S i \<or> x \<in> W i \<longrightarrow> x \<in> objects_of S i \<and> x \<in> objects_of S j))"

lemma declared_accessesD:
  assumes "declared_accesses S R W" "i < length S" "j < length S" "i \<noteq> j" "x \<in> R j \<or> x \<in> W j" "x \<in> objects_of S i \<or> x \<in> W i"
  shows "x \<in> objects_of S i" "x \<in> objects_of S j"
  using assms unfolding declared_accesses_def by blast+

lemma execute_depends:
  assumes nxt: "\<forall>v. v < nxt v" and ok: "schedule_ok nxt S" and ob: "one_before_laws nxt ob" and D: "D = distributed_task nxt ob ver f P S"
    and T: "T = distributed_blocks P S" and j: "j < length S" and xv: "(x, v) \<in> set (S ! j)"
    and i: "i < j" "x \<in> objects_of S i" "produced nxt S i = v" "2 < v"
  shows "P ! i = P ! j \<Longrightarrow> (Execute i, Execute j) \<in> dep D T"
    and "P ! i \<noteq> P ! j \<Longrightarrow> (Execute i, ServeFor j (P ! i) (x, v)) \<in> dep D T"
proof -
  have mem: "Execute i \<in> set T" "Execute j \<in> set T" using i(1) j unfolding T by (simp_all add: set_distributed_blocks)
  have sig: "(False, x, v) \<in> set (td_fetch (D (Execute i)))" using i by (simp add: D block_fetches)
  show "(Execute i, Execute j) \<in> dep D T" if "P ! i = P ! j"
  proof -
    have "(True, x, v) \<in> set (td_fetch (D (Execute j)))" using i xv by (simp add: D block_fetches)
    then show ?thesis using sig mem that unfolding dep_def by (auto simp: D)
  qed
  show "(Execute i, ServeFor j (P ! i) (x, v)) \<in> dep D T" if "P ! i \<noteq> P ! j"
  proof -
    have "ServeFor j (P ! i) (x, v) \<in> set T" using planned_migration[OF nxt ok j xv i(1-3) that] j unfolding T by (simp add: set_distributed_blocks)
    moreover have "(True, x, v) \<in> set (td_fetch (D (ServeFor j (P ! i) (x, v))))" using i by (simp add: D block_fetches)
    ultimately show ?thesis using sig mem unfolding dep_def by (auto simp: D)
  qed
qed

lemma migration_depends:
  assumes nxt: "\<forall>v. v < nxt v" and ok: "schedule_ok nxt S" and ob: "one_before_laws nxt ob" and D: "D = distributed_task nxt ob ver f P S"
    and T: "T = distributed_blocks P S" and mem: "ServeFor j q k \<in> set T \<or> InstallFor j q k \<in> set T"
  shows "(ServeFor j q k, InstallFor j q k) \<in> dep D T" "(InstallFor j q k, Execute j) \<in> dep D T"
proof -
  obtain x v where k: "k = (x, v)" by (cases k)
  have j: "j < length S" "((x, v), Some q) \<in> set (planned_states P S j)" using mem unfolding T k by (auto simp: set_distributed_blocks)
  have mem': "ServeFor j q k \<in> set T" "InstallFor j q k \<in> set T" "Execute j \<in> set T" using j unfolding T k by (simp_all add: set_distributed_blocks)
  note p = planned_sourceD[OF nxt ok j]
  show "(ServeFor j q k, InstallFor j q k) \<in> dep D T" using mem' unfolding dep_def by (auto simp: D)
  have "(False, x, v) \<in> set (td_fetch (D (InstallFor j q k)))" using p ob by (simp add: D k block_fetches)
  moreover have "(True, x, v) \<in> set (td_fetch (D (Execute j)))" using p by (simp add: D block_fetches)
  ultimately show "(InstallFor j q k, Execute j) \<in> dep D T" using mem' unfolding dep_def by (auto simp: D)
qed

lemma block_chain:
  assumes nxt: "\<forall>v. v < nxt v" and ok: "schedule_ok nxt S" and ob: "one_before_laws nxt ob" and D: "D = distributed_task nxt ob ver f P S"
    and T: "T = distributed_blocks P S"
    and "u \<in> set T" "x \<in> block_objects S u" "i < block_index u" "x \<in> objects_of S i"
  shows "(Execute i, u) \<in> (dep D T)\<^sup>+"
  using assms(6-)
proof (induction "block_index u" arbitrary: u rule: less_induct)
  case less
  define j where "j = block_index u"
  note deps = migration_depends[OF nxt ok ob D T] and exd = execute_depends[OF nxt ok ob D T]
  have j: "j < length S" using less.prems(1) unfolding T j_def by (rule distributed_block_cases) auto
  have "\<exists>v. (x, v) \<in> set (S ! j) \<and> (u = Execute j \<or>
      (\<exists>q. (u = ServeFor j q (x, v) \<or> u = InstallFor j q (x, v)) \<and> ((x, v), Some q) \<in> set (planned_states P S j)))"
    using less.prems(1)[unfolded T] less.prems(2) planned_sourceD(1)[OF nxt ok j]
    by (cases rule: distributed_block_cases) (auto simp: j_def objects_of_def)
  then obtain v where v: "(x, v) \<in> set (S ! j)" and u: "u = Execute j \<or>
      (\<exists>q. (u = ServeFor j q (x, v) \<or> u = InstallFor j q (x, v)) \<and> ((x, v), Some q) \<in> set (planned_states P S j))" by blast
  have ij: "i < j" using less.prems(3) by (simp add: j_def)
  obtain l where l: "l < j" "x \<in> objects_of S l" "produced nxt S l = v" "2 < v" "owner_before P S j x = Some (P ! l)" "i \<le> l"
    using required_state_producer[OF nxt ok j v, of P] owner_before_Some_iff[of P S j x] ij less.prems(4) by auto
  have q: "q = P ! l \<and> q \<noteq> P ! j" if "((x, v), Some q) \<in> set (planned_states P S j)" for q
    using that l(5) by (auto simp: planned_states_def split: if_splits)
  have last: "(Execute l, u) \<in> (dep D T)\<^sup>+"
  proof (cases "P ! l = P ! j")
    case True
    then have "u = Execute j" using u q by blast
    then show ?thesis using exd(1)[OF j v l(1-4) True] by blast
  next
    case False
    have s: "(Execute l, ServeFor j (P ! l) (x, v)) \<in> dep D T" by (rule exd(2)[OF j v l(1-4) False])
    then have "ServeFor j (P ! l) (x, v) \<in> set T" by (simp add: dep_def)
    then have d: "(Execute l, ServeFor j (P ! l) (x, v)) \<in> (dep D T)\<^sup>+" "(Execute l, InstallFor j (P ! l) (x, v)) \<in> (dep D T)\<^sup>+"
        "(Execute l, Execute j) \<in> (dep D T)\<^sup>+"
      using s deps[of j "P ! l" "(x, v)"] by (meson r_into_trancl trancl_into_trancl)+
    show ?thesis using u
    proof
      assume "\<exists>r. (u = ServeFor j r (x, v) \<or> u = InstallFor j r (x, v)) \<and> ((x, v), Some r) \<in> set (planned_states P S j)"
      then show ?thesis using d(1,2) q by blast
    qed (use d(3) in simp)
  qed
  show ?case
  proof (cases "i = l")
    case False
    have "Execute l \<in> set T" using l(1) j unfolding T by (simp add: set_distributed_blocks)
    then have "(Execute i, Execute l) \<in> (dep D T)\<^sup>+" using less.hyps[of "Execute l"] l less.prems(4) False by (simp add: j_def)
    then show ?thesis using last by (rule trancl_trans)
  qed (use last in simp)
qed

lemma meeting_blocks_ordered:
  assumes nxt: "\<forall>v. v < nxt v" and ok: "schedule_ok nxt S" and ob: "one_before_laws nxt ob" and D: "D = distributed_task nxt ob ver f P S"
    and T: "T = distributed_blocks P S" and t: "t \<in> set T" and u: "u \<in> set T" and ne: "t \<noteq> u"
    and x: "x \<in> block_objects S t" "x \<in> block_objects S u"
  shows "(t, u) \<in> (dep D T)\<^sup>+ \<or> (u, t) \<in> (dep D T)\<^sup>+"
proof -
  note deps = migration_depends[OF nxt ok ob D T]
  have down: "a = Execute (block_index a) \<or> (a, Execute (block_index a)) \<in> (dep D T)\<^sup>+" if "a \<in> set T" for a
  proof (cases a)
    case (ServeFor j q k)
    then show ?thesis using deps[of j q k] that by (auto intro: trancl_into_trancl[OF r_into_trancl])
  next
    case (InstallFor j q k)
    then show ?thesis using deps[of j q k] that by auto
  qed simp
  have dec: "y \<in> objects_of S (block_index a)" if a: "a \<in> set T" "y \<in> block_objects S a" for a y
    using a(1)[unfolded T] a(2) planned_sourceD(1)[OF nxt ok] by (cases rule: distributed_block_cases) (force simp: objects_of_def)+
  have less: "(a, b) \<in> (dep D T)\<^sup>+" if ab: "block_index a < block_index b" "a \<in> set T" "b \<in> set T" "x \<in> block_objects S a" "x \<in> block_objects S b" for a b
    using block_chain[OF nxt ok ob D T ab(3,5,1) dec[OF ab(2,4)]] down[OF ab(2)] by (metis trancl_trans)
  consider "block_index t < block_index u" | "block_index u < block_index t" | "block_index t = block_index u" by linarith
  then show ?thesis
  proof cases
    case 3
    have "q = r \<and> k = l" if "(k, Some q) \<in> set (planned_states P S j)" "(l, Some r) \<in> set (planned_states P S j)" "fst k = fst l" "j < length S" for j k l q r
    proof -
      obtain y v w where kl: "k = (y, v)" "l = (y, w)" using \<open>fst k = fst l\<close> by (cases k; cases l) auto
      have "v = w" using schedule_okD(1)[OF ok that(4)] planned_sourceD(1)[OF nxt ok that(4)] that(1,2) unfolding kl by (metis eq_key_imp_eq_value)
      then show ?thesis using that(1,2) planned_source_unique unfolding kl by metis
    qed
    note uniq = this
    obtain j where j: "block_index t = j" "block_index u = j" "j < length S" using t[unfolded T] 3 by (cases rule: distributed_block_cases) auto
    show ?thesis
    proof (cases "t = Execute j \<or> u = Execute j")
      case True
      then show ?thesis using down[OF t] down[OF u] ne j by auto
    next
      case False
      obtain k q where k: "t = ServeFor j q k \<or> t = InstallFor j q k" "(k, Some q) \<in> set (planned_states P S j)" "fst k = x"
        using migration_block[OF t[unfolded T] _ x(1)] False unfolding j by blast
      obtain l r where l: "u = ServeFor j r l \<or> u = InstallFor j r l" "(l, Some r) \<in> set (planned_states P S j)" "fst l = x"
        using migration_block[OF u[unfolded T] _ x(2)] False unfolding j by blast
      have "q = r \<and> k = l" using uniq[OF k(2) l(2) _ j(3)] k(3) l(3) by simp
      then have "(ServeFor j q k, InstallFor j q k) \<in> dep D T" "{t, u} = {ServeFor j q k, InstallFor j q k}"
        using deps(1)[of j q k] t k(1) l(1) ne by auto
      then show ?thesis by (auto simp: doubleton_eq_iff)
    qed
  qed (use less t u x in blast)+
qed

lemma conflict_meets:
  assumes nxt: "\<forall>v. v < nxt v" and ok: "schedule_ok nxt S" and da: "declared_accesses S R W"
    and t: "t \<in> set (distributed_blocks P S)" and u: "u \<in> set (distributed_blocks P S)" and ne: "t \<noteq> u"
    and c: "block_writes W P t \<inter> (block_reads R P u \<union> block_writes W P u) \<noteq> {}"
  shows "\<exists>x. x \<in> block_objects S t \<and> x \<in> block_objects S u"
proof -
  note dec = declared_accessesD[OF da]
  have mig: "x \<in> objects_of S j" if "((x, v), Some q) \<in> set (planned_states P S j)" "j < length S" for x v q j
    using planned_sourceD(1)[OF nxt ok that(2,1)] by (force simp: objects_of_def)
  show ?thesis
    using t
  proof (cases rule: distributed_block_cases)
    case (execute i)
    note i = this
    from u show ?thesis
    proof (cases rule: distributed_block_cases)
      case (execute j)
      then obtain x where "x \<in> W i" "x \<in> R j \<or> x \<in> W j" using c i by auto
      then show ?thesis using dec[of i j x] i execute ne by auto
    next
      case (serve j q x v)
      then have "x \<in> W i" using c i by auto
      then show ?thesis using dec[of j i x] mig[OF serve(3,2)] i serve by (cases "i = j") auto
    next
      case (install j q x v)
      then have "x \<in> W i" using c i by auto
      then show ?thesis using dec[of j i x] mig[OF install(3,2)] i install by (cases "i = j") auto
    qed
  next
    case (serve i q x v)
    from u show ?thesis by (cases rule: distributed_block_cases) (use serve c ne in auto)
  next
    case (install i q x v)
    note i = this
    from u show ?thesis
    proof (cases rule: distributed_block_cases)
      case (execute j)
      then have xj: "x \<in> R j \<or> x \<in> W j" using c i by auto
      have "x \<in> objects_of S j" using dec(2)[OF i(2) execute(2) _ xj] mig[OF i(3,2)] by (cases "i = j") blast+
      then show ?thesis using i(1) execute(1) by simp
    next
      case (serve j r y w)
      then show ?thesis using i c by simp
    next
      case (install j r y w)
      then show ?thesis using i c by simp
    qed
  qed
qed

lemma blocks_conflicts_ordered:
  assumes nxt: "\<forall>v. v < nxt v" and ok: "schedule_ok nxt S" and ob: "one_before_laws nxt ob" and D: "D = distributed_task nxt ob ver f P S"
    and da: "declared_accesses S R W"
  shows "conflicts_ordered D (distributed_blocks P S) (block_reads R P) (block_writes W P)"
  unfolding conflicts_ordered_def
proof (intro ballI impI)
  fix t u assume t: "t \<in> set (distributed_blocks P S)" and u: "u \<in> set (distributed_blocks P S)" and ne: "t \<noteq> u"
    and c: "conflict (block_reads R P) (block_writes W P) t u"
  have "\<exists>x. x \<in> block_objects S t \<and> x \<in> block_objects S u"
    using c conflict_meets[OF nxt ok da t u ne] conflict_meets[OF nxt ok da u t ne[symmetric]] unfolding conflict_def by blast
  then show "(t, u) \<in> (dep D (distributed_blocks P S))\<^sup>+ \<or> (u, t) \<in> (dep D (distributed_blocks P S))\<^sup>+"
    using meeting_blocks_ordered[OF nxt ok ob D refl t u ne] by blast
qed

end
