(* ===== verification/Distributed_Execution.thy ===== *)
theory Distributed_Execution
  imports Migration_Blocks Proxy_Execution
begin

text \<open>
  The proxies together.  Every transaction runs at the proxy that the forwarder chose for it; a state that another proxy holds is
  requested from there, served when the block that produces it is done, sent back and installed before the waiting block
  reads the store.  All these blocks, of all proxies, interleave freely; each proxy has its own controller and its own
  store, and a reply that is under way is a cell of its own.  Whatever the interleaving, every transaction computes what it
  computes in the sequential execution of consensus order on one store.
\<close>


section \<open>What the blocks read and write\<close>

lemma local_view_simps [simp]:
  "local_view p s x = s (ObjectAt p x)" "reply_content j s x = s (ReplyFor j x)"
  "local_writes p u (ObjectAt q x) = (if q = p then u x else None)" "local_writes p u (ReplyFor j x) = None"
  "reply_writes j u (ObjectAt q x) = None" "reply_writes j u (ReplyFor i x) = (if i = j then u x else None)"
  by (simp_all add: local_view_def reply_content_def local_writes_def reply_writes_def)

lemma dom_local_writes: "dom (local_writes p u) = ObjectAt p ` dom u"
  by (force simp: local_writes_def split: location.splits if_splits)

lemma dom_reply_writes: "dom (reply_writes j u) = ReplyFor j ` dom u"
  by (force simp: reply_writes_def split: location.splits if_splits)

lemma served_state:
  "map_of (collect_requested ver s [(x, v)] []) =
     (case s x of Some b \<Rightarrow> if ver b = v then [x \<mapsto> b] else Map.empty | None \<Rightarrow> Map.empty)"
  by (auto simp: fun_eq_iff map_of_collect_requested read_object_def split: option.split)


section \<open>The blocks are those of the handlers\<close>

lemma registration_fetches:
  assumes "initial_version c = 2" "xs \<noteq> []"
  shows "get_prior_dependency_and_update nxt c tid xs ip ig = fetch_all tid (dependency_fetches 2 (next_version nxt xs) ip ig xs) (c, [], [])"
  using assms by (simp add: get_prior_dependency_and_update_def calculate_next_version_eq dependency_loop_fetches)

lemma execute_block_registers:
  assumes "initial_version c = 2"
  shows "get_dependencies nxt rs c =
     and_then (fetch_all 0 (td_fetch (execute_block nxt f p rs)) (c, [], []))
       (\<lambda>(c, prior_handles, current_handles). Inr (c, map fst rs, prior_handles, current_handles))"
  using registration_fetches[OF assms, of "map fst rs" nxt 0 False False] by (simp add: get_dependencies_def execute_block_def Let_def)

lemma serve_block_registers:
  assumes "initial_version (px_stateful p) = 2"
  shows "handle_stateful_request nxt x [k] p =
     and_then (fetch_all 0 (td_fetch (serve_block nxt ver j q k)) (px_stateful p, [], []))
       (\<lambda>(c, prior_handles, _). Inr (spawn (ServeTask x prior_handles [k]) (p\<lparr>px_stateful := c\<rparr>)))"
  using registration_fetches[OF assms, of "[k]" nxt 0 False True] by (simp add: handle_stateful_request_def serve_block_def)

lemma install_block_registers:
  assumes "initial_version (px_stateful p) = 2" "one_before (version_of b) = Some u"
  shows "handle_stateful_reply nxt one_before version_of [(x, b)] p =
     and_then (fetch_all 0 (td_fetch (install_block nxt one_before j dest q (x, version_of b))) (px_stateful p, [], []))
       (\<lambda>(c, _, current_handles). Inr (spawn (InstallTask [(x, b)] current_handles) (p\<lparr>px_stateful := c\<rparr>)))"
  using registration_fetches[OF assms(1), of "[(x, u)]" nxt 0 True False] assms(2)
  by (simp add: handle_stateful_reply_def install_block_def unwrap_def)

lemma serve_block_replies:
  assumes "x \<in> px_connections p" "px_store p = local_view q s"
  shows "\<exists>objects. px_sent (run_serve ver x [k] p) = px_sent p @ [(x, Reply (StatefulReply objects))] \<and>
     reply_content j (td_body (serve_block nxt ver j q k) s) = map_of objects"
  using assms
  by (simp add: run_serve_def send_msg_to_proxy_def Let_def serve_block_def del: collect_requested.simps) (simp add: fun_eq_iff)

lemma install_block_commits:
  assumes "px_store w = local_view p s" "s (ReplyFor j x) = Some b"
  shows "px_store (run_install [(x, b)] w) = local_view p (s ++ td_body (install_block nxt ob j p q (x, v)) s)"
  using assms
  by (auto simp: run_install_def install_block_def fun_eq_iff commit_new_objects_eq map_add_def)


section \<open>Executors on several proxies\<close>

text \<open>The executors as the proxies use them: on objects with an order, which the replies are sorted by.\<close>

locale object_executor = transactional_executor run reads writes
  for run :: "'c \<Rightarrow> ('o::linorder \<rightharpoonup> 'b) \<Rightarrow> ('o \<rightharpoonup> 'b)" and reads :: "'c \<Rightarrow> 'o set" and writes :: "'c \<Rightarrow> 'o set"
begin

lemma block_footprints:
  assumes D: "D = distributed_task nxt ob ver (\<lambda>j. run (cmd j)) P S"
  shows "footprints D T (block_reads (\<lambda>j. reads (cmd j)) P) (block_writes (\<lambda>j. writes (cmd j)) P)"
  unfolding footprints_def
proof (intro ballI conjI allI impI)
  fix t and s s' :: "'o location \<rightharpoonup> 'b" assume eq: "\<forall>l \<in> block_reads (\<lambda>j. reads (cmd j)) P t. s l = s' l"
  show "td_body (D t) s = td_body (D t) s'"
  proof (cases t)
    case (Execute j)
    have "run (cmd j) (local_view (P ! j) s) = run (cmd j) (local_view (P ! j) s')" by (rule run_reads) (use eq Execute in simp)
    then show ?thesis by (simp add: D Execute execute_block_def Let_def)
  next
    case (ServeFor j q k)
    obtain x v where k: "k = (x, v)" by (cases k)
    show ?thesis using eq by (simp add: D ServeFor serve_block_def served_state k del: collect_requested.simps)
  next
    case (InstallFor j q k)
    have "reply_content j s |` {fst k} = reply_content j s' |` {fst k}" using eq InstallFor by (auto simp: restrict_map_def)
    then show ?thesis by (simp add: D InstallFor install_block_def)
  qed
next
  fix t and s :: "'o location \<rightharpoonup> 'b"
  show "dom (td_body (D t) s) \<subseteq> block_writes (\<lambda>j. writes (cmd j)) P t"
  proof (cases t)
    case (Execute j)
    show ?thesis using run_writes[of "cmd j"] by (simp add: D Execute execute_block_def Let_def dom_local_writes image_mono)
  next
    case (ServeFor j q k)
    obtain x v where k: "k = (x, v)" by (cases k)
    show ?thesis by (auto simp: D ServeFor serve_block_def served_state k dom_reply_writes simp del: collect_requested.simps split: option.splits if_splits)
  next
    case (InstallFor j q k)
    show ?thesis by (auto simp: D InstallFor install_block_def dom_local_writes)
  qed
qed

end


section \<open>One store for all proxies\<close>

text \<open>
  The reference: the transactions one after the other on one store.  The blocks in the order \<open>distributed_blocks\<close> keep the stores of
  the proxies in agreement with it: an object is current at the proxy of the last transaction that declared it, everywhere as long as
  nobody has written it, and at the proxy of its only writer when it is not shared.
\<close>

definition consensus_store :: "(nat \<Rightarrow> ('o, 'b) object_store \<Rightarrow> ('o, 'b) object_store) \<Rightarrow> ('o, 'b) object_store \<Rightarrow> nat \<Rightarrow> ('o, 'b) object_store" where
  "consensus_store f s0 k = fold (\<lambda>j s. s ++ f j s) [0..<k] s0"

definition initial_stores :: "('o, 'b) object_store \<Rightarrow> ('o location \<rightharpoonup> 'b)" where
  "initial_stores s0 = (\<lambda>l. case l of ObjectAt p x \<Rightarrow> s0 x | ReplyFor _ _ \<Rightarrow> None)"

lemma consensus_store_simps [simp]:
  "consensus_store f s0 0 = s0" "consensus_store f s0 (Suc k) = consensus_store f s0 k ++ f k (consensus_store f s0 k)"
  by (simp_all add: consensus_store_def)

lemma initial_stores_simps [simp]: "initial_stores s0 (ObjectAt p x) = s0 x" "initial_stores s0 (ReplyFor j x) = None"
  by (simp_all add: initial_stores_def)

definition stores_agree ::
  "proxy_id list \<Rightarrow> ('o \<times> version) list list \<Rightarrow> (nat \<Rightarrow> 'o set) \<Rightarrow> nat \<Rightarrow> ('o, 'b) object_store \<Rightarrow> ('o location \<rightharpoonup> 'b) \<Rightarrow> bool" where
  "stores_agree P S W k s M \<longleftrightarrow>
     (\<forall>x p. owner_before P S k x = Some p \<longrightarrow> M (ObjectAt p x) = s x) \<and>
     (\<forall>x p. (\<forall>i < k. x \<notin> W i) \<longrightarrow> M (ObjectAt p x) = s x) \<and>
     (\<forall>x. \<forall>i < k. x \<in> W i \<longrightarrow> x \<notin> objects_of S i \<longrightarrow> M (ObjectAt (P ! i) x) = s x)"

lemma stores_agreeD:
  assumes "stores_agree P S W k s M"
  shows "owner_before P S k x = Some p \<Longrightarrow> M (ObjectAt p x) = s x"
    and "\<forall>i < k. x \<notin> W i \<Longrightarrow> M (ObjectAt p x) = s x"
    and "i < k \<Longrightarrow> x \<in> W i \<Longrightarrow> x \<notin> objects_of S i \<Longrightarrow> M (ObjectAt (P ! i) x) = s x"
  using assms unfolding stores_agree_def by blast+

text \<open>The two phases of a migration.\<close>

lemma serve_step:
  assumes "D = distributed_task nxt ob ver f P S"
  shows "run_sequentially D (map (\<lambda>(k, q). ServeFor j q k) (ms @ [((y, w), r)])) M =
      (let N = run_sequentially D (map (\<lambda>(k, q). ServeFor j q k) ms) M in
       N ++ reply_writes j (case N (ObjectAt r y) of Some b \<Rightarrow> if ver b = w then [y \<mapsto> b] else Map.empty | None \<Rightarrow> Map.empty))"
  by (simp add: apply_task_def assms serve_block_def served_state Let_def del: collect_requested.simps)

lemma serve_phase:
  assumes D: "D = distributed_task nxt ob ver f P S"
  shows "run_sequentially D (map (\<lambda>(k, q). ServeFor j q k) ms) M (ObjectAt p y) = M (ObjectAt p y)"
    and "distinct (map (\<lambda>m. fst (fst m)) ms) \<Longrightarrow> ((x, v), q) \<in> set ms \<Longrightarrow> M (ObjectAt q x) = Some b \<Longrightarrow> ver b = v \<Longrightarrow>
      run_sequentially D (map (\<lambda>(k, q). ServeFor j q k) ms) M (ReplyFor j x) = Some b"
proof -
  show obj: "run_sequentially D (map (\<lambda>(k, q). ServeFor j q k) ms) M (ObjectAt p y) = M (ObjectAt p y)" for ms p y
  proof (induction ms rule: rev_induct)
    case (snoc m ms)
    obtain y w r where m: "m = ((y, w), r)" by (metis surj_pair)
    show ?case unfolding m serve_step[OF D] using snoc.IH by (simp add: Let_def map_add_def)
  qed simp
  assume "distinct (map (\<lambda>m. fst (fst m)) ms)" "((x, v), q) \<in> set ms" and b: "M (ObjectAt q x) = Some b" "ver b = v"
  then show "run_sequentially D (map (\<lambda>(k, q). ServeFor j q k) ms) M (ReplyFor j x) = Some b"
  proof (induction ms rule: rev_induct)
    case (snoc m ms)
    obtain y w r where m: "m = ((y, w), r)" by (metis surj_pair)
    show ?case
    proof (cases "x = y")
      case True
      then have "((x, v), q) = m" using snoc.prems(1,2) m by (force simp: image_iff)
      then show ?thesis unfolding m serve_step[OF D] using b obj[of ms q x] by (simp add: Let_def map_add_def)
    next
      case False
      then have "((x, v), q) \<in> set ms" using snoc.prems(2) m by auto
      then show ?thesis using snoc False unfolding m serve_step[OF D] by (auto simp: Let_def map_add_def split: option.split)
    qed
  qed simp
qed

lemma install_step:
  assumes "D = distributed_task nxt ob ver f P S"
  shows "run_sequentially D (map (\<lambda>(k, q). InstallFor j q k) (ms @ [((x, w), r)])) M =
      (let N = run_sequentially D (map (\<lambda>(k, q). InstallFor j q k) ms) M in N ++ local_writes (P ! j) (reply_content j N |` {x}))"
  by (simp add: apply_task_def assms install_block_def Let_def)

lemma install_phase:
  assumes D: "D = distributed_task nxt ob ver f P S"
  shows "run_sequentially D (map (\<lambda>(k, q). InstallFor j q k) ms) M (ReplyFor i y) = M (ReplyFor i y)"
    and "run_sequentially D (map (\<lambda>(k, q). InstallFor j q k) ms) M (ObjectAt p y) =
      (if p = P ! j \<and> y \<in> (\<lambda>m. fst (fst m)) ` set ms \<and> M (ReplyFor j y) \<noteq> None then M (ReplyFor j y) else M (ObjectAt p y))"
proof -
  show rep: "run_sequentially D (map (\<lambda>(k, q). InstallFor j q k) ms) M (ReplyFor i y) = M (ReplyFor i y)" for ms i y
  proof (induction ms rule: rev_induct)
    case (snoc m ms)
    obtain x w r where m: "m = ((x, w), r)" by (metis surj_pair)
    show ?case unfolding m install_step[OF D] using snoc.IH by (simp add: Let_def map_add_def)
  qed simp
  show "run_sequentially D (map (\<lambda>(k, q). InstallFor j q k) ms) M (ObjectAt p y) =
      (if p = P ! j \<and> y \<in> (\<lambda>m. fst (fst m)) ` set ms \<and> M (ReplyFor j y) \<noteq> None then M (ReplyFor j y) else M (ObjectAt p y))"
  proof (induction ms arbitrary: p y rule: rev_induct)
    case (snoc m ms)
    obtain x w r where m: "m = ((x, w), r)" by (metis surj_pair)
    show ?case
      unfolding m install_step[OF D]
      by (cases "y = x"; cases "M (ReplyFor j x)") (simp_all add: Let_def map_add_def restrict_map_def snoc.IH rep, auto)
  qed simp
qed

lemma distinct_missing_states:
  "distinct (map (\<lambda>m. fst (fst m)) rs) \<Longrightarrow> distinct (map (\<lambda>m. fst (fst m)) (missing_states rs))"
proof (induction rs)
  case (Cons r rs)
  have "fst (fst r) \<notin> (\<lambda>m. fst (fst m)) ` set (missing_states rs)"
  proof
    assume "fst (fst r) \<in> (\<lambda>m. fst (fst m)) ` set (missing_states rs)"
    then obtain k q where "(k, q) \<in> set (missing_states rs)" "fst (fst r) = fst k" by force
    then show False using Cons.prems by (force simp: set_missing_states)
  qed
  then show ?case using Cons by (cases r) (auto simp: missing_states_def map_filter_simps split: option.split)
qed (simp add: missing_states_def map_filter_simps)

lemma distinct_missing_objects:
  assumes "distinct (map fst (S ! j))"
  shows "distinct (map (\<lambda>m. fst (fst m)) (missing_states (planned_states P S j)))"
proof (rule distinct_missing_states)
  have "map (\<lambda>m. fst (fst m)) (planned_states P S j) = map fst (S ! j)" by (simp add: planned_states_def comp_def)
  then show "distinct (map (\<lambda>m. fst (fst m)) (planned_states P S j))" using assms by simp
qed

text \<open>After the migrations for a transaction, its proxy has the current state of what the transaction declares, and no agreement is lost.\<close>

lemma migration_agrees:
  assumes nxt: "\<forall>v. v < nxt v" and ok: "schedule_ok nxt S" and D: "D = distributed_task nxt ob ver f P S"
    and da: "declared_accesses S R W" and k: "k < length S" and ag: "stores_agree P S W k s M"
    and vs: "\<forall>x v. (x, v) \<in> set (S ! k) \<longrightarrow> (\<exists>b. s x = Some b \<and> ver b = v)"
  defines "N \<equiv> run_sequentially D (migration_blocks P S k) M"
  shows "M (ObjectAt p y) = s y \<Longrightarrow> N (ObjectAt p y) = s y"
    and "y \<in> objects_of S k \<Longrightarrow> N (ObjectAt (P ! k) y) = s y"
proof -
  let ?ms = "missing_states (planned_states P S k)"
  let ?M1 = "run_sequentially D (map (\<lambda>(k', q). ServeFor k q k') ?ms) M"
  have N: "N (ObjectAt p y) = (if p = P ! k \<and> y \<in> (\<lambda>m. fst (fst m)) ` set ?ms \<and> ?M1 (ReplyFor k y) \<noteq> None then ?M1 (ReplyFor k y) else M (ObjectAt p y))" for p y
    unfolding N_def migration_blocks_def Let_def run_sequentially_append
      install_phase(2)[OF D, of k ?ms ?M1 p y] serve_phase(1)[OF D, of k ?ms M p y] ..
  have rep: "?M1 (ReplyFor k y) = s y \<and> s y \<noteq> None" if y: "y \<in> (\<lambda>m. fst (fst m)) ` set ?ms" for y
  proof -
    obtain v q where q: "((y, v), q) \<in> set ?ms" using y by force
    then have src: "((y, v), Some q) \<in> set (planned_states P S k)" by (simp add: set_missing_states)
    then have o: "owner_before P S k y = Some q" by (auto simp: planned_states_def split: option.splits if_splits)
    obtain b where b: "s y = Some b" "ver b = v" using vs planned_sourceD(1)[OF nxt ok k src] by blast
    have "M (ObjectAt q y) = Some b" using stores_agreeD(1)[OF ag o] b(1) by simp
    then show ?thesis using serve_phase(2)[OF D distinct_missing_objects[OF schedule_okD(1)[OF ok k]] q _ b(2)] b(1) by simp
  qed
  show keep: "N (ObjectAt p y) = s y" if "M (ObjectAt p y) = s y" for p y using N[of p y] rep[of y] that by auto
  assume y: "y \<in> objects_of S k"
  then obtain v where v: "(y, v) \<in> set (S ! k)" by (auto simp: objects_of_def)
  show "N (ObjectAt (P ! k) y) = s y"
  proof (cases "owner_before P S k y")
    case None
    have "y \<notin> W i" if "i < k" for i
    proof
      assume "y \<in> W i"
      then have "y \<in> objects_of S i" using declared_accessesD(2)[OF da k, of i y] that k y by auto
      then show False using None that owner_before_Some_iff[of P S k y] by auto
    qed
    then show ?thesis by (intro keep stores_agreeD(2)[OF ag]) blast
  next
    case (Some q)
    show ?thesis
    proof (cases "q = P ! k")
      case True
      then show ?thesis using stores_agreeD(1)[OF ag Some] keep by simp
    next
      case False
      then have "((y, v), Some q) \<in> set (planned_states P S k)" using v Some by (force simp: planned_states_def)
      then have "y \<in> (\<lambda>m. fst (fst m)) ` set ?ms" unfolding set_missing_states[symmetric] by force
      then show ?thesis using N[of "P ! k" y] rep by simp
    qed
  qed
qed

context object_executor begin

lemma transaction_agrees:
  assumes nxt: "\<forall>v. v < nxt v" and ok: "schedule_ok nxt S" and D: "D = distributed_task nxt ob ver (\<lambda>j. run (cmd j)) P S"
    and da: "declared_accesses S (\<lambda>j. reads (cmd j)) (\<lambda>j. writes (cmd j))" and k: "k < length S"
    and ag: "stores_agree P S (\<lambda>j. writes (cmd j)) k s M"
    and vs: "\<forall>x v. (x, v) \<in> set (S ! k) \<longrightarrow> (\<exists>b. s x = Some b \<and> ver b = v)"
  shows "td_body (D (Execute k)) (run_sequentially D (migration_blocks P S k) M) = local_writes (P ! k) (run (cmd k) s)"
    and "stores_agree P S (\<lambda>j. writes (cmd j)) (Suc k) (s ++ run (cmd k) s) (run_sequentially D (blocks_of P S k) M)"
proof -
  let ?N = "run_sequentially D (migration_blocks P S k) M" and ?u = "run (cmd k) s" and ?W = "\<lambda>j. writes (cmd j)"
  note mig = migration_agrees[OF nxt ok D da k ag vs] and dec = declared_accessesD[OF da]
  have quiet: "?N (ObjectAt p y) = s y" if "\<forall>i < k. y \<notin> ?W i" for p y
    by (rule mig(1)[OF stores_agreeD(2)[OF ag that]])
  have own: "y \<notin> ?W i" if "y \<in> reads (cmd k) \<or> y \<in> ?W k" "y \<notin> objects_of S k" "i < k" for y i
    using dec(2)[of i k y] that k by auto
  have view: "local_view (P ! k) ?N y = s y" if "y \<in> reads (cmd k)" for y
    using mig(2)[of y] quiet[of y "P ! k"] own[of y] that by (cases "y \<in> objects_of S k") auto
  have "run (cmd k) (local_view (P ! k) ?N) = ?u" by (rule run_reads) (rule view)
  then show body: "td_body (D (Execute k)) ?N = local_writes (P ! k) ?u"
    by (simp add: D execute_block_def Let_def)
  have M': "run_sequentially D (blocks_of P S k) M = ?N ++ local_writes (P ! k) ?u"
    by (simp add: blocks_of_def apply_task_def body)
  have u: "?u y = None" if "y \<notin> ?W k" for y using run_writes[of "cmd k" s] that by auto
  show "stores_agree P S ?W (Suc k) (s ++ ?u) (run_sequentially D (blocks_of P S k) M)"
    unfolding stores_agree_def M'
  proof (intro conjI allI impI)
    fix y p assume o: "owner_before P S (Suc k) y = Some p"
    show "(?N ++ local_writes (P ! k) ?u) (ObjectAt p y) = (s ++ ?u) y"
    proof (cases "y \<in> objects_of S k")
      case True
      then show ?thesis using o mig(2)[OF True] by (simp add: map_add_def split: option.split)
    next
      case False
      then have o': "owner_before P S k y = Some p" using o by simp
      then obtain i where i: "i < k" "y \<in> objects_of S i" using owner_before_Some_iff[of P S k y] by auto
      have "y \<notin> ?W k" using dec(2)[of i k y] i k False by auto
      then show ?thesis using u[of y] mig(1)[OF stores_agreeD(1)[OF ag o']] by (auto simp: map_add_def)
    qed
  next
    fix y p assume "\<forall>i < Suc k. y \<notin> ?W i"
    then show "(?N ++ local_writes (P ! k) ?u) (ObjectAt p y) = (s ++ ?u) y" using quiet[of y p] u[of y] by (auto simp: map_add_def)
  next
    fix y i assume i: "i < Suc k" and y: "y \<in> ?W i" "y \<notin> objects_of S i"
    show "(?N ++ local_writes (P ! k) ?u) (ObjectAt (P ! i) y) = (s ++ ?u) y"
    proof (cases "i = k")
      case True
      then show ?thesis using quiet[of y "P ! k"] own[of y] y by (simp add: map_add_def split: option.split)
    next
      case False
      then have "i < k" using i by simp
      moreover have "y \<notin> ?W k" using dec(1)[of i k y] y k \<open>i < k\<close> by auto
      ultimately show ?thesis using u[of y] mig(1)[OF stores_agreeD(3)[OF ag _ y]] by (auto simp: map_add_def)
    qed
  qed
qed

lemma prefix_agrees:
  assumes nxt: "\<forall>v. v < nxt v" and ok: "schedule_ok nxt S" and D: "D = distributed_task nxt ob ver (\<lambda>j. run (cmd j)) P S"
    and da: "declared_accesses S (\<lambda>j. reads (cmd j)) (\<lambda>j. writes (cmd j))"
    and vs: "\<forall>k < length S. \<forall>x v. (x, v) \<in> set (S ! k) \<longrightarrow> (\<exists>b. consensus_store (\<lambda>j. run (cmd j)) s0 k x = Some b \<and> ver b = v)"
    and k: "k \<le> length S"
  shows "stores_agree P S (\<lambda>j. writes (cmd j)) k (consensus_store (\<lambda>j. run (cmd j)) s0 k)
     (run_sequentially D (concat (map (blocks_of P S) [0..<k])) (initial_stores s0))"
  using k
proof (induction k)
  case 0
  then show ?case by (simp add: stores_agree_def)
next
  case (Suc k)
  then have kl: "k < length S" by simp
  show ?case
    using transaction_agrees(2)[OF nxt ok D da kl Suc.IH[OF less_imp_le[OF kl]]] vs kl
    by (simp add: run_sequentially_append)
qed

text \<open>
  Distributed execution: every block that has read has the result of the sequential execution; the reply to a request is the
  requested state; and the stores of a finished execution hold the states of the sequential execution.
\<close>

lemma distributed_serializable:
  assumes nxt: "\<forall>v. v < nxt v" and ok: "schedule_ok nxt S" and ob: "one_before_laws nxt ob" and laws: "notify_laws N"
    and D: "D = distributed_task nxt ob ver (\<lambda>j. run (cmd j)) P S" and T: "T = distributed_blocks P S"
    and da: "declared_accesses S (\<lambda>j. reads (cmd j)) (\<lambda>j. writes (cmd j))"
    and vs: "\<forall>k < length S. \<forall>x v. (x, v) \<in> set (S ! k) \<longrightarrow> (\<exists>b. consensus_store (\<lambda>j. run (cmd j)) s0 k x = Some b \<and> ver b = v)"
    and reach: "reachable N D T (initial_stores s0) s"
  shows "j < length S \<Longrightarrow> dn D s (Execute j) Read \<Longrightarrow>
      pending s (Execute j) = local_writes (P ! j) (run (cmd j) (consensus_store (\<lambda>j. run (cmd j)) s0 j))"
    and "ServeFor j q (x, v) \<in> set T \<Longrightarrow> dn D s (ServeFor j q (x, v)) Read \<Longrightarrow>
      \<exists>b. pending s (ServeFor j q (x, v)) = [ReplyFor j x \<mapsto> b] \<and> consensus_store (\<lambda>j. run (cmd j)) s0 j x = Some b \<and> ver b = v"
    and "\<forall>t \<in> set T. finished D s t \<Longrightarrow>
      stores_agree P S (\<lambda>j. writes (cmd j)) (length S) (consensus_store (\<lambda>j. run (cmd j)) s0 (length S)) (sys_store s)"
proof -
  let ?W = "\<lambda>j. writes (cmd j)" and ?R = "\<lambda>j. reads (cmd j)" and ?st = "consensus_store (\<lambda>j. run (cmd j)) s0"
  note ser = read_serializable[OF reach distributed_tasks_wf[OF nxt ok ob D, folded T] laws block_footprints[OF D]
      blocks_conflicts_ordered[OF nxt ok ob D da, folded T]]
    and fin = serializable(1)[OF reach distributed_tasks_wf[OF nxt ok ob D, folded T] laws block_footprints[OF D]
      blocks_conflicts_ordered[OF nxt ok ob D da, folded T]]
  note ag = prefix_agrees[OF nxt ok D da vs]
  have split: "T = concat (map (blocks_of P S) [0..<j]) @ migration_blocks P S j @ Execute j # concat (map (blocks_of P S) [Suc j..<length S])" if "j < length S" for j
  proof -
    have "[0..<length S] = [0..<j] @ j # [Suc j..<length S]" using that by (metis le0 le_eq_less_or_eq upt_add_eq_append upt_rec zero_less_iff_neq_zero less_imp_add_positive)
    then show ?thesis by (simp add: T distributed_blocks_def blocks_of_def)
  qed
  show "pending s (Execute j) = local_writes (P ! j) (run (cmd j) (?st j))" if j: "j < length S" and rd: "dn D s (Execute j) Read"
    using ser[OF rd, of "concat (map (blocks_of P S) [0..<j]) @ migration_blocks P S j"] split[OF j]
      transaction_agrees(1)[OF nxt ok D da j ag[OF less_imp_le[OF j]]] vs j
    by (simp add: run_sequentially_append)
  show "\<exists>b. pending s (ServeFor j q (x, v)) = [ReplyFor j x \<mapsto> b] \<and> ?st j x = Some b \<and> ver b = v"
    if mem: "ServeFor j q (x, v) \<in> set T" and rd: "dn D s (ServeFor j q (x, v)) Read"
  proof -
    have j: "j < length S" and src: "((x, v), Some q) \<in> set (planned_states P S j)" using mem unfolding T by (simp_all add: set_distributed_blocks)
    let ?ms = "missing_states (planned_states P S j)" and ?M = "run_sequentially D (concat (map (blocks_of P S) [0..<j])) (initial_stores s0)"
    have "((x, v), q) \<in> set ?ms" using src by (simp add: set_missing_states)
    then obtain as bs where ms: "?ms = as @ ((x, v), q) # bs" by (metis split_list)
    have "T = (concat (map (blocks_of P S) [0..<j]) @ map (\<lambda>(k, q). ServeFor j q k) as) @ ServeFor j q (x, v) #
        (map (\<lambda>(k, q). ServeFor j q k) bs @ map (\<lambda>(k, q). InstallFor j q k) ?ms @ Execute j # concat (map (blocks_of P S) [Suc j..<length S]))"
      using split[OF j] by (simp add: migration_blocks_def Let_def ms)
    note p = ser[OF rd this, unfolded run_sequentially_append]
    have o: "owner_before P S j x = Some q" using src by (auto simp: planned_states_def split: option.splits if_splits)
    obtain b where b: "?st j x = Some b" "ver b = v" using vs j planned_sourceD(1)[OF nxt ok j src] by blast
    have "run_sequentially D (map (\<lambda>(k, q). ServeFor j q k) as) ?M (ObjectAt q x) = Some b"
      using serve_phase(1)[OF D, of j as ?M q x] stores_agreeD(1)[OF ag[OF less_imp_le[OF j]] o] b(1) by simp
    then have "pending s (ServeFor j q (x, v)) = reply_writes j [x \<mapsto> b]"
      using p b(2) by (simp add: D serve_block_def served_state del: collect_requested.simps)
    moreover have "reply_writes j [x \<mapsto> b] = [ReplyFor j x \<mapsto> b]" by (rule ext) (simp add: reply_writes_def split: location.split)
    ultimately show ?thesis using b by simp
  qed
  show "stores_agree P S ?W (length S) (?st (length S)) (sys_store s)" if "\<forall>t \<in> set T. finished D s t"
    using ag[OF order_refl] fin[OF that] by (simp add: T distributed_blocks_def)
qed

end


section \<open>The fake executor on several proxies\<close>

interpretation dfx: object_executor
  "\<lambda>(verified, t). stateful_updates (fake_ops nxt Ob mk vf) verified t" fake_footprint fake_footprint
  for nxt and Ob :: "('o::linorder, 'b, 'w) object_api" and mk vf
  by unfold_locales


definition proxies_tasks ::
  "(version \<Rightarrow> version) \<Rightarrow> (version \<Rightarrow> version option) \<Rightarrow> ('b \<Rightarrow> version) \<Rightarrow> ('t, 'd, 'o, 'u, 'b) executor_ops \<Rightarrow>
   (('t, 'o) txn_ts \<times> ('o::linorder \<times> version) list) list \<Rightarrow> proxy_id list \<Rightarrow>
   'o block \<Rightarrow> ('o block, proxy_id, 'o, 'o location, 'b) task_desc" where
  "proxies_tasks nxt one_before version_of E sent Q =
     distributed_task nxt one_before version_of
       (\<lambda>j. stateful_updates E (stateless_verified E NoSeparation (fst (sent ! j)) None) (fst (sent ! j))) Q (map snd sent)"

abbreviation proxies_blocks :: "(('t, 'o) txn_ts \<times> ('o \<times> version) list) list \<Rightarrow> proxy_id list \<Rightarrow> 'o block list" where
  "proxies_blocks sent Q \<equiv> distributed_blocks Q (map snd sent)"

lemma consensus_store_proxy:
  "consensus_store (\<lambda>j. stateful_updates E (stateless_verified E NoSeparation (fst (sent ! j)) None) (fst (sent ! j))) s0 k =
     run_sequentially (proxy_tasks nxt E sent) [0..<k] s0"
  by (induction k) (simp_all add: apply_task_def proxy_tasks_schedule)

lemma fake_declared_accesses:
  assumes "assigned_workload nxt Ob s0 sent"
  shows "declared_accesses (map snd sent) (\<lambda>j. fake_footprint (v j, fst (sent ! j))) (\<lambda>j. fake_footprint (v j, fst (sent ! j)))"
  unfolding declared_accesses_def
proof (intro allI impI ballI)
  let ?S = "map snd sent"
  have foot: "fake_footprint (w, fst (sent ! j)) = fake_footprint (True, fst (sent ! j))" for w j by (simp add: fake_footprint_def)
  fix i j x assume ij: "i < length ?S" "j < length ?S" "i \<noteq> j"
    and x: "x \<in> fake_footprint (v j, fst (sent ! j)) \<union> fake_footprint (v j, fst (sent ! j))"
      "x \<in> objects_of ?S i \<or> x \<in> fake_footprint (v i, fst (sent ! i))"
  have l: "i < length sent" "j < length sent" using ij by simp_all
  have "x \<in> fake_footprint (True, fst (sent ! i))" "x \<in> fake_footprint (True, fst (sent ! j))"
    using x assigned_shared_input[OF assms l(1), of x] foot[of "v i" i] foot[of "v j" j] by blast+
  then show "x \<in> objects_of ?S i \<and> x \<in> objects_of ?S j"
    using assigned_workloadD(4)[OF assms l(1), of j x] assigned_workloadD(4)[OF assms l(2), of i x] ij(3) l
    by (cases i j rule: linorder_cases) (simp_all add: objects_of_def)
qed

lemma fake_required_present:
  fixes Ob :: "('o::linorder, 'b, 'w) object_api"
  assumes nxt: "\<forall>v. v < nxt v" and laws: "object_laws Ob" and aw: "assigned_workload nxt Ob s0 sent"
    and E: "E = fake_ops nxt Ob mk vf" and ver: "\<And>j. j < length sent \<Longrightarrow> vf (mk (fst (sent ! j)))"
    and k: "k < length sent" and xv: "(x, v) \<in> set (map snd sent ! k)"
  shows "\<exists>b. run_sequentially (proxy_tasks nxt E sent) [0..<k] s0 x = Some b \<and> ob_version Ob b = v"
proof -
  let ?S = "map snd sent"
  have ok: "schedule_ok nxt ?S" using aw by (simp add: assigned_workload_def)
  have x: "x \<in> objects_of ?S k" using xv k by (force simp: objects_of_def)
  obtain r where "r \<in> set (ft_inputs (transaction (fst (sent ! k))))" "kind_object_id r = x" using assigned_shared_input[OF aw k x] by blast
  then have "s0 x \<noteq> None" using assigned_workloadD(3)[OF aw k, of r] by auto
  then obtain b where b: "run_sequentially (proxy_tasks nxt E sent) [0..<k] s0 x = Some b"
    using sequential_prefix[OF nxt laws aw E refl ver less_imp_le[OF k]] by blast
  then have "ob_version Ob b = version_before nxt ?S k x"
    using sequential_prefix[OF nxt laws aw E refl ver less_imp_le[OF k]] x k by blast
  then show ?thesis using b required_version[OF nxt ok _ xv] k by simp
qed


lemma forwarded_log:
  assumes nxt: "\<forall>v. v < nxt v" and sched: "schedule_ok nxt (map snd sent)"
    and fw: "forwarder_ok f" "fw_states_to_proxy f = Map.empty" "fw_sent f = []"
    and f': "forward_sequence nxt digest mk (process_shared_txns sent) f = Inr f'" and Q: "Q = map fst (stateful_log f')"
  shows "stateful_log f' = map (\<lambda>i. (Q ! i, fst (sent ! i), planned_states Q (map snd sent) i)) [0..<length sent]"
proof -
  obtain P where P: "length P = length sent"
      "stateful_log f' = stateful_log f @ map (\<lambda>i. (P ! i, fst (sent ! i), planned_states P (map snd sent) i)) [0..<length sent]"
    using forward_sequence_plan[OF nxt sched fw(1,2), of digest mk] f' by auto
  have "stateful_log f = []" using fw(3) by (simp add: stateful_log_def map_filter_simps)
  then have "Q = P" using P unfolding Q by (simp add: comp_def) (metis map_nth)
  then show ?thesis using P(2) \<open>stateful_log f = []\<close> by simp
qed

text \<open>
  C1. The proxies together execute in consensus order.  Take any batches that consensus delivers, the versions that the primary assigns
  and the messages of the forwarder, and let every proxy start with the same store.  The forwarder sends transaction \<open>i\<close> to the proxy
  \<open>Q ! i\<close> with a source for every state that another proxy holds.  Let \<open>\<sigma> j\<close> be the store after the first \<open>j\<close> transactions, executed one after the
  other on one store, where none panics or is skipped.  In every state that the blocks of all proxies can reach, with the requests
  and replies for migrating states under way in any order: a transaction that has read computes exactly the updates that it has on \<open>\<sigma> j\<close>; a reply to a
  request holds exactly the requested state, at the requested version, so no reply is empty; and when all blocks are finished, every object that
  a transaction used is, at the proxy that used it last, as in the sequential execution and at the version that the primary recorded.
\<close>

theorem distributed_execution_is_sequential:
  fixes Ob :: "('o::linorder, 'b, 'w) object_api"
  assumes nxt: "\<forall>v. v < nxt v" and laws: "object_laws Ob" "notify_laws N" "one_before_laws nxt ob"
    and wl: "fake_workload Ob s0 (concat batches)"
    and sent: "process_version_assignments nxt Map.empty batches = (m, sent)"
    and E: "E = fake_ops nxt Ob mk vf" and ver: "\<forall>j < length sent. vf (mk (fst (sent ! j)))"
    and fw: "forwarder_ok f" "fw_states_to_proxy f = Map.empty" "fw_sent f = []"
    and f': "forward_sequence nxt digest mk (process_shared_txns sent) f = Inr f'" and Q: "Q = map fst (stateful_log f')"
    and D: "D = proxies_tasks nxt ob (ob_version Ob) E sent Q" and T: "T = proxies_blocks sent Q"
    and reach: "reachable N D T (initial_stores s0) s"
  shows "stateful_log f' = map (\<lambda>i. (Q ! i, fst (sent ! i), planned_states Q (map snd sent) i)) [0..<length sent] \<and>
      (\<exists>\<sigma>. (\<forall>j \<le> length sent. \<exists>rs. sequential_execution E NoSeparation s0 (map fst (take j sent)) = Inr (\<sigma> j, rs) \<and>
               (\<forall>r \<in> set rs. er_updates r \<noteq> None)) \<and>
         (\<forall>j < length sent. dn D s (Execute j) Read \<longrightarrow>
            pending s (Execute j) = local_writes (Q ! j) (stateful_updates E True (fst (sent ! j)) (\<sigma> j))) \<and>
         (\<forall>j q x v. ServeFor j q (x, v) \<in> set T \<longrightarrow> dn D s (ServeFor j q (x, v)) Read \<longrightarrow>
            (\<exists>b. pending s (ServeFor j q (x, v)) = [ReplyFor j x \<mapsto> b] \<and> \<sigma> j x = Some b \<and> ob_version Ob b = v)) \<and>
         ((\<forall>t \<in> set T. finished D s t) \<longrightarrow>
            (\<forall>x p. owner_before Q (map snd sent) (length sent) x = Some p \<longrightarrow>
               (\<exists>b. sys_store s (ObjectAt p x) = Some b \<and> \<sigma> (length sent) x = Some b \<and> ob_version Ob b = current_version m x))))"
proof -
  let ?S = "map snd sent" and ?D1 = "proxy_tasks nxt E sent"
  define cmd where "cmd j = (stateless_verified E NoSeparation (fst (sent ! j)) None, fst (sent ! j))" for j
  have aw: "assigned_workload nxt Ob s0 sent" and inv: "versions_inv nxt m ?S" using assigned_workloadI[OF nxt wl sent] .
  have ok: "schedule_ok nxt ?S" using inv by (simp add: versions_inv_def)
  have vf: "\<And>j. j < length sent \<Longrightarrow> vf (mk (fst (sent ! j)))" using ver by blast
  define \<sigma> where "\<sigma> k = run_sequentially ?D1 [0..<k] s0" for k
  note seq = sequential_prefix[OF nxt laws(1) aw E refl vf, folded \<sigma>_def]
  let ?run = "\<lambda>j. (\<lambda>(verified, t). stateful_updates (fake_ops nxt Ob mk vf) verified t) (cmd j)"
  have cs: "consensus_store ?run s0 k = \<sigma> k" for k
    using consensus_store_proxy[of E sent s0 k nxt] by (simp add: cmd_def \<sigma>_def E)
  have vs: "\<forall>k < length ?S. \<forall>x v. (x, v) \<in> set (?S ! k) \<longrightarrow> (\<exists>b. consensus_store ?run s0 k x = Some b \<and> ob_version Ob b = v)"
    using fake_required_present[OF nxt laws(1) aw E vf] unfolding cs \<sigma>_def by simp
  have da: "declared_accesses ?S (\<lambda>j. fake_footprint (cmd j)) (\<lambda>j. fake_footprint (cmd j))"
    unfolding cmd_def by (rule fake_declared_accesses[OF aw])
  have tv: "stateless_verified E NoSeparation (fst (sent ! j)) None" if "j < length sent" for j
    using vf[OF that] by (simp add: stateless_verified_def E)
  have D': "D = distributed_task nxt ob (ob_version Ob) ?run Q ?S" by (simp add: D proxies_tasks_def cmd_def E)
  note ser = dfx.distributed_serializable[OF nxt ok laws(3,2) D' T da vs reach, unfolded cs]
  have "\<exists>b. sys_store s (ObjectAt p x) = Some b \<and> \<sigma> (length sent) x = Some b \<and> ob_version Ob b = current_version m x"
    if fin: "\<forall>t \<in> set T. finished D s t" and o: "owner_before Q ?S (length sent) x = Some p" for x p
  proof -
    have "sys_store s (ObjectAt p x) = \<sigma> (length sent) x" using stores_agreeD(1)[OF ser(3)[OF fin]] o by simp
    moreover obtain i where i: "i < length sent" "x \<in> objects_of ?S i" using o owner_before_Some_iff[of Q ?S "length sent" x] by auto
    moreover obtain b where "\<sigma> (length sent) x = Some b" "ob_version Ob b = version_before nxt ?S (length sent) x"
    proof -
      obtain r where "r \<in> set (ft_inputs (transaction (fst (sent ! i))))" "kind_object_id r = x" using assigned_shared_input[OF aw i] by blast
      then have "s0 x \<noteq> None" using assigned_workloadD(3)[OF aw i(1), of r] by auto
      then show thesis using that seq[OF _ order_refl] i by blast
    qed
    ultimately show ?thesis using final_version[OF nxt inv, of x] by simp
  qed
  moreover have "pending s (Execute j) = local_writes (Q ! j) (stateful_updates E True (fst (sent ! j)) (\<sigma> j))"
    if "j < length sent" "dn D s (Execute j) Read" for j
    using ser(1)[OF _ that(2)] that(1) tv[OF that(1)] by (simp add: cmd_def E)
  ultimately show ?thesis
    using forwarded_log[OF nxt ok fw f' Q] seq ser(2) by (intro conjI exI[of _ \<sigma>]) blast+
qed

text \<open>The two transactions of the example on two proxies: the second one needs the state of object 7 from proxy 0.\<close>

definition example_forwarder :: "((nat, nat) fake_transaction, nat, nat) forwarder" where
  "example_forwarder =
     \<lparr>fw_connections = [1, 0], fw_routing_plan = Map.empty, fw_states_to_proxy = Map.empty, fw_stateless_table = Map.empty,
      fw_proxy_loads = Map.empty, fw_mode = NoSeparation, fw_policy = RSDS, fw_sent = []\<rparr>"

definition example_proxies :: "nat block \<Rightarrow> (nat block, proxy_id, nat, nat location, nat \<times> version \<times> nat option) task_desc" where
  "example_proxies = proxies_tasks Suc (\<lambda>v. Some (v - 1)) (ob_version plain_objects) example_ops example_sent [0, 1]"

lemma example_forwarder_ok: "forwarder_ok example_forwarder" "fw_states_to_proxy example_forwarder = Map.empty" "fw_sent example_forwarder = []"
  by (auto simp: forwarder_ok_def example_forwarder_def lessThan_Suc numeral_2_eq_2)

lemma example_one_before: "one_before_laws Suc (\<lambda>v. Some (v - 1))"
  by (simp add: one_before_laws_def)

lemma example_route:
  assumes "forward_sequence Suc (\<lambda>t. ft_digest (transaction t)) (\<lambda>t. SyntheticRequest (ft_digest (transaction t)) 0) (process_shared_txns example_sent) example_forwarder = Inr f'"
  shows "map fst (stateful_log f') = [0, 1]"
proof -
  obtain a b where s: "example_sent = [a, b]" using example_length by (metis (no_types) length_0_conv length_Suc_conv numeral_2_eq_2)
  show ?thesis
    using assms
    by (auto simp: s process_shared_txns_def example_forwarder_def process_forwarding_task_def choose_proxy_def fallback_proxy_def proxy_count_def
      send_to_proxy_def stateful_log_def map_filter_def and_then_eq_Inr Let_def split: prod.splits)
qed

lemma example_blocks: "ServeFor 1 0 (7, 3) \<in> set (proxies_blocks example_sent [0, 1])"
  "owner_before [0, 1] (map snd example_sent) 2 7 = Some 1"
  by (auto simp: set_distributed_blocks planned_states_def example_process(2) objects_of_def numeral_2_eq_2)


lemma example_schedule_ok: "schedule_ok Suc (map snd example_sent)"
  using versions_inv_process[OF _ versions_inv_init example_process(1) example_bt_wf] by (simp add: versions_inv_def)

lemma example_proxies_finish:
  "\<exists>s. reachable permit_bit example_proxies (proxies_blocks example_sent [0, 1]) (initial_stores example_store) s \<and>
     (\<forall>t \<in> set (proxies_blocks example_sent [0, 1]). finished example_proxies s t)"
proof -
  have "tasks_wf example_proxies (proxies_blocks example_sent [0, 1])"
    using distributed_tasks_wf[OF _ example_schedule_ok example_one_before] unfolding example_proxies_def proxies_tasks_def by blast
  then show ?thesis using all_executions_complete[OF reachable.init _ notify_laws_permit_bit] by blast
qed

theorem distributed_execution_is_sequential_witness:
  "\<exists>s b c. reachable permit_bit example_proxies (proxies_blocks example_sent [0, 1]) (initial_stores example_store) s \<and>
     pending s (ServeFor 1 0 (7, 3)) = [ReplyFor 1 7 \<mapsto> b] \<and> ob_version plain_objects b = 3 \<and>
     sys_store s (ObjectAt 1 7) = Some c \<and> ob_version plain_objects c = 4"
proof -
  let ?mk = "\<lambda>t :: ((nat, nat) fake_transaction, nat) txn_ts. SyntheticRequest (ft_digest (transaction t)) 0"
  obtain f' where f': "forward_sequence Suc (\<lambda>t. ft_digest (transaction t)) ?mk (process_shared_txns example_sent) example_forwarder = Inr f'"
    using forward_sequence_plan[OF _ example_schedule_ok example_forwarder_ok(1,2)] by blast
  obtain s where s: "reachable permit_bit example_proxies (proxies_blocks example_sent [0, 1]) (initial_stores example_store) s"
    "\<forall>t \<in> set (proxies_blocks example_sent [0, 1]). finished example_proxies s t" using example_proxies_finish by blast
  have all: "stateful_log f' = map (\<lambda>i. ([0, 1] ! i, fst (example_sent ! i), planned_states [0, 1] (map snd example_sent) i)) [0..<length example_sent] \<and>
      (\<exists>\<sigma>. (\<forall>j \<le> length example_sent. \<exists>rs. sequential_execution example_ops NoSeparation example_store (map fst (take j example_sent)) = Inr (\<sigma> j, rs) \<and>
               (\<forall>r \<in> set rs. er_updates r \<noteq> None)) \<and>
         (\<forall>j < length example_sent. dn example_proxies s (Execute j) Read \<longrightarrow>
            pending s (Execute j) = local_writes ([0, 1] ! j) (stateful_updates example_ops True (fst (example_sent ! j)) (\<sigma> j))) \<and>
         (\<forall>j q x v. ServeFor j q (x, v) \<in> set (proxies_blocks example_sent [0, 1]) \<longrightarrow> dn example_proxies s (ServeFor j q (x, v)) Read \<longrightarrow>
            (\<exists>b. pending s (ServeFor j q (x, v)) = [ReplyFor j x \<mapsto> b] \<and> \<sigma> j x = Some b \<and> ob_version plain_objects b = v)) \<and>
         ((\<forall>t \<in> set (proxies_blocks example_sent [0, 1]). finished example_proxies s t) \<longrightarrow>
            (\<forall>x p. owner_before [0, 1] (map snd example_sent) (length example_sent) x = Some p \<longrightarrow>
               (\<exists>b. sys_store s (ObjectAt p x) = Some b \<and> \<sigma> (length example_sent) x = Some b \<and>
                  ob_version plain_objects b = current_version [7 \<mapsto> 4, 9 \<mapsto> 4] x))))"
    by (rule distributed_execution_is_sequential[OF _ object_laws_plain notify_laws_permit_bit example_one_before example_workload
        example_process(1) example_ops_def _ example_forwarder_ok f' example_route[OF f', symmetric] example_proxies_def refl s(1)]) simp_all
  have "dn example_proxies s (ServeFor 1 0 (7, 3)) Read" using s(2) example_blocks(1) by (simp add: dn_finished set_prog)
  then obtain b where b: "pending s (ServeFor 1 0 (7, 3)) = [ReplyFor 1 7 \<mapsto> b]" "ob_version plain_objects b = 3"
    using all example_blocks(1) by blast
  have "owner_before [0, 1] (map snd example_sent) (length example_sent) 7 = Some 1" using example_blocks(2) by (simp add: example_length)
  then obtain c where "sys_store s (ObjectAt 1 7) = Some c" "ob_version plain_objects c = current_version [7 \<mapsto> 4, 9 \<mapsto> 4] (7 :: nat)"
    using all s(2) by blast
  moreover have "current_version [7 \<mapsto> 4, 9 \<mapsto> 4] (7 :: nat) = 4" by (simp add: current_version_def)
  ultimately show ?thesis using s(1) b by metis
qed



end
