(* ===== verification/Tpcc_Distributed.thy ===== *)
theory Tpcc_Distributed
  imports Tpcc_Proxy Distributed_Execution
begin

text \<open>
  TPC-C on several proxies: the objects of the access sets migrate between the proxies, the items are read from the copy that every
  proxy has.  The stores of the proxies together hold the database that the specification computes.
\<close>

interpretation dtx: object_executor
  "\<lambda>(verified, t). stateful_updates (tpcc_ops nxt bd A mk vf) verified t" "tpcc_reads A" tpcc_writes
  for nxt bd and A :: "('o::linorder, 'b, 'w, 'm, 'c) tpcc_api" and mk vf
  by unfold_locales

lemma tpcc_declared_accesses:
  assumes aw: "tpcc_assigned nxt A W sent" and inj: "inj_on (key_id A) (db_keys W)"
  shows "declared_accesses (map snd sent) (\<lambda>j. tpcc_reads A (v j, fst (sent ! j))) (\<lambda>j. tpcc_writes (v j, fst (sent ! j)))"
  unfolding declared_accesses_def
proof (intro allI impI ballI)
  let ?S = "map snd sent"
  fix i j x assume ij: "i < length ?S" "j < length ?S" "i \<noteq> j"
    and x: "x \<in> tpcc_reads A (v j, fst (sent ! j)) \<union> tpcc_writes (v j, fst (sent ! j))" "x \<in> objects_of ?S i \<or> x \<in> tpcc_writes (v i, fst (sent ! i))"
  have l: "i < length sent" "j < length sent" using ij by simp_all
  note I = tpcc_assigned_keys[OF aw l(1)] and J = tpcc_assigned_keys[OF aw l(2)]
  have xi: "x \<in> objects_of ?S i" using x(2) I(1) by blast
  moreover have "x \<in> objects_of ?S j"
  proof (rule ccontr)
    assume "x \<notin> objects_of ?S j"
    then have "x \<in> key_id A ` item_keys (te_txn (transaction (fst (sent ! j))))" using x(1) unfolding J(1,3) by blast
    then obtain k k' where k: "k \<in> item_keys (te_txn (transaction (fst (sent ! j))))" "k' \<in> access_keys (te_txn (transaction (fst (sent ! i))))" "key_id A k = key_id A k'"
      using xi unfolding I(2) by force
    then have "k = k'" using inj I(4) J(4) unfolding inj_on_def by blast
    then show False using k item_not_accessed by blast
  qed
  ultimately show "x \<in> objects_of ?S i \<and> x \<in> objects_of ?S j" by blast
qed

text \<open>The stores of the proxies as one: an object is taken from the proxy that used it last, and from \<open>p0\<close> if nobody did.\<close>

definition merged_store :: "proxy_id \<Rightarrow> proxy_id list \<Rightarrow> ('o \<times> version) list list \<Rightarrow> ('o location \<rightharpoonup> 'b) \<Rightarrow> ('o, 'b) object_store" where
  "merged_store p0 Q S s = (\<lambda>x. s (ObjectAt (case owner_before Q S (length S) x of Some p \<Rightarrow> p | None \<Rightarrow> p0) x))"

text \<open>
  C2. TPC-C on several proxies.  Initialise every proxy with the database of \<open>W\<close> warehouses, let consensus deliver any batches of at most \<open>2\<^sup>2\<^sup>4\<close>
  benchmark transactions, and let the transactions run at any proxies \<open>Q\<close>, with the objects of the access sets migrating between them.
  Whatever the interleaving of all blocks, when they are finished the stores of the proxies, each row taken from the proxy that used it last (or from
  any proxy \<open>p0\<close> if no transaction used it), are the store of executing the transactions one after the other in consensus order, in which
  none panics or is skipped; they hold exactly the rows that the specification computes from the initial rows; these
  rows satisfy the consistency conditions of the benchmark; and every object is at the version that the primary recorded for it.
\<close>

theorem tpcc_distributed_execution_consistent:
  fixes A :: "('o::linorder, 'b, 'w, 'm, 'c) tpcc_api"
  assumes nxt: "\<forall>v. v < nxt v" and laws: "tpcc_laws A" "notify_laws N" "one_before_laws nxt ob"
    and db: "inj_on (key_id A) (db_keys W)" "in_range gen" "W < 2 ^ 32" "init_objects A gen W (tpcc_store_new, g) = Inr (s0, g')"
    and wl: "tpcc_workload A W (concat batches)" "length (concat batches) \<le> 2 ^ 24"
    and sent: "process_version_assignments nxt Map.empty batches = (m, sent)"
    and E: "E = tpcc_ops nxt bd A mk vf" and ver: "\<forall>j < length sent. vf (mk (fst (sent ! j)))"
    and D: "D = proxies_tasks nxt ob (tp_version A) E sent Q" and T: "T = proxies_blocks sent Q"
    and reach: "reachable N D T (initial_stores s0) s"
    and fin: "\<forall>t \<in> set T. finished D s t"
  shows "\<exists>rs R0 R. sequential_execution E NoSeparation s0 (map fst sent) = Inr (merged_store p0 Q (map snd sent) (sys_store s), rs) \<and>
      (\<forall>r \<in> set rs. er_updates r \<noteq> None) \<and> represents A (db_keys W) s0 R0 \<and>
      tpcc_spec_run bd (map (te_txn \<circ> transaction) (concat batches)) R0 = Inr R \<and>
      represents A (db_keys W) (merged_store p0 Q (map snd sent) (sys_store s)) R \<and> db_ok W (length sent) R \<and>
      (\<forall>k \<in> db_keys W. \<forall>b. merged_store p0 Q (map snd sent) (sys_store s) (key_id A k) = Some b \<longrightarrow>
         tp_version A b = current_version m (key_id A k))"
proof -
  let ?S = "map snd sent" and ?D1 = "proxy_tasks nxt E sent"
  define cmd where "cmd j = (stateless_verified E NoSeparation (fst (sent ! j)) None, fst (sent ! j))" for j
  let ?run = "\<lambda>j. (\<lambda>(verified, t). stateful_updates (tpcc_ops nxt bd A mk vf) verified t) (cmd j)"
  define \<sigma> where "\<sigma> k = run_sequentially ?D1 [0..<k] s0" for k
  note aw = tpcc_assignedI[OF nxt wl(1) sent]
  have ok: "schedule_ok nxt ?S" using aw(1) by (simp add: tpcc_assigned_def)
  obtain R0 where w: "written A (db_keys W) s0" and R0: "represents A (db_keys W) s0 R0" "db_ok W 0 R0"
    using init_objects_database[OF laws(1) db(1-3), of g] db(4) by auto
  have two: "tp_version A b = 2" if "x \<in> key_id A ` db_keys W" "s0 x = Some b" for x b
    using w that unfolding written_def by fastforce
  have prefix: "\<exists>rs R. sequential_execution E NoSeparation s0 (map fst (take k sent)) = Inr (\<sigma> k, rs) \<and>
      (\<forall>r \<in> set rs. er_updates r \<noteq> None) \<and>
      tpcc_spec_run bd (map (te_txn \<circ> transaction \<circ> fst) (take k sent)) R0 = Inr R \<and>
      represents A (db_keys W) (\<sigma> k) R \<and> db_ok W k R \<and>
      (\<forall>x b. x \<in> key_id A ` db_keys W \<longrightarrow> \<sigma> k x = Some b \<longrightarrow> tp_version A b = version_before nxt ?S k x)" if "k \<le> length sent" for k
    unfolding \<sigma>_def
    by (rule tpcc_prefix[OF nxt laws(1) aw(1) R0 _ E refl]) (use two ver wl(2) aw(4) that in simp_all)
  have cs: "consensus_store ?run s0 k = \<sigma> k" for k
    using consensus_store_proxy[of E sent s0 k nxt] by (simp add: cmd_def \<sigma>_def E)
  have vs: "\<forall>k < length ?S. \<forall>x v. (x, v) \<in> set (?S ! k) \<longrightarrow> (\<exists>b. consensus_store ?run s0 k x = Some b \<and> tp_version A b = v)"
    unfolding cs
  proof (intro allI impI)
    fix k x v assume k: "k < length ?S" and xv: "(x, v) \<in> set (?S ! k)"
    obtain R where p: "represents A (db_keys W) (\<sigma> k) R" "db_ok W k R"
        "\<And>x b. x \<in> key_id A ` db_keys W \<Longrightarrow> \<sigma> k x = Some b \<Longrightarrow> tp_version A b = version_before nxt ?S k x"
      using prefix[of k] k by auto
    have "x \<in> objects_of ?S k" using xv by (force simp: objects_of_def)
    then have x: "x \<in> key_id A ` db_keys W" using tpcc_assigned_keys(2,4)[OF aw(1), of k] k by auto
    have "\<sigma> k x \<noteq> None" using representsD(2)[OF p(1)] x by force
    then show "\<exists>b. \<sigma> k x = Some b \<and> tp_version A b = v" using p(3)[OF x] required_version[OF nxt ok k xv] by auto
  qed
  have D': "D = distributed_task nxt ob (tp_version A) ?run Q ?S" by (simp add: D proxies_tasks_def cmd_def E)
  have da: "declared_accesses ?S (\<lambda>j. tpcc_reads A (cmd j)) (\<lambda>j. tpcc_writes (cmd j))"
    unfolding cmd_def by (rule tpcc_declared_accesses[OF aw(1) db(1)])
  note ag = dtx.distributed_serializable(3)[OF nxt ok laws(3,2) D' T da vs reach fin, unfolded cs]
  have st: "merged_store p0 Q ?S (sys_store s) = \<sigma> (length sent)"
  proof (rule ext)
    fix x
    show "merged_store p0 Q ?S (sys_store s) x = \<sigma> (length sent) x"
    proof (cases "owner_before Q ?S (length sent) x")
      case None
      then have "\<forall>i < length sent. x \<notin> tpcc_writes (cmd i)"
        using owner_before_Some_iff[of Q ?S "length sent" x] tpcc_assigned_keys(1)[OF aw(1)] unfolding cmd_def by auto
      then show ?thesis using stores_agreeD(2)[OF ag, of x p0] None by (simp add: merged_store_def)
    next
      case (Some p)
      then show ?thesis using stores_agreeD(1)[OF ag, of x p] by (simp add: merged_store_def)
    qed
  qed
  obtain rs R where
    rs: "sequential_execution E NoSeparation s0 (map fst sent) = Inr (\<sigma> (length sent), rs)" "\<forall>r \<in> set rs. er_updates r \<noteq> None"
      "tpcc_spec_run bd (map (te_txn \<circ> transaction \<circ> fst) sent) R0 = Inr R" "represents A (db_keys W) (\<sigma> (length sent)) R" "db_ok W (length sent) R"
      "\<And>x b. x \<in> key_id A ` db_keys W \<Longrightarrow> \<sigma> (length sent) x = Some b \<Longrightarrow> tp_version A b = version_before nxt ?S (length ?S) x"
    using prefix[OF order_refl] unfolding take_all[OF order_refl] length_map by blast
  have "tp_version A b = current_version m (key_id A k)" if "k \<in> db_keys W" "\<sigma> (length sent) (key_id A k) = Some b" for k b
    using rs(6)[OF imageI[OF that(1)] that(2)] final_version[OF nxt aw(2)] by simp
  then show ?thesis using rs(1-5) R0(1) unfolding aw(3) st by blast
qed


theorem tpcc_distributed_execution_consistent_witness:
  "\<exists>sent s0 s rs R.
     snd (process_version_assignments Suc Map.empty tpcc_example_batches) = sent \<and> length sent = 2 \<and>
     reachable permit_bit (proxies_tasks Suc (\<lambda>v. Some (v - 1)) (tp_version sample_api)
         (tpcc_ops Suc Debug sample_api (\<lambda>t. SyntheticRequest (te_digest (transaction t)) 0) (\<lambda>_. True)) sent [0, 1]) (proxies_blocks sent [0, 1]) (initial_stores s0) s \<and>
     sequential_execution (tpcc_ops Suc Debug sample_api (\<lambda>t. SyntheticRequest (te_digest (transaction t)) 0) (\<lambda>_. True)) NoSeparation s0 (map fst sent) =
       Inr (merged_store 0 [0, 1] (map snd sent) (sys_store s), rs) \<and>
     represents sample_api (db_keys 1) (merged_store 0 [0, 1] (map snd sent) (sys_store s)) R \<and> db_ok 1 2 R"
proof -
  let ?E = "tpcc_ops Suc Debug sample_api (\<lambda>t. SyntheticRequest (te_digest (transaction t)) 0) (\<lambda>_. True)"
  obtain m sent where p: "process_version_assignments Suc Map.empty tpcc_example_batches = (m, sent)" by fastforce
  let ?D = "proxies_tasks Suc (\<lambda>v. Some (v - 1)) (tp_version sample_api) ?E sent [0, 1]" and ?T = "proxies_blocks sent [0, 1]"
  have nxt: "\<forall>v. v < Suc v" by simp
  note aw = tpcc_assignedI[OF nxt tpcc_example_workload p]
  have r: "in_range sample_gen" by (simp add: in_range_def sample_gen_def)
  obtain s0 g' where i: "init_objects sample_api sample_gen 1 (tpcc_store_new, ()) = Inr (s0, g')"
    using init_objects_database[OF sample_api_laws sample_key_id_inj r, of 1 "()"] by auto
  have "schedule_ok Suc (map snd sent)" using aw(1) by (simp add: tpcc_assigned_def)
  then have "tasks_wf ?D ?T" unfolding proxies_tasks_def by (rule distributed_tasks_wf[OF nxt _ example_one_before refl])
  then obtain s where s: "reachable permit_bit ?D ?T (initial_stores s0) s" "\<forall>t \<in> set ?T. finished ?D s t"
    using all_executions_complete[OF reachable.init _ notify_laws_permit_bit] by blast
  have len: "length (concat tpcc_example_batches) = 2" by (simp add: tpcc_example_batches_def)
  have "\<exists>rs R0 R. sequential_execution ?E NoSeparation s0 (map fst sent) = Inr (merged_store 0 [0, 1] (map snd sent) (sys_store s), rs) \<and>
      (\<forall>r \<in> set rs. er_updates r \<noteq> None) \<and> represents sample_api (db_keys 1) s0 R0 \<and>
      tpcc_spec_run Debug (map (te_txn \<circ> transaction) (concat tpcc_example_batches)) R0 = Inr R \<and>
      represents sample_api (db_keys 1) (merged_store 0 [0, 1] (map snd sent) (sys_store s)) R \<and> db_ok 1 (length sent) R \<and>
      (\<forall>k \<in> db_keys 1. \<forall>b. merged_store 0 [0, 1] (map snd sent) (sys_store s) (key_id sample_api k) = Some b \<longrightarrow>
         tp_version sample_api b = current_version m (key_id sample_api k))"
    by (rule tpcc_distributed_execution_consistent[OF nxt sample_api_laws notify_laws_permit_bit example_one_before sample_key_id_inj r _ i
          tpcc_example_workload _ p refl _ refl refl s]) (use len in simp_all)
  then show ?thesis using p s(1) aw(4) len by (metis snd_conv)
qed

end
