(* ===== verification/Load_Balancer.thy ===== *)
theory Load_Balancer
  imports Config Api
begin

text \<open>
  The load balancer of the primary (\<^verbatim>\<open>src/primary/load_balancer.rs\<close>), which separates the committed
  transactions into those with and those without shared objects, and the forwarder of the
  transactions that have only owned objects (\<^verbatim>\<open>src/primary/owned_obj_txn_forwarder.rs\<close>).

  The tasks that \<^verbatim>\<open>initialize_processors\<close> starts are modelled in their own theories; here are the loop
  that feeds them and the state of the owned-object forwarder.  The futures of one call of the
  forwarder run concurrently: the result lists, for every transaction, the messages its future
  sends, in the order in which it sends them.
\<close>


section \<open>The load balancer\<close>

record ('t, 'o) load_balancer =
  lb_txn_cnt :: nat
  lb_start_registered :: bool
  lb_ingress :: "f64 list"
  lb_owned_sent :: "('t, 'o) txn_ts list list"
  lb_shared_sent :: "('t, 'o) txn_ts list list"

definition load_balancer_new :: "('t, 'o) load_balancer" where
  "load_balancer_new = \<lparr>lb_txn_cnt = 0, lb_start_registered = False, lb_ingress = [], lb_owned_sent = [], lb_shared_sent = []\<rparr>"

fun separate :: "('t, 'o) txn_ts list \<Rightarrow> ('t, 'o) txn_ts list \<times> ('t, 'o) txn_ts list \<Rightarrow>
    ('t, 'o) txn_ts list \<times> ('t, 'o) txn_ts list" where
  "separate [] acc = acc"
| "separate (t # ts) (owned, shared) =
     (if shared_objects t = [] then separate ts (owned @ [t], shared) else separate ts (owned, shared @ [t]))"

definition handle_committed :: "('t, 'o) txn_ts list \<Rightarrow> ('t, 'o) load_balancer \<Rightarrow> ('t, 'o) load_balancer" where
  "handle_committed transactions lb =
     (let cnt = lb_txn_cnt lb + 1;
          (owned, shared) = separate transactions ([], [])
      in lb\<lparr>lb_txn_cnt := cnt,
            lb_start_registered := lb_start_registered lb \<or> cnt = 1,
            lb_ingress := lb_ingress lb @ map timestamp transactions,
            lb_owned_sent := lb_owned_sent lb @ (if owned \<noteq> [] then [owned] else []),
            lb_shared_sent := lb_shared_sent lb @ (if shared \<noteq> [] then [shared] else [])\<rparr>)"

text \<open>The loop, over the batches that consensus delivers.\<close>

definition load_balancer_run :: "('t, 'o) txn_ts list list \<Rightarrow> ('t, 'o) load_balancer \<Rightarrow> ('t, 'o) load_balancer" where
  "load_balancer_run batches lb = fold handle_committed batches lb"


section \<open>Forwarding of owned-object transactions\<close>

record owned_forwarder =
  of_connections :: "proxy_id list"
  of_policy :: load_balancing_policy
  of_index :: nat

text \<open>The forwarder that \<^verbatim>\<open>initialize_processors\<close> creates.\<close>

definition owned_forwarder_init :: "proxy_id list \<Rightarrow> owned_forwarder" where
  "owned_forwarder_init conns = \<lparr>of_connections = conns, of_policy = RoundRobin, of_index = 0\<rparr>"

definition if_connected :: "proxy_id list \<Rightarrow> proxy_id \<Rightarrow> ('t, 'd, 'o) primary_to_proxy list \<Rightarrow> (proxy_id \<times> ('t, 'd, 'o) primary_to_proxy) list" where
  "if_connected conns p msgs = (if p \<in> set conns then map (Pair p) msgs else [])"

fun owned_future ::
  "(('t, 'o) txn_ts \<Rightarrow> 'd verification_request) \<Rightarrow> proxy_id list \<Rightarrow> load_balancing_policy \<Rightarrow> nat \<Rightarrow> ('t, 'o) txn_ts \<Rightarrow>
   (proxy_id \<times> ('t, 'd, 'o) primary_to_proxy) list res" where
  "owned_future make_request conns RoundRobin idx t = Inr (if_connected conns idx [StatelessTxn (make_request t), Txn t idx []])"
| "owned_future make_request conns Zeus idx t = Inr (if_connected conns idx [StatelessTxn (make_request t), Txn t idx []])"
| "owned_future make_request conns Combined idx t = Inr (if_connected conns idx [CombinedTxn t idx []])"
| "owned_future make_request conns Dedicated idx t =
     (if 0 \<in> set conns \<and> 1 \<in> set conns then Inr [(0, StatelessTxn (make_request t)), (1, Txn t 0 [])]
      else Inl (Panic ''called unwrap on a None value''))"
| "owned_future make_request conns policy idx t = Inl (Panic ''Load balancing policy is not implemented'')"

fun owned_futures ::
  "(('t, 'o) txn_ts \<Rightarrow> 'd verification_request) \<Rightarrow> proxy_id list \<Rightarrow> load_balancing_policy \<Rightarrow> nat \<Rightarrow> ('t, 'o) txn_ts list \<Rightarrow>
   (proxy_id \<times> ('t, 'd, 'o) primary_to_proxy) list list res" where
  "owned_futures make_request conns policy start [] = Inr []"
| "owned_futures make_request conns policy start (t # ts) =
     and_then (owned_future make_request conns policy (start mod length conns) t)
       (\<lambda>ms. and_then (owned_futures make_request conns policy (start + 1) ts) (\<lambda>mss. Inr (ms # mss)))"

definition forward_owned_txns_in_parallel ::
  "(('t, 'o) txn_ts \<Rightarrow> 'd verification_request) \<Rightarrow> ('t, 'o) txn_ts list \<Rightarrow> owned_forwarder \<Rightarrow>
   (owned_forwarder \<times> (proxy_id \<times> ('t, 'd, 'o) primary_to_proxy) list list) res" where
  "forward_owned_txns_in_parallel make_request transactions f =
     (let proxy_count = length (of_connections f)
      in if proxy_count = 0 then Inr (f, [])
         else and_then (owned_futures make_request (of_connections f) (of_policy f) (of_index f) transactions)
                (\<lambda>mss. Inr (f\<lparr>of_index := (of_index f + length transactions) mod proxy_count\<rparr>, mss)))"

fun process_owned_txns ::
  "(('t, 'o) txn_ts \<Rightarrow> 'd verification_request) \<Rightarrow> ('t, 'o) txn_ts list list \<Rightarrow> owned_forwarder \<Rightarrow>
   (owned_forwarder \<times> (proxy_id \<times> ('t, 'd, 'o) primary_to_proxy) list list) res" where
  "process_owned_txns make_request [] f = Inr (f, [])"
| "process_owned_txns make_request (b # bs) f =
     and_then (forward_owned_txns_in_parallel make_request b f)
       (\<lambda>(f1, mss). and_then (process_owned_txns make_request bs f1) (\<lambda>(f2, nss). Inr (f2, mss @ nss)))"


section \<open>Correctness\<close>

lemma separate_filter:
  "separate ts (owned, shared) =
     (owned @ filter (\<lambda>t. shared_objects t = []) ts, shared @ filter (\<lambda>t. shared_objects t \<noteq> []) ts)"
  by (induction ts arbitrary: owned shared) auto

text \<open>
  The load balancer loses, duplicates and reorders no committed transaction: what the owned-object
  forwarder is given are exactly the transactions without shared objects, in the order of their
  commits, and what the version assignment is given are exactly the others, in that order; neither
  is ever sent an empty batch, and the start time is registered with the first commit.
\<close>

theorem load_balancer_separates:
  "let lb = load_balancer_run batches load_balancer_new in
     concat (lb_owned_sent lb) = filter (\<lambda>t. shared_objects t = []) (concat batches) \<and>
     concat (lb_shared_sent lb) = filter (\<lambda>t. shared_objects t \<noteq> []) (concat batches) \<and>
     [] \<notin> set (lb_owned_sent lb) \<and> [] \<notin> set (lb_shared_sent lb) \<and>
     lb_ingress lb = map timestamp (concat batches) \<and> lb_txn_cnt lb = length batches \<and>
     lb_start_registered lb = (batches \<noteq> [])"
proof (induction batches rule: rev_induct)
  case Nil
  then show ?case by (simp add: load_balancer_run_def load_balancer_new_def)
next
  case (snoc b bs)
  have step: "load_balancer_run (bs @ [b]) load_balancer_new = handle_committed b (load_balancer_run bs load_balancer_new)"
    by (simp add: load_balancer_run_def)
  show ?case
    using snoc unfolding step Let_def by (auto simp: handle_committed_def separate_filter Let_def)
qed

lemma round_robin_futures:
  assumes "set conns = {..<n}" "length conns = n" "0 < n" "policy = RoundRobin \<or> policy = Zeus"
  shows "owned_futures make_request conns policy start ts =
           Inr (map (\<lambda>k. [((start + k) mod n, StatelessTxn (make_request (ts ! k))), ((start + k) mod n, Txn (ts ! k) ((start + k) mod n) [])])
                  [0..<length ts])"
proof (induction ts arbitrary: start)
  case (Cons t ts)
  let ?m = "\<lambda>s ts k. [((s + k) mod n, StatelessTxn (make_request (ts ! k))), ((s + k) mod n, Txn (ts ! k) ((s + k) mod n) [])]"
  have "start mod n \<in> set conns" using assms(1,3) by simp
  then have "owned_future make_request conns policy (start mod length conns) t = Inr (?m start (t # ts) 0)"
    using assms(2,4) by (auto simp: if_connected_def)
  moreover have "map (?m start (t # ts)) [0..<length (t # ts)] = ?m start (t # ts) 0 # map (?m (start + 1) ts) [0..<length ts]"
    by (subst upt_conv_Cons) (simp_all add: map_Suc_upt[symmetric] del: upt_Suc)
  ultimately show ?case using Cons.IH[of "start + 1"] by simp
qed simp

text \<open>
  Round-robin forwarding: with proxies numbered without gaps, the \<open>k\<close>-th owned-object transaction
  that the forwarder receives, counted over all batches, is sent to proxy \<open>(start + k) mod n\<close>: first its
  verification request and then the transaction, which names that same proxy for the result; no
  transaction is dropped.
\<close>

theorem owned_forwarding_round_robin:
  assumes "set (of_connections f) = {..<n}" "length (of_connections f) = n" "0 < n"
    and "of_policy f = RoundRobin \<or> of_policy f = Zeus" "of_index f < n"
  shows "\<exists>f'. process_owned_txns make_request batches f =
           Inr (f', map (\<lambda>k. let t = concat batches ! k; p = (of_index f + k) mod n in [(p, StatelessTxn (make_request t)), (p, Txn t p [])])
                      [0..<length (concat batches)])"
  using assms
proof (induction batches arbitrary: f)
  case (Cons b bs)
  let ?m = "\<lambda>s ts k. [((s + k) mod n, StatelessTxn (make_request (ts ! k))), ((s + k) mod n, Txn (ts ! k) ((s + k) mod n) [])]"
  let ?f1 = "f\<lparr>of_index := (of_index f + length b) mod n\<rparr>"
  have 1: "forward_owned_txns_in_parallel make_request b f = Inr (?f1, map (?m (of_index f) b) [0..<length b])"
    using round_robin_futures[OF Cons.prems(1-4), of make_request "of_index f" b] Cons.prems(2,3)
    by (simp add: forward_owned_txns_in_parallel_def Let_def)
  have pre: "set (of_connections ?f1) = {..<n}" "length (of_connections ?f1) = n" "of_policy ?f1 = RoundRobin \<or> of_policy ?f1 = Zeus" "of_index ?f1 < n"
    using Cons.prems by simp_all
  obtain f' where 2: "process_owned_txns make_request bs ?f1 = Inr (f', map (?m (of_index ?f1) (concat bs)) [0..<length (concat bs)])"
    using Cons.IH[OF pre(1,2) Cons.prems(3) pre(3,4)] unfolding Let_def by blast
  have 3: "map (?m (of_index ?f1) (concat bs)) [0..<length (concat bs)] = map (?m (of_index f + length b) (concat bs)) [0..<length (concat bs)]"
    by (simp add: mod_add_left_eq)
  have 4: "map (?m (of_index f) b) [0..<length b] @ map (?m (of_index f + length b) (concat bs)) [0..<length (concat bs)] =
        map (?m (of_index f) (concat (b # bs))) [0..<length (concat (b # bs))]"
    by (rule nth_equalityI) (auto simp: nth_append)
  have "process_owned_txns make_request (b # bs) f =
      Inr (f', map (?m (of_index f) b) [0..<length b] @ map (?m (of_index ?f1) (concat bs)) [0..<length (concat bs)])"
    using 1 2 by simp
  then show ?case unfolding 3 4 Let_def by blast
qed simp

lemma owned_forwarding_round_robin_witness:
  "\<exists>f'. process_owned_txns (\<lambda>t. SyntheticRequest (transaction t) 5) [[txn_new_for_tests 7, txn_new_for_tests 8], [txn_new_for_tests (9 :: nat)]]
          (owned_forwarder_init [1, 0]) =
        Inr (f', [[(0, StatelessTxn (SyntheticRequest 7 5)), (0, Txn (txn_new_for_tests 7) 0 [])],
                  [(1, StatelessTxn (SyntheticRequest 8 5)), (1, Txn (txn_new_for_tests 8) 1 [])],
                  [(0, StatelessTxn (SyntheticRequest 9 5)), (0, Txn (txn_new_for_tests 9) 0 [] :: (nat, nat, nat) primary_to_proxy)]])"
proof -
  have 1: "set (of_connections (owned_forwarder_init [1, 0])) = {..<2}" "length (of_connections (owned_forwarder_init [1, 0])) = 2"
      "of_policy (owned_forwarder_init [1, 0]) = RoundRobin \<or> of_policy (owned_forwarder_init [1, 0]) = Zeus"
      "of_index (owned_forwarder_init [1, 0]) < 2"
    by (auto simp: owned_forwarder_init_def)
  have 2: "transaction (txn_new_for_tests x) = x" "of_index (owned_forwarder_init conns) = 0" for x :: nat and conns
    by (simp_all add: txn_new_for_tests_def owned_forwarder_init_def)
  from owned_forwarding_round_robin[OF 1(1,2) _ 1(3,4), of "\<lambda>t. SyntheticRequest (transaction t) 5"
      "[[txn_new_for_tests 7, txn_new_for_tests 8], [txn_new_for_tests (9 :: nat)]] :: (nat, nat) txn_ts list list"]
  show ?thesis by (simp add: 2 Let_def del: process_owned_txns.simps)
qed

end
