(* ===== verification/Primary_Protocol.thy ===== *)
theory Primary_Protocol
  imports Forwarder Load_Balancer Proxy_Core
begin

text \<open>
  What the primary sends and what a proxy accepts.  A proxy panics on a message kind that its
  separation mode does not expect, on a required state that it is told to fetch from itself, and on
  a stateless proxy it is not connected to: the theorems here show that the shared-object forwarder
  never sends such a message, and when the owned-object forwarder does.
\<close>


section \<open>Messages a proxy accepts\<close>

text \<open>The proxy \<open>p\<close> is the one with number \<open>dest\<close>, runs in \<open>mode\<close> and is connected with all others.\<close>

definition proxy_matches :: "separation_mode \<Rightarrow> proxy_id list \<Rightarrow> proxy_id \<Rightarrow> ('t, 'd, 'o, 'b) proxy \<Rightarrow> bool" where
  "proxy_matches mode conns dest p \<longleftrightarrow> px_id p = dest \<and> px_mode p = mode \<and> set conns \<subseteq> insert dest (px_connections p)"

definition never_from :: "proxy_id \<Rightarrow> 'o required_states \<Rightarrow> bool" where
  "never_from dest missing \<longleftrightarrow> Some dest \<notin> snd ` set missing"

lemma send_msg_to_proxy_id [simp]: "px_id (send_msg_to_proxy q m p) = px_id p"
  by (simp add: send_msg_to_proxy_def)

lemma request_missing_states_returns:
  "never_from (px_id p) missing \<Longrightarrow> \<exists>p'. request_missing_states missing p = Inr p'"
  by (induction missing p rule: request_missing_states.induct) (auto simp: never_from_def)

lemma stateless_receiver_returns:
  assumes "sp = px_id p \<or> sp \<in> px_connections p"
  shows "\<exists>p' rx. stateless_receiver dg sp p = Inr (p', rx) \<and> px_id p' = px_id p"
  using assms by (auto simp: stateless_receiver_def Let_def split: prod.splits)

lemma process_stateful_transaction_returns:
  assumes "sp = px_id p \<or> sp \<in> px_connections p" and "never_from (px_id p) missing"
  shows "\<exists>p'. process_stateful_transaction E t sp missing p = Inr p'"
proof -
  obtain p1 rx where 1: "stateless_receiver (txn_digest E t) sp p = Inr (p1, rx)" "px_id p1 = px_id p"
    using stateless_receiver_returns[OF assms(1)] by blast
  obtain p2 where "request_missing_states missing p1 = Inr p2"
    using request_missing_states_returns[of p1 missing] 1(2) assms(2) by auto
  with 1 show ?thesis by (simp add: process_stateful_transaction_def schedule_stateful_transaction_def)
qed

lemma process_stateless_keeps [simp]:
  "px_id (process_stateless_transaction r p) = px_id p" "px_connections (process_stateless_transaction r p) = px_connections p"
  by (simp_all add: process_stateless_transaction_def spawn_def split: prod.splits)

lemma stateless_accepted:
  "is_primary_separation (px_mode p) \<Longrightarrow> \<exists>p'. handle_primary_message E (StatelessTxn r) p = Inr p'"
  by (simp add: handle_primary_message_def)

lemma txn_accepted:
  assumes "proxy_matches mode conns dest p" "is_primary_separation mode" "sp \<in> set conns" "never_from dest missing"
  shows "\<exists>p'. handle_primary_message E (Txn t sp missing) p = Inr p'"
proof -
  have "sp = px_id p \<or> sp \<in> px_connections p" "never_from (px_id p) missing" "is_primary_separation (px_mode p)"
    using assms by (auto simp: proxy_matches_def)
  then show ?thesis using process_stateful_transaction_returns[of sp p missing E t] by (simp add: handle_primary_message_def)
qed

lemma combined_accepted:
  assumes "proxy_matches mode conns dest p" "\<not> is_primary_separation mode" "never_from dest missing"
  shows "\<exists>p'. handle_primary_message E (CombinedTxn t dest missing) p = Inr p'"
proof -
  let ?p = "if is_proxy_separation (px_mode p) then process_stateless_transaction (ex_make_verification_request E t) p else p"
  have "\<exists>p'. process_stateful_transaction E t dest missing ?p = Inr p'"
    by (rule process_stateful_transaction_returns) (use assms in \<open>auto simp: proxy_matches_def\<close>)
  then show ?thesis using assms(1,2) by (simp add: handle_primary_message_def proxy_matches_def)
qed


section \<open>The shared-object forwarder\<close>

lemma missing_states_never_from:
  "never_from proxy acc \<Longrightarrow> never_from proxy (snd (missing_states_loop proxy next_v rs states acc))"
proof (induction proxy next_v rs states acc rule: missing_states_loop.induct)
  case (2 proxy next_v object_id seq_num rs states acc)
  let ?owner = "case states (object_id, seq_num) of Some owner \<Rightarrow> if owner \<noteq> proxy then Some owner else None | None \<Rightarrow> None"
  have "?owner \<noteq> Some proxy" by (simp split: option.split)
  then have "never_from proxy (acc @ [((object_id, seq_num), ?owner)])" using 2(2) by (simp add: never_from_def)
  then show ?case using 2(1)[OF refl] by (simp add: Let_def fun_upd_def)
qed simp

lemma get_missing_states_never_from:
  assumes "get_missing_states_for_transaction nxt rv proxy states = (states', missing)"
  shows "never_from proxy missing"
proof (cases rv)
  case None
  with assms show ?thesis by (simp add: get_missing_states_for_transaction_def never_from_def)
next
  case (Some r)
  have "missing = snd (missing_states_loop proxy (nxt (fold (\<lambda>k mx. upd_max (snd k) mx) r 2)) r states [])"
    using assms Some by (simp add: get_missing_states_for_transaction_def Let_def)
  moreover have "never_from proxy []" by (simp add: never_from_def)
  ultimately show ?thesis using missing_states_never_from by blast
qed

definition connections_ok :: "('t, 'd, 'o) forwarder \<Rightarrow> bool" where
  "connections_ok f \<longleftrightarrow> 0 \<in> set (fw_connections f) \<and> (\<forall>d p. fw_stateless_table f d = Some p \<longrightarrow> p \<in> set (fw_connections f))"

lemma choose_proxy_keeps:
  assumes "choose_proxy dg task f = Inr (f1, proxy)"
  shows "fw_sent f1 = fw_sent f" "fw_connections f1 = fw_connections f" "fw_mode f1 = fw_mode f" "fw_stateless_table f1 = fw_stateless_table f"
  using assms by (auto simp: choose_proxy_def and_then_eq_Inr split: option.splits)

lemma stateless_proxy_for_spec:
  assumes "stateless_proxy_for dg r t f = (f1, sp)" "connections_ok f" "is_primary_separation (fw_mode f)"
  shows "sp \<in> set (fw_connections f)" "fw_connections f1 = fw_connections f"
    "\<exists>extra. fw_sent f1 = fw_sent f @ extra \<and> set extra \<subseteq> {(sp, StatelessTxn r)}"
proof -
  have ne: "fw_connections f \<noteq> []" using assms(2) by (auto simp: connections_ok_def)
  obtain x where x: "min_by_key (load_of (fw_proxy_loads f)) (fw_connections f) = Some x"
    using ne min_by_key_None[of "load_of (fw_proxy_loads f)" "fw_connections f"] by blast
  have "sp \<in> set (fw_connections f) \<and> fw_connections f1 = fw_connections f \<and>
      (\<exists>extra. fw_sent f1 = fw_sent f @ extra \<and> set extra \<subseteq> {(sp, StatelessTxn r)})"
    using assms(1,2) min_by_key_min[OF x] x
    by (auto simp: stateless_proxy_for_def connections_ok_def pick_stateless_proxy_def send_to_proxy_def Let_def split: if_splits option.splits)
  then show "sp \<in> set (fw_connections f)" "fw_connections f1 = fw_connections f"
    "\<exists>extra. fw_sent f1 = fw_sent f @ extra \<and> set extra \<subseteq> {(sp, StatelessTxn r)}" by blast+
qed

text \<open>The stateless forwarder keeps the table within the connected proxies.\<close>

lemma process_stateless_task_connections_ok:
  assumes "connections_ok f"
  shows "connections_ok (process_stateless_task r f)"
proof -
  obtain p loads where p: "pick_stateless_proxy (fw_connections f) (cost_hint r) (fw_proxy_loads f) = (p, loads)" by fastforce
  have ne: "fw_connections f \<noteq> []" using assms by (auto simp: connections_ok_def)
  obtain x where x: "min_by_key (load_of (fw_proxy_loads f)) (fw_connections f) = Some x"
    using ne min_by_key_None[of "load_of (fw_proxy_loads f)" "fw_connections f"] by blast
  have "p \<in> set (fw_connections f)"
    using p min_by_key_min[OF x] x by (auto simp: pick_stateless_proxy_def Let_def)
  with assms p show ?thesis
    by (auto simp: process_stateless_task_def connections_ok_def send_to_proxy_def Let_def)
qed

lemma forward_stateless_txn_connections_ok: "connections_ok f \<Longrightarrow> connections_ok (forward_stateless_txn rs f)"
  unfolding forward_stateless_txn_def
  by (induction rs arbitrary: f) (simp_all add: process_stateless_task_connections_ok)

text \<open>
  Every message that the shared-object forwarder sends while it handles a transaction is accepted
  by the proxy it is addressed to when that proxy runs in the same separation mode: it is not an
  unexpected message kind, it does not name the proxy itself as the holder of a missing state, and
  it does not refer to a proxy that the receiver is not connected to.
\<close>

theorem forwarder_messages_accepted:
  assumes run: "process_forwarding_task nxt digest make_request task f = Inr f'" and ok: "connections_ok f"
    and sent: "(dest, msg) \<in> set (drop (length (fw_sent f)) (fw_sent f'))"
    and p: "proxy_matches (fw_mode f) (fw_connections f) dest p"
  shows "\<exists>p'. handle_primary_message E msg p = Inr p'"
proof -
  let ?t = "task_transaction task"
  obtain f1 proxy where c: "choose_proxy (digest ?t) task f = Inr (f1, proxy)"
    using run by (auto simp: process_forwarding_task_def Let_def and_then_eq_Inr)
  obtain states missing where m: "get_missing_states_for_transaction nxt (Some (task_required_versions task)) proxy (fw_states_to_proxy f1) = (states, missing)"
    by fastforce
  note keep = choose_proxy_keeps[OF c]
  have nf: "never_from proxy missing" by (rule get_missing_states_never_from[OF m])
  let ?f2 = "f1\<lparr>fw_states_to_proxy := states\<rparr>"
  have ok2: "connections_ok ?f2" using ok keep by (simp add: connections_ok_def)
  show ?thesis
  proof (cases "is_primary_separation (fw_mode f)")
    case False
    then have "f' = send_to_proxy proxy (CombinedTxn ?t proxy missing) ?f2"
      using run c m keep by (simp add: process_forwarding_task_def Let_def)
    then have "dest = proxy" "msg = CombinedTxn ?t proxy missing"
      using sent keep by (auto simp: send_to_proxy_def split: if_splits)
    then show ?thesis using combined_accepted p False nf by blast
  next
    case True
    obtain f3 sp where s: "stateless_proxy_for (digest ?t) (make_request ?t) ?t ?f2 = (f3, sp)" by fastforce
    have f': "f' = send_to_proxy proxy (Txn ?t sp missing) f3"
      using run c m keep True s by (simp add: process_forwarding_task_def Let_def)
    obtain extra where e: "fw_sent f3 = fw_sent f @ extra" "set extra \<subseteq> {(sp, StatelessTxn (make_request ?t))}" "sp \<in> set (fw_connections f)"
      using stateless_proxy_for_spec[OF s ok2] True keep by auto
    have "(dest, msg) = (sp, StatelessTxn (make_request ?t)) \<or> (dest, msg) = (proxy, Txn ?t sp missing)"
      using sent e(1,2) f' by (auto simp: send_to_proxy_def split: if_splits)
    then show ?thesis
      using stateless_accepted[of p E "make_request ?t"] txn_accepted[OF p True e(3)] nf p True by (auto simp: proxy_matches_def)
  qed
qed


definition example_forwarder :: "(nat, nat, nat) forwarder" where
  "example_forwarder =
     forwarder_new [0, 1] [40 \<mapsto> 1] [(7, 3) \<mapsto> 0] [40 \<mapsto> 0] PrimaryPreSeparation LSDS Map.empty"

definition example_forwarding_task :: "(nat, nat) forwarding_task" where
  "example_forwarding_task = \<lparr>task_transaction = txn_new 40 0 [7] 0 0, task_required_versions = [(7, 3)], task_counter = 0\<rparr>"

definition example_executor :: "(nat, nat, nat, nat, nat) executor_ops" where
  "example_executor =
     \<lparr>ex_trait = \<lparr>et_digest = id, et_input_objects = \<lambda>_. [], et_shared_object_ids = \<lambda>_. []\<rparr>,
      ex_make_verification_request = \<lambda>t. SyntheticRequest (transaction t) 1, ex_verify_transaction = \<lambda>_. True,
      ex_pre_execute_check = \<lambda>_ _. Inr True, ex_execute = \<lambda>s t. Inr (s, results_new t None None)\<rparr>"

lemma forwarder_messages_accepted_witness:
  "\<exists>p'. handle_primary_message example_executor (Txn (txn_new 40 0 [7] 0 0) 0 [((7, 3), Some 0)])
     (proxy_new 1 PrimaryPreSeparation Map.empty {0}) = Inr p'"
proof -
  obtain f' where f': "process_forwarding_task Suc transaction (\<lambda>t. SyntheticRequest (transaction t) 1) example_forwarding_task example_forwarder = Inr f'"
      "fw_sent f' = [(1, Txn (txn_new 40 0 [7] 0 0) 0 [((7, 3), Some 0)])]"
    by (simp add: process_forwarding_task_def choose_proxy_def example_forwarding_task_def example_forwarder_def forwarder_new_def txn_new_def
        get_missing_states_for_transaction_def stateless_proxy_for_def send_to_proxy_def upd_max_def Let_def)
  show ?thesis
    by (rule forwarder_messages_accepted[OF f'(1)])
      (auto simp: f'(2) connections_ok_def example_forwarder_def forwarder_new_def proxy_matches_def proxy_new_def split: if_splits)
qed


section \<open>The owned-object forwarder\<close>

text \<open>
  C35. The owned-object forwarder of the load balancer works only with primary separation: there its
  messages are accepted by every proxy, but in the two other modes the first message it sends to a
  proxy makes that proxy panic.
\<close>

theorem owned_messages_need_primary_separation:
  assumes "owned_future make_request conns RoundRobin idx t = Inr msgs" and "(dest, msg) \<in> set msgs"
    and "proxy_matches mode conns dest p"
  shows "(\<exists>p'. handle_primary_message E msg p = Inr p') \<longleftrightarrow> is_primary_separation mode"
proof -
  have msgs: "msg = StatelessTxn (make_request t) \<or> msg = Txn t dest []" and d: "dest \<in> set conns"
    using assms(1,2) by (auto simp: if_connected_def split: if_splits)
  show ?thesis
  proof (cases "is_primary_separation mode")
    case True
    have "never_from dest []" by (simp add: never_from_def)
    then show ?thesis
      using msgs True stateless_accepted[of p E] txn_accepted[OF assms(3) True d, of "[]" E t] assms(3) by (auto simp: proxy_matches_def)
  next
    case False
    then show ?thesis using msgs assms(3) by (auto simp: handle_primary_message_def proxy_matches_def)
  qed
qed

lemma owned_messages_need_primary_separation_witness:
  "(\<exists>p'. handle_primary_message example_executor (StatelessTxn (SyntheticRequest 9 5)) (proxy_new 1 NoSeparation Map.empty {0}) = Inr p') \<longleftrightarrow>
   is_primary_separation NoSeparation"
  by (rule owned_messages_need_primary_separation[of "\<lambda>t. SyntheticRequest (transaction t) 5" "[0, 1]" 1 "txn_new_for_tests 9"
        "[(1, StatelessTxn (SyntheticRequest 9 5)), (1, Txn (txn_new_for_tests 9) 1 [])]" 1 _ NoSeparation])
    (simp_all add: if_connected_def txn_new_for_tests_def proxy_matches_def proxy_new_def)

end
