(* ===== verification/Pre_Consensus.thy ===== *)
theory Pre_Consensus
  imports Forwarder "HOL-Library.Multiset"
begin

text \<open>
  Scheduling before consensus (\<^verbatim>\<open>PreConsensusSchedTask\<close> of \<^verbatim>\<open>src/primary/shared_obj_txn_forwarder.rs\<close>): the
  transactions of a batch are grouped into the connected components of their dependency graph, and
  each component of at least two transactions is routed to one proxy, chosen by locality and load.

  A \<^verbatim>\<open>petgraph\<close> graph is the list of its node weights (a node index is the position) and the list of
  its edges.  The order in which \<^verbatim>\<open>neighbors_undirected\<close> lists the neighbours is not specified: it is the
  argument \<open>nb\<close>, and \<open>neighbors_law\<close> says which set it lists.  \<open>rnd c n\<close> is the
  number that \<^verbatim>\<open>fastrand::usize(..n)\<close> draws when the component \<open>c\<close> is assigned (each batch has its own draws).  Iterating
  over a hash set of digests is iterating over the list of its elements without repetitions.
\<close>


section \<open>The dependency graph\<close>

record 'd digraph =
  g_nodes :: "'d list"
  g_edges :: "(nat \<times> nat) list"

definition add_node :: "'d \<Rightarrow> 'd digraph \<Rightarrow> 'd digraph \<times> nat" where
  "add_node d g = (g\<lparr>g_nodes := g_nodes g @ [d]\<rparr>, length (g_nodes g))"

definition add_edge :: "nat \<Rightarrow> nat \<Rightarrow> 'd digraph \<Rightarrow> 'd digraph" where
  "add_edge a b g = g\<lparr>g_edges := g_edges g @ [(a, b)]\<rparr>"

fun link_objects :: "nat \<Rightarrow> 'o list \<Rightarrow> 'd digraph \<times> ('o \<rightharpoonup> nat) \<Rightarrow> 'd digraph \<times> ('o \<rightharpoonup> nat)" where
  "link_objects node [] st = st"
| "link_objects node (x # xs) (g, last_accessor) =
     link_objects node xs
       ((case last_accessor x of Some prior \<Rightarrow> add_edge prior node g | None \<Rightarrow> g), last_accessor(x \<mapsto> node))"

fun build_loop ::
  "('t \<Rightarrow> 'd) \<Rightarrow> ('t, 'o) txn_ts list \<Rightarrow> 'd digraph \<times> ('d \<rightharpoonup> nat) \<times> ('o \<rightharpoonup> nat) \<Rightarrow> 'd digraph \<times> ('d \<rightharpoonup> nat) \<times> ('o \<rightharpoonup> nat)" where
  "build_loop digest [] st = st"
| "build_loop digest (t # ts) (g, nodes, last_accessor) =
     (let (g1, node) = add_node (digest (transaction t)) g;
          (g2, last2) = link_objects node (map fst (shared_objects t)) (g1, last_accessor)
      in build_loop digest ts (g2, nodes(digest (transaction t) \<mapsto> node), last2))"

definition build_dependency_graph :: "('t \<Rightarrow> 'd) \<Rightarrow> ('t, 'o) txn_ts list \<Rightarrow> 'd digraph \<times> ('d \<rightharpoonup> nat)" where
  "build_dependency_graph digest ts =
     (case build_loop digest ts (\<lparr>g_nodes = [], g_edges = []\<rparr>, Map.empty, Map.empty) of (g, nodes, _) \<Rightarrow> (g, nodes))"


section \<open>Connected components\<close>

definition neighbors_law :: "('d digraph \<Rightarrow> nat \<Rightarrow> nat list) \<Rightarrow> bool" where
  "neighbors_law nb \<longleftrightarrow> (\<forall>g n m. m \<in> set (nb g n) \<longleftrightarrow> (n, m) \<in> set (g_edges g) \<or> (m, n) \<in> set (g_edges g))"

text \<open>One concrete listing, for the witnesses.\<close>

definition edge_order_neighbors :: "'d digraph \<Rightarrow> nat \<Rightarrow> nat list" where
  "edge_order_neighbors g n = map snd (filter (\<lambda>e. fst e = n) (g_edges g)) @ map fst (filter (\<lambda>e. snd e = n) (g_edges g))"

lemma neighbors_law_edge_order: "neighbors_law edge_order_neighbors"
  unfolding neighbors_law_def edge_order_neighbors_def by force

text \<open>The stack is a list with its top first; a neighbour that was not visited is marked and pushed.\<close>

fun push_unvisited :: "nat list \<Rightarrow> nat set \<times> nat list \<Rightarrow> nat set \<times> nat list" where
  "push_unvisited [] st = st"
| "push_unvisited (m # ms) (visited, stack) =
     push_unvisited ms (if m \<in> visited then (visited, stack) else (insert m visited, m # stack))"

text \<open>
  The inner loop.  Every node is pushed once, so the number of nodes bounds the iterations; the fuel
  only makes the definition total for an arbitrary \<open>nb\<close>.
\<close>

fun component_loop ::
  "(nat \<Rightarrow> nat list) \<Rightarrow> nat \<Rightarrow> nat set \<Rightarrow> nat list \<Rightarrow> nat list \<Rightarrow> (nat set \<times> nat list) option" where
  "component_loop nbs fuel visited [] component = Some (visited, component)"
| "component_loop nbs 0 visited (n # stack) component = None"
| "component_loop nbs (Suc fuel) visited (n # stack) component =
     (let (visited', stack') = push_unvisited (nbs n) (visited, stack)
      in component_loop nbs fuel visited' stack' (component @ [n]))"

fun subgraphs_loop ::
  "(nat \<Rightarrow> nat list) \<Rightarrow> nat \<Rightarrow> nat list \<Rightarrow> nat set \<Rightarrow> nat list list \<Rightarrow> nat list list option" where
  "subgraphs_loop nbs fuel [] visited components = Some components"
| "subgraphs_loop nbs fuel (n # ns) visited components =
     (if n \<in> visited then subgraphs_loop nbs fuel ns visited components
      else case component_loop nbs fuel (insert n visited) [n] [] of
             None \<Rightarrow> None
           | Some (visited', component) \<Rightarrow> subgraphs_loop nbs fuel ns visited' (components @ [component]))"

definition find_all_subgraphs :: "('d digraph \<Rightarrow> nat \<Rightarrow> nat list) \<Rightarrow> 'd digraph \<Rightarrow> nat list list option" where
  "find_all_subgraphs nb g = subgraphs_loop (nb g) (length (g_nodes g)) [0..<length (g_nodes g)] {} []"


section \<open>Assignment of components to proxies\<close>

text \<open>\<open>bytes\<close> are the bytes of an object identifier; the subtraction panics at zero.\<close>

definition object_id_24bit_index :: "('o \<Rightarrow> byte list) \<Rightarrow> 'o \<Rightarrow> nat res" where
  "object_id_24bit_index bytes x =
     (let b = bytes x;
          index = unat (b ! 0) + unat (b ! 1) * 2 ^ 8 + unat (b ! 2) * 2 ^ 16
      in if index = 0 then Inl (Panic ''attempt to subtract with overflow'') else Inr (index - 1))"

record ('d) scheduler =
  sc_num_proxies :: nat
  sc_routing_plan :: "'d \<rightharpoonup> proxy_id"
  sc_proxy_loads :: "proxy_id \<rightharpoonup> nat"
  sc_object_last_proxy :: "nat \<rightharpoonup> proxy_id"

definition scheduler_new :: "nat \<Rightarrow> ('d \<rightharpoonup> proxy_id) \<Rightarrow> (proxy_id \<rightharpoonup> nat) \<Rightarrow> 'd scheduler" where
  "scheduler_new n routing_plan loads =
     \<lparr>sc_num_proxies = n, sc_routing_plan = routing_plan, sc_proxy_loads = loads, sc_object_last_proxy = Map.empty\<rparr>"

fun locality_loop :: "('o \<Rightarrow> byte list) \<Rightarrow> (nat \<rightharpoonup> proxy_id) \<Rightarrow> 'o list \<Rightarrow> nat list \<Rightarrow> nat list res" where
  "locality_loop bytes lastp [] scores = Inr scores"
| "locality_loop bytes lastp (x # xs) scores =
     and_then (object_id_24bit_index bytes x)
       (\<lambda>idx. case lastp idx of
          None \<Rightarrow> locality_loop bytes lastp xs scores
        | Some p \<Rightarrow>
            if p < length scores then locality_loop bytes lastp xs (scores[p := scores ! p + 1])
            else Inl (Panic ''index out of bounds''))"

definition max_or_one :: "nat list \<Rightarrow> f64" where
  "max_or_one xs = real (max (case iter_max xs of Some x \<Rightarrow> x | None \<Rightarrow> 1) 1)"

definition combined_scores :: "nat list \<Rightarrow> nat list \<Rightarrow> f64 list" where
  "combined_scores locality loads =
     map (\<lambda>i. 0.5 * (real (locality ! i) / max_or_one locality) + 0.5 * (1 - real (loads ! i) / max_or_one loads))
       [0..<length locality]"

definition best_candidates :: "f64 list \<Rightarrow> nat list" where
  "best_candidates scores =
     (let mx = fold (\<lambda>s acc. max acc s) scores 0
      in filter (\<lambda>p. \<bar>scores ! p - mx\<bar> < 1 / 10 ^ 9) [0..<length scores])"

definition subgraph_digests :: "'d digraph \<Rightarrow> nat list \<Rightarrow> 'd list" where
  "subgraph_digests g ns = remdups (map (\<lambda>n. g_nodes g ! n) ns)"

definition subgraph_objects :: "('d \<rightharpoonup> ('t, 'o) txn_ts) \<Rightarrow> 'd list \<Rightarrow> 'o list" where
  "subgraph_objects tx_map ds =
     concat (map (\<lambda>d. case tx_map d of Some t \<Rightarrow> map fst (shared_objects t) | None \<Rightarrow> []) ds)"

definition assign_large_subgraph_proxy ::
  "('o \<Rightarrow> byte list) \<Rightarrow> (nat list \<Rightarrow> nat \<Rightarrow> nat) \<Rightarrow> 'd digraph \<Rightarrow> ('d \<rightharpoonup> ('t, 'o) txn_ts) \<Rightarrow> nat list \<Rightarrow> 'd scheduler \<Rightarrow>
   ('d scheduler \<times> proxy_id \<times> 'd list \<times> 'o list) res" where
  "assign_large_subgraph_proxy bytes rnd g tx_map ns sc =
     (let ds = subgraph_digests g ns;
          objs = subgraph_objects tx_map ds;
          n = sc_num_proxies sc
      in and_then (locality_loop bytes (sc_object_last_proxy sc) objs (replicate n 0))
           (\<lambda>locality.
              let loads = map (load_of (sc_proxy_loads sc)) [0..<n];
                  candidates = best_candidates (combined_scores locality loads);
                  best = (if candidates = [] then 0 else candidates ! rnd ns (length candidates))
              in Inr (sc\<lparr>sc_routing_plan := fold (\<lambda>d m. m(d \<mapsto> best)) ds (sc_routing_plan sc)\<rparr>, best, ds, objs)))"

fun mark_objects :: "('o \<Rightarrow> byte list) \<Rightarrow> proxy_id \<Rightarrow> 'o list \<Rightarrow> (nat \<rightharpoonup> proxy_id) \<Rightarrow> (nat \<rightharpoonup> proxy_id) res" where
  "mark_objects bytes p [] lastp = Inr lastp"
| "mark_objects bytes p (x # xs) lastp =
     and_then (object_id_24bit_index bytes x) (\<lambda>idx. mark_objects bytes p xs (lastp(idx \<mapsto> p)))"

definition update_state_for_sds ::
  "('o \<Rightarrow> byte list) \<Rightarrow> ('d \<rightharpoonup> ('t, 'o) txn_ts) \<Rightarrow> 'd list \<Rightarrow> 'o list \<Rightarrow> proxy_id \<Rightarrow> 'd scheduler \<Rightarrow> 'd scheduler res" where
  "update_state_for_sds bytes tx_map ds objs p sc =
     (let total_weight = (\<Sum>d \<leftarrow> ds. case tx_map d of Some t \<Rightarrow> as_micros (expected_stateful_duration t) | None \<Rightarrow> 0)
      in and_then (mark_objects bytes p objs (sc_object_last_proxy sc))
           (\<lambda>lastp. Inr (sc\<lparr>sc_proxy_loads := add_load p total_weight (sc_proxy_loads sc), sc_object_last_proxy := lastp\<rparr>)))"

text \<open>First all assignments are computed, then the loads and localities are updated.\<close>

fun assign_all ::
  "('o \<Rightarrow> byte list) \<Rightarrow> (nat list \<Rightarrow> nat \<Rightarrow> nat) \<Rightarrow> 'd digraph \<Rightarrow> ('d \<rightharpoonup> ('t, 'o) txn_ts) \<Rightarrow> nat list list \<Rightarrow> 'd scheduler \<Rightarrow>
   ('d scheduler \<times> (proxy_id \<times> 'd list \<times> 'o list) list) res" where
  "assign_all bytes rnd g tx_map [] sc = Inr (sc, [])"
| "assign_all bytes rnd g tx_map (ns # nss) sc =
     and_then (assign_large_subgraph_proxy bytes rnd g tx_map ns sc)
       (\<lambda>(sc1, a). and_then (assign_all bytes rnd g tx_map nss sc1) (\<lambda>(sc2, as). Inr (sc2, a # as)))"

fun update_all ::
  "('o \<Rightarrow> byte list) \<Rightarrow> ('d \<rightharpoonup> ('t, 'o) txn_ts) \<Rightarrow> (proxy_id \<times> 'd list \<times> 'o list) list \<Rightarrow> 'd scheduler \<Rightarrow> 'd scheduler res" where
  "update_all bytes tx_map [] sc = Inr sc"
| "update_all bytes tx_map ((p, ds, objs) # as) sc =
     and_then (update_state_for_sds bytes tx_map ds objs p sc)
       (\<lambda>sc1. if p < sc_num_proxies sc then update_all bytes tx_map as sc1 else Inl (Panic ''index out of bounds''))"

definition handle_large_subgraphs ::
  "('o \<Rightarrow> byte list) \<Rightarrow> (nat list \<Rightarrow> nat \<Rightarrow> nat) \<Rightarrow> 'd digraph \<Rightarrow> nat list list \<Rightarrow> ('d \<rightharpoonup> ('t, 'o) txn_ts) \<Rightarrow> 'd scheduler \<Rightarrow> 'd scheduler res" where
  "handle_large_subgraphs bytes rnd g large tx_map sc =
     and_then (assign_all bytes rnd g tx_map large sc) (\<lambda>(sc1, as). update_all bytes tx_map as sc1)"

definition apply_sds_policy ::
  "('d digraph \<Rightarrow> nat \<Rightarrow> nat list) \<Rightarrow> ('o \<Rightarrow> byte list) \<Rightarrow> (nat list \<Rightarrow> nat \<Rightarrow> nat) \<Rightarrow> ('t \<Rightarrow> 'd) \<Rightarrow> ('t, 'o) txn_ts list \<Rightarrow> 'd digraph \<Rightarrow>
   'd scheduler \<Rightarrow> 'd scheduler res" where
  "apply_sds_policy nb bytes rnd digest ts g sc =
     (let subgraphs = (case find_all_subgraphs nb g of Some cs \<Rightarrow> cs | None \<Rightarrow> []);
          sorted = sort_key (\<lambda>c. - int (length c)) subgraphs;
          large = filter (\<lambda>c. \<not> length c < 2) sorted;
          tx_map = map_of (rev (map (\<lambda>t. (digest (transaction t), t)) ts))
      in if large \<noteq> [] then handle_large_subgraphs bytes rnd g large tx_map sc else Inr sc)"

definition schedule_transaction_batch ::
  "('d digraph \<Rightarrow> nat \<Rightarrow> nat list) \<Rightarrow> ('o \<Rightarrow> byte list) \<Rightarrow> (nat list \<Rightarrow> nat \<Rightarrow> nat) \<Rightarrow> ('t \<Rightarrow> 'd) \<Rightarrow> ('t, 'o) txn_ts list \<Rightarrow>
   'd scheduler \<Rightarrow> 'd scheduler res" where
  "schedule_transaction_batch nb bytes rnd digest ts sc =
     (if sc_num_proxies sc = 0 then Inr sc
      else apply_sds_policy nb bytes rnd digest ts (fst (build_dependency_graph digest ts)) sc)"

fun process_pre_consensus_txns ::
  "('d digraph \<Rightarrow> nat \<Rightarrow> nat list) \<Rightarrow> ('o \<Rightarrow> byte list) \<Rightarrow> ('t \<Rightarrow> 'd) \<Rightarrow>
   ((nat list \<Rightarrow> nat \<Rightarrow> nat) \<times> ('t, 'o) txn_ts list) list \<Rightarrow> 'd scheduler \<Rightarrow> 'd scheduler res" where
  "process_pre_consensus_txns nb bytes digest [] sc = Inr sc"
| "process_pre_consensus_txns nb bytes digest ((rnd, b) # bs) sc =
     and_then (schedule_transaction_batch nb bytes rnd digest b sc) (process_pre_consensus_txns nb bytes digest bs)"


section \<open>Correctness of the component search\<close>

abbreviation (input) links :: "(nat \<Rightarrow> nat list) \<Rightarrow> nat rel" where
  "links nbs \<equiv> {(a, b). b \<in> set (nbs a)}"

lemma push_unvisited_spec:
  "\<exists>new. push_unvisited ms (visited, stack) = (visited \<union> set ms, new @ stack) \<and> distinct new \<and> set new = set ms - visited"
proof (induction ms arbitrary: visited stack)
  case (Cons m ms)
  show ?case
  proof (cases "m \<in> visited")
    case True
    then show ?thesis using Cons.IH[of visited stack] by auto
  next
    case False
    obtain new where "push_unvisited ms (insert m visited, m # stack) = (insert m visited \<union> set ms, new @ m # stack)"
        "distinct new" "set new = set ms - insert m visited"
      using Cons.IH[of "insert m visited" "m # stack"] by blast
    with False show ?thesis by (intro exI[of _ "new @ [m]"]) auto
  qed
qed simp

text \<open>
  The loop invariant: the visited nodes are those of the earlier components, the stack and the
  component; the neighbours of the component are visited; all new nodes are reachable from the start.
\<close>

definition search_inv :: "(nat \<Rightarrow> nat list) \<Rightarrow> nat \<Rightarrow> nat set \<Rightarrow> nat \<Rightarrow> nat set \<Rightarrow> nat list \<Rightarrow> nat list \<Rightarrow> bool" where
  "search_inv nbs n before start visited stack component \<longleftrightarrow>
     visited = before \<union> set stack \<union> set component \<and> distinct (stack @ component) \<and>
     before \<inter> set (stack @ component) = {} \<and> visited \<subseteq> {..<n} \<and> start \<in> set (stack @ component) \<and>
     set (stack @ component) \<subseteq> (links nbs)\<^sup>* `` {start} \<and> (\<forall>c \<in> set component. set (nbs c) \<subseteq> visited)"

lemma search_inv_step:
  assumes inv: "search_inv nbs n before start visited (x # stack) component"
    and range: "\<And>y. set (nbs y) \<subseteq> {..<n}"
    and push: "push_unvisited (nbs x) (visited, stack) = (visited', stack')"
  shows "search_inv nbs n before start visited' stack' (component @ [x])"
proof -
  obtain new where new: "visited' = visited \<union> set (nbs x)" "stack' = new @ stack" "distinct new" "set new = set (nbs x) - visited"
    using push_unvisited_spec[of "nbs x" visited stack] push by auto
  have "(start, x) \<in> (links nbs)\<^sup>*"
    using inv unfolding search_inv_def by auto
  then have "set new \<subseteq> (links nbs)\<^sup>* `` {start}"
    using new(4) by (auto intro: rtrancl_into_rtrancl)
  with inv range[of x] new show ?thesis
    unfolding search_inv_def by auto
qed

lemma search_inv_length:
  assumes "search_inv nbs n before start visited stack component"
  shows "length (stack @ component) \<le> n"
proof -
  have d: "distinct (stack @ component)" and s: "set (stack @ component) \<subseteq> {..<n}"
    using assms unfolding search_inv_def by auto
  have "length (stack @ component) = card (set (stack @ component))"
    using distinct_card[OF d] by simp
  also have "\<dots> \<le> card {..<n}" by (rule card_mono[OF _ s]) simp
  finally show ?thesis by simp
qed

lemma component_loop_returns:
  assumes "search_inv nbs n before start visited stack component"
    and range: "\<And>y. set (nbs y) \<subseteq> {..<n}" and "n \<le> fuel + length component"
  shows "\<exists>visited' component'. component_loop nbs fuel visited stack component = Some (visited', component') \<and>
           search_inv nbs n before start visited' [] component'"
  using assms
proof (induction nbs fuel visited stack component rule: component_loop.induct)
  case (2 nbs visited x stack component)
  have "length (x # stack @ component) \<le> n"
    using search_inv_length[OF 2(1)] by simp
  with 2(3) show ?case by simp
next
  case (3 nbs fuel visited x stack component)
  obtain visited' stack' where push: "push_unvisited (nbs x) (visited, stack) = (visited', stack')"
    by fastforce
  have "search_inv nbs n before start visited' stack' (component @ [x])"
    by (rule search_inv_step[OF 3(2) 3(3) push])
  then show ?case using 3(1)[OF push[symmetric] refl _ 3(3)] 3(4) push by simp
qed auto

text \<open>A set of nodes is closed when it contains the neighbours of its nodes.\<close>

definition link_closed :: "(nat \<Rightarrow> nat list) \<Rightarrow> nat set \<Rightarrow> bool" where
  "link_closed nbs V \<longleftrightarrow> (\<forall>x \<in> V. set (nbs x) \<subseteq> V)"

lemma link_closed_rtrancl: "link_closed nbs V \<Longrightarrow> (x, y) \<in> (links nbs)\<^sup>* \<Longrightarrow> x \<in> V \<Longrightarrow> y \<in> V"
  by (erule rtrancl_induct) (auto simp: link_closed_def)

lemma component_loop_component:
  assumes range: "\<And>y. set (nbs y) \<subseteq> {..<n}" and sym: "sym (links nbs)"
    and closed: "link_closed nbs before" and V: "before \<subseteq> {..<n}" and x: "x < n" "x \<notin> before"
  shows "\<exists>component. component_loop nbs n (insert x before) [x] [] = Some (before \<union> set component, component) \<and>
           distinct component \<and> before \<inter> set component = {} \<and> set component = (links nbs)\<^sup>* `` {x} \<and>
           link_closed nbs (before \<union> set component)"
proof -
  have inv0: "search_inv nbs n before x (insert x before) [x] []"
    using V x unfolding search_inv_def by auto
  obtain visited' component where run: "component_loop nbs n (insert x before) [x] [] = Some (visited', component)"
    and inv: "search_inv nbs n before x visited' [] component"
    using component_loop_returns[OF inv0 range, of n] by auto
  have v: "visited' = before \<union> set component" and disj: "before \<inter> set component = {}"
    and sub: "set component \<subseteq> (links nbs)\<^sup>* `` {x}" and "distinct component" "x \<in> set component"
    and nbs: "\<And>c. c \<in> set component \<Longrightarrow> set (nbs c) \<subseteq> before \<union> set component"
    using inv unfolding search_inv_def by auto
  have "set (nbs c) \<subseteq> set component" if c: "c \<in> set component" for c
  proof
    fix d assume d: "d \<in> set (nbs c)"
    then have "c \<in> set (nbs d)" using sym by (auto simp: sym_def)
    with closed c disj have "d \<notin> before" by (auto simp: link_closed_def)
    with nbs[OF c] d show "d \<in> set component" by auto
  qed
  then have cl: "link_closed nbs (set component)" by (simp add: link_closed_def)
  then have "(links nbs)\<^sup>* `` {x} \<subseteq> set component"
    using link_closed_rtrancl[OF cl] \<open>x \<in> set component\<close> by blast
  moreover have "link_closed nbs (before \<union> set component)"
    using closed cl unfolding link_closed_def by blast
  ultimately show ?thesis using run v disj sub \<open>distinct component\<close> by auto
qed

definition components_of :: "(nat \<Rightarrow> nat list) \<Rightarrow> nat set \<Rightarrow> nat list list \<Rightarrow> bool" where
  "components_of nbs V cs \<longleftrightarrow>
     distinct (concat cs) \<and> set (concat cs) = V \<and> (\<forall>c \<in> set cs. c \<noteq> [] \<and> (\<forall>x \<in> set c. set c = (links nbs)\<^sup>* `` {x}))"

lemma reach_class:
  assumes "sym (links nbs)" "y \<in> (links nbs)\<^sup>* `` {x}"
  shows "(links nbs)\<^sup>* `` {y} = (links nbs)\<^sup>* `` {x}"
proof -
  have "sym ((links nbs)\<^sup>*)" using assms(1) by (rule sym_rtrancl)
  with assms(2) show ?thesis by (auto intro: rtrancl_trans dest: symD)
qed

lemma subgraphs_loop_components:
  assumes range: "\<And>y. set (nbs y) \<subseteq> {..<n}" and sym: "sym (links nbs)"
  shows "set ns \<subseteq> {..<n} \<Longrightarrow> visited \<subseteq> {..<n} \<Longrightarrow> link_closed nbs visited \<Longrightarrow> components_of nbs visited cs \<Longrightarrow>
         \<exists>cs' V'. subgraphs_loop nbs n ns visited cs = Some cs' \<and> components_of nbs V' cs' \<and> visited \<union> set ns \<subseteq> V' \<and> V' \<subseteq> {..<n}"
proof (induction ns arbitrary: visited cs)
  case (Cons x ns)
  show ?case
  proof (cases "x \<in> visited")
    case True
    have "\<exists>cs' V'. subgraphs_loop nbs n ns visited cs = Some cs' \<and> components_of nbs V' cs' \<and> visited \<union> set ns \<subseteq> V' \<and> V' \<subseteq> {..<n}"
      by (rule Cons.IH) (use Cons.prems in auto)
    then obtain cs' V' where "subgraphs_loop nbs n ns visited cs = Some cs'" "components_of nbs V' cs'"
        "visited \<union> set ns \<subseteq> V'" "V' \<subseteq> {..<n}" by blast
    with True show ?thesis by (intro exI[of _ cs'] exI[of _ V']) auto
  next
    case False
    obtain c where run: "component_loop nbs n (insert x visited) [x] [] = Some (visited \<union> set c, c)"
      and c: "distinct c" "visited \<inter> set c = {}" "set c = (links nbs)\<^sup>* `` {x}" "link_closed nbs (visited \<union> set c)"
      using component_loop_component[OF range sym Cons.prems(3) Cons.prems(2) _ False] Cons.prems(1) by auto
    have x: "x \<in> set c" using c(3) by auto
    have "link_closed nbs {..<n}" using range by (simp add: link_closed_def)
    from link_closed_rtrancl[OF this] have sub: "set c \<subseteq> {..<n}" using c(3) Cons.prems(1) by auto
    have "components_of nbs (visited \<union> set c) (cs @ [c])"
      using Cons.prems(4) c x reach_class[OF sym] unfolding components_of_def by auto
    then have "\<exists>cs' V'. subgraphs_loop nbs n ns (visited \<union> set c) (cs @ [c]) = Some cs' \<and> components_of nbs V' cs' \<and>
        visited \<union> set c \<union> set ns \<subseteq> V' \<and> V' \<subseteq> {..<n}"
      by (intro Cons.IH) (use Cons.prems sub c(4) in auto)
    then obtain cs' V' where "subgraphs_loop nbs n ns (visited \<union> set c) (cs @ [c]) = Some cs'" "components_of nbs V' cs'"
        "visited \<union> set c \<union> set ns \<subseteq> V'" "V' \<subseteq> {..<n}" by blast
    with False run x show ?thesis by (intro exI[of _ cs'] exI[of _ V']) auto
  qed
qed auto

definition graph_wf :: "'d digraph \<Rightarrow> bool" where
  "graph_wf g \<longleftrightarrow> (\<forall>(a, b) \<in> set (g_edges g). a < length (g_nodes g) \<and> b < length (g_nodes g))"

text \<open>Being in the same weakly connected component.\<close>

definition weakly_connected :: "'d digraph \<Rightarrow> nat rel" where
  "weakly_connected g = (set (g_edges g) \<union> (set (g_edges g))\<inverse>)\<^sup>*"

lemma weakly_connected_links: "neighbors_law nb \<Longrightarrow> (links (nb g))\<^sup>* = weakly_connected g"
  unfolding neighbors_law_def weakly_connected_def by (rule arg_cong[where f = rtrancl]) auto

lemma find_all_subgraphs_spec:
  assumes "neighbors_law nb" and "graph_wf g"
  shows "\<exists>cs. find_all_subgraphs nb g = Some cs \<and> distinct (concat cs) \<and> set (concat cs) = {..<length (g_nodes g)} \<and>
           (\<forall>c \<in> set cs. c \<noteq> [] \<and> (\<forall>x \<in> set c. set c = weakly_connected g `` {x}))"
proof -
  have 1: "set (nb g y) \<subseteq> {..<length (g_nodes g)}" for y
    using assms unfolding neighbors_law_def graph_wf_def by blast
  have 2: "sym (links (nb g))"
    using assms(1) unfolding neighbors_law_def sym_def by blast
  have "\<exists>cs V. find_all_subgraphs nb g = Some cs \<and> components_of (nb g) V cs \<and>
          {} \<union> set [0..<length (g_nodes g)] \<subseteq> V \<and> V \<subseteq> {..<length (g_nodes g)}"
    unfolding find_all_subgraphs_def
    by (rule subgraphs_loop_components[OF 1 2]) (auto simp: link_closed_def components_of_def)
  then obtain cs V where run: "find_all_subgraphs nb g = Some cs" and cs: "components_of (nb g) V cs"
    and "{} \<union> set [0..<length (g_nodes g)] \<subseteq> V" "V \<subseteq> {..<length (g_nodes g)}" by blast
  then have "V = {..<length (g_nodes g)}" by auto
  with run cs show ?thesis
    unfolding components_of_def weakly_connected_links[OF assms(1)] by blast
qed

text \<open>
  C16. \<^verbatim>\<open>find_all_subgraphs\<close> terminates and splits the nodes of the graph into its weakly connected
  components: every node is in exactly one list, no list repeats a node, and the nodes of a list
  are exactly those connected with any of them.
\<close>

theorem find_all_subgraphs_components:
  assumes "neighbors_law nb" and "graph_wf g"
  shows "\<exists>cs. find_all_subgraphs nb g = Some cs \<and> distinct (concat cs) \<and> set (concat cs) = {..<length (g_nodes g)} \<and>
           (\<forall>c \<in> set cs. c \<noteq> [] \<and> (\<forall>x \<in> set c. set c = weakly_connected g `` {x}))"
  using find_all_subgraphs_spec[OF assms] .

definition example_graph :: "nat digraph" where
  "example_graph = \<lparr>g_nodes = [10, 11, 12, 13], g_edges = [(0, 2), (2, 3)]\<rparr>"

lemma find_all_subgraphs_example:
  "find_all_subgraphs edge_order_neighbors example_graph = Some [[0, 2, 3], [1]]"
  by (simp add: find_all_subgraphs_def example_graph_def edge_order_neighbors_def eval_nat_numeral)

lemma find_all_subgraphs_components_witness:
  "find_all_subgraphs edge_order_neighbors example_graph = Some [[0, 2, 3], [1]] \<and>
   weakly_connected example_graph `` {2} = {0, 2, 3} \<and> weakly_connected example_graph `` {1} = {1}"
proof -
  have wf: "graph_wf example_graph"
    by (simp add: graph_wf_def example_graph_def)
  obtain cs where "find_all_subgraphs edge_order_neighbors example_graph = Some cs"
      "\<forall>c \<in> set cs. c \<noteq> [] \<and> (\<forall>x \<in> set c. set c = weakly_connected example_graph `` {x})"
    using find_all_subgraphs_components[OF neighbors_law_edge_order wf] by blast
  with find_all_subgraphs_example show ?thesis by auto
qed


section \<open>Correctness of the dependency graph\<close>

text \<open>The last accessor of \<open>x\<close> is connected with the node \<open>i\<close>.\<close>

definition tracked :: "'d digraph \<Rightarrow> ('o \<rightharpoonup> nat) \<Rightarrow> nat \<Rightarrow> 'o \<Rightarrow> bool" where
  "tracked g la i x \<longleftrightarrow> (\<exists>k. la x = Some k \<and> (i, k) \<in> weakly_connected g)"

definition accessors_wf :: "'d digraph \<Rightarrow> ('o \<rightharpoonup> nat) \<Rightarrow> bool" where
  "accessors_wf g la \<longleftrightarrow> graph_wf g \<and> (\<forall>x k. la x = Some k \<longrightarrow> k < length (g_nodes g))"

lemma weakly_connected_mono: "set (g_edges g) \<subseteq> set (g_edges g') \<Longrightarrow> weakly_connected g \<subseteq> weakly_connected g'"
  unfolding weakly_connected_def by (rule rtrancl_mono) auto

lemma weakly_connected_sym: "(a, b) \<in> weakly_connected g \<Longrightarrow> (b, a) \<in> weakly_connected g"
  unfolding weakly_connected_def by (rule symD[OF sym_rtrancl]) (auto simp: sym_def)

lemma weakly_connected_trans:
  "(a, b) \<in> weakly_connected g \<Longrightarrow> (b, c) \<in> weakly_connected g \<Longrightarrow> (a, c) \<in> weakly_connected g"
  unfolding weakly_connected_def by (rule rtrancl_trans)

lemma weakly_connected_refl [simp]: "(a, a) \<in> weakly_connected g"
  by (simp add: weakly_connected_def)

definition linked :: "nat \<Rightarrow> 'o \<Rightarrow> 'd digraph \<Rightarrow> ('o \<rightharpoonup> nat) \<Rightarrow> 'd digraph" where
  "linked node x g la = (case la x of Some prior \<Rightarrow> add_edge prior node g | None \<Rightarrow> g)"

lemma linked_simps [simp]:
  "g_nodes (linked node x g la) = g_nodes g"
  "set (g_edges g) \<subseteq> set (g_edges (linked node x g la))"
  by (auto simp: linked_def add_edge_def split: option.splits)

lemma linked_tracked:
  assumes "tracked g la i y"
  shows "tracked (linked node x g la) (la(x \<mapsto> node)) i y"
proof -
  obtain k where k: "la y = Some k" "(i, k) \<in> weakly_connected g"
    using assms unfolding tracked_def by blast
  have i: "(i, k) \<in> weakly_connected (linked node x g la)"
    by (rule subsetD[OF weakly_connected_mono[OF linked_simps(2)] k(2)])
  show ?thesis
  proof (cases "y = x")
    case True
    then have "(k, node) \<in> weakly_connected (linked node x g la)"
      using k(1) by (auto simp: linked_def add_edge_def weakly_connected_def intro: r_into_rtrancl)
    with True weakly_connected_trans[OF i] show ?thesis by (auto simp: tracked_def)
  next
    case False
    with k i show ?thesis by (auto simp: tracked_def)
  qed
qed

lemma linked_wf:
  "accessors_wf g la \<Longrightarrow> node < length (g_nodes g) \<Longrightarrow> accessors_wf (linked node x g la) (la(x \<mapsto> node))"
  by (auto simp: accessors_wf_def graph_wf_def linked_def add_edge_def split: option.splits)

lemma link_objects_spec:
  assumes "accessors_wf g la" and "node < length (g_nodes g)"
    and "link_objects node xs (g, la) = (g', la')"
  shows "accessors_wf g' la'" and "g_nodes g' = g_nodes g"
    and "\<And>i y. tracked g la i y \<Longrightarrow> tracked g' la' i y"
    and "\<And>y. y \<in> set xs \<Longrightarrow> tracked g' la' node y"
proof -
  have "accessors_wf g' la' \<and> g_nodes g' = g_nodes g \<and> (\<forall>i y. tracked g la i y \<longrightarrow> tracked g' la' i y) \<and>
        (\<forall>y \<in> set xs. tracked g' la' node y)"
    using assms
  proof (induction xs arbitrary: g la)
    case (Cons x xs)
    have run: "link_objects node xs (linked node x g la, la(x \<mapsto> node)) = (g', la')"
      using Cons.prems(3) by (simp add: linked_def)
    have new: "tracked (linked node x g la) (la(x \<mapsto> node)) node x"
      by (simp add: tracked_def)
    have IH: "accessors_wf g' la' \<and> g_nodes g' = g_nodes (linked node x g la) \<and>
        (\<forall>i y. tracked (linked node x g la) (la(x \<mapsto> node)) i y \<longrightarrow> tracked g' la' i y) \<and>
        (\<forall>y \<in> set xs. tracked g' la' node y)"
      by (rule Cons.IH[OF linked_wf[OF Cons.prems(1,2)] _ run]) (simp add: Cons.prems(2))
    then show ?case using new linked_tracked[of g la _ _ node x] by simp
  qed simp
  then show "accessors_wf g' la'" and "g_nodes g' = g_nodes g"
    and "\<And>i y. tracked g la i y \<Longrightarrow> tracked g' la' i y" and "\<And>y. y \<in> set xs \<Longrightarrow> tracked g' la' node y"
    by blast+
qed

definition accessed :: "('t, 'o) txn_ts \<Rightarrow> 'o set" where
  "accessed t = fst ` set (shared_objects t)"

definition build_inv :: "('t \<Rightarrow> 'd) \<Rightarrow> ('t, 'o) txn_ts list \<Rightarrow> 'd digraph \<Rightarrow> ('o \<rightharpoonup> nat) \<Rightarrow> bool" where
  "build_inv digest done g la \<longleftrightarrow>
     accessors_wf g la \<and> g_nodes g = map (\<lambda>t. digest (transaction t)) done \<and>
     (\<forall>i < length done. \<forall>x \<in> accessed (done ! i). tracked g la i x)"

lemma build_inv_step:
  assumes inv: "build_inv digest done g la" and node: "add_node (digest (transaction t)) g = (g1, node)"
    and run: "link_objects node (map fst (shared_objects t)) (g1, la) = (g2, la2)"
  shows "build_inv digest (done @ [t]) g2 la2"
proof -
  have g1: "g1 = g\<lparr>g_nodes := g_nodes g @ [digest (transaction t)]\<rparr>" and n: "node = length done"
    and len: "length (g_nodes g) = length done"
    using node inv by (auto simp: add_node_def build_inv_def)
  have wf: "accessors_wf g1 la" and lt: "node < length (g_nodes g1)"
    using inv len by (auto simp: g1 n build_inv_def accessors_wf_def graph_wf_def less_Suc_eq)
  have same: "tracked g1 la = tracked g la"
    by (simp add: tracked_def g1 weakly_connected_def fun_eq_iff)
  note spec = link_objects_spec[OF wf lt run]
  have "tracked g2 la2 i x" if "i < Suc (length done)" "x \<in> accessed ((done @ [t]) ! i)" for i x
  proof (cases "i < length done")
    case True
    then have "tracked g la i x" using inv that(2) by (auto simp: build_inv_def nth_append)
    then show ?thesis using spec(3) same by simp
  next
    case False
    then have "i = node" "x \<in> fst ` set (shared_objects t)" using that n by (auto simp: accessed_def less_Suc_eq)
    then show ?thesis using spec(4) by simp
  qed
  with spec(1,2) inv show ?thesis by (simp add: build_inv_def g1)
qed

lemma build_loop_inv:
  assumes "build_inv digest done g la" and "build_loop digest ts (g, nodes, la) = (g', nodes', la')"
  shows "build_inv digest (done @ ts) g' la'"
  using assms
proof (induction ts arbitrary: "done" g nodes la)
  case (Cons t ts)
  obtain g1 node where 1: "add_node (digest (transaction t)) g = (g1, node)" by fastforce
  obtain g2 la2 where 2: "link_objects node (map fst (shared_objects t)) (g1, la) = (g2, la2)" by fastforce
  have "build_inv digest ((done @ [t]) @ ts) g' la'"
    by (rule Cons.IH[OF build_inv_step[OF Cons.prems(1) 1 2]]) (use Cons.prems(2) 1 2 in simp)
  then show ?case by simp
qed simp

lemma build_dependency_graph_spec:
  assumes "build_dependency_graph digest ts = (g, nodes)"
  shows "graph_wf g" and "g_nodes g = map (\<lambda>t. digest (transaction t)) ts"
    and "\<And>i j. i < length ts \<Longrightarrow> j < length ts \<Longrightarrow> accessed (ts ! i) \<inter> accessed (ts ! j) \<noteq> {} \<Longrightarrow> (i, j) \<in> weakly_connected g"
proof -
  obtain la where "build_loop digest ts (\<lparr>g_nodes = [], g_edges = []\<rparr>, Map.empty, Map.empty) = (g, nodes, la)"
    using assms by (auto simp: build_dependency_graph_def split: prod.splits)
  moreover have "build_inv digest [] \<lparr>g_nodes = [], g_edges = []\<rparr> Map.empty"
    by (simp add: build_inv_def accessors_wf_def graph_wf_def)
  ultimately have inv: "build_inv digest ts g la"
    using build_loop_inv[of digest "[]"] by fastforce
  then show "graph_wf g" and "g_nodes g = map (\<lambda>t. digest (transaction t)) ts"
    by (simp_all add: build_inv_def accessors_wf_def)
  fix i j assume ij: "i < length ts" "j < length ts" and "accessed (ts ! i) \<inter> accessed (ts ! j) \<noteq> {}"
  then obtain x where "x \<in> accessed (ts ! i)" "x \<in> accessed (ts ! j)" by blast
  then have "tracked g la i x" "tracked g la j x" using inv ij by (auto simp: build_inv_def)
  then show "(i, j) \<in> weakly_connected g"
    unfolding tracked_def by (auto intro: weakly_connected_trans weakly_connected_sym)
qed


section \<open>Correctness of the routing plan\<close>

definition scheduler_ok :: "'d scheduler \<Rightarrow> bool" where
  "scheduler_ok sc \<longleftrightarrow> sc_num_proxies sc > 0 \<and> (\<forall>idx p. sc_object_last_proxy sc idx = Some p \<longrightarrow> p < sc_num_proxies sc)"

text \<open>The index of the object identifier can be computed.\<close>

definition indexable :: "('o \<Rightarrow> byte list) \<Rightarrow> 'o \<Rightarrow> bool" where
  "indexable bytes x \<longleftrightarrow> bytes x ! 0 \<noteq> 0 \<or> bytes x ! 1 \<noteq> 0 \<or> bytes x ! 2 \<noteq> 0"

definition draws_in_range :: "(nat list \<Rightarrow> nat \<Rightarrow> nat) \<Rightarrow> bool" where
  "draws_in_range rnd \<longleftrightarrow> (\<forall>c n. n > 0 \<longrightarrow> rnd c n < n)"

lemma index_indexable: "indexable bytes x \<Longrightarrow> \<exists>i. object_id_24bit_index bytes x = Inr i"
  by (auto simp: indexable_def object_id_24bit_index_def Let_def unat_eq_0)

lemma index_panics: "\<not> indexable bytes x \<Longrightarrow> object_id_24bit_index bytes x = Inl (Panic ''attempt to subtract with overflow'')"
  by (auto simp: indexable_def object_id_24bit_index_def Let_def)

lemma locality_loop_returns:
  assumes "\<forall>x \<in> set xs. indexable bytes x" and "\<And>idx p. lp idx = Some p \<Longrightarrow> p < length scores"
  shows "\<exists>s. locality_loop bytes lp xs scores = Inr s \<and> length s = length scores"
  using assms
proof (induction xs arbitrary: scores)
  case (Cons x xs)
  obtain i where i: "object_id_24bit_index bytes x = Inr i" using index_indexable Cons.prems(1) by fastforce
  show ?case
  proof (cases "lp i")
    case None
    with i Cons show ?thesis by simp
  next
    case (Some p)
    then have "p < length scores" using Cons.prems(2) by blast
    with Some i Cons.IH[of "scores[p := scores ! p + 1]"] Cons.prems show ?thesis by simp
  qed
qed simp

lemma mark_objects_returns:
  assumes "\<forall>x \<in> set xs. indexable bytes x"
  shows "\<exists>l. mark_objects bytes p xs lp = Inr l \<and> (\<forall>idx q. l idx = Some q \<longrightarrow> q = p \<or> lp idx = Some q)"
  using assms
proof (induction xs arbitrary: lp)
  case (Cons x xs)
  obtain i where i: "object_id_24bit_index bytes x = Inr i" using index_indexable Cons.prems by fastforce
  obtain l where "mark_objects bytes p xs (lp(i \<mapsto> p)) = Inr l" "\<forall>idx q. l idx = Some q \<longrightarrow> q = p \<or> (lp(i \<mapsto> p)) idx = Some q"
    using Cons.IH[of "lp(i \<mapsto> p)"] Cons.prems by (auto simp del: fun_upd_apply)
  with i show ?case by (auto split: if_splits)
qed simp

lemma best_candidates_range: "p \<in> set (best_candidates scores) \<Longrightarrow> p < length scores"
  by (auto simp: best_candidates_def Let_def)

lemma fold_map_upd: "fold (\<lambda>d m. m(d \<mapsto> b)) ds m x = (if x \<in> set ds then Some b else m x)"
  by (induction ds arbitrary: m) auto

definition indexable_map :: "('o \<Rightarrow> byte list) \<Rightarrow> ('d \<rightharpoonup> ('t, 'o) txn_ts) \<Rightarrow> bool" where
  "indexable_map bytes tx_map \<longleftrightarrow> (\<forall>d t. tx_map d = Some t \<longrightarrow> (\<forall>x \<in> accessed t. indexable bytes x))"

lemma subgraph_objects_indexable:
  "indexable_map bytes tx_map \<Longrightarrow> \<forall>x \<in> set (subgraph_objects tx_map ds). indexable bytes x"
  by (force simp: indexable_map_def subgraph_objects_def accessed_def split: option.splits)

lemma assign_large_subgraph_proxy_spec:
  assumes ok: "scheduler_ok sc" and rnd: "draws_in_range rnd" and idx: "indexable_map bytes tx_map"
  shows "\<exists>p plan. assign_large_subgraph_proxy bytes rnd g tx_map ns sc =
             Inr (sc\<lparr>sc_routing_plan := plan\<rparr>, p, subgraph_digests g ns, subgraph_objects tx_map (subgraph_digests g ns)) \<and>
           p < sc_num_proxies sc \<and>
           (\<forall>d. plan d = (if d \<in> (\<lambda>n. g_nodes g ! n) ` set ns then Some p else sc_routing_plan sc d))"
proof -
  let ?n = "sc_num_proxies sc" and ?objs = "subgraph_objects tx_map (subgraph_digests g ns)"
  obtain loc where loc: "locality_loop bytes (sc_object_last_proxy sc) ?objs (replicate ?n 0) = Inr loc" "length loc = ?n"
    using locality_loop_returns[OF subgraph_objects_indexable[OF idx, of "subgraph_digests g ns"], of "sc_object_last_proxy sc" "replicate ?n 0"] ok
    by (auto simp: scheduler_ok_def)
  let ?cand = "best_candidates (combined_scores loc (map (load_of (sc_proxy_loads sc)) [0..<?n]))"
  let ?best = "if ?cand = [] then 0 else ?cand ! rnd ns (length ?cand)"
  have "?best < ?n"
  proof (cases "?cand = []")
    case True
    then show ?thesis using ok by (simp add: scheduler_ok_def)
  next
    case False
    then have "?cand ! rnd ns (length ?cand) \<in> set ?cand"
      using rnd by (simp add: draws_in_range_def)
    from best_candidates_range[OF this] loc(2) False show ?thesis by (simp add: combined_scores_def)
  qed
  then show ?thesis
    by (intro exI[of _ ?best] exI[of _ "fold (\<lambda>d m. m(d \<mapsto> ?best)) (subgraph_digests g ns) (sc_routing_plan sc)"])
      (simp add: assign_large_subgraph_proxy_def Let_def loc(1) fold_map_upd, simp add: subgraph_digests_def)
qed

text \<open>What \<^verbatim>\<open>handle_large_subgraphs\<close> leaves: one proxy for every component, other digests as they were.\<close>

definition routed :: "'d digraph \<Rightarrow> nat list list \<Rightarrow> 'd scheduler \<Rightarrow> 'd scheduler \<Rightarrow> bool" where
  "routed g nss sc sc' \<longleftrightarrow>
     sc_num_proxies sc' = sc_num_proxies sc \<and>
     (\<forall>ns \<in> set nss. \<exists>p < sc_num_proxies sc. \<forall>n \<in> set ns. sc_routing_plan sc' (g_nodes g ! n) = Some p) \<and>
     (\<forall>d. d \<notin> (\<lambda>n. g_nodes g ! n) ` set (concat nss) \<longrightarrow> sc_routing_plan sc' d = sc_routing_plan sc d)"

lemma nodes_disjoint:
  assumes "distinct (g_nodes g)" "set ns \<subseteq> {..<length (g_nodes g)}" "set ms \<subseteq> {..<length (g_nodes g)}" "set ns \<inter> set ms = {}"
    and n: "n \<in> set ns"
  shows "g_nodes g ! n \<notin> (\<lambda>n. g_nodes g ! n) ` set ms"
proof
  assume "g_nodes g ! n \<in> (\<lambda>n. g_nodes g ! n) ` set ms"
  then obtain m where "m \<in> set ms" "g_nodes g ! n = g_nodes g ! m" by blast
  with assms have "n = m" by (auto simp: nth_eq_iff_index_eq subset_iff)
  with \<open>m \<in> set ms\<close> n assms(4) show False by blast
qed

lemma assign_all_spec:
  assumes rnd: "draws_in_range rnd" and idx: "indexable_map bytes tx_map" and dist: "distinct (g_nodes g)"
  shows "scheduler_ok sc \<Longrightarrow> distinct (concat nss) \<Longrightarrow> set (concat nss) \<subseteq> {..<length (g_nodes g)} \<Longrightarrow>
    \<exists>plan as. assign_all bytes rnd g tx_map nss sc = Inr (sc\<lparr>sc_routing_plan := plan\<rparr>, as) \<and>
      routed g nss sc (sc\<lparr>sc_routing_plan := plan\<rparr>) \<and>
      (\<forall>(p, ds, objs) \<in> set as. p < sc_num_proxies sc \<and> (\<forall>x \<in> set objs. indexable bytes x))"
proof (induction nss arbitrary: sc)
  case Nil
  then show ?case by (intro exI[of _ "sc_routing_plan sc"]) (simp add: routed_def)
next
  case (Cons ns nss)
  let ?ds = "subgraph_digests g ns" let ?objs = "subgraph_objects tx_map ?ds"
  obtain p plan where a: "assign_large_subgraph_proxy bytes rnd g tx_map ns sc = Inr (sc\<lparr>sc_routing_plan := plan\<rparr>, p, ?ds, ?objs)"
    and p: "p < sc_num_proxies sc"
    and plan: "\<And>d. plan d = (if d \<in> (\<lambda>n. g_nodes g ! n) ` set ns then Some p else sc_routing_plan sc d)"
    using assign_large_subgraph_proxy_spec[OF Cons.prems(1) rnd idx, of g ns] by blast
  have "\<exists>plan' as. assign_all bytes rnd g tx_map nss (sc\<lparr>sc_routing_plan := plan\<rparr>) =
        Inr (sc\<lparr>sc_routing_plan := plan\<rparr>\<lparr>sc_routing_plan := plan'\<rparr>, as) \<and>
      routed g nss (sc\<lparr>sc_routing_plan := plan\<rparr>) (sc\<lparr>sc_routing_plan := plan\<rparr>\<lparr>sc_routing_plan := plan'\<rparr>) \<and>
      (\<forall>(p, ds, objs) \<in> set as. p < sc_num_proxies (sc\<lparr>sc_routing_plan := plan\<rparr>) \<and> (\<forall>x \<in> set objs. indexable bytes x))"
    by (rule Cons.IH) (use Cons.prems in \<open>auto simp: scheduler_ok_def\<close>)
  then obtain plan' as where b: "assign_all bytes rnd g tx_map nss (sc\<lparr>sc_routing_plan := plan\<rparr>) = Inr (sc\<lparr>sc_routing_plan := plan'\<rparr>, as)"
    and r: "routed g nss (sc\<lparr>sc_routing_plan := plan\<rparr>) (sc\<lparr>sc_routing_plan := plan'\<rparr>)"
    and as: "\<forall>(p, ds, objs) \<in> set as. p < sc_num_proxies sc \<and> (\<forall>x \<in> set objs. indexable bytes x)" by auto
  have keep: "plan' d = plan d" if "d \<notin> (\<lambda>n. g_nodes g ! n) ` set (concat nss)" for d
    using r that by (simp add: routed_def)
  have "plan' (g_nodes g ! n) = Some p" if "n \<in> set ns" for n
    using keep[OF nodes_disjoint[OF dist _ _ _ that, of "concat nss"]] Cons.prems(2,3) that plan by auto
  moreover have "plan' d = sc_routing_plan sc d" if "d \<notin> (\<lambda>n. g_nodes g ! n) ` set (concat (ns # nss))" for d
  proof -
    have "d \<notin> (\<lambda>n. g_nodes g ! n) ` set (concat nss)" "d \<notin> (\<lambda>n. g_nodes g ! n) ` set ns"
      using that by (auto simp: image_Un)
    then show ?thesis using keep[of d] plan[of d] by simp
  qed
  ultimately have "routed g (ns # nss) sc (sc\<lparr>sc_routing_plan := plan'\<rparr>)"
    using r p unfolding routed_def by auto
  moreover have "\<forall>x \<in> set ?objs. indexable bytes x" by (rule subgraph_objects_indexable[OF idx])
  ultimately show ?case using a b p as by (intro exI[of _ plan'] exI[of _ "(p, ?ds, ?objs) # as"]) simp
qed

lemma update_all_spec:
  assumes "scheduler_ok sc"
    and "\<forall>(p, ds, objs) \<in> set as. p < sc_num_proxies sc \<and> (\<forall>x \<in> set objs. indexable bytes x)"
  shows "\<exists>sc'. update_all bytes tx_map as sc = Inr sc' \<and> scheduler_ok sc' \<and>
           sc_num_proxies sc' = sc_num_proxies sc \<and> sc_routing_plan sc' = sc_routing_plan sc"
  using assms
proof (induction as arbitrary: sc)
  case (Cons a as)
  obtain p ds objs where a: "a = (p, ds, objs)" by (cases a)
  have p: "p < sc_num_proxies sc" and objs: "\<forall>x \<in> set objs. indexable bytes x" using Cons.prems(2) a by auto
  obtain l where l: "mark_objects bytes p objs (sc_object_last_proxy sc) = Inr l"
    and lr: "\<And>idx q. l idx = Some q \<Longrightarrow> q = p \<or> sc_object_last_proxy sc idx = Some q"
    using mark_objects_returns[OF objs] by blast
  obtain loads where u: "update_state_for_sds bytes tx_map ds objs p sc = Inr (sc\<lparr>sc_proxy_loads := loads, sc_object_last_proxy := l\<rparr>)"
    using l by (simp add: update_state_for_sds_def Let_def)
  have ok: "scheduler_ok (sc\<lparr>sc_proxy_loads := loads, sc_object_last_proxy := l\<rparr>)"
    using Cons.prems(1) p lr by (auto simp: scheduler_ok_def)
  have "\<exists>sc'. update_all bytes tx_map as (sc\<lparr>sc_proxy_loads := loads, sc_object_last_proxy := l\<rparr>) = Inr sc' \<and> scheduler_ok sc' \<and>
      sc_num_proxies sc' = sc_num_proxies (sc\<lparr>sc_proxy_loads := loads, sc_object_last_proxy := l\<rparr>) \<and>
      sc_routing_plan sc' = sc_routing_plan (sc\<lparr>sc_proxy_loads := loads, sc_object_last_proxy := l\<rparr>)"
    by (rule Cons.IH[OF ok]) (use Cons.prems(2) in auto)
  then show ?case using a u p by simp
qed simp

lemma handle_large_subgraphs_spec:
  assumes "draws_in_range rnd" "indexable_map bytes tx_map" "distinct (g_nodes g)" "scheduler_ok sc"
    and "distinct (concat nss)" "set (concat nss) \<subseteq> {..<length (g_nodes g)}"
  shows "\<exists>sc'. handle_large_subgraphs bytes rnd g nss tx_map sc = Inr sc' \<and> scheduler_ok sc' \<and> routed g nss sc sc'"
proof -
  obtain plan as where a: "assign_all bytes rnd g tx_map nss sc = Inr (sc\<lparr>sc_routing_plan := plan\<rparr>, as)"
    and r: "routed g nss sc (sc\<lparr>sc_routing_plan := plan\<rparr>)"
    and as: "\<forall>(p, ds, objs) \<in> set as. p < sc_num_proxies sc \<and> (\<forall>x \<in> set objs. indexable bytes x)"
    using assign_all_spec[OF assms] by blast
  have "scheduler_ok (sc\<lparr>sc_routing_plan := plan\<rparr>)" using assms(4) by (simp add: scheduler_ok_def)
  then obtain sc' where "update_all bytes tx_map as (sc\<lparr>sc_routing_plan := plan\<rparr>) = Inr sc'" "scheduler_ok sc'"
      "sc_num_proxies sc' = sc_num_proxies sc" "sc_routing_plan sc' = plan"
    using update_all_spec[of "sc\<lparr>sc_routing_plan := plan\<rparr>" as bytes tx_map] as by auto
  with a r show ?thesis by (simp add: handle_large_subgraphs_def routed_def)
qed

lemma distinct_concat_filter: "distinct (concat xs) \<Longrightarrow> distinct (concat (filter P xs))"
  by (induction xs) auto

lemma large_of_sorted:
  assumes "distinct (concat cs)"
  shows "distinct (concat (filter P (sort_key f cs)))" and "set (concat (filter P (sort_key f cs))) \<subseteq> set (concat cs)"
proof -
  have m: "mset (concat (sort_key f cs)) = mset (concat cs)"
    by (simp add: mset_concat flip: sum_mset_sum_list)
  then have "distinct (concat (sort_key f cs))"
    using assms mset_eq_imp_distinct_iff[OF m] by blast
  then show "distinct (concat (filter P (sort_key f cs)))"
    by (rule distinct_concat_filter)
  show "set (concat (filter P (sort_key f cs))) \<subseteq> set (concat cs)" by auto
qed

text \<open>What scheduling the batch \<open>ts\<close> does to the routing plan.\<close>

definition colocated :: "('t \<Rightarrow> 'd) \<Rightarrow> ('t, 'o) txn_ts list \<Rightarrow> nat \<Rightarrow> ('d \<rightharpoonup> proxy_id) \<Rightarrow> bool" where
  "colocated digest ts n plan \<longleftrightarrow>
     (\<forall>i < length ts. \<forall>j < length ts. i \<noteq> j \<longrightarrow> accessed (ts ! i) \<inter> accessed (ts ! j) \<noteq> {} \<longrightarrow>
        (\<exists>p < n. plan (digest (transaction (ts ! i))) = Some p \<and> plan (digest (transaction (ts ! j))) = Some p))"

lemma schedule_transaction_batch_spec:
  assumes "neighbors_law nb" and "draws_in_range rnd" and "scheduler_ok sc"
    and "distinct (map (\<lambda>t. digest (transaction t)) ts)" and "\<forall>t \<in> set ts. \<forall>x \<in> accessed t. indexable bytes x"
  shows "\<exists>sc'. schedule_transaction_batch nb bytes rnd digest ts sc = Inr sc' \<and> scheduler_ok sc' \<and>
           sc_num_proxies sc' = sc_num_proxies sc \<and>
           colocated digest ts (sc_num_proxies sc) (sc_routing_plan sc') \<and>
           (\<forall>d. d \<notin> (\<lambda>t. digest (transaction t)) ` set ts \<longrightarrow> sc_routing_plan sc' d = sc_routing_plan sc d)"
proof -
  obtain g nodes where g: "build_dependency_graph digest ts = (g, nodes)" by fastforce
  note spec = build_dependency_graph_spec[OF g]
  obtain cs where cs: "find_all_subgraphs nb g = Some cs" "distinct (concat cs)" "set (concat cs) = {..<length (g_nodes g)}"
      "\<forall>c \<in> set cs. c \<noteq> [] \<and> (\<forall>x \<in> set c. set c = weakly_connected g `` {x})"
    using find_all_subgraphs_spec[OF assms(1) spec(1)] by blast
  let ?large = "filter (\<lambda>c. \<not> length c < 2) (sort_key (\<lambda>c. - int (length c)) cs)"
  let ?tx_map = "map_of (rev (map (\<lambda>t. (digest (transaction t), t)) ts))"
  have idx: "indexable_map bytes ?tx_map"
    using assms(5) by (auto simp: indexable_map_def dest!: map_of_SomeD)
  have dist: "distinct (g_nodes g)" using assms(4) by (simp add: spec(2))
  have lsub: "set (concat ?large) \<subseteq> {..<length (g_nodes g)}"
    using large_of_sorted(2)[OF cs(2), of "\<lambda>c. \<not> length c < 2" "\<lambda>c. - int (length c)"] cs(3) by simp
  obtain sc' where run: "handle_large_subgraphs bytes rnd g ?large ?tx_map sc = Inr sc'"
    and ok: "scheduler_ok sc'" and r: "routed g ?large sc sc'"
    using handle_large_subgraphs_spec[OF assms(2) idx dist assms(3) large_of_sorted(1)[OF cs(2)] lsub] by blast
  have "handle_large_subgraphs bytes rnd g [] ?tx_map sc = Inr sc"
    by (simp add: handle_large_subgraphs_def)
  then have "apply_sds_policy nb bytes rnd digest ts g sc = Inr sc'"
    using run by (auto simp: apply_sds_policy_def Let_def cs(1))
  then have run': "schedule_transaction_batch nb bytes rnd digest ts sc = Inr sc'"
    using assms(3) by (simp add: schedule_transaction_batch_def scheduler_ok_def g)
  have pair: "\<exists>p < sc_num_proxies sc. sc_routing_plan sc' (digest (transaction (ts ! i))) = Some p \<and>
      sc_routing_plan sc' (digest (transaction (ts ! j))) = Some p"
    if ij: "i < length ts" "j < length ts" "i \<noteq> j" "accessed (ts ! i) \<inter> accessed (ts ! j) \<noteq> {}" for i j
  proof -
    obtain c where c: "c \<in> set cs" "i \<in> set c" using cs(3) ij(1) spec(2) by (auto simp: set_eq_iff)
    then have "set c = weakly_connected g `` {i}" using cs(4) by blast
    then have j: "j \<in> set c" using spec(3)[OF ij(1,2,4)] by blast
    then have "card {i, j} \<le> length c"
      using c(2) card_mono[of "set c" "{i, j}"] card_length[of c] by simp
    then have "c \<in> set ?large" using c(1) ij(3) by simp
    then obtain p where "p < sc_num_proxies sc" "\<forall>n \<in> set c. sc_routing_plan sc' (g_nodes g ! n) = Some p"
      using r unfolding routed_def by blast
    then have "sc_routing_plan sc' (g_nodes g ! i) = Some p" "sc_routing_plan sc' (g_nodes g ! j) = Some p"
      using c(2) j by blast+
    with \<open>p < sc_num_proxies sc\<close> ij(1,2) show ?thesis by (simp add: spec(2))
  qed
  have "sc_routing_plan sc' d = sc_routing_plan sc d" if d: "d \<notin> (\<lambda>t. digest (transaction t)) ` set ts" for d
  proof -
    have "(\<lambda>n. g_nodes g ! n) ` set (concat ?large) \<subseteq> set (g_nodes g)" using lsub by auto
    then have "d \<notin> (\<lambda>n. g_nodes g ! n) ` set (concat ?large)" using d spec(2) by auto
    then show ?thesis using r unfolding routed_def by blast
  qed
  moreover have "sc_num_proxies sc' = sc_num_proxies sc" using r by (simp add: routed_def)
  ultimately show ?thesis using run' ok pair unfolding colocated_def by blast
qed

lemma colocated_cong:
  assumes "colocated digest ts n plan" and "\<And>t. t \<in> set ts \<Longrightarrow> plan' (digest (transaction t)) = plan (digest (transaction t))"
  shows "colocated digest ts n plan'"
  using assms unfolding colocated_def by simp

lemma process_pre_consensus_txns_spec:
  assumes "neighbors_law nb" and "scheduler_ok sc"
    and "\<forall>(rnd, ts) \<in> set bs. draws_in_range rnd \<and> (\<forall>t \<in> set ts. \<forall>x \<in> accessed t. indexable bytes x)"
    and "distinct (map (\<lambda>t. digest (transaction t)) (concat (map snd bs)))"
  shows "\<exists>sc'. process_pre_consensus_txns nb bytes digest bs sc = Inr sc' \<and>
           (\<forall>ts \<in> snd ` set bs. colocated digest ts (sc_num_proxies sc) (sc_routing_plan sc')) \<and>
           (\<forall>d. d \<notin> (\<lambda>t. digest (transaction t)) ` set (concat (map snd bs)) \<longrightarrow> sc_routing_plan sc' d = sc_routing_plan sc d)"
  using assms(2-)
proof (induction bs arbitrary: sc)
  case (Cons b bs)
  obtain rnd ts where b: "b = (rnd, ts)" by (cases b)
  let ?d = "\<lambda>t. digest (transaction t)"
  have h: "draws_in_range rnd" "\<forall>t \<in> set ts. \<forall>x \<in> accessed t. indexable bytes x" "distinct (map ?d ts)"
    using Cons.prems(2,3) b by auto
  obtain sc1 where 1: "schedule_transaction_batch nb bytes rnd digest ts sc = Inr sc1" "scheduler_ok sc1"
      "sc_num_proxies sc1 = sc_num_proxies sc" "colocated digest ts (sc_num_proxies sc) (sc_routing_plan sc1)"
      "\<forall>d. d \<notin> ?d ` set ts \<longrightarrow> sc_routing_plan sc1 d = sc_routing_plan sc d"
    using schedule_transaction_batch_spec[OF assms(1) h(1) Cons.prems(1) h(3,2)] by blast
  obtain sc' where 2: "process_pre_consensus_txns nb bytes digest bs sc1 = Inr sc'"
      "\<forall>ts \<in> snd ` set bs. colocated digest ts (sc_num_proxies sc) (sc_routing_plan sc')"
      "\<forall>d. d \<notin> ?d ` set (concat (map snd bs)) \<longrightarrow> sc_routing_plan sc' d = sc_routing_plan sc1 d"
    using Cons.IH[OF 1(2)] Cons.prems(2,3) 1(3) by auto
  have disj: "?d t \<notin> ?d ` set (concat (map snd bs))" if "t \<in> set ts" for t
  proof -
    have "set (map ?d ts) \<inter> set (map ?d (concat (map snd bs))) = {}"
      using Cons.prems(3) b by (simp only: list.map concat.simps map_append distinct_append snd_conv)
    with that show ?thesis by auto
  qed
  have "colocated digest ts (sc_num_proxies sc) (sc_routing_plan sc')"
    by (rule colocated_cong[OF 1(4)]) (use 2(3) disj in blast)
  moreover have "sc_routing_plan sc' d = sc_routing_plan sc d" if "d \<notin> ?d ` set (concat (map snd (b # bs)))" for d
    using that 1(5) 2(3) b by (simp add: image_Un)
  ultimately show ?case using b 1(1) 2(1,2) by auto
qed simp

text \<open>
  C15. Scheduling batches before consensus never panics when the object identifiers can be indexed,
  and it gives any two transactions of a batch that have a shared object in common one and the same
  existing proxy; a later batch does not change the plan of an earlier one, and digests that occur in no
  batch keep their entry.
\<close>

theorem pre_consensus_colocates_dependent_transactions:
  assumes "neighbors_law nb" and "scheduler_ok sc"
    and "\<forall>(rnd, ts) \<in> set bs. draws_in_range rnd \<and> (\<forall>t \<in> set ts. \<forall>x \<in> accessed t. indexable bytes x)"
    and "distinct (map (\<lambda>t. digest (transaction t)) (concat (map snd bs)))"
  shows "\<exists>sc'. process_pre_consensus_txns nb bytes digest bs sc = Inr sc' \<and>
           (\<forall>ts \<in> snd ` set bs. colocated digest ts (sc_num_proxies sc) (sc_routing_plan sc')) \<and>
           (\<forall>d. d \<notin> (\<lambda>t. digest (transaction t)) ` set (concat (map snd bs)) \<longrightarrow> sc_routing_plan sc' d = sc_routing_plan sc d)"
  by (rule process_pre_consensus_txns_spec[OF assms])

definition example_batch :: "(nat, nat) txn_ts list" where
  "example_batch = [txn_new 10 0 [1, 2] 0 0, txn_new 11 0 [3] 0 0, txn_new 12 0 [2] 0 0]"

definition example_bytes :: "nat \<Rightarrow> byte list" where
  "example_bytes x = [of_nat x, 0, 0]"

definition example_scheduler :: "nat scheduler" where
  "example_scheduler = scheduler_new 2 Map.empty Map.empty"

lemma pre_consensus_colocates_dependent_transactions_witness:
  "\<exists>sc'. process_pre_consensus_txns edge_order_neighbors example_bytes id [(\<lambda>_ _. 0, example_batch)] example_scheduler = Inr sc' \<and>
     (\<exists>p < 2. sc_routing_plan sc' 10 = Some p \<and> sc_routing_plan sc' 12 = Some p) \<and> sc_routing_plan sc' 13 = None"
proof -
  let ?bs = "[(\<lambda>_ _. 0, example_batch)] :: ((nat list \<Rightarrow> nat \<Rightarrow> nat) \<times> (nat, nat) txn_ts list) list"
  have a: "accessed (txn_new t ts ids vd sd) = set ids" for t ts ids vd sd
    by (simp add: accessed_def)
  have 1: "scheduler_ok example_scheduler" by (simp add: scheduler_ok_def example_scheduler_def scheduler_new_def)
  have 2: "\<forall>(rnd, ts) \<in> set ?bs. draws_in_range rnd \<and> (\<forall>t \<in> set ts. \<forall>x \<in> accessed t. indexable example_bytes x)"
    by (simp add: draws_in_range_def example_batch_def a indexable_def example_bytes_def)
  have 3: "distinct (map (\<lambda>t. id (transaction t)) (concat (map snd ?bs)))"
    by (simp add: example_batch_def txn_new_def)
  obtain sc' where run: "process_pre_consensus_txns edge_order_neighbors example_bytes id ?bs example_scheduler = Inr sc'"
    and col: "\<forall>ts \<in> snd ` set ?bs. colocated id ts (sc_num_proxies example_scheduler) (sc_routing_plan sc')"
    and frame: "\<forall>d. d \<notin> (\<lambda>t. id (transaction t)) ` set (concat (map snd ?bs)) \<longrightarrow> sc_routing_plan sc' d = sc_routing_plan example_scheduler d"
    using pre_consensus_colocates_dependent_transactions[OF neighbors_law_edge_order 1 2 3] by blast
  have "colocated id example_batch 2 (sc_routing_plan sc')" using col by (simp add: example_scheduler_def scheduler_new_def)
  then have "\<exists>p < 2. sc_routing_plan sc' (id (transaction (example_batch ! 0))) = Some p \<and>
      sc_routing_plan sc' (id (transaction (example_batch ! 2))) = Some p"
    unfolding colocated_def by (rule allE[of _ 0]) (auto simp: example_batch_def a)
  then have "\<exists>p < 2. sc_routing_plan sc' 10 = Some p \<and> sc_routing_plan sc' 12 = Some p"
    by (simp add: example_batch_def txn_new_def)
  moreover have "sc_routing_plan sc' 13 = None"
    using frame by (simp add: example_batch_def txn_new_def example_scheduler_def scheduler_new_def)
  ultimately show ?thesis using run by blast
qed

end
