(* ===== verification/Mock_Consensus.thy ===== *)
theory Mock_Consensus
  imports Config "HOL-Library.Multiset"
begin

text \<open>
  The mock consensus engine (\<^verbatim>\<open>src/primary/mock_consensus.rs\<close>): it assembles the transactions of the
  clients into batches, seals a batch when it is full or when a timer fires, hands it to the
  pre-consensus scheduler and, after the delay of the model, delivers it to the load balancer.

  One iteration of the loop of \<^verbatim>\<open>run\<close> is one branch of its \<^verbatim>\<open>select!\<close>: \<open>branch_enabled\<close> is the guard of a branch
  and \<open>run_branch\<close> its body.  The futures of the batches in flight (\<open>cs_waiter\<close>) complete in any order, as the
  delay model decides: the branch \<open>Commit k\<close> is the completion of the \<open>k\<close>-th of them, and the model only
  gives the batch back (\<open>consensus_delay\<close>).  \<open>now\<close> is the time at which a branch runs.  The channels are the
  lists of what was sent; a send on a closed channel fails, which panics where the code unwraps.
  \<open>cs_received\<close> records what was taken from the input channel.
\<close>


section \<open>Delay models\<close>

datatype delay_model = FixedDelay duration | UniformDelay duration duration

definition fixed_delay_model_default :: delay_model where
  "fixed_delay_model_default = FixedDelay (from_millis 300)"

definition uniform_delay_default :: delay_model where
  "uniform_delay_default = UniformDelay (from_millis 100) (from_millis 500)"

text \<open>\<open>draw a b\<close> is \<^verbatim>\<open>gen_range(a..b)\<close>, which panics on an empty range.\<close>

fun consensus_delay :: "(duration \<Rightarrow> duration \<Rightarrow> duration) \<Rightarrow> delay_model \<Rightarrow> 'x list \<Rightarrow> (duration \<times> 'x list) res" where
  "consensus_delay draw (FixedDelay d) batch = Inr (d, batch)"
| "consensus_delay draw (UniformDelay lo hi) batch =
     (if lo < hi then Inr (draw lo hi, batch) else Inl (Panic ''cannot sample empty range''))"


section \<open>The engine\<close>

record ('x, 'r) consensus =
  cs_parameters :: mock_consensus_parameters
  cs_mode :: separation_mode
  cs_input :: "'x list"
  cs_batch :: "'x list"
  cs_inflight :: nat
  cs_waiter :: "'x list list"
  cs_deadline :: duration
  cs_stateless :: "'r list"
  cs_scheduling :: "'x list list"
  cs_delivered :: "'x list list"
  cs_stateless_open :: bool
  cs_scheduling_open :: bool
  cs_executor_open :: bool
  cs_stopped :: bool
  cs_received :: "'x list"

definition consensus_new :: "mock_consensus_parameters \<Rightarrow> separation_mode \<Rightarrow> duration \<Rightarrow> ('x, 'r) consensus" where
  "consensus_new params mode now =
     \<lparr>cs_parameters = params, cs_mode = mode, cs_input = [], cs_batch = [], cs_inflight = 0, cs_waiter = [],
      cs_deadline = now + max_batch_delay params, cs_stateless = [], cs_scheduling = [], cs_delivered = [],
      cs_stateless_open = True, cs_scheduling_open = True, cs_executor_open = True, cs_stopped = False, cs_received = []\<rparr>"

datatype branch = Receive duration | Timer duration | Commit nat

fun branch_enabled :: "branch \<Rightarrow> ('x, 'r) consensus \<Rightarrow> bool" where
  "branch_enabled (Receive now) st \<longleftrightarrow> \<not> cs_stopped st \<and> cs_input st \<noteq> [] \<and> cs_inflight st < max_inflight_batches (cs_parameters st)"
| "branch_enabled (Timer now) st \<longleftrightarrow> \<not> cs_stopped st \<and> cs_deadline st \<le> now"
| "branch_enabled (Commit k) st \<longleftrightarrow> \<not> cs_stopped st \<and> k < length (cs_waiter st)"

text \<open>The statements that seal the current batch, in both branches.\<close>

definition seal_batch :: "('x, 'r) consensus \<Rightarrow> ('x, 'r) consensus res" where
  "seal_batch st =
     (let batch = cs_batch st;
          st1 = st\<lparr>cs_inflight := cs_inflight st + 1, cs_batch := [], cs_waiter := cs_waiter st @ [batch]\<rparr>
      in if cs_scheduling_open st then Inr (st1\<lparr>cs_scheduling := cs_scheduling st @ [batch]\<rparr>)
         else Inl (Panic ''pre-consensus scheduling channel closed''))"

definition reset_timer :: "duration \<Rightarrow> ('x, 'r) consensus \<Rightarrow> ('x, 'r) consensus" where
  "reset_timer now st = st\<lparr>cs_deadline := now + max_batch_delay (cs_parameters st)\<rparr>"

definition send_stateless :: "('x \<Rightarrow> 'r) \<Rightarrow> 'x \<Rightarrow> ('x, 'r) consensus \<Rightarrow> ('x, 'r) consensus res" where
  "send_stateless request x st =
     (if cs_mode st = PrimaryPreSeparation
      then if cs_stateless_open st then Inr (st\<lparr>cs_stateless := cs_stateless st @ [request x]\<rparr>)
           else Inl (Panic ''stateless channel closed'')
      else Inr st)"

fun run_branch :: "('x \<Rightarrow> 'r) \<Rightarrow> branch \<Rightarrow> ('x, 'r) consensus \<Rightarrow> ('x, 'r) consensus res" where
  "run_branch request (Receive now) st =
     (case cs_input st of
        [] \<Rightarrow> Inr st
      | x # xs \<Rightarrow>
          and_then (send_stateless request x (st\<lparr>cs_input := xs, cs_received := cs_received st @ [x]\<rparr>))
            (\<lambda>st1. let st2 = st1\<lparr>cs_batch := cs_batch st1 @ [x]\<rparr>
                   in if length (cs_batch st2) \<ge> batch_size (cs_parameters st2)
                      then and_then (seal_batch st2) (\<lambda>st3. Inr (reset_timer now st3))
                      else Inr st2))"
| "run_branch request (Timer now) st =
     (if cs_batch st \<noteq> [] then and_then (seal_batch st) (\<lambda>st1. Inr (reset_timer now st1))
      else if \<not> cs_executor_open st then Inr (st\<lparr>cs_stopped := True\<rparr>)
      else Inr (reset_timer now st))"
| "run_branch request (Commit k) st =
     (let commit = cs_waiter st ! k;
          st1 = st\<lparr>cs_waiter := take k (cs_waiter st) @ drop (Suc k) (cs_waiter st)\<rparr>
      in if cs_inflight st1 = 0 then Inl (Panic ''attempt to subtract with overflow'')
         else let st2 = st1\<lparr>cs_inflight := cs_inflight st1 - 1\<rparr>
              in if cs_executor_open st2 then Inr (st2\<lparr>cs_delivered := cs_delivered st2 @ [commit]\<rparr>)
                 else Inr (st2\<lparr>cs_stopped := True\<rparr>))"

text \<open>The engine in its environment: clients submit, and the receivers of its channels may be dropped.\<close>

inductive consensus_step :: "('x \<Rightarrow> 'r) \<Rightarrow> ('x, 'r) consensus \<Rightarrow> ('x, 'r) consensus \<Rightarrow> bool" for request where
  submit: "consensus_step request st (st\<lparr>cs_input := cs_input st @ [x]\<rparr>)"
| run: "branch_enabled b st \<Longrightarrow> run_branch request b st = Inr st' \<Longrightarrow> consensus_step request st st'"
| drop_executor: "consensus_step request st (st\<lparr>cs_executor_open := False\<rparr>)"

definition consensus_reachable ::
  "('x \<Rightarrow> 'r) \<Rightarrow> mock_consensus_parameters \<Rightarrow> separation_mode \<Rightarrow> duration \<Rightarrow> ('x, 'r) consensus \<Rightarrow> bool" where
  "consensus_reachable request params mode now st \<longleftrightarrow> (consensus_step request)\<^sup>*\<^sup>* (consensus_new params mode now) st"


section \<open>Invariant\<close>

text \<open>
  The receivers of the scheduling and stateless channels are held by tasks of the load balancer that
  never end before the engine, so these two channels stay open.  A batch that failed to be delivered
  is the last thing the engine handles.
\<close>

definition consensus_inv :: "('x \<Rightarrow> 'r) \<Rightarrow> mock_consensus_parameters \<Rightarrow> separation_mode \<Rightarrow> ('x, 'r) consensus \<Rightarrow> bool" where
  "consensus_inv request params mode st \<longleftrightarrow>
     cs_parameters st = params \<and> cs_mode st = mode \<and> cs_stateless_open st \<and> cs_scheduling_open st \<and>
     cs_inflight st = length (cs_waiter st) \<and> cs_inflight st \<le> max_inflight_batches params \<and>
     (cs_batch st \<noteq> [] \<longrightarrow> cs_inflight st < max_inflight_batches params) \<and>
     length (cs_batch st) < batch_size params \<and>
     (\<forall>b \<in> set (cs_scheduling st). b \<noteq> [] \<and> length b \<le> batch_size params) \<and>
     cs_received st = concat (cs_scheduling st) @ cs_batch st \<and>
     cs_stateless st = (if mode = PrimaryPreSeparation then map request (cs_received st) else []) \<and>
     (\<exists>lost. mset (cs_scheduling st) = mset (cs_waiter st) + mset (cs_delivered st) + lost \<and> (\<not> cs_stopped st \<longrightarrow> lost = {#}) \<and> size lost \<le> 1)"

definition params_ok :: "mock_consensus_parameters \<Rightarrow> bool" where
  "params_ok params \<longleftrightarrow> batch_size params > 0 \<and> max_inflight_batches params > 0"

lemma consensus_inv_new: "params_ok params \<Longrightarrow> consensus_inv request params mode (consensus_new params mode now)"
  by (simp add: consensus_inv_def consensus_new_def params_ok_def)

lemma take_drop_mset: "k < length xs \<Longrightarrow> mset xs = mset (take k xs @ drop (Suc k) xs) + {#xs ! k#}"
  by (metis (no_types, lifting) add_mset_add_single append_take_drop_id Cons_nth_drop_Suc mset_append mset.simps(2) union_mset_add_mset_right)

text \<open>Sealing a batch of an unstopped engine.\<close>

lemma seal_batch_inv:
  assumes "seal_batch st = Inr st'" "cs_scheduling_open st" "\<not> cs_stopped st"
    and "cs_inflight st = length (cs_waiter st)"
    and "mset (cs_scheduling st) = mset (cs_waiter st) + mset (cs_delivered st)"
  shows "cs_inflight st' = length (cs_waiter st')" "cs_batch st' = []" "\<not> cs_stopped st'"
    "cs_scheduling st' = cs_scheduling st @ [cs_batch st]" "cs_inflight st' = cs_inflight st + 1"
    "mset (cs_scheduling st') = mset (cs_waiter st') + mset (cs_delivered st')"
    "cs_parameters st' = cs_parameters st" "cs_mode st' = cs_mode st" "cs_stateless st' = cs_stateless st"
    "cs_received st' = cs_received st" "cs_stateless_open st' = cs_stateless_open st" "cs_scheduling_open st'"
  using assms by (auto simp: seal_batch_def Let_def)

lemma consensus_inv_no_loss:
  "consensus_inv request params mode st \<Longrightarrow> \<not> cs_stopped st \<Longrightarrow> mset (cs_scheduling st) = mset (cs_waiter st) + mset (cs_delivered st)"
  by (auto simp: consensus_inv_def)

lemma seal_batch_returns: "cs_scheduling_open st \<Longrightarrow> \<exists>st'. seal_batch st = Inr st'"
  by (simp add: seal_batch_def Let_def)

lemma run_timer_inv:
  assumes inv: "consensus_inv request params mode st" and en: "branch_enabled (Timer now) st" and pos: "params_ok params"
  shows "\<exists>st'. run_branch request (Timer now) st = Inr st' \<and> consensus_inv request params mode st'"
proof (cases "cs_batch st = []")
  case True
  with inv show ?thesis
    by (cases "cs_executor_open st") (auto simp: consensus_inv_def reset_timer_def)
next
  case False
  obtain st1 where s: "seal_batch st = Inr st1" using seal_batch_returns[of st] inv by (auto simp: consensus_inv_def)
  have "\<not> cs_stopped st" using en by simp
  note seal = seal_batch_inv[OF s _ this _ consensus_inv_no_loss[OF inv this]]
  have "consensus_inv request params mode (reset_timer now st1)"
    using inv False pos seal unfolding consensus_inv_def reset_timer_def params_ok_def by (simp add: Suc_le_eq)
  with s False show ?thesis by simp
qed

text \<open>Taking one transaction from the input, before the length check.\<close>

definition taken :: "('x \<Rightarrow> 'r) \<Rightarrow> 'x \<Rightarrow> 'x list \<Rightarrow> ('x, 'r) consensus \<Rightarrow> ('x, 'r) consensus" where
  "taken request x xs st =
     st\<lparr>cs_input := xs, cs_received := cs_received st @ [x], cs_batch := cs_batch st @ [x],
        cs_stateless := (if cs_mode st = PrimaryPreSeparation then cs_stateless st @ [request x] else cs_stateless st)\<rparr>"

lemma run_receive:
  assumes "cs_stateless_open st" and "cs_input st = x # xs"
  shows "run_branch request (Receive now) st =
           (if batch_size (cs_parameters st) \<le> Suc (length (cs_batch st))
            then and_then (seal_batch (taken request x xs st)) (\<lambda>st3. Inr (reset_timer now st3))
            else Inr (taken request x xs st))"
  using assms by (cases st) (simp add: send_stateless_def taken_def Let_def)

lemma run_receive_inv:
  assumes inv: "consensus_inv request params mode st" and en: "branch_enabled (Receive now) st" and pos: "params_ok params"
  shows "\<exists>st'. run_branch request (Receive now) st = Inr st' \<and> consensus_inv request params mode st'"
proof -
  obtain x xs where x: "cs_input st = x # xs" using en by (cases "cs_input st") auto
  have open_st: "cs_stateless_open st" and par: "cs_parameters st = params" and run: "\<not> cs_stopped st"
    using inv en by (auto simp: consensus_inv_def)
  let ?t = "taken request x xs st"
  show ?thesis
  proof (cases "batch_size params \<le> Suc (length (cs_batch st))")
    case False
    then have "run_branch request (Receive now) st = Inr ?t" using run_receive[OF open_st x] par by simp
    moreover have "consensus_inv request params mode ?t"
      using inv en False unfolding consensus_inv_def taken_def by auto
    ultimately show ?thesis by blast
  next
    case True
    have sched: "cs_scheduling_open ?t" "\<not> cs_stopped ?t" "cs_inflight ?t = length (cs_waiter ?t)"
        "mset (cs_scheduling ?t) = mset (cs_waiter ?t) + mset (cs_delivered ?t)"
      using inv run consensus_inv_no_loss[OF inv run] by (auto simp: taken_def consensus_inv_def)
    obtain st1 where s: "seal_batch ?t = Inr st1" using seal_batch_returns[OF sched(1)] by blast
    note seal = seal_batch_inv[OF s sched]
    have "consensus_inv request params mode (reset_timer now st1)"
      using inv en True pos seal unfolding consensus_inv_def reset_timer_def params_ok_def taken_def by (simp add: Suc_le_eq)
    moreover have "run_branch request (Receive now) st = Inr (reset_timer now st1)"
      using run_receive[OF open_st x] par True s by simp
    ultimately show ?thesis by blast
  qed
qed

lemma run_commit_inv:
  assumes inv: "consensus_inv request params mode st" and en: "branch_enabled (Commit k) st"
  shows "\<exists>st'. run_branch request (Commit k) st = Inr st' \<and> consensus_inv request params mode st' \<and>
           (cs_executor_open st \<longrightarrow> cs_delivered st' = cs_delivered st @ [cs_waiter st ! k] \<and> \<not> cs_stopped st' \<and> cs_executor_open st' \<and>
              Suc (length (cs_waiter st')) = length (cs_waiter st) \<and> cs_scheduling st' = cs_scheduling st \<and> cs_batch st' = cs_batch st)"
proof -
  let ?w = "take k (cs_waiter st) @ drop (Suc k) (cs_waiter st)"
  have k: "k < length (cs_waiter st)" and run: "\<not> cs_stopped st" using en by auto
  have len: "Suc (length ?w) = length (cs_waiter st)" using k by simp
  have fl: "cs_inflight st = Suc (length ?w)" using inv len unfolding consensus_inv_def by simp
  have m: "mset (cs_scheduling st) = mset ?w + {#cs_waiter st ! k#} + mset (cs_delivered st)"
    using consensus_inv_no_loss[OF inv run] take_drop_mset[OF k] by simp
  let ?st = "st\<lparr>cs_waiter := ?w, cs_inflight := length ?w\<rparr>"
  let ?st' = "if cs_executor_open st then ?st\<lparr>cs_delivered := cs_delivered st @ [cs_waiter st ! k]\<rparr> else ?st\<lparr>cs_stopped := True\<rparr>"
  have r: "run_branch request (Commit k) st = Inr ?st'"
    using fl by (simp add: Let_def)
  have "consensus_inv request params mode ?st'"
  proof (cases "cs_executor_open st")
    case True
    then show ?thesis using inv m fl run unfolding consensus_inv_def by (auto simp: union_commute)
  next
    case False
    have "mset (cs_scheduling st) = mset ?w + mset (cs_delivered st) + {#cs_waiter st ! k#}" using m by simp
    then have "\<exists>lost. mset (cs_scheduling st) = mset ?w + mset (cs_delivered st) + lost \<and> size lost \<le> 1"
      by (intro exI[of _ "{#cs_waiter st ! k#}"]) simp
    then show ?thesis using False inv fl run unfolding consensus_inv_def by auto
  qed
  with r len run show ?thesis by (cases "cs_executor_open st") simp_all
qed

lemma run_branch_inv:
  assumes "consensus_inv request params mode st" "branch_enabled b st" "params_ok params"
  shows "\<exists>st'. run_branch request b st = Inr st' \<and> consensus_inv request params mode st'"
  using run_receive_inv[OF assms(1) _ assms(3)] run_timer_inv[OF assms(1) _ assms(3)] run_commit_inv[OF assms(1)] assms(2)
  by (cases b) blast+

lemma consensus_step_inv:
  assumes "consensus_step request st st'" "consensus_inv request params mode st" "params_ok params"
  shows "consensus_inv request params mode st'"
  using assms(1)
proof cases
  case (run b)
  then show ?thesis using run_branch_inv[OF assms(2) _ assms(3)] by fastforce
qed (use assms(2) in \<open>auto simp: consensus_inv_def\<close>)

lemma consensus_reachable_inv:
  assumes "consensus_reachable request params mode now st" "params_ok params"
  shows "consensus_inv request params mode st"
  using assms(1) unfolding consensus_reachable_def
  by (induction rule: rtranclp_induct) (auto intro: consensus_inv_new consensus_step_inv assms(2))


text \<open>
  C19. Consensus loses, duplicates and reorders nothing: the sealed batches followed by the current one
  are the received transactions in their order, the pre-consensus scheduler is given exactly the
  sealed batches, as long as the engine runs each sealed batch is either in flight or was delivered
  once, and in the mode that separates before consensus exactly one verification request per
  received transaction was sent, in order.
\<close>

theorem consensus_conserves_transactions:
  assumes "consensus_reachable request params mode now st" and "params_ok params"
  shows "cs_received st = concat (cs_scheduling st) @ cs_batch st \<and>
         (\<not> cs_stopped st \<longrightarrow> mset (cs_scheduling st) = mset (cs_waiter st) + mset (cs_delivered st)) \<and>
         cs_stateless st = (if mode = PrimaryPreSeparation then map request (cs_received st) else [])"
  using consensus_reachable_inv[OF assms] consensus_inv_no_loss[of request params mode st]
  unfolding consensus_inv_def by blast


section \<open>Progress\<close>

fun run_branches :: "('x \<Rightarrow> 'r) \<Rightarrow> branch list \<Rightarrow> ('x, 'r) consensus \<Rightarrow> ('x, 'r) consensus option" where
  "run_branches request [] st = Some st"
| "run_branches request (b # bs) st =
     (if branch_enabled b st then case run_branch request b st of Inr st' \<Rightarrow> run_branches request bs st' | Inl _ \<Rightarrow> None
      else None)"

text \<open>Any order of completion of the futures delivers all batches in flight.\<close>

lemma commits_drain:
  assumes "consensus_inv request params mode st" "\<not> cs_stopped st" "cs_executor_open st"
    and "length ks = length (cs_waiter st)" and "\<forall>i < length ks. ks ! i < length ks - i"
  shows "\<exists>st'. run_branches request (map Commit ks) st = Some st' \<and> cs_waiter st' = [] \<and> cs_batch st' = cs_batch st \<and>
           cs_scheduling st' = cs_scheduling st \<and> mset (cs_delivered st') = mset (cs_scheduling st)"
  using assms
proof (induction ks arbitrary: st)
  case Nil
  then show ?case using consensus_inv_no_loss by fastforce
next
  case (Cons k ks)
  have k: "k < length (cs_waiter st)" using Cons.prems(4) spec[OF Cons.prems(5), of 0] by (cases "cs_waiter st") simp_all
  then have en: "branch_enabled (Commit k) st" using Cons.prems(2) by simp
  obtain st1 where s: "run_branch request (Commit k) st = Inr st1" "consensus_inv request params mode st1"
      "\<not> cs_stopped st1" "cs_executor_open st1" "Suc (length (cs_waiter st1)) = length (cs_waiter st)"
      "cs_scheduling st1 = cs_scheduling st" "cs_batch st1 = cs_batch st"
    using run_commit_inv[OF Cons.prems(1) en] Cons.prems(3) by blast
  have ks: "\<forall>i < length ks. ks ! i < length ks - i"
    using Cons.prems(5) by fastforce
  have len: "length ks = length (cs_waiter st1)"
    using Cons.prems(4) s(5) by simp
  have "\<exists>st'. run_branches request (map Commit ks) st1 = Some st' \<and> cs_waiter st' = [] \<and> cs_batch st' = cs_batch st1 \<and>
      cs_scheduling st' = cs_scheduling st1 \<and> mset (cs_delivered st') = mset (cs_scheduling st1)"
    by (rule Cons.IH[OF s(2-4) len ks])
  with s en show ?case by simp
qed

text \<open>
  C21. Nothing stays in the engine forever: in every reachable state that has not stopped and whose
  output is open, once the timer has fired, letting the futures complete in any order delivers
  every batch, and the delivered batches contain exactly the transactions received.
\<close>

theorem consensus_delivers_everything:
  assumes "consensus_reachable request params mode t0 st" and "params_ok params"
    and "\<not> cs_stopped st" and "cs_executor_open st" and "cs_deadline st \<le> now"
    and "length ks = length (cs_waiter st) + (if cs_batch st = [] then 0 else 1)"
    and "\<forall>i < length ks. ks ! i < length ks - i"
  shows "\<exists>st'. run_branches request (Timer now # map Commit ks) st = Some st' \<and> cs_waiter st' = [] \<and> cs_batch st' = [] \<and>
           mset (concat (cs_delivered st')) = mset (cs_received st)"
proof -
  have inv: "consensus_inv request params mode st" using consensus_reachable_inv[OF assms(1,2)] .
  have en: "branch_enabled (Timer now) st" using assms(3,5) by simp
  obtain st1 where r: "run_branch request (Timer now) st = Inr st1" and inv1: "consensus_inv request params mode st1"
    using run_timer_inv[OF inv en assms(2)] by blast
  have st1: "\<not> cs_stopped st1" "cs_executor_open st1" "cs_batch st1 = []" "length ks = length (cs_waiter st1)"
      "cs_received st1 = cs_received st"
    using r assms(3,4,6) by (auto simp: seal_batch_def reset_timer_def Let_def split: if_splits)
  obtain st' where st': "run_branches request (map Commit ks) st1 = Some st'" "cs_waiter st' = []" "cs_batch st' = cs_batch st1"
      "mset (cs_delivered st') = mset (cs_scheduling st1)"
    using commits_drain[OF inv1 st1(1,2,4) assms(7)] by blast
  have "cs_received st1 = concat (cs_scheduling st1)" using inv1 st1(3) unfolding consensus_inv_def by simp
  then have "mset (concat (cs_delivered st')) = mset (cs_received st)"
    using st'(4) st1(5) by (metis mset_concat mset_map sum_mset_sum_list)
  with r en st' st1(3) show ?thesis by simp
qed


section \<open>A concrete run\<close>

lemma submit_all: "(consensus_step request)\<^sup>*\<^sup>* st (st\<lparr>cs_input := cs_input st @ xs\<rparr>)"
proof (induction xs rule: rev_induct)
  case (snoc x xs)
  have "consensus_step request (st\<lparr>cs_input := cs_input st @ xs\<rparr>) (st\<lparr>cs_input := cs_input st @ xs @ [x]\<rparr>)"
    using submit[of request "st\<lparr>cs_input := cs_input st @ xs\<rparr>" x] by simp
  with snoc show ?case by (rule rtranclp.rtrancl_into_rtrancl)
qed simp

lemma run_branches_reaches: "run_branches request bs st = Some st' \<Longrightarrow> (consensus_step request)\<^sup>*\<^sup>* st st'"
proof (induction bs arbitrary: st)
  case (Cons b bs)
  then obtain st1 where "branch_enabled b st" "run_branch request b st = Inr st1" "run_branches request bs st1 = Some st'"
    by (auto split: if_splits sum.splits)
  with Cons.IH show ?case by (meson consensus_step.run converse_rtranclp_into_rtranclp)
qed simp

definition example_params :: mock_consensus_parameters where
  "example_params = \<lparr>batch_size = 2, max_batch_delay = 100, max_inflight_batches = 2\<rparr>"

text \<open>Three transactions were submitted; two were sealed, the third is in the current batch.\<close>

definition example_consensus :: "(nat, nat) consensus" where
  "example_consensus =
     \<lparr>cs_parameters = example_params, cs_mode = PrimaryPreSeparation, cs_input = [], cs_batch = [9], cs_inflight = 1,
      cs_waiter = [[7, 8]], cs_deadline = 105, cs_stateless = [7, 8, 9], cs_scheduling = [[7, 8]], cs_delivered = [],
      cs_stateless_open = True, cs_scheduling_open = True, cs_executor_open = True, cs_stopped = False, cs_received = [7, 8, 9]\<rparr>"

lemma example_consensus_reachable: "consensus_reachable id example_params PrimaryPreSeparation 0 example_consensus"
proof -
  let ?s = "consensus_new example_params PrimaryPreSeparation 0 :: (nat, nat) consensus"
  have "run_branches id [Receive 4, Receive 5, Receive 6] (?s\<lparr>cs_input := cs_input ?s @ [7, 8, 9]\<rparr>) = Some example_consensus"
    by (simp add: consensus_new_def example_params_def example_consensus_def send_stateless_def seal_batch_def reset_timer_def Let_def)
  from run_branches_reaches[OF this] submit_all[of id ?s "[7, 8, 9]"] show ?thesis
    unfolding consensus_reachable_def by (rule rtranclp_trans[rotated])
qed

lemma example_params_ok: "params_ok example_params"
  by (simp add: params_ok_def example_params_def)


lemma consensus_conserves_transactions_witness:
  "cs_received example_consensus = concat (cs_scheduling example_consensus) @ cs_batch example_consensus \<and>
   mset (cs_scheduling example_consensus) = mset (cs_waiter example_consensus) + mset (cs_delivered example_consensus) \<and>
   cs_stateless example_consensus = cs_received example_consensus"
proof -
  have "\<not> cs_stopped example_consensus" by (simp add: example_consensus_def)
  with consensus_conserves_transactions[OF example_consensus_reachable example_params_ok] show ?thesis by simp
qed

lemma consensus_delivers_everything_witness:
  "\<exists>st'. run_branches id [Timer 200, Commit 1, Commit 0] example_consensus = Some st' \<and> cs_waiter st' = [] \<and> cs_batch st' = [] \<and>
     mset (concat (cs_delivered st')) = {#7, 8, 9#}"
proof -
  have "\<exists>st'. run_branches id (Timer 200 # map Commit [1, 0]) example_consensus = Some st' \<and> cs_waiter st' = [] \<and> cs_batch st' = [] \<and>
      mset (concat (cs_delivered st')) = mset (cs_received example_consensus)"
    by (rule consensus_delivers_everything[OF example_consensus_reachable example_params_ok])
      (auto simp: example_consensus_def less_Suc_eq)
  then show ?thesis by (simp add: example_consensus_def)
qed

end
