(* ===== verification/Measurement.thy ===== *)
theory Measurement
  imports Prelude
begin

text \<open>
  Calibration of simulated work (\<^verbatim>\<open>src/executor/calibration.rs\<close>) and the metrics of a run (\<^verbatim>\<open>src/metrics.rs\<close>).  The measured
  times are the argument \<open>elapsed\<close>: the time that the \<open>i\<close>-th measurement shows for a number of iterations.  The metrics are the values
  of the \<^verbatim>\<open>prometheus\<close> counters; \<^verbatim>\<open>prometheus_parse\<close> is the list of samples that it returns.
\<close>


section \<open>Calibration\<close>

function calibrate_loop :: "(nat \<Rightarrow> nat \<Rightarrow> duration) \<Rightarrow> duration \<Rightarrow> nat \<Rightarrow> nat \<Rightarrow> nat \<Rightarrow> nat \<Rightarrow> nat \<times> nat" where
  "calibrate_loop elapsed target i low high best =
     (if low \<le> high then
        let mid = (low + high) div 2 in
        if elapsed i mid > target then
          (if mid = 0 then (mid, i + 1) else calibrate_loop elapsed target (i + 1) low (mid - 1) mid)
        else calibrate_loop elapsed target (i + 1) (mid + 1) high best
      else (best, i))"
  by pat_completeness auto
termination
  by (relation "measure (\<lambda>(elapsed, target, i, low, high, best). high + 1 - low)") auto

declare calibrate_loop.simps [simp del]

definition calibrate_once :: "(nat \<Rightarrow> nat \<Rightarrow> duration) \<Rightarrow> duration \<Rightarrow> nat \<Rightarrow> nat \<times> nat" where
  "calibrate_once elapsed target i = (let low = 1; high = 1000000; best = high in calibrate_loop elapsed target i low high best)"

definition MAX_RETRIES :: nat where "MAX_RETRIES = 5"
definition VARIATION_THRESHOLD :: f64 where "VARIATION_THRESHOLD = 0.05"
definition SAMPLE_SIZE :: nat where "SAMPLE_SIZE = 5"

fun calibration_samples :: "(nat \<Rightarrow> nat \<Rightarrow> duration) \<Rightarrow> duration \<Rightarrow> nat \<Rightarrow> nat \<Rightarrow> nat list \<times> nat" where
  "calibration_samples elapsed target 0 i = ([], i)"
| "calibration_samples elapsed target (Suc n) i =
     (let (x, i) = calibrate_once elapsed target i; (xs, i) = calibration_samples elapsed target n i in (x # xs, i))"

definition remove_outliers :: "nat list \<Rightarrow> nat list" where
  "remove_outliers samples = (let s = sort samples in if length s > 2 then butlast (tl s) else s)"

definition variation :: "nat list \<Rightarrow> f64" where
  "variation samples =
     (let avg = real (sum_list samples) / real (length samples)
      in if avg > 0 then (real (Max (set samples)) - real (Min (set samples))) / avg else 0)"

fun calibrate_retries :: "(nat \<Rightarrow> nat \<Rightarrow> duration) \<Rightarrow> duration \<Rightarrow> nat \<Rightarrow> nat \<Rightarrow> nat" where
  "calibrate_retries elapsed target 0 i = fst (calibrate_once elapsed target i)"
| "calibrate_retries elapsed target (Suc n) i =
     (let (samples, i) = calibration_samples elapsed target SAMPLE_SIZE i; samples = remove_outliers samples
      in if samples \<noteq> [] \<and> variation samples \<le> VARIATION_THRESHOLD
         then nat \<lfloor>real (sum_list samples) / real (length samples)\<rfloor>
         else calibrate_retries elapsed target n i)"

definition calibrate :: "(nat \<Rightarrow> nat \<Rightarrow> duration) \<Rightarrow> duration \<Rightarrow> nat" where
  "calibrate elapsed target = calibrate_retries elapsed target MAX_RETRIES 0"


subsection \<open>The search finds the threshold\<close>

text \<open>
  \<open>threshold w target n\<close>: with a work time \<open>w\<close> that does not decrease, \<open>n\<close> is the smallest number of iterations in the range that takes longer than
  the target, or the upper bound when none does.
\<close>

definition threshold_below :: "nat \<Rightarrow> (nat \<Rightarrow> duration) \<Rightarrow> duration \<Rightarrow> nat \<Rightarrow> bool" where
  "threshold_below N w target n \<longleftrightarrow>
     1 \<le> n \<and> n \<le> N \<and> (\<forall>m. 1 \<le> m \<and> m < n \<longrightarrow> w m \<le> target) \<and> (w n > target \<or> n = N)"

abbreviation threshold :: "(nat \<Rightarrow> duration) \<Rightarrow> duration \<Rightarrow> nat \<Rightarrow> bool" where
  "threshold \<equiv> threshold_below 1000000"

lemma calibrate_loop_threshold:
  assumes "mono w" "1 \<le> low" "high \<le> N" "1 \<le> N"
    and "\<forall>m. 1 \<le> m \<and> m < low \<longrightarrow> w m \<le> target"
    and "(high = N \<and> best = N) \<or> (best = high + 1 \<and> best \<le> N \<and> w best > target)" "low \<le> high + 1"
  shows "threshold_below N w target (fst (calibrate_loop (\<lambda>_. w) target i low high best))"
  using assms(2-)
proof (induction "high + 1 - low" arbitrary: low high best i rule: less_induct)
  case less
  show ?case
  proof (cases "low \<le> high")
    case True
    define mid where "mid = (low + high) div 2"
    have mid: "low \<le> mid" "mid \<le> high" "mid \<noteq> 0" using less.prems(1) True by (auto simp: mid_def)
    show ?thesis
    proof (cases "w mid > target")
      case big: True
      have "threshold_below N w target (fst (calibrate_loop (\<lambda>_. w) target (i + 1) low (mid - 1) mid))"
      proof (rule less.hyps)
        show "mid - 1 + 1 - low < high + 1 - low" using mid True by linarith
        show "(mid - 1 = N \<and> mid = N) \<or> (mid = mid - 1 + 1 \<and> mid \<le> N \<and> target < w mid)" using mid less.prems(2) big by simp
        show "mid - 1 \<le> N" "low \<le> mid - 1 + 1" using mid less.prems(2) by linarith+
      qed (use less.prems in blast)+
      then show ?thesis using True big mid(3) by (subst calibrate_loop.simps) (simp add: Let_def mid_def[symmetric])
    next
      case small: False
      have "w m \<le> target" if "m < mid + 1" for m
        using small monoD[OF assms(1), of m mid] that by simp
      then have "threshold_below N w target (fst (calibrate_loop (\<lambda>_. w) target (i + 1) (mid + 1) high best))"
      proof (intro less.hyps)
        show "high + 1 - (mid + 1) < high + 1 - low" using mid True by linarith
        show "1 \<le> mid + 1" "mid + 1 \<le> high + 1" using mid by simp_all
      qed (use less.prems in blast)+
      then show ?thesis using True small by (subst calibrate_loop.simps) (simp add: Let_def mid_def[symmetric])
    qed
  next
    case False
    then have "low = high + 1" using less.prems(6) by simp
    then show ?thesis using less.prems(1-5) False by (subst calibrate_loop.simps) (auto simp: threshold_below_def)
  qed
qed

lemma calibrate_once_threshold: "mono w \<Longrightarrow> threshold w target (fst (calibrate_once (\<lambda>_. w) target i))"
  unfolding calibrate_once_def Let_def by (rule calibrate_loop_threshold) simp_all

lemma threshold_unique: "threshold w target m \<Longrightarrow> threshold w target n \<Longrightarrow> m = n"
  unfolding threshold_below_def by (metis linorder_neqE_nat not_less)

lemma calibration_samples_same:
  assumes "mono w" "threshold w target x"
  shows "fst (calibration_samples (\<lambda>_. w) target n i) = replicate n x"
proof (induction n arbitrary: i)
  case (Suc n)
  have "fst (calibrate_once (\<lambda>_. w) target i) = x" using threshold_unique[OF calibrate_once_threshold[OF assms(1)] assms(2)] .
  then show ?case using Suc by (simp add: case_prod_beta Let_def)
qed simp

text \<open>
  C34. Calibration finds the threshold: the binary search ends, and when the measured time depends only on the number of
  iterations and does not decrease with it, both one attempt and the calibration with its retries and outlier removal return the smallest number of iterations
  between 1 and a million whose work exceeds the target duration, or a million when none does.
\<close>

theorem calibration_finds_threshold:
  assumes "mono w"
  shows "threshold w target (calibrate (\<lambda>_. w) target) \<and> calibrate (\<lambda>_. w) target = fst (calibrate_once (\<lambda>_. w) target 0)"
proof -
  let ?x = "fst (calibrate_once (\<lambda>_. w) target 0)"
  have x: "threshold w target ?x" by (rule calibrate_once_threshold[OF assms])
  have s: "fst (calibration_samples (\<lambda>_. w) target SAMPLE_SIZE 0) = [?x, ?x, ?x, ?x, ?x]"
    using calibration_samples_same[OF assms x, of SAMPLE_SIZE 0] by (simp add: SAMPLE_SIZE_def numeral_eq_Suc)
  have o: "remove_outliers [?x, ?x, ?x, ?x, ?x] = [?x, ?x, ?x]" by (simp add: remove_outliers_def)
  have v: "variation [?x, ?x, ?x] = 0" by (simp add: variation_def)
  have "calibrate (\<lambda>_. w) target = ?x"
    unfolding calibrate_def MAX_RETRIES_def
    by (simp add: numeral_eq_Suc case_prod_beta Let_def s o v VARIATION_THRESHOLD_def)
  with x show ?thesis by simp
qed

theorem calibration_finds_threshold_witness:
  "threshold (\<lambda>n. 3 * n) 800 (calibrate (\<lambda>_ n. 3 * n) 800) \<and> calibrate (\<lambda>_ n. 3 * n) 800 = 267"
proof -
  have m: "mono (\<lambda>n :: nat. 3 * n)" by (auto simp: mono_def)
  have t: "threshold (\<lambda>n. 3 * n) 800 267" by (auto simp: threshold_below_def)
  from calibration_finds_threshold[OF m, of 800] show ?thesis using threshold_unique[OF _ t] by blast
qed


section \<open>The counters of a node\<close>

text \<open>Counters are unsigned 64-bit numbers that only grow; times are in nanoseconds since the epoch.\<close>

record metrics =
  mt_latency_s :: "string \<Rightarrow> f64 list"
  mt_start_time_s :: nat
  mt_last_update_s :: nat
  mt_benchmark_duration :: nat
  mt_latency_squared_sum :: nat
  mt_errors :: "string \<Rightarrow> nat"
  mt_proxy_load :: "proxy_id \<Rightarrow> int"

datatype error_type = TransactionRateTooHigh

definition metrics_new :: metrics where
  "metrics_new = \<lparr>mt_latency_s = (\<lambda>_. []), mt_start_time_s = 0, mt_last_update_s = 0, mt_benchmark_duration = 0,
     mt_latency_squared_sum = 0, mt_errors = (\<lambda>_. 0), mt_proxy_load = (\<lambda>_. 0)\<rparr>"

definition whole_secs :: "duration \<Rightarrow> nat" where
  "whole_secs d = d div 10 ^ 9"

definition register_start_time :: "duration \<Rightarrow> metrics \<Rightarrow> metrics" where
  "register_start_time now m = (if mt_start_time_s m = 0 then m\<lparr>mt_start_time_s := mt_start_time_s m + whole_secs now\<rparr> else m)"

text \<open>\<^verbatim>\<open>checked_sub\<close>: nothing happens when the clock went backwards.\<close>

definition register_last_update :: "duration \<Rightarrow> metrics \<Rightarrow> metrics" where
  "register_last_update now m =
     (if mt_last_update_s m \<le> whole_secs now then m\<lparr>mt_last_update_s := mt_last_update_s m + (whole_secs now - mt_last_update_s m)\<rparr> else m)"

definition update_benchmark_duration :: "duration \<Rightarrow> metrics \<Rightarrow> metrics" where
  "update_benchmark_duration now m =
     (let benchmark_duration = (if mt_start_time_s m \<le> whole_secs now then whole_secs now - mt_start_time_s m else 0)
      in if mt_benchmark_duration m \<le> benchmark_duration
         then m\<lparr>mt_benchmark_duration := mt_benchmark_duration m + (benchmark_duration - mt_benchmark_duration m)\<rparr> else m)"

definition register_transaction :: "duration \<Rightarrow> f64 \<Rightarrow> string \<Rightarrow> metrics \<Rightarrow> metrics" where
  "register_transaction now tx_submission_timestamp workload m =
     (let m = update_benchmark_duration now (register_last_update now m);
          elapsed = real now / 10 ^ 9 - tx_submission_timestamp
      in m\<lparr>mt_latency_s := (mt_latency_s m)(workload := mt_latency_s m workload @ [elapsed]),
           mt_latency_squared_sum := (mt_latency_squared_sum m + nat (min (2 ^ 64 - 1) \<lfloor>elapsed * elapsed\<rfloor>)) mod 2 ^ 64\<rparr>)"

fun error_label :: "error_type \<Rightarrow> string" where
  "error_label TransactionRateTooHigh = ''TransactionRateTooHigh''"

definition register_error :: "error_type \<Rightarrow> metrics \<Rightarrow> metrics" where
  "register_error e m = m\<lparr>mt_errors := (mt_errors m)(error_label e := mt_errors m (error_label e) + 1)\<rparr>"

definition update_metrics :: "duration \<Rightarrow> f64 \<Rightarrow> string \<Rightarrow> metrics \<Rightarrow> metrics" where
  "update_metrics now submit_timestamp workload m = register_transaction now submit_timestamp workload m"

definition increase_proxy_load :: "proxy_id \<Rightarrow> metrics \<Rightarrow> metrics" where
  "increase_proxy_load p m = m\<lparr>mt_proxy_load := (mt_proxy_load m)(p := mt_proxy_load m p + 1)\<rparr>"

definition decrease_proxy_load :: "proxy_id \<Rightarrow> metrics \<Rightarrow> metrics" where
  "decrease_proxy_load p m = m\<lparr>mt_proxy_load := (mt_proxy_load m)(p := mt_proxy_load m p - 1)\<rparr>"

text \<open>A run of registrations: the counters are running maxima, whatever the clock does.\<close>

definition register_all :: "(duration \<times> f64 \<times> string) list \<Rightarrow> metrics \<Rightarrow> metrics" where
  "register_all rs m = fold (\<lambda>(now, ts, w). register_transaction now ts w) rs m"

lemma register_transaction_counters:
  "mt_last_update_s (register_transaction now ts w m) = max (mt_last_update_s m) (whole_secs now)"
  "mt_benchmark_duration (register_transaction now ts w m) = max (mt_benchmark_duration m) (whole_secs now - mt_start_time_s m)"
  "mt_start_time_s (register_transaction now ts w m) = mt_start_time_s m"
  "mt_latency_s (register_transaction now ts w m) = (mt_latency_s m)(w := mt_latency_s m w @ [real now / 10 ^ 9 - ts])"
  by (auto simp: register_transaction_def update_benchmark_duration_def register_last_update_def Let_def)

lemma register_all_counters:
  "mt_last_update_s (register_all rs m) = Max (insert (mt_last_update_s m) (whole_secs ` fst ` set rs)) \<and>
   mt_start_time_s (register_all rs m) = mt_start_time_s m \<and>
   mt_benchmark_duration (register_all rs m) = Max (insert (mt_benchmark_duration m) ((\<lambda>now. whole_secs now - mt_start_time_s m) ` fst ` set rs)) \<and>
   length (mt_latency_s (register_all rs m) w) = length (mt_latency_s m w) + length (filter (\<lambda>r. snd (snd r) = w) rs)"
proof (induction rs arbitrary: m)
  case (Cons r rs)
  obtain now ts v where r: "r = (now, ts, v)" by (cases r) auto
  let ?m = "register_transaction now ts v m"
  have step: "register_all (r # rs) m = register_all rs ?m" by (simp add: register_all_def r)
  have mx: "Max (insert (max a b) S) = Max (insert a (insert b S))" if "finite S" for a b :: nat and S
    using that by (cases "S = {}") (simp_all add: max.assoc)
  show ?case using Cons.IH[of ?m] unfolding step by (simp add: register_transaction_counters r mx del: Max_insert)
qed (simp add: register_all_def)


section \<open>Measurements\<close>

datatype scraped_value = Histogram "(string \<times> f64) list" | Untyped f64 | Counter f64 | Other

record scraped_sample =
  sp_metric :: string
  sp_label :: string
  sp_value :: scraped_value

record measurement =
  ms_buckets :: "string \<rightharpoonup> nat"
  ms_sum :: duration
  ms_count :: nat
  ms_start_time :: duration
  ms_last_update :: duration

definition measurement_default :: measurement where
  "measurement_default = \<lparr>ms_buckets = Map.empty, ms_sum = 0, ms_count = 0, ms_start_time = 0, ms_last_update = 0\<rparr>"

definition LATENCY_S :: string where "LATENCY_S = ''latency_s''"
definition START_TIME_S :: string where "START_TIME_S = ''start_time_s''"
definition LAST_UPDATE_S :: string where "LAST_UPDATE_S = ''last_update_s''"

text \<open>\<^verbatim>\<open>Duration::from_secs_f64\<close> panics on a negative number; \<^verbatim>\<open>as usize\<close> saturates.\<close>

definition from_secs_f64 :: "f64 \<Rightarrow> duration res" where
  "from_secs_f64 x = (if x < 0 then Inl (Panic ''cannot convert float seconds to Duration: value is negative'') else Inr (nat (round (x * 10 ^ 9))))"

definition as_usize :: "f64 \<Rightarrow> nat" where
  "as_usize x = nat (min (2 ^ 64 - 1) \<lfloor>x\<rfloor>)"

record scrape_state =
  sc_measurements :: "string \<rightharpoonup> measurement"
  sc_start_time :: duration
  sc_last_update :: duration

definition entry_or_default :: "string \<Rightarrow> scrape_state \<Rightarrow> measurement" where
  "entry_or_default label st = (case sc_measurements st label of Some x \<Rightarrow> x | None \<Rightarrow> measurement_default)"

definition put_measurement :: "string \<Rightarrow> measurement \<Rightarrow> scrape_state \<Rightarrow> scrape_state" where
  "put_measurement label x st = st\<lparr>sc_measurements := (sc_measurements st)(label \<mapsto> x)\<rparr>"

definition scrape_sample :: "scraped_sample \<Rightarrow> scrape_state \<Rightarrow> scrape_state res" where
  "scrape_sample sp st =
     (let label = sp_label sp; x = entry_or_default label st in
      if sp_metric sp = LATENCY_S then
        (case sp_value sp of
           Histogram values \<Rightarrow> Inr (put_measurement label (x\<lparr>ms_buckets := fold (\<lambda>(b, c) m. m(b \<mapsto> as_usize c)) values (ms_buckets x)\<rparr>) st)
         | _ \<Rightarrow> Inl (Panic ''Unexpected scraped value''))
      else if sp_metric sp = LATENCY_S @ ''_sum'' then
        (case sp_value sp of
           Untyped v \<Rightarrow> and_then (from_secs_f64 v) (\<lambda>d. Inr (put_measurement label (x\<lparr>ms_sum := d\<rparr>) st))
         | _ \<Rightarrow> Inl (Panic ''Unexpected scraped value''))
      else if sp_metric sp = LATENCY_S @ ''_count'' then
        (case sp_value sp of
           Untyped v \<Rightarrow> Inr (put_measurement label (x\<lparr>ms_count := as_usize v\<rparr>) st)
         | _ \<Rightarrow> Inl (Panic ''Unexpected scraped value''))
      else if sp_metric sp = START_TIME_S then
        (case sp_value sp of
           Counter v \<Rightarrow> and_then (from_secs_f64 v) (\<lambda>d. Inr (st\<lparr>sc_start_time := max (sc_start_time st) d\<rparr>))
         | _ \<Rightarrow> Inl (Panic ''Unexpected scraped value''))
      else if sp_metric sp = LAST_UPDATE_S then
        (case sp_value sp of
           Counter v \<Rightarrow> and_then (from_secs_f64 v) (\<lambda>d. Inr (st\<lparr>sc_last_update := max (sc_last_update st) d\<rparr>))
         | _ \<Rightarrow> Inl (Panic ''Unexpected scraped value''))
      else Inr st)"

fun scrape_samples :: "scraped_sample list \<Rightarrow> scrape_state \<Rightarrow> scrape_state res" where
  "scrape_samples [] st = Inr st"
| "scrape_samples (sp # sps) st = and_then (scrape_sample sp st) (scrape_samples sps)"

definition from_prometheus :: "scraped_sample list \<Rightarrow> (string \<rightharpoonup> measurement) res" where
  "from_prometheus samples =
     and_then (scrape_samples samples \<lparr>sc_measurements = Map.empty, sc_start_time = 0, sc_last_update = 0\<rparr>)
       (\<lambda>st. Inr (\<lambda>label. map_option (\<lambda>x. x\<lparr>ms_start_time := max (ms_start_time x) (sc_start_time st),
                                          ms_last_update := max (ms_last_update x) (sc_last_update st)\<rparr>) (sc_measurements st label)))"

definition benchmark_duration :: "measurement \<Rightarrow> duration" where
  "benchmark_duration x = (if ms_start_time x \<le> ms_last_update x then ms_last_update x - ms_start_time x else 0)"

definition tps :: "measurement \<Rightarrow> nat" where
  "tps x = (let d = whole_secs (benchmark_duration x) in if d = 0 then 0 else ms_count x div d)"

text \<open>The count is cast to 32 bits before the division.\<close>

definition average_latency :: "measurement \<Rightarrow> duration" where
  "average_latency x = (let c = ms_count x mod 2 ^ 32 in if c = 0 then 0 else ms_sum x div c)"

lemma average_latency_exact: "0 < ms_count x \<Longrightarrow> ms_count x < 2 ^ 32 \<Longrightarrow> average_latency x = ms_sum x div ms_count x"
  by (simp add: average_latency_def)

lemma average_latency_truncated: "ms_count x = 2 ^ 32 \<Longrightarrow> average_latency x = 0"
  by (simp add: average_latency_def)

text \<open>The test text of the module: 30001 transactions in 30 seconds.\<close>

lemma parse_metrics_example:
  "\<exists>ms x. from_prometheus
      [\<lparr>sp_metric = ''latency_s'', sp_label = ''default'', sp_value = Histogram [(''0.025'', 29043), (''0.05'', 29151)]\<rparr>,
       \<lparr>sp_metric = ''latency_s_sum'', sp_label = ''default'', sp_value = Untyped 486.526\<rparr>,
       \<lparr>sp_metric = ''latency_s_count'', sp_label = ''default'', sp_value = Untyped 30001\<rparr>,
       \<lparr>sp_metric = ''start_time_s'', sp_label = [], sp_value = Counter 1699466202\<rparr>,
       \<lparr>sp_metric = ''last_update_s'', sp_label = [], sp_value = Counter 1699466232\<rparr>] = Inr ms \<and>
     ms ''default'' = Some x \<and> tps x = 1000 \<and> ms_count x = 30001 \<and> average_latency x = 16216992"
  by (simp add: from_prometheus_def scrape_sample_def LATENCY_S_def START_TIME_S_def LAST_UPDATE_S_def from_secs_f64_def as_usize_def
      entry_or_default_def put_measurement_def tps_def average_latency_def benchmark_duration_def whole_secs_def measurement_default_def
      Let_def round_def)

end
