(* ===== verification/Networking.thy ===== *)
theory Networking
  imports Prelude
begin

text \<open>
  The connection worker (\<^verbatim>\<open>src/networking/worker.rs\<close>): length-prefixed frames on a TCP stream.  A TCP stream
  delivers the written bytes in order, cut into chunks at arbitrary places: the reader is run on a list of chunks, one for each call
  of \<^verbatim>\<open>read_buf\<close>, and the empty chunk is the end of the stream.  \<^verbatim>\<open>bincode\<close> is a pair of functions \<open>ser\<close> and \<open>deser\<close>.  The items
  of the frames of one read are forwarded concurrently, so a read yields a batch of items.
\<close>


section \<open>Frames\<close>

definition MAX_MESSAGE_SIZE :: nat where "MAX_MESSAGE_SIZE = 16 * 1024 * 1024"
definition MAX_BATCH_SIZE :: nat where "MAX_BATCH_SIZE = 16"

datatype io_error = FrameTooLarge nat

definition to_be_bytes :: "nat \<Rightarrow> byte list" where
  "to_be_bytes n = [of_nat (n div 2 ^ 24), of_nat (n div 2 ^ 16), of_nat (n div 2 ^ 8), of_nat n]"

definition read_u32 :: "byte list \<Rightarrow> nat" where
  "read_u32 bs = foldl (\<lambda>n b. n * 256 + unat b) 0 bs"

text \<open>\<^verbatim>\<open>serialized.len() as u32\<close> truncates.\<close>

definition encode_frame :: "('a \<Rightarrow> byte list) \<Rightarrow> 'a \<Rightarrow> byte list" where
  "encode_frame ser item = (let serialized = ser item in to_be_bytes (length serialized mod 2 ^ 32) @ serialized)"

text \<open>One round of the writer: the messages received together go out in one buffer.\<close>

definition write_batch :: "('a \<Rightarrow> byte list) \<Rightarrow> 'a list \<Rightarrow> byte list" where
  "write_batch ser buffer = concat (map (encode_frame ser) buffer)"

fun handle_write_stream :: "('a \<Rightarrow> byte list) \<Rightarrow> 'a list list \<Rightarrow> byte list" where
  "handle_write_stream ser [] = []"
| "handle_write_stream ser (buffer # rounds) = (if buffer = [] then [] else write_batch ser buffer @ handle_write_stream ser rounds)"

text \<open>The complete frames at the front of the buffer and the bytes that are left.\<close>

function extract_frames :: "byte list \<Rightarrow> io_error + byte list list \<times> byte list" where
  "extract_frames buf =
     (if length buf < 4 then Inr ([], buf)
      else let size = read_u32 (take 4 buf) in
        if size > MAX_MESSAGE_SIZE then Inl (FrameTooLarge size)
        else if length buf < 4 + size then Inr ([], buf)
        else and_then (extract_frames (drop (4 + size) buf)) (\<lambda>(frames, rest). Inr (take size (drop 4 buf) # frames, rest)))"
  by pat_completeness auto
termination by (relation "measure length") auto

declare extract_frames.simps [simp del]

definition deserialize_frames :: "(byte list \<Rightarrow> 'a option) \<Rightarrow> byte list list \<Rightarrow> 'a list" where
  "deserialize_frames deser frames = List.map_filter deser frames"

text \<open>
  The batches of items that the reads yield and the bytes left in the buffer at the end; a frame that is too large ends the reader with an
  error, and the frames before it in the same read are lost.
\<close>

fun handle_read_stream ::
  "(byte list \<Rightarrow> 'a option) \<Rightarrow> byte list list \<Rightarrow> byte list \<Rightarrow> 'a list list \<Rightarrow> 'a list list \<times> (io_error + byte list)" where
  "handle_read_stream deser [] buf delivered = (delivered, Inr buf)"
| "handle_read_stream deser (chunk # chunks) buf delivered =
     (if chunk = [] then (delivered, Inr buf)
      else case extract_frames (buf @ chunk) of
             Inl e \<Rightarrow> (delivered, Inl e)
           | Inr (frames, rest) \<Rightarrow> handle_read_stream deser chunks rest (delivered @ [deserialize_frames deser frames]))"


section \<open>The length prefix\<close>

lemma read_to_be: "n < 2 ^ 32 \<Longrightarrow> read_u32 (to_be_bytes n) = n"
proof -
  assume n: "n < 2 ^ 32"
  have u: "unat (of_nat k :: byte) = k mod 256" for k by (simp add: unat_of_nat)
  have top: "n div 16777216 mod 256 = n div 16777216" using n by (intro mod_less) (simp add: less_mult_imp_div_less)
  have "((n div 2 ^ 24 mod 256 * 256 + n div 2 ^ 16 mod 256) * 256 + n div 2 ^ 8 mod 256) * 256 + n mod 256 = n"
  proof -
    have a: "n div 2 ^ 24 mod 256 = n div 2 ^ 24" using n by (intro mod_less) (simp add: less_mult_imp_div_less)
    have b: "n div 2 ^ 24 * 256 + n div 2 ^ 16 mod 256 = n div 2 ^ 16"
      using div_mult_mod_eq[of "n div 2 ^ 16" 256] by (simp add: div_mult2_eq[symmetric])
    have c: "n div 2 ^ 16 * 256 + n div 2 ^ 8 mod 256 = n div 2 ^ 8"
      using div_mult_mod_eq[of "n div 2 ^ 8" 256] by (simp add: div_mult2_eq[symmetric])
    have d: "n div 2 ^ 8 * 256 + n mod 256 = n" using div_mult_mod_eq[of n 256] by simp
    show ?thesis unfolding a b c d ..
  qed
  then show ?thesis using top by (simp add: read_u32_def to_be_bytes_def u)
qed

lemma length_to_be_bytes [simp]: "length (to_be_bytes n) = 4"
  by (simp add: to_be_bytes_def)


section \<open>Reading what was written\<close>

definition sendable :: "('a \<Rightarrow> byte list) \<Rightarrow> 'a \<Rightarrow> bool" where
  "sendable ser item \<longleftrightarrow> length (ser item) \<le> MAX_MESSAGE_SIZE"

lemma encode_frame_sendable: "sendable ser item \<Longrightarrow> encode_frame ser item = to_be_bytes (length (ser item)) @ ser item"
  by (simp add: encode_frame_def sendable_def MAX_MESSAGE_SIZE_def Let_def)

lemma encode_frames_empty: "concat (map (encode_frame ser) ms) = [] \<longleftrightarrow> ms = []"
  by (cases ms) (simp_all add: encode_frame_def Let_def to_be_bytes_def)

text \<open>A buffer that is a prefix of a stream of frames yields the frames that are complete in it.\<close>

lemma extract_frames_prefix:
  assumes "list_all (sendable ser) ms" "buf @ tail = concat (map (encode_frame ser) ms)"
  shows "\<exists>k \<le> length ms. \<exists>rest. extract_frames buf = Inr (map ser (take k ms), rest) \<and>
           rest @ tail = concat (map (encode_frame ser) (drop k ms)) \<and> (tail = [] \<longrightarrow> k = length ms)"
  using assms
proof (induction ms arbitrary: buf)
  case Nil
  then show ?case by (subst extract_frames.simps) simp
next
  case (Cons x ms)
  let ?f = "encode_frame ser x" and ?n = "length (ser x)"
  have f: "?f = to_be_bytes ?n @ ser x" "length ?f = 4 + ?n" "?n \<le> MAX_MESSAGE_SIZE"
    using Cons.prems(1) encode_frame_sendable[of ser x] by (simp_all add: sendable_def)
  have n: "?n < 2 ^ 32" using f(3) by (simp add: MAX_MESSAGE_SIZE_def)
  have app: "buf @ tail = ?f @ concat (map (encode_frame ser) ms)" using Cons.prems(2) by simp
  show ?case
  proof (cases "length buf < 4 + ?n")
    case short: True
    have "tail \<noteq> []" using app short f(2) by (metis append.right_neutral le_add1 length_append not_less)
    moreover have "extract_frames buf = Inr ([], buf)"
    proof (cases "length buf < 4")
      case False
      then have "take 4 buf = take 4 (buf @ tail)" by simp
      then have "take 4 buf = to_be_bytes ?n" using app f(1) by simp
      then show ?thesis using short f(3) n read_to_be[OF n] by (subst extract_frames.simps) (simp add: Let_def)
    qed (subst extract_frames.simps, simp)
    ultimately show ?thesis using Cons.prems(2) by (intro exI[of _ 0]) simp
  next
    case False
    let ?b = "drop (length ?f) buf"
    have "take (length ?f) (buf @ tail) = ?f" unfolding app by simp
    then have buf: "buf = ?f @ ?b" using False f(2) by (metis append_take_drop_id diff_is_0_eq' not_less take0 take_append append.right_neutral)
    then have "?f @ ?b @ tail = ?f @ concat (map (encode_frame ser) ms)" using app by (metis append.assoc)
    then have buf': "?b @ tail = concat (map (encode_frame ser) ms)" by simp
    obtain k rest where IH: "k \<le> length ms" "extract_frames ?b = Inr (map ser (take k ms), rest)"
        "rest @ tail = concat (map (encode_frame ser) (drop k ms))" "tail = [] \<longrightarrow> k = length ms"
      using Cons.IH[OF _ buf'] Cons.prems(1) by auto
    have "extract_frames (?f @ ?b) = Inr (ser x # map ser (take k ms), rest)"
      using f read_to_be[OF n] IH(2) by (subst extract_frames.simps) (simp add: Let_def)
    then have "extract_frames buf = Inr (ser x # map ser (take k ms), rest)" using buf by simp
    then show ?thesis using IH by (intro exI[of _ "Suc k"]) simp
  qed
qed

lemma deserialize_serialized: "(\<And>m. deser (ser m) = Some m) \<Longrightarrow> deserialize_frames deser (map ser ms) = ms"
  by (induction ms) (simp_all add: deserialize_frames_def List.map_filter_simps)

lemma read_stream_frames:
  assumes law: "\<And>m. deser (ser m) = Some m" and "list_all (sendable ser) ms" "[] \<notin> set chunks"
    and "buf @ concat chunks = concat (map (encode_frame ser) ms)" "chunks = [] \<longrightarrow> ms = []"
  shows "\<exists>batches. handle_read_stream deser chunks buf delivered = (delivered @ batches, Inr []) \<and> concat batches = ms"
  using assms(2-)
proof (induction chunks arbitrary: buf ms delivered)
  case Nil
  then show ?case by simp
next
  case (Cons chunk chunks)
  have "(buf @ chunk) @ concat chunks = concat (map (encode_frame ser) ms)" using Cons.prems(3) by simp
  from extract_frames_prefix[OF Cons.prems(1) this] obtain k rest where
    k: "extract_frames (buf @ chunk) = Inr (map ser (take k ms), rest)" "rest @ concat chunks = concat (map (encode_frame ser) (drop k ms))"
      "concat chunks = [] \<longrightarrow> k = length ms" by blast
  have "list_all (sendable ser) (drop k ms)" using Cons.prems(1) by (auto simp: list_all_iff dest: in_set_dropD)
  moreover have "chunks = [] \<longrightarrow> drop k ms = []" using k(3) by simp
  ultimately obtain batches where b: "handle_read_stream deser chunks rest (delivered @ [take k ms]) = ((delivered @ [take k ms]) @ batches, Inr [])"
      "concat batches = drop k ms"
    using Cons.IH[OF _ _ k(2), of "delivered @ [take k ms]"] Cons.prems(2) by auto
  have "handle_read_stream deser (chunk # chunks) buf delivered = (delivered @ (take k ms # batches), Inr [])"
    using Cons.prems(2) k(1) b(1) by (auto simp: deserialize_serialized[OF law])
  then show ?case using b(2) by (intro exI[of _ "take k ms # batches"]) simp
qed

text \<open>What the writer sends, up to the closing of its channel.\<close>

lemma handle_write_stream_concat: "[] \<notin> set rounds \<Longrightarrow> handle_write_stream ser rounds = concat (map (encode_frame ser) (concat rounds))"
  by (induction rounds) (auto simp: write_batch_def)



end
