(* ===== verification/Validator_Config.thy ===== *)
theory Validator_Config
  imports Config
begin

text \<open>
  The network part of the configuration (\<^verbatim>\<open>src/config.rs\<close>): socket addresses, the proxies of a validator and the
  configuration that the primary and the proxies start from, and reading and writing a configuration file.  \<^verbatim>\<open>serde_yaml\<close> is the record
  \<open>yaml\<close> of its two functions; the file system is the map of the contents of the files and the set of the paths that can be written.
\<close>


section \<open>Addresses\<close>

datatype ip_addr = Ipv4 byte byte byte byte | Ipv6 "byte list"

record socket_addr =
  sa_ip :: ip_addr
  sa_port :: nat

definition socket_addr_new :: "ip_addr \<Rightarrow> nat \<Rightarrow> socket_addr" where
  "socket_addr_new ip port = \<lparr>sa_ip = ip, sa_port = port\<rparr>"

definition ip_localhost :: ip_addr where "ip_localhost = Ipv4 127 0 0 1"

definition ip_unspecified :: ip_addr where "ip_unspecified = Ipv4 0 0 0 0"

definition is_ipv4 :: "socket_addr \<Rightarrow> bool" where
  "is_ipv4 a = (case sa_ip a of Ipv4 _ _ _ _ \<Rightarrow> True | Ipv6 _ \<Rightarrow> False)"

definition default_primary_address_for_proxies :: socket_addr where
  "default_primary_address_for_proxies = socket_addr_new ip_localhost 18500"

definition default_primary_address_for_clients :: socket_addr where
  "default_primary_address_for_clients = socket_addr_new ip_localhost 18501"

definition default_metrics_address :: socket_addr where
  "default_metrics_address = socket_addr_new ip_localhost 18502"


section \<open>Validators\<close>

definition DEFAULT_CHANNEL_SIZE :: nat where "DEFAULT_CHANNEL_SIZE = 100000"

record proxy_info =
  pi_proxy_id :: proxy_id
  pi_listen_proxy_address :: socket_addr
  pi_listen_primary_address :: socket_addr
  pi_metrics_address :: socket_addr

record validator_config =
  vc_proxy_server_address :: socket_addr
  vc_client_server_address :: socket_addr
  vc_proxies :: "proxy_info list"
  vc_metrics_address :: socket_addr
  vc_validator_parameters :: validator_parameters

text \<open>
  The configuration for tests.  \<open>base\<close>, \<open>a\<close>, \<open>b\<close> and \<open>c\<close> are the addresses that the operating system gives out when
  \<^verbatim>\<open>get_test_address\<close> binds to port 0; a port is a \<^verbatim>\<open>u16\<close>, and adding to it can overflow.
\<close>

definition port_plus :: "build \<Rightarrow> socket_addr \<Rightarrow> nat \<Rightarrow> socket_addr res" where
  "port_plus bd base n =
     and_then (fit_unsigned 16 bd (int (sa_port base) + int n)) (\<lambda>port. Inr (socket_addr_new (sa_ip base) (nat port)))"

definition test_proxy :: "build \<Rightarrow> socket_addr \<Rightarrow> proxy_id \<Rightarrow> nat \<Rightarrow> proxy_info res" where
  "test_proxy bd base i n =
     and_then (port_plus bd base n)
     (\<lambda>a. and_then (port_plus bd base (n + 1))
     (\<lambda>b. and_then (port_plus bd base (n + 2))
     (\<lambda>c. Inr \<lparr>pi_proxy_id = i, pi_listen_proxy_address = a, pi_listen_primary_address = b, pi_metrics_address = c\<rparr>)))"

definition validator_config_new_for_tests :: "build \<Rightarrow> socket_addr \<Rightarrow> socket_addr \<Rightarrow> socket_addr \<Rightarrow> socket_addr \<Rightarrow> validator_config res" where
  "validator_config_new_for_tests bd base a b c =
     and_then (test_proxy bd base 0 1)
     (\<lambda>p0. and_then (test_proxy bd base 1 4)
     (\<lambda>p1. Inr \<lparr>vc_proxy_server_address = a, vc_client_server_address = b, vc_proxies = [p0, p1], vc_metrics_address = c,
               vc_validator_parameters = validator_parameters_default\<rparr>))"

text \<open>
  A configuration that the programs can use: the command line selects a proxy by its position in the list and the node by its identifier, and
  the forwarders number the proxies from 0, so the identifiers have to be the positions.
\<close>

definition config_ok :: "validator_config \<Rightarrow> bool" where
  "config_ok c \<longleftrightarrow> vc_proxies c \<noteq> [] \<and> map pi_proxy_id (vc_proxies c) = [0..<length (vc_proxies c)]"


section \<open>Configuration files\<close>

record 'a yaml =
  y_to_string :: "'a \<Rightarrow> string option"
  y_from_str :: "string \<Rightarrow> 'a option"

record 'c file_system =
  fs_files :: "string \<rightharpoonup> 'c"
  fs_writable :: "string set"

datatype config_io_error = ReadFailed | ParseFailed | WriteFailed

definition load_config :: "'a yaml \<Rightarrow> string file_system \<Rightarrow> string \<Rightarrow> config_io_error + 'a" where
  "load_config Y fs path =
     (case fs_files fs path of
        None \<Rightarrow> Inl ReadFailed
      | Some content \<Rightarrow> (case y_from_str Y content of None \<Rightarrow> Inl ParseFailed | Some x \<Rightarrow> Inr x))"

definition print_config :: "'a yaml \<Rightarrow> 'a \<Rightarrow> string \<Rightarrow> string file_system \<Rightarrow> (config_io_error + string file_system) res" where
  "print_config Y x path fs =
     and_then (unwrap ''Failed to serialize to YAML string'' (y_to_string Y x))
       (\<lambda>content. Inr (if path \<in> fs_writable fs then Inr (fs\<lparr>fs_files := (fs_files fs)(path \<mapsto> content)\<rparr>) else Inl WriteFailed))"

definition yaml_laws :: "'a yaml \<Rightarrow> bool" where
  "yaml_laws Y \<longleftrightarrow> (\<forall>x. \<exists>c. y_to_string Y x = Some c \<and> y_from_str Y c = Some x)"


section \<open>Properties\<close>

lemma print_load_config:
  assumes "yaml_laws Y" "print_config Y x path fs = Inr (Inr fs')"
  shows "load_config Y fs' path = Inr x" "path' \<noteq> path \<Longrightarrow> load_config Y fs' path' = load_config Y fs path'"
proof -
  obtain c where c: "y_to_string Y x = Some c" "y_from_str Y c = Some x" using assms(1) by (auto simp: yaml_laws_def)
  then have "fs' = fs\<lparr>fs_files := (fs_files fs)(path \<mapsto> c)\<rparr>"
    using assms(2) by (auto simp: print_config_def unwrap_def split: if_splits)
  then show "load_config Y fs' path = Inr x" "path' \<noteq> path \<Longrightarrow> load_config Y fs' path' = load_config Y fs path'"
    using c(2) by (simp_all add: load_config_def)
qed

lemma config_okD:
  assumes "config_ok c" "i < length (vc_proxies c)"
  shows "pi_proxy_id (vc_proxies c ! i) = i"
proof -
  have "map pi_proxy_id (vc_proxies c) ! i = [0..<length (vc_proxies c)] ! i" using assms(1) by (simp add: config_ok_def)
  then show ?thesis using assms(2) by simp
qed

lemma config_ok_ids: "config_ok c \<Longrightarrow> pi_proxy_id ` set (vc_proxies c) = {..<length (vc_proxies c)}"
  by (metis atLeast_upt config_ok_def list.set_map)

lemma test_config_ok:
  assumes "validator_config_new_for_tests bd base a b c = Inr cfg"
  shows "config_ok cfg"
  using assms by (auto simp: validator_config_new_for_tests_def test_proxy_def and_then_eq_Inr config_ok_def)

lemma test_config_overflow: "65529 < sa_port base \<Longrightarrow> sa_port base < 65536 \<Longrightarrow> \<exists>e. validator_config_new_for_tests Debug base a b c = Inl e"
  by (auto simp: validator_config_new_for_tests_def test_proxy_def port_plus_def and_then_def fit_unsigned_def split: sum.splits)

end
