(* ===== verification/Connections.thy ===== *)
theory Connections
  imports Networking Validator_Config
begin

text \<open>
  Network clients and servers (\<^verbatim>\<open>src/networking/client.rs\<close> and \<^verbatim>\<open>server.rs\<close>) around the connection worker.  The operating system is an
  argument: whether the \<open>i\<close>-th attempt of a client can open a socket and finds the server answering, and the events that a listening
  server sees.  A client retries after a second until the server answers: \<open>connect_loop\<close> returns \<open>None\<close> when it never does.  A server is
  run on a list of events; at their end it is still listening.
\<close>


section \<open>The worker of a connection\<close>

text \<open>Reading and writing run until both are finished: an end of one does not end the other.\<close>

definition connection_worker_run ::
  "(byte list \<Rightarrow> 'i option) \<Rightarrow> ('q \<Rightarrow> byte list) \<Rightarrow> byte list list \<Rightarrow> 'q list list \<Rightarrow> ('i list list \<times> (io_error + byte list)) \<times> byte list" where
  "connection_worker_run deser ser chunks rounds = (handle_read_stream deser chunks [] [], handle_write_stream ser rounds)"


section \<open>Clients\<close>

datatype net_fault = SocketError | BindError | AcceptError | NodelayError

partial_function (option) connect_loop :: "(nat \<Rightarrow> bool) \<Rightarrow> (nat \<Rightarrow> bool) \<Rightarrow> nat \<Rightarrow> (net_fault + nat) option" where
  "connect_loop socket_opens answers i =
     (if \<not> socket_opens i then Some (Inl SocketError)
      else if answers i then Some (Inr i)
      else connect_loop socket_opens answers (Suc i))"

text \<open>
  \<open>os_socket v4 i\<close> tells whether the operating system opens a socket of the family at the attempt \<open>i\<close>.  The result is the number of
  attempts that failed.
\<close>

definition network_client_connect :: "(bool \<Rightarrow> nat \<Rightarrow> bool) \<Rightarrow> (nat \<Rightarrow> bool) \<Rightarrow> socket_addr \<Rightarrow> (net_fault + nat) option" where
  "network_client_connect os_socket answers server_address = connect_loop (os_socket (is_ipv4 server_address)) answers 0"

text \<open>The time spent waiting between the attempts.\<close>

definition retry_time :: "nat \<Rightarrow> duration" where
  "retry_time failed = failed * from_secs 1"

definition network_client_run ::
  "(bool \<Rightarrow> nat \<Rightarrow> bool) \<Rightarrow> (nat \<Rightarrow> bool) \<Rightarrow> socket_addr \<Rightarrow> (byte list \<Rightarrow> 'i option) \<Rightarrow> ('q \<Rightarrow> byte list) \<Rightarrow> byte list list \<Rightarrow> 'q list list \<Rightarrow>
   (net_fault + (('i list list \<times> (io_error + byte list)) \<times> byte list)) option" where
  "network_client_run os_socket answers server_address deser ser chunks rounds =
     (case connect_loop (os_socket (is_ipv4 server_address)) answers 0 of
        None \<Rightarrow> None
      | Some (Inl e) \<Rightarrow> Some (Inl e)
      | Some (Inr _) \<Rightarrow> Some (Inr (connection_worker_run deser ser chunks rounds)))"

definition spawn_after_connect ::
  "nat \<Rightarrow> (byte list \<Rightarrow> 'i option) \<Rightarrow> ('q \<Rightarrow> byte list) \<Rightarrow> byte list list \<Rightarrow> 'q list list \<Rightarrow> net_fault + (('i list list \<times> (io_error + byte list)) \<times> byte list)" where
  "spawn_after_connect stream deser ser chunks rounds = Inr (connection_worker_run deser ser chunks rounds)"


section \<open>Servers\<close>

datatype accept_event = AcceptFails | NodelayFails | Accepts nat

datatype server_outcome = Listening | Stopped | Failed net_fault

record server_state =
  sv_workers :: "nat list"
  sv_announced :: "nat list"

definition server_new :: server_state where
  "server_new = \<lparr>sv_workers = [], sv_announced = []\<rparr>"

text \<open>
  \<open>app_open n\<close> tells whether the application still holds the receiver of new connections when the \<open>n\<close>-th of them is announced.  The
  worker of a connection is spawned before the announcement.
\<close>

fun serve :: "(nat \<Rightarrow> bool) \<Rightarrow> accept_event list \<Rightarrow> server_state \<Rightarrow> server_state \<times> server_outcome" where
  "serve app_open [] sv = (sv, Listening)"
| "serve app_open (AcceptFails # es) sv = (sv, Failed AcceptError)"
| "serve app_open (NodelayFails # es) sv = (sv, Failed NodelayError)"
| "serve app_open (Accepts peer # es) sv =
     (let n = length (sv_announced sv); sv1 = sv\<lparr>sv_workers := sv_workers sv @ [peer]\<rparr>
      in if app_open n then serve app_open es (sv1\<lparr>sv_announced := sv_announced sv @ [peer]\<rparr>) else (sv1, Stopped))"

definition network_server_run :: "bool \<Rightarrow> (nat \<Rightarrow> bool) \<Rightarrow> accept_event list \<Rightarrow> server_state \<times> server_outcome" where
  "network_server_run binds app_open events = (if binds then serve app_open events server_new else (server_new, Failed BindError))"


section \<open>Clients connect\<close>

text \<open>A result of the loop: the first attempt from \<open>i\<close> on that does not have to be repeated.\<close>

lemma connect_loop_Some:
  assumes "connect_loop socket_opens answers i = Some r"
  shows "\<exists>n \<ge> i. (\<forall>j. i \<le> j \<longrightarrow> j < n \<longrightarrow> socket_opens j \<and> \<not> answers j) \<and>
           r = (if socket_opens n then Inr n else Inl SocketError) \<and> (socket_opens n \<longrightarrow> answers n)"
  using assms
proof (induction rule: connect_loop.raw_induct[rotated, consumes 1, case_names 1])
  case (1 loop socket_opens answers i r)
  show ?case
  proof (cases "socket_opens i \<and> \<not> answers i")
    case True
    then have "loop socket_opens answers (Suc i) = Some r" using 1(2) by simp
    from 1(1)[OF this] obtain n where n: "n \<ge> Suc i" "\<forall>j. Suc i \<le> j \<longrightarrow> j < n \<longrightarrow> socket_opens j \<and> \<not> answers j"
      "r = (if socket_opens n then Inr n else Inl SocketError)" "socket_opens n \<longrightarrow> answers n" by blast
    have "\<forall>j. i \<le> j \<longrightarrow> j < n \<longrightarrow> socket_opens j \<and> \<not> answers j" using n(2) True by (metis Suc_leI le_neq_implies_less)
    then show ?thesis using n by (intro exI[of _ n]) auto
  next
    case False
    then show ?thesis using 1(2) by (intro exI[of _ i]) (auto split: if_splits)
  qed
qed

lemma connect_loop_reaches:
  assumes "\<And>j. i \<le> j \<Longrightarrow> j < i + n \<Longrightarrow> socket_opens j \<and> \<not> answers j" "socket_opens (i + n)" "answers (i + n)"
  shows "connect_loop socket_opens answers i = Some (Inr (i + n))"
  using assms
proof (induction n arbitrary: i)
  case 0
  then show ?case by (simp add: connect_loop.simps)
next
  case (Suc n)
  have "connect_loop socket_opens answers (Suc i) = Some (Inr (Suc i + n))"
    by (rule Suc.IH) (use Suc.prems in simp_all)
  moreover have "socket_opens i \<and> \<not> answers i" using Suc.prems(1)[of i] by simp
  ultimately show ?case by (subst connect_loop.simps) simp
qed




section \<open>Servers accept\<close>

fun accepted_peer :: "accept_event \<Rightarrow> nat list" where
  "accepted_peer (Accepts peer) = [peer]"
| "accepted_peer _ = []"

definition all_accepted :: "accept_event list \<Rightarrow> bool" where
  "all_accepted es \<longleftrightarrow> AcceptFails \<notin> set es \<and> NodelayFails \<notin> set es"

lemma all_accepted_simps [simp]:
  "all_accepted []" "all_accepted (AcceptFails # es) \<longleftrightarrow> False" "all_accepted (NodelayFails # es) \<longleftrightarrow> False"
  "all_accepted (Accepts p # es) \<longleftrightarrow> all_accepted es"
  by (auto simp: all_accepted_def)

lemma serve_open:
  "\<forall>n. app_open n \<Longrightarrow> all_accepted es \<Longrightarrow>
   serve app_open es sv = (sv\<lparr>sv_workers := sv_workers sv @ concat (map accepted_peer es),
                              sv_announced := sv_announced sv @ concat (map accepted_peer es)\<rparr>, Listening)"
  by (induction app_open es sv rule: serve.induct) auto

text \<open>
  Every connection that was ever announced has a worker, and at most one worker was not announced; a server is listening only while every
  announcement succeeded.
\<close>

lemma serve_workers:
  "serve app_open es sv = (sv', out) \<Longrightarrow> sv_workers sv = sv_announced sv \<Longrightarrow>
     (sv_workers sv' = sv_announced sv' \<and> out \<noteq> Stopped) \<or> (\<exists>p. sv_workers sv' = sv_announced sv' @ [p] \<and> out = Stopped)"
  by (induction app_open es sv rule: serve.induct) (auto simp: Let_def split: if_splits)

end
