(* ===== verification/Nodes.thy ===== *)
theory Nodes
  imports Primary_Protocol Pre_Consensus Mock_Consensus Measurement Connections
begin

text \<open>
  The nodes of a deployment (\<^verbatim>\<open>src/primary/node.rs\<close>, \<^verbatim>\<open>src/proxy/node.rs\<close> and \<^verbatim>\<open>initialize_processors\<close> of
  \<^verbatim>\<open>src/primary/load_balancer.rs\<close>): what is started from a configuration, with which initial states, and how the parts are connected.  A
  channel is its number; a network client is the channel it drains and the address it dials.  \<open>conns\<close> is the order in which the
  map of the connections is iterated.  Then the two loops of the nodes: the primary collects the connections of its clients, a proxy collects
  the results of its transactions.
\<close>


section \<open>The primary\<close>

text \<open>
  The states that the tasks of the load balancer start with.  The routing plan, the loads and the table of the stateless forwarder are
  shared by the tasks and start empty.
\<close>

record ('t, 'd, 'o) processors =
  pr_owned :: owned_forwarder
  pr_versions :: "'o shared_object_versions"
  pr_controller :: "'o vdc"
  pr_shared :: "('t, 'd, 'o) forwarder"
  pr_scheduler :: "'d scheduler"
  pr_forwards_stateless :: bool

definition initialize_processors :: "proxy_id list \<Rightarrow> pre_consensus_policy \<Rightarrow> separation_mode \<Rightarrow> ('t, 'd, 'o) processors" where
  "initialize_processors conns policy mode =
     \<lparr>pr_owned = owned_forwarder_init conns,
      pr_versions = Map.empty,
      pr_controller = vdc_new,
      pr_shared = forwarder_new conns Map.empty Map.empty Map.empty mode policy Map.empty,
      pr_scheduler = scheduler_new (length conns) Map.empty Map.empty,
      pr_forwards_stateless = (mode = PrimaryPreSeparation)\<rparr>"

text \<open>The loop over the proxies: a channel and a client for each of them.\<close>

fun connect_proxies ::
  "proxy_info list \<Rightarrow> nat \<Rightarrow> (proxy_id \<rightharpoonup> nat) \<times> (nat \<times> socket_addr) list \<Rightarrow> (proxy_id \<rightharpoonup> nat) \<times> (nat \<times> socket_addr) list" where
  "connect_proxies [] channel acc = acc"
| "connect_proxies (p # ps) channel (conns, dials) =
     connect_proxies ps (Suc channel) (conns(pi_proxy_id p \<mapsto> channel), dials @ [(channel, pi_listen_primary_address p)])"

record ('t, 'd, 'o) primary_node =
  pn_connections :: "proxy_id \<rightharpoonup> nat"
  pn_dials :: "(nat \<times> socket_addr) list"
  pn_processors :: "('t, 'd, 'o) processors"
  pn_consensus :: "(('t, 'o) txn_ts, 'd verification_request) consensus"
  pn_delay :: delay_model
  pn_client_server :: socket_addr
  pn_clients :: "nat list"

definition primary_start :: "((proxy_id \<rightharpoonup> nat) \<Rightarrow> proxy_id list) \<Rightarrow> validator_config \<Rightarrow> duration \<Rightarrow> ('t, 'd, 'o) primary_node" where
  "primary_start iter config now =
     (let (conns, dials) = connect_proxies (vc_proxies config) 0 (Map.empty, []);
          params = vc_validator_parameters config
      in \<lparr>pn_connections = conns, pn_dials = dials,
          pn_processors = initialize_processors (iter conns) (vp_load_balancing_policy params) (vp_separation_mode params),
          pn_consensus = consensus_new (consensus_parameters params) (vp_separation_mode params) now,
          pn_delay = FixedDelay (consensus_delay_model params),
          pn_client_server = socket_addr_new ip_unspecified (sa_port (vc_client_server_address config)),
          pn_clients = []\<rparr>)"

definition collect_results :: "nat list \<Rightarrow> ('t, 'd, 'o) primary_node \<Rightarrow> ('t, 'd, 'o) primary_node" where
  "collect_results connections n = n\<lparr>pn_clients := pn_clients n @ connections\<rparr>"


section \<open>A proxy\<close>

record ('t, 'd, 'o, 'b) proxy_node =
  nd_core :: "('t, 'd, 'o, 'b) proxy"
  nd_proxy_server :: socket_addr
  nd_primary_server :: socket_addr
  nd_dials :: "(proxy_id \<times> socket_addr) list"

text \<open>
  The connections to the other proxies: the entries of \<^verbatim>\<open>tx_inter_proxy_replies\<close> and the clients that drain them.
\<close>

definition peers_of :: "proxy_id \<Rightarrow> proxy_info list \<Rightarrow> (proxy_id \<times> socket_addr) list" where
  "peers_of i proxies = map (\<lambda>p. (pi_proxy_id p, pi_listen_proxy_address p)) (filter (\<lambda>p. pi_proxy_id p \<noteq> i) proxies)"

definition proxy_start :: "proxy_id \<Rightarrow> ('o, 'b) object_store \<Rightarrow> validator_config \<Rightarrow> ('t, 'd, 'o, 'b) proxy_node res" where
  "proxy_start i store config =
     and_then (unwrap ''Could not find our proxy in the config'' (List.find (\<lambda>p. pi_proxy_id p = i) (vc_proxies config)))
       (\<lambda>ours. let peers = peers_of i (vc_proxies config)
               in Inr \<lparr>nd_core = proxy_new i (vp_separation_mode (vc_validator_parameters config)) store (fst ` set peers),
                       nd_proxy_server = socket_addr_new ip_unspecified (sa_port (pi_listen_proxy_address ours)),
                       nd_primary_server = socket_addr_new ip_unspecified (sa_port (pi_listen_primary_address ours)),
                       nd_dials = peers\<rparr>)"

text \<open>
  The receiver of the connections from the primary is dropped at once, so announcing one always fails; the connections from other proxies are
  received until the node ends.
\<close>

definition primary_server_run :: "accept_event list \<Rightarrow> server_state \<times> server_outcome" where
  "primary_server_run events = network_server_run True (\<lambda>_. False) events"

definition inter_proxy_server_run :: "accept_event list \<Rightarrow> server_state \<times> server_outcome" where
  "inter_proxy_server_run events = network_server_run True (\<lambda>_. True) events"

record collector =
  co_metrics :: metrics
  co_sampled :: nat
  co_logged :: "(duration \<times> f64) list"

text \<open>
  The results that arrive before the core tasks end, with the times at which they arrive.
\<close>

fun await_completion :: "('u \<Rightarrow> bool) \<Rightarrow> (duration \<times> ('t, 'o, 'u, 'b) execution_results) list \<Rightarrow> collector \<Rightarrow> collector res" where
  "await_completion status_ok [] co = Inr co"
| "await_completion status_ok ((now, result) # rest) co =
     and_then (results_success status_ok result)
       (\<lambda>success. if \<not> success then Inl (Panic ''assertion failed: result.success()'')
          else let submit_timestamp = timestamp (er_transaction result);
                   sampled = co_sampled co + 1;
                   logged = (if sampled mod 10 = 0
                             then co_logged co @ [(now, (real now / 10 ^ 9 - submit_timestamp) * 1000)] else co_logged co)
               in await_completion status_ok rest
                    \<lparr>co_metrics = update_metrics now submit_timestamp ''default'' (co_metrics co), co_sampled = sampled, co_logged = logged\<rparr>)"


section \<open>Connections of a deployment\<close>

lemma connect_proxies_append:
  "connect_proxies (ps @ qs) n acc = connect_proxies qs (n + length ps) (connect_proxies ps n acc)"
  by (induction ps n acc rule: connect_proxies.induct) simp_all

lemma connect_proxies_numbered:
  assumes "map pi_proxy_id ps = [0..<length ps]"
  shows "connect_proxies ps 0 (Map.empty, []) =
    (\<lambda>i. if i < length ps then Some i else None, map (\<lambda>i. (i, pi_listen_primary_address (ps ! i))) [0..<length ps])"
  using assms
proof (induction ps rule: rev_induct)
  case (snoc p ps)
  have "map pi_proxy_id ps = [0..<length ps]" "pi_proxy_id p = length ps" using snoc.prems by simp_all
  then show ?case using snoc.IH by (auto simp: connect_proxies_append fun_eq_iff nth_append)
qed auto

text \<open>The iteration order of the connection map lists its keys.\<close>

definition iterates :: "('k \<rightharpoonup> 'v) \<Rightarrow> 'k list \<Rightarrow> bool" where
  "iterates m ks \<longleftrightarrow> distinct ks \<and> set ks = dom m"

lemma primary_connections:
  assumes "config_ok c"
  shows "pn_connections (primary_start iter c now) = (\<lambda>i. if i < length (vc_proxies c) then Some i else None)"
    and "pn_dials (primary_start iter c now) = map (\<lambda>i. (i, pi_listen_primary_address (vc_proxies c ! i))) [0..<length (vc_proxies c)]"
  using connect_proxies_numbered[of "vc_proxies c"] assms by (simp_all add: config_ok_def primary_start_def Let_def)

lemma proxy_start_ok:
  assumes "config_ok c" "i < length (vc_proxies c)"
  shows "\<exists>nd. proxy_start i store c = Inr nd \<and> px_id (nd_core nd) = i \<and>
           px_mode (nd_core nd) = vp_separation_mode (vc_validator_parameters c) \<and> px_connections (nd_core nd) = {..<length (vc_proxies c)} - {i} \<and>
           nd_primary_server nd = socket_addr_new ip_unspecified (sa_port (pi_listen_primary_address (vc_proxies c ! i)))"
proof -
  have inj: "pi_proxy_id p = i \<Longrightarrow> p \<in> set (vc_proxies c) \<Longrightarrow> p = vc_proxies c ! i" for p
    using config_okD[OF assms(1)] by (metis in_set_conv_nth)
  have "vc_proxies c ! i \<in> set (vc_proxies c)" "pi_proxy_id (vc_proxies c ! i) = i" using assms config_okD by simp_all
  then have "List.find (\<lambda>p. pi_proxy_id p = i) (vc_proxies c) \<noteq> None" by (auto simp: find_None_iff)
  then obtain p where p: "List.find (\<lambda>p. pi_proxy_id p = i) (vc_proxies c) = Some p" by blast
  then have "p = vc_proxies c ! i" using inj by (auto simp: find_Some_iff)
  moreover have "fst ` set (peers_of i (vc_proxies c)) = {..<length (vc_proxies c)} - {i}"
    using config_ok_ids[OF assms(1)] by (auto simp: peers_of_def image_image)
  ultimately show ?thesis using p by (simp add: proxy_start_def unwrap_def proxy_new_def Let_def)
qed

lemma proxy_start_unknown: "i \<notin> pi_proxy_id ` set (vc_proxies c) \<Longrightarrow> proxy_start i store c = Inl (Panic ''Could not find our proxy in the config'')"
proof -
  assume "i \<notin> pi_proxy_id ` set (vc_proxies c)"
  then have "List.find (\<lambda>p. pi_proxy_id p = i) (vc_proxies c) = None" by (auto simp: find_None_iff)
  then show ?thesis by (simp add: proxy_start_def unwrap_def)
qed


section \<open>The primary and the proxies understand each other\<close>

text \<open>The message loops of a proxy: what they never change.\<close>

datatype ('t, 'd, 'o, 'b) proxy_event = FromPrimary "('t, 'd, 'o) primary_to_proxy" | FromProxy "('d, 'o, 'b) proxy_to_proxy"

fun node_run ::
  "(version \<Rightarrow> version) \<Rightarrow> (version \<Rightarrow> version option) \<Rightarrow> ('b \<Rightarrow> version) \<Rightarrow> ('t, 'd, 'o, 'u, 'b) executor_ops \<Rightarrow> ('t, 'd, 'o, 'b) proxy_event list \<Rightarrow>
   ('t, 'd, 'o, 'b) proxy \<Rightarrow> ('t, 'd, 'o, 'b) proxy res" where
  "node_run nxt one_before version_of E [] p = Inr p"
| "node_run nxt one_before version_of E (FromPrimary m # es) p =
     and_then (handle_primary_message E m p) (node_run nxt one_before version_of E es)"
| "node_run nxt one_before version_of E (FromProxy m # es) p =
     and_then (handle_proxy_message nxt one_before version_of m p) (node_run nxt one_before version_of E es)"

abbreviation static :: "('t, 'd, 'o, 'b) proxy \<Rightarrow> proxy_id \<times> separation_mode \<times> proxy_id set" where
  "static p \<equiv> (px_id p, px_mode p, px_connections p)"

lemma spawn_static [simp]: "static (spawn x p) = static p"
  by (simp add: spawn_def)

lemma send_static [simp]: "static (send_msg_to_proxy q m p) = static p"
  by (simp add: send_msg_to_proxy_def)

lemma request_missing_states_static: "request_missing_states ms p = Inr p' \<Longrightarrow> static p' = static p"
  by (induction ms p rule: request_missing_states.induct) (auto simp: send_msg_to_proxy_def split: if_splits)

lemma stateless_receiver_static: "stateless_receiver dg sp p = Inr (p', rx) \<Longrightarrow> static p' = static p"
  by (auto simp: stateless_receiver_def Let_def split: if_splits prod.splits)

lemma process_stateful_static: "process_stateful_transaction E t sp ms p = Inr p' \<Longrightarrow> static p' = static p"
  unfolding process_stateful_transaction_def schedule_stateful_transaction_def
  by (auto simp: and_then_eq_Inr spawn_def dest!: stateless_receiver_static request_missing_states_static)

lemma process_stateless_static [simp]: "static (process_stateless_transaction r p) = static p"
  by (simp add: process_stateless_transaction_def spawn_def split: prod.splits)

lemma handle_primary_message_static: "handle_primary_message E m p = Inr p' \<Longrightarrow> static p' = static p"
  using process_stateless_static
  by (auto simp: handle_primary_message_def Let_def split: if_splits primary_to_proxy.splits dest!: process_stateful_static)

lemma handle_proxy_message_static: "handle_proxy_message nxt ob vo m p = Inr p' \<Longrightarrow> static p' = static p"
  by (auto simp: handle_proxy_message_def handle_stateful_request_def handle_stateless_request_def handle_stateful_reply_def
      handle_stateless_reply_def and_then_eq_Inr spawn_def Let_def split: proxy_to_proxy.splits inter_proxy_request.splits
      inter_proxy_reply.splits if_splits prod.splits)

lemma node_run_static: "node_run nxt ob vo E es p = Inr p' \<Longrightarrow> static p' = static p"
  by (induction nxt ob vo E es p rule: node_run.induct)
    (auto simp: and_then_eq_Inr dest!: handle_primary_message_static handle_proxy_message_static)

text \<open>The tasks of the forwarder, in the order in which they run.\<close>

datatype ('t, 'd, 'o) forwarder_event = ForwardTask "('t, 'o) forwarding_task" | ForwardStateless "'d verification_request"

fun forwarder_run ::
  "(version \<Rightarrow> version) \<Rightarrow> (('t, 'o) txn_ts \<Rightarrow> 'd) \<Rightarrow> (('t, 'o) txn_ts \<Rightarrow> 'd verification_request) \<Rightarrow> ('t, 'd, 'o) forwarder_event list \<Rightarrow>
   ('t, 'd, 'o) forwarder \<Rightarrow> ('t, 'd, 'o) forwarder res" where
  "forwarder_run nxt digest mk [] f = Inr f"
| "forwarder_run nxt digest mk (ForwardTask task # es) f = and_then (process_forwarding_task nxt digest mk task f) (forwarder_run nxt digest mk es)"
| "forwarder_run nxt digest mk (ForwardStateless r # es) f =
     (if fw_mode f = PrimaryPreSeparation then forwarder_run nxt digest mk es (process_stateless_task r f) else forwarder_run nxt digest mk es f)"


lemma send_to_proxy_spec:
  "fw_connections (send_to_proxy d m f) = fw_connections f" "fw_mode (send_to_proxy d m f) = fw_mode f"
  "fw_stateless_table (send_to_proxy d m f) = fw_stateless_table f"
  "\<exists>extra. fw_sent (send_to_proxy d m f) = fw_sent f @ extra \<and> fst ` set extra \<subseteq> set (fw_connections f)"
  by (auto simp: send_to_proxy_def)

lemma pick_stateless_connected:
  assumes "connections_ok f" "pick_stateless_proxy (fw_connections f) w loads = (p, loads')"
  shows "p \<in> set (fw_connections f)"
proof -
  have ne: "fw_connections f \<noteq> []" using assms(1) by (auto simp: connections_ok_def)
  obtain x where x: "min_by_key (load_of loads) (fw_connections f) = Some x"
    using ne min_by_key_None[of "load_of loads" "fw_connections f"] by blast
  show ?thesis using assms(2) min_by_key_min[OF x] x by (auto simp: pick_stateless_proxy_def Let_def)
qed

definition forwarder_kept :: "('t, 'd, 'o) forwarder \<Rightarrow> ('t, 'd, 'o) forwarder \<Rightarrow> bool" where
  "forwarder_kept f f' \<longleftrightarrow>
     fw_connections f' = fw_connections f \<and> fw_mode f' = fw_mode f \<and> connections_ok f' \<and>
     (\<exists>extra. fw_sent f' = fw_sent f @ extra \<and> fst ` set extra \<subseteq> set (fw_connections f))"

lemma forwarder_kept_trans: "forwarder_kept f g \<Longrightarrow> forwarder_kept g h \<Longrightarrow> forwarder_kept f h"
  unfolding forwarder_kept_def by (auto simp: image_subset_iff)

lemma forwarder_kept_send: "connections_ok f \<Longrightarrow> forwarder_kept f (send_to_proxy d m f)"
  by (auto simp: forwarder_kept_def connections_ok_def send_to_proxy_def)

lemma stateless_proxy_for_kept:
  assumes "connections_ok f" "stateless_proxy_for dg r t f = (f', sp)"
  shows "forwarder_kept f f'"
proof (cases "fw_mode f = PrimaryPostSeparation")
  case True
  then show ?thesis using assms
    by (auto simp: stateless_proxy_for_def forwarder_kept_def connections_ok_def send_to_proxy_def split: prod.splits if_splits)
next
  case False
  then show ?thesis using assms by (auto simp: stateless_proxy_for_def forwarder_kept_def connections_ok_def split: if_splits)
qed

lemma process_forwarding_task_kept:
  assumes run: "process_forwarding_task nxt digest mk task f = Inr f'" and ok: "connections_ok f"
  shows "forwarder_kept f f'"
proof -
  let ?t = "task_transaction task"
  obtain f1 proxy where c: "choose_proxy (digest ?t) task f = Inr (f1, proxy)"
    using run by (auto simp: process_forwarding_task_def Let_def and_then_eq_Inr)
  obtain states missing where m: "get_missing_states_for_transaction nxt (Some (task_required_versions task)) proxy (fw_states_to_proxy f1) = (states, missing)"
    by fastforce
  let ?f2 = "f1\<lparr>fw_states_to_proxy := states\<rparr>"
  have k: "forwarder_kept f ?f2" "connections_ok ?f2" using choose_proxy_keeps[OF c] ok by (auto simp: forwarder_kept_def connections_ok_def)
  show ?thesis
  proof (cases "is_primary_separation (fw_mode f)")
    case False
    then have "f' = send_to_proxy proxy (CombinedTxn ?t proxy missing) ?f2"
      using run c m choose_proxy_keeps[OF c] by (simp add: process_forwarding_task_def Let_def)
    then show ?thesis using forwarder_kept_trans[OF k(1) forwarder_kept_send[OF k(2)]] by simp
  next
    case True
    obtain f3 sp where s: "stateless_proxy_for (digest ?t) (mk ?t) ?t ?f2 = (f3, sp)" by fastforce
    have "f' = send_to_proxy proxy (Txn ?t sp missing) f3"
      using run c m choose_proxy_keeps[OF c] True s by (simp add: process_forwarding_task_def Let_def)
    moreover have k3: "forwarder_kept ?f2 f3" by (rule stateless_proxy_for_kept[OF k(2) s])
    moreover have "connections_ok f3" using k3 by (simp add: forwarder_kept_def)
    ultimately show ?thesis using forwarder_kept_trans[OF k(1) forwarder_kept_trans[OF k3 forwarder_kept_send]] by simp
  qed
qed

lemma process_stateless_task_kept:
  assumes "connections_ok f"
  shows "forwarder_kept f (process_stateless_task r f)"
  using process_stateless_task_connections_ok[OF assms, of r]
  by (auto simp: forwarder_kept_def process_stateless_task_def send_to_proxy_def split: prod.splits)

text \<open>A message that every proxy with the number of its destination accepts, in every state that it can reach.\<close>

definition accepted_by_all ::
  "('t, 'd, 'o, 'u, 'b) executor_ops \<Rightarrow> separation_mode \<Rightarrow> proxy_id list \<Rightarrow> proxy_id \<times> ('t, 'd, 'o) primary_to_proxy \<Rightarrow> bool" where
  "accepted_by_all E mode conns x \<longleftrightarrow>
     (\<forall>p :: ('t, 'd, 'o, 'b) proxy. proxy_matches mode conns (fst x) p \<longrightarrow> (\<exists>p'. handle_primary_message E (snd x) p = Inr p'))"

lemma new_messages_accepted:
  assumes "process_forwarding_task nxt digest mk task f = Inr f'" "connections_ok f"
    and "x \<in> set (drop (length (fw_sent f)) (fw_sent f'))"
  shows "accepted_by_all E (fw_mode f) (fw_connections f) x"
  unfolding accepted_by_all_def
proof (intro allI impI)
  fix p :: "('a, 'b, 'c, 'e) proxy" assume "proxy_matches (fw_mode f) (fw_connections f) (fst x) p"
  then show "\<exists>p'. handle_primary_message E (snd x) p = Inr p'"
    by (rule forwarder_messages_accepted[OF assms(1,2), rotated]) (use assms(3) in simp)
qed

lemma new_stateless_accepted:
  assumes "fw_mode f = PrimaryPreSeparation" "x \<in> set (drop (length (fw_sent f)) (fw_sent (process_stateless_task r f)))"
  shows "accepted_by_all E (fw_mode f) (fw_connections f) x"
proof -
  have "snd x = StatelessTxn r" using assms(2) by (auto simp: process_stateless_task_def send_to_proxy_def split: prod.splits if_splits)
  then show ?thesis using assms(1) stateless_accepted[of _ E r] by (auto simp: accepted_by_all_def proxy_matches_def)
qed

lemma forwarder_run_accepted:
  assumes "forwarder_run nxt digest mk es f = Inr f'" "connections_ok f" "\<forall>x \<in> set (fw_sent f). accepted_by_all E (fw_mode f) (fw_connections f) x"
  shows "forwarder_kept f f' \<and> (\<forall>x \<in> set (fw_sent f'). accepted_by_all E (fw_mode f) (fw_connections f) x)"
  using assms
proof (induction nxt digest mk es f rule: forwarder_run.induct)
  case (1 nxt digest mk f)
  then show ?case by (simp add: forwarder_kept_def)
next
  case (2 nxt digest mk task es f)
  obtain g where g: "process_forwarding_task nxt digest mk task f = Inr g" "forwarder_run nxt digest mk es g = Inr f'"
    using 2(2) by (auto simp: and_then_eq_Inr)
  have k: "forwarder_kept f g" by (rule process_forwarding_task_kept[OF g(1) 2(3)])
  have "accepted_by_all E (fw_mode f) (fw_connections f) x" if "x \<in> set (fw_sent g)" for x
    using that k 2(4) new_messages_accepted[OF g(1) 2(3), of x E] by (auto simp: forwarder_kept_def)
  with 2(1)[OF g(2)] k show ?case using forwarder_kept_trans[OF k] by (simp add: forwarder_kept_def)
next
  case (3 nxt digest mk r es f)
  show ?case
  proof (cases "fw_mode f = PrimaryPreSeparation")
    case True
    let ?g = "process_stateless_task r f"
    have k: "forwarder_kept f ?g" by (rule process_stateless_task_kept[OF 3(4)])
    have "accepted_by_all E (fw_mode f) (fw_connections f) x" if "x \<in> set (fw_sent ?g)" for x
      using that k 3(5) new_stateless_accepted[OF True, of x r E] by (auto simp: forwarder_kept_def)
    with 3(1)[OF True] 3(3) True k show ?thesis using forwarder_kept_trans[OF k] by (simp add: forwarder_kept_def)
  next
    case False
    with 3 show ?thesis by simp
  qed
qed


text \<open>
  C9. The primary and the proxies that are started from one configuration understand each other.  The primary has one connection for each
  configured proxy, and its client dials the port on which that proxy listens for it.  Whatever transactions and verification requests the forwarder
  of the primary handles, each message that it sends goes to a configured proxy, that proxy starts, and in every state that its message loops can reach
  it accepts the message: it panics neither on its kind, nor on a state that it should fetch from itself, nor on an unknown proxy.
\<close>

theorem deployment_messages_accepted:
  fixes E :: "('t, 'd, 'o, 'u, 'b) executor_ops" and c :: validator_config
  defines "n \<equiv> length (vc_proxies c)"
  assumes cfg: "config_ok c" and node: "node = (primary_start iter c now :: ('t, 'd, 'o) primary_node)"
    and iter: "iterates (pn_connections node) (iter (pn_connections node))"
    and run: "forwarder_run nxt digest mk es (pr_shared (pn_processors node)) = Inr f"
    and sent: "(dest, msg) \<in> set (fw_sent f)"
  shows "dest < n \<and> (\<exists>nd. proxy_start dest store c = Inr nd \<and>
      (\<exists>a. (dest, a) \<in> set (pn_dials node) \<and> sa_port a = sa_port (nd_primary_server nd)) \<and>
      (\<forall>evs p. node_run nxt one_before version_of E evs (nd_core nd) = Inr p \<longrightarrow> (\<exists>p'. handle_primary_message E msg p = Inr p')))"
proof -
  let ?mode = "vp_separation_mode (vc_validator_parameters c)"
  have pos: "0 < n" using cfg by (simp add: config_ok_def n_def)
  have conn: "pn_connections node = (\<lambda>i. if i < n then Some i else None)"
    "pn_dials node = map (\<lambda>i. (i, pi_listen_primary_address (vc_proxies c ! i))) [0..<n]"
    unfolding node n_def by (rule primary_connections[OF cfg])+
  define conns where "conns = iter (pn_connections node)"
  have conns: "set conns = {..<n}"
    using iter unfolding conns_def conn(1) by (auto simp: iterates_def dom_def split: if_splits)
  have f0: "pr_shared (pn_processors node) = forwarder_new conns Map.empty Map.empty Map.empty ?mode (vp_load_balancing_policy (vc_validator_parameters c)) Map.empty"
    by (simp add: conns_def node primary_start_def initialize_processors_def Let_def split_beta)
  have k: "forwarder_kept (pr_shared (pn_processors node)) f" "accepted_by_all E ?mode conns (dest, msg)"
    using forwarder_run_accepted[OF run, of E] sent conns pos by (auto simp: f0 forwarder_new_def connections_ok_def)
  have dest: "dest < n" using k(1) sent conns by (force simp: f0 forwarder_kept_def forwarder_new_def)
  obtain nd :: "('t, 'd, 'o, 'b) proxy_node" where nd: "proxy_start dest store c = Inr nd" "px_id (nd_core nd) = dest" "px_mode (nd_core nd) = ?mode"
      "px_connections (nd_core nd) = {..<n} - {dest}" "nd_primary_server nd = socket_addr_new ip_unspecified (sa_port (pi_listen_primary_address (vc_proxies c ! dest)))"
    using proxy_start_ok[OF cfg, of dest store] dest unfolding n_def by blast
  have "\<exists>p'. handle_primary_message E msg p = Inr p'" if "node_run nxt one_before version_of E evs (nd_core nd) = Inr p" for evs p
  proof -
    have "proxy_matches ?mode conns dest p"
      using node_run_static[OF that] nd conns by (auto simp: proxy_matches_def)
    then show ?thesis using k(2) by (simp add: accepted_by_all_def)
  qed
  moreover have "(dest, pi_listen_primary_address (vc_proxies c ! dest)) \<in> set (pn_dials node)" using conn(2) dest by auto
  moreover have "sa_port (pi_listen_primary_address (vc_proxies c ! dest)) = sa_port (nd_primary_server nd)" by (simp add: nd(5) socket_addr_new_def)
  ultimately show ?thesis using dest nd(1) by blast
qed

definition example_config :: validator_config where
  "example_config =
     \<lparr>vc_proxy_server_address = default_primary_address_for_proxies, vc_client_server_address = default_primary_address_for_clients,
      vc_proxies = map (\<lambda>i. \<lparr>pi_proxy_id = i, pi_listen_proxy_address = socket_addr_new ip_localhost (20000 + 2 * i),
                              pi_listen_primary_address = socket_addr_new ip_localhost (20001 + 2 * i), pi_metrics_address = default_metrics_address\<rparr>) [0, 1],
      vc_metrics_address = default_metrics_address, vc_validator_parameters = validator_parameters_default\<rparr>"

definition example_iter :: "(proxy_id \<rightharpoonup> nat) \<Rightarrow> proxy_id list" where
  "example_iter m = filter (\<lambda>i. m i \<noteq> None) [1, 0]"

definition example_task :: "(nat, nat) forwarding_task" where
  "example_task = \<lparr>task_transaction = txn_new 40 0 [7] 0 0, task_required_versions = [(7, 2)], task_counter = 0\<rparr>"

theorem deployment_messages_accepted_witness:
  "\<exists>nd p'. proxy_start 0 Map.empty example_config = Inr nd \<and>
     handle_primary_message example_executor (CombinedTxn (txn_new 40 0 [7] 0 0) 0 [((7, 2), None)]) (nd_core nd) = Inr p'"
proof -
  let ?node = "primary_start example_iter example_config 0 :: (nat, nat, nat) primary_node"
  have cfg: "config_ok example_config" by (simp add: config_ok_def example_config_def upt_rec)
  have len: "length (vc_proxies example_config) = 2" by (simp add: example_config_def)
  have pc: "pn_connections ?node = (\<lambda>i. if i < 2 then Some i else None)"
    by (subst primary_connections(1)[OF cfg]) (simp only: len)
  have it: "iterates (pn_connections ?node) (example_iter (pn_connections ?node))"
    unfolding pc by (auto simp: iterates_def example_iter_def dom_def split: if_splits)
  obtain f where f: "forwarder_run Suc transaction (\<lambda>t. SyntheticRequest (transaction t) 1) [ForwardTask example_task] (pr_shared (pn_processors ?node)) = Inr f"
      "fw_sent f = [(0, CombinedTxn (txn_new 40 0 [7] 0 0) 0 [((7, 2), None)])]"
    by (simp add: process_forwarding_task_def choose_proxy_def example_task_def primary_start_def initialize_processors_def forwarder_new_def txn_new_def
        get_missing_states_for_transaction_def send_to_proxy_def upd_max_def Let_def example_config_def example_iter_def validator_parameters_default_def
        fallback_proxy_def get_proxy_for_shared_objects_most_states_def proxy_count_def nth_or_panic_def)
  have "(0, CombinedTxn (txn_new 40 0 [7] 0 0) 0 [((7, 2), None)]) \<in> set (fw_sent f)" by (simp add: f(2))
  from deployment_messages_accepted[OF cfg refl it f(1) this, where store = Map.empty and one_before = "\<lambda>v. Some (v - 1)" and version_of = id and E = example_executor]
  obtain nd where "proxy_start 0 Map.empty example_config = Inr nd"
    "\<forall>evs p. node_run Suc (\<lambda>v. Some (v - 1)) id example_executor evs (nd_core nd) = Inr p \<longrightarrow>
       (\<exists>p'. handle_primary_message example_executor (CombinedTxn (txn_new 40 0 [7] 0 0) 0 [((7, 2), None)]) p = Inr p')" by blast
  moreover have "node_run Suc (\<lambda>v. Some (v - 1)) id example_executor [] (nd_core nd) = Inr (nd_core nd)" by simp
  ultimately show ?thesis by blast
qed


section \<open>The servers of a proxy\<close>




section \<open>The results of a proxy\<close>

lemma await_completion_ok:
  assumes "\<forall>r \<in> snd ` set rs. \<exists>u. er_updates r = Some u \<and> status_ok u"
  shows "\<exists>co'. await_completion status_ok rs co = Inr co' \<and> co_sampled co' = co_sampled co + length rs \<and>
           mt_latency_s (co_metrics co') ''default'' =
             mt_latency_s (co_metrics co) ''default'' @ map (\<lambda>(now, r). real now / 10 ^ 9 - timestamp (er_transaction r)) rs"
  using assms
proof (induction rs arbitrary: co)
  case (Cons x rs)
  obtain now r where x: "x = (now, r)" by (cases x)
  let ?co = "\<lparr>co_metrics = update_metrics now (timestamp (er_transaction r)) ''default'' (co_metrics co), co_sampled = co_sampled co + 1,
      co_logged = (if (co_sampled co + 1) mod 10 = 0
        then co_logged co @ [(now, (real now / 10 ^ 9 - timestamp (er_transaction r)) * 1000)] else co_logged co)\<rparr>"
  have s: "results_success status_ok r = Inr True" using Cons.prems by (auto simp: x results_success_def)
  have "await_completion status_ok (x # rs) co = await_completion status_ok rs ?co" by (simp add: x s Let_def)
  moreover obtain co' where "await_completion status_ok rs ?co = Inr co'" "co_sampled co' = co_sampled ?co + length rs"
    "mt_latency_s (co_metrics co') ''default'' = mt_latency_s (co_metrics ?co) ''default'' @ map (\<lambda>(now, r). real now / 10 ^ 9 - timestamp (er_transaction r)) rs"
    using Cons.IH[of ?co] Cons.prems by auto
  ultimately show ?case by (simp add: x update_metrics_def register_transaction_counters)
qed simp

lemma await_completion_panics:
  assumes "r \<in> snd ` set rs" "er_updates r = None \<or> (\<exists>u. er_updates r = Some u \<and> \<not> status_ok u)"
  shows "\<exists>e. await_completion status_ok rs co = Inl e"
  using assms
proof (induction rs arbitrary: co)
  case (Cons x rs)
  obtain now q where x: "x = (now, q)" by (cases x)
  show ?case
  proof (cases "\<exists>u. er_updates q = Some u \<and> status_ok u")
    case True
    then have "r \<noteq> q" using Cons.prems(2) by auto
    then have "r \<in> snd ` set rs" using Cons.prems(1) x by auto
    then show ?thesis using True Cons.IH Cons.prems(2) by (auto simp: x results_success_def Let_def)
  next
    case False
    then show ?thesis by (cases "er_updates q") (auto simp: x results_success_def)
  qed
qed simp

text \<open>
  C38. The collector of a proxy records the latency of every result, in order, and counts them, if and only if each of them has effects
  with a good status; otherwise the node panics.  A transaction whose verification failed, or which the version check held back, leaves the store alone but
  its result carries no effects: one invalid transaction is enough to bring down the node.
\<close>

theorem invalid_transaction_stops_proxy:
  assumes "run_stateful E verified s t = Inr (s', r)" "ready_to_execute E verified s t = Inr False"
  shows "s' = s \<and> (r \<in> snd ` set rs \<longrightarrow> (\<exists>e. await_completion status_ok rs co = Inl e)) \<and>
         ((\<exists>co'. await_completion status_ok rs co = Inr co' \<and> co_sampled co' = co_sampled co + length rs \<and>
            mt_latency_s (co_metrics co') ''default'' =
              mt_latency_s (co_metrics co) ''default'' @ map (\<lambda>(now, r). real now / 10 ^ 9 - timestamp (er_transaction r)) rs) \<longleftrightarrow>
          (\<forall>x \<in> set rs. \<exists>u. er_updates (snd x) = Some u \<and> status_ok u))"
proof (intro conjI impI iffI)
  have r: "s' = s" "er_updates r = None" using assms by (auto simp: run_stateful_def results_new_def)
  show "s' = s" by (rule r(1))
  show "\<exists>e. await_completion status_ok rs co = Inl e" if "r \<in> snd ` set rs"
    using await_completion_panics[OF that] r(2) by blast
next
  assume "\<exists>co'. await_completion status_ok rs co = Inr co' \<and> co_sampled co' = co_sampled co + length rs \<and>
      mt_latency_s (co_metrics co') ''default'' =
        mt_latency_s (co_metrics co) ''default'' @ map (\<lambda>(now, r). real now / 10 ^ 9 - timestamp (er_transaction r)) rs"
  then have no: "\<nexists>e. await_completion status_ok rs co = Inl e" by auto
  show "\<forall>x \<in> set rs. \<exists>u. er_updates (snd x) = Some u \<and> status_ok u"
  proof (rule ccontr)
    assume "\<not> (\<forall>x \<in> set rs. \<exists>u. er_updates (snd x) = Some u \<and> status_ok u)"
    then obtain x where "x \<in> set rs" "er_updates (snd x) = None \<or> (\<exists>u. er_updates (snd x) = Some u \<and> \<not> status_ok u)" by (meson not_Some_eq)
    then show False using await_completion_panics[of "snd x" rs status_ok co] no by blast
  qed
next
  assume "\<forall>x \<in> set rs. \<exists>u. er_updates (snd x) = Some u \<and> status_ok u"
  then show "\<exists>co'. await_completion status_ok rs co = Inr co' \<and> co_sampled co' = co_sampled co + length rs \<and>
      mt_latency_s (co_metrics co') ''default'' =
        mt_latency_s (co_metrics co) ''default'' @ map (\<lambda>(now, r). real now / 10 ^ 9 - timestamp (er_transaction r)) rs"
    by (intro await_completion_ok) auto
qed

theorem invalid_transaction_stops_proxy_witness:
  "\<exists>e. await_completion (\<lambda>_. True) [(5, results_new (txn_new_for_tests (40 :: nat)) (None :: nat option) (None :: (nat, nat) btree option))]
     \<lparr>co_metrics = metrics_new, co_sampled = 0, co_logged = []\<rparr> = Inl e"
proof -
  let ?t = "txn_new_for_tests 40 :: (nat, nat) txn_ts"
  have "run_stateful example_executor False Map.empty ?t = Inr (Map.empty, results_new ?t None None)"
    "ready_to_execute example_executor False Map.empty ?t = Inr False"
    by (simp_all add: run_stateful_def ready_to_execute_def)
  from invalid_transaction_stops_proxy[OF this, of "[(5, results_new ?t None None)]"] show ?thesis by simp
qed

end
