(* ===== verification/Fake_Workload.thy ===== *)
theory Fake_Workload
  imports Fake_Executor Measurement
begin

text \<open>
  The workloads of the fake executor and its construction (\<^verbatim>\<open>src/executor/fake.rs\<close>).  The statistics that draw object numbers are functions of
  \<^verbatim>\<open>sui_single_node_benchmark\<close>, the record \<open>load_statistics\<close> over the state \<open>'g\<close> of the random number generator, which both the
  load generator and the nodes seed with 0.  The digests are random and differ from one program to the next.
\<close>


section \<open>Drawing objects\<close>

record ('g, 'z) load_statistics =
  ls_solana_concurrency :: "'g \<Rightarrow> (nat list \<times> 'z) \<times> 'g"
  ls_ethereum_transfers :: "'g \<Rightarrow> (nat \<times> nat) \<times> 'g"
  ls_ethereum_nft_mint :: "'g \<Rightarrow> (nat \<times> nat) \<times> 'g"
  ls_ethereum_uniswap_normal :: "'g \<Rightarrow> nat \<times> 'g"
  ls_ethereum_uniswap_peak :: "'g \<Rightarrow> nat \<times> 'g"
  ls_zipfian_workload :: "f64 \<Rightarrow> nat \<Rightarrow> 'g \<Rightarrow> nat list \<times> 'g"

definition solana_load :: "('g, 'z) load_statistics \<Rightarrow> 'g \<Rightarrow> nat list \<times> 'g" where
  "solana_load L g = (let ((inputs, _), g) = ls_solana_concurrency L g in (inputs, g))"

definition eth_transfers :: "('g, 'z) load_statistics \<Rightarrow> 'g \<Rightarrow> nat list \<times> 'g" where
  "eth_transfers L g = (let ((sender, recipient), g) = ls_ethereum_transfers L g in ([sender, recipient], g))"

definition eth_mint :: "('g, 'z) load_statistics \<Rightarrow> 'g \<Rightarrow> nat list \<times> 'g" where
  "eth_mint L g = (let ((nft, minter), g) = ls_ethereum_nft_mint L g in ([nft, minter], g))"

definition uniswap_normal :: "('g, 'z) load_statistics \<Rightarrow> 'g \<Rightarrow> nat list \<times> 'g" where
  "uniswap_normal L g = (let (coin_pair, g) = ls_ethereum_uniswap_normal L g in ([coin_pair], g))"

definition uniswap_peak :: "('g, 'z) load_statistics \<Rightarrow> 'g \<Rightarrow> nat list \<times> 'g" where
  "uniswap_peak L g = (let (coin_pair, g) = ls_ethereum_uniswap_peak L g in ([coin_pair], g))"

definition zipfian :: "('g, 'z) load_statistics \<Rightarrow> f64 \<Rightarrow> nat \<Rightarrow> 'g \<Rightarrow> nat list \<times> 'g" where
  "zipfian L alpha number_of_inputs g = ls_zipfian_workload L alpha number_of_inputs g"

text \<open>The \<open>k\<close>-th draw of a workload.\<close>

fun nth_draw :: "('g \<Rightarrow> nat list \<times> 'g) \<Rightarrow> 'g \<Rightarrow> nat \<Rightarrow> nat list" where
  "nth_draw draw g 0 = fst (draw g)"
| "nth_draw draw g (Suc k) = nth_draw draw (snd (draw g)) k"

fun fake_load :: "('g, 'z) load_statistics \<Rightarrow> workload_type \<Rightarrow> ('g \<Rightarrow> nat list \<times> 'g) option" where
  "fake_load L (FakeSolanaTransactions _) = Some (solana_load L)"
| "fake_load L (FakeEthereumTransfers _) = Some (eth_transfers L)"
| "fake_load L (FakeEthereumNftMint _) = Some (eth_mint L)"
| "fake_load L (FakeUniswapNormal _) = Some (uniswap_normal L)"
| "fake_load L (FakeUniswapPeak _) = Some (uniswap_peak L)"
| "fake_load L (FakeZipfian _ alpha number_of_inputs) = Some (zipfian L alpha number_of_inputs)"
| "fake_load L _ = None"

definition generate_fake_transactions ::
  "('o, 'b, 'v) object_api \<Rightarrow> (byte list \<Rightarrow> 'o) \<Rightarrow> (nat \<Rightarrow> 'd) \<Rightarrow> ('g, 'z) load_statistics \<Rightarrow> 'g \<Rightarrow> build \<Rightarrow> benchmark_parameters \<Rightarrow>
   ('b list \<times> ('d, 'o) fake_transaction list) res" where
  "generate_fake_transactions Ob from_bytes digest L seed_0 bd config =
     and_then (pre_generation bd config)
       (\<lambda>n. case fake_load L (workload config) of
              None \<Rightarrow> Inl (Panic ''Error: Unsupported workloadtype in the fake executor'')
            | Some draw \<Rightarrow> Inr (generate_fake_load_objects_and_transactions Ob from_bytes digest (nth_draw draw seed_0) n))"


section \<open>The executor\<close>

record ('o, 'b) fake_executor =
  fk_execution_spins :: nat
  fk_verification_spins :: nat
  fk_store :: "('o, 'b) object_store"
  fk_stateless_mode :: stateless_verification_mode

fun fake_execution_duration :: "workload_type \<Rightarrow> duration res" where
  "fake_execution_duration (FakeSolanaTransactions d) = Inr d"
| "fake_execution_duration (FakeEthereumTransfers d) = Inr d"
| "fake_execution_duration (FakeEthereumNftMint d) = Inr d"
| "fake_execution_duration (FakeUniswapNormal d) = Inr d"
| "fake_execution_duration (FakeUniswapPeak d) = Inr d"
| "fake_execution_duration (FakeZipfian d _ _) = Inr d"
| "fake_execution_duration _ = Inl (Panic ''Error: Unsupported workload type for fake executor'')"

definition fake_executor_new ::
  "('o, 'b, 'v) object_api \<Rightarrow> (byte list \<Rightarrow> 'o) \<Rightarrow> (nat \<Rightarrow> 'd) \<Rightarrow> ('g, 'z) load_statistics \<Rightarrow> 'g \<Rightarrow> (nat \<Rightarrow> nat \<Rightarrow> duration) \<Rightarrow> build \<Rightarrow>
   benchmark_parameters \<Rightarrow> ('o, 'b) fake_executor res" where
  "fake_executor_new Ob from_bytes digest L seed_0 elapsed bd config =
     and_then (fake_execution_duration (workload config))
     (\<lambda>execution_duration. and_then (generate_fake_transactions Ob from_bytes digest L seed_0 bd config)
     (\<lambda>(objects, _). Inr
        \<lparr>fk_execution_spins = calibrate elapsed execution_duration,
         fk_verification_spins = calibrate elapsed (bench_verification_duration config),
         fk_store = init_fake_store Ob objects, fk_stateless_mode = stateless_mode config\<rparr>))"

fun fake_run ::
  "(version \<Rightarrow> version) \<Rightarrow> ('o::linorder, 'b, 'v) object_api \<Rightarrow> (('d, 'o) fake_transaction, 'o) txn_ts list \<Rightarrow> ('o, 'b) object_store \<Rightarrow>
   ('o, 'b) object_store res" where
  "fake_run nxt Ob [] s = Inr s"
| "fake_run nxt Ob (t # ts) s = and_then (fake_execute nxt Ob s t) (\<lambda>(s, r). fake_run nxt Ob ts s)"


section \<open>Lemmas\<close>

lemma fake_load_is_fake: "fake_load L w \<noteq> None \<longleftrightarrow> is_fake w"
  by (cases w) simp_all

lemma fake_execution_duration_is_fake: "(\<exists>d. fake_execution_duration w = Inr d) \<longleftrightarrow> is_fake w"
  by (cases w) simp_all

lemma pre_generation_ok:
  "load config * as_secs (bench_duration config) < 2 ^ 64 \<Longrightarrow> pre_generation bd config = Inr (load config * as_secs (bench_duration config))"
  unfolding pre_generation_def by (rule fit_u64_id)

lemma fake_executor_new_ok:
  assumes "is_fake (workload config)" "load config * as_secs (bench_duration config) < 2 ^ 64"
  shows "\<exists>ex. fake_executor_new Ob from_bytes digest L g elapsed bd config = Inr ex"
proof -
  obtain draw d where "fake_load L (workload config) = Some draw" "fake_execution_duration (workload config) = Inr d"
    using assms(1) fake_load_is_fake[of L "workload config"] fake_execution_duration_is_fake[of "workload config"] by auto
  then show ?thesis by (simp add: fake_executor_new_def generate_fake_transactions_def pre_generation_ok[OF assms(2)] split_beta)
qed

lemma dom_init_fake_store:
  "dom (init_fake_store Ob objects) = ob_id Ob ` set objects"
proof -
  have "dom (fold (\<lambda>b s. write_object Ob s b) objects s) = dom s \<union> ob_id Ob ` set objects" for s
    by (induction objects arbitrary: s) (auto simp: write_object_def)
  then show ?thesis by (simp add: init_fake_store_def store_new_def)
qed

lemma generated_inputs_written:
  assumes "object_laws Ob" "generate_fake_load_objects_and_transactions Ob from_bytes digest draw n = (objects, txs)"
    and "generate_fake_load_objects_and_transactions Ob from_bytes digest' draw n = (objects', txs')" "tx \<in> set txs'"
  shows "kind_object_id ` set (ft_inputs tx) \<subseteq> dom (init_fake_store Ob objects)"
proof -
  obtain k where k: "k < n" "ft_inputs tx = map (fake_input_kind from_bytes) (draw k)"
    using assms(3,4) by (auto simp: generate_fake_load_objects_and_transactions_def fake_new_def)
  have "from_bytes (fake_object_bytes m) \<in> ob_id Ob ` set objects" if "m \<in> set (draw k)" for m
  proof -
    let ?b = "fake_shared_object_with_id Ob 2 (from_bytes (fake_object_bytes m))"
    have "?b \<in> set objects" using assms(2) k(1) that by (force simp: generate_fake_load_objects_and_transactions_def)
    moreover have "ob_id Ob ?b = from_bytes (fake_object_bytes m)"
      using assms(1) by (simp add: fake_shared_object_with_id_def object_laws_def)
    ultimately show ?thesis by (metis imageI)
  qed
  then show ?thesis unfolding dom_init_fake_store k(2) by (auto simp: fake_input_kind_def)
qed

lemma fake_run_ok:
  assumes "object_laws Ob" "list_all (\<lambda>t. kind_object_id ` set (ft_inputs (transaction t)) \<subseteq> dom s) ts"
  shows "\<exists>s'. fake_run nxt Ob ts s = Inr s' \<and> dom s \<subseteq> dom s'"
  using assms(2)
proof (induction ts arbitrary: s)
  case (Cons t ts)
  have known: "s (kind_object_id r) \<noteq> None" if "r \<in> set (ft_inputs (transaction t))" for r using Cons.prems that by auto
  obtain s1 r where e: "fake_execute nxt Ob s t = Inr (s1, r)"
      "\<And>i. i \<notin> kind_object_id ` set (ft_inputs (transaction t)) \<Longrightarrow> s1 i = s i"
      "\<And>i. i \<in> kind_object_id ` set (ft_inputs (transaction t)) \<Longrightarrow> \<exists>b. s1 i = Some b \<and>
         ob_version Ob b = nxt (fst (scan_versions (shared_objects t) 2 []))"
    by (rule fake_execute_ok[OF assms(1), of t s _ nxt]) (use known in auto)
  have sub: "dom s \<subseteq> dom s1" using e(2,3) by (metis domIff option.distinct(1) subsetI)
  then have "list_all (\<lambda>t. kind_object_id ` set (ft_inputs (transaction t)) \<subseteq> dom s1) ts"
    using Cons.prems unfolding list_all_iff by (metis list.set_intros(2) subset_trans)
  from Cons.IH[OF this] e(1) sub show ?case by auto
qed simp

text \<open>
  C25. The nodes can run what the load generator sends: whatever digests it drew, in any order and number and at whatever versions, the generated
  transactions of a fake workload find their inputs in the store that the executor of a node starts with and in every store they lead to, so
  that executing them never panics and no object disappears.
\<close>

theorem fake_workload_runs:
  assumes "object_laws Ob" "fake_executor_new Ob from_bytes digest L g elapsed bd config = Inr ex"
    and "generate_fake_transactions Ob from_bytes digest' L g bd config = Inr (objects, txs)"
    and "list_all (\<lambda>t. transaction t \<in> set txs) ts"
  shows "\<exists>s. fake_run nxt Ob ts (fk_store ex) = Inr s \<and> dom (fk_store ex) \<subseteq> dom s"
proof -
  obtain draw n where draw: "fake_load L (workload config) = Some draw" "pre_generation bd config = Inr n"
      and txs: "generate_fake_load_objects_and_transactions Ob from_bytes digest' (nth_draw draw g) n = (objects, txs)"
    using assms(3) by (auto simp: generate_fake_transactions_def and_then_eq_Inr split: option.splits)
  obtain os ts' where own: "generate_fake_load_objects_and_transactions Ob from_bytes digest (nth_draw draw g) n = (os, ts')" by fastforce
  then have "fk_store ex = init_fake_store Ob os"
    using assms(2) draw by (auto simp: fake_executor_new_def generate_fake_transactions_def and_then_eq_Inr)
  then have "list_all (\<lambda>t. kind_object_id ` set (ft_inputs (transaction t)) \<subseteq> dom (fk_store ex)) ts"
    using assms(4) generated_inputs_written[OF assms(1) own txs] by (auto simp: list_all_iff)
  from fake_run_ok[OF assms(1) this] show ?thesis .
qed

definition counting_statistics :: "(nat, unit) load_statistics" where
  "counting_statistics =
     \<lparr>ls_solana_concurrency = (\<lambda>g. (([g, g + 1], ()), g + 1)), ls_ethereum_transfers = (\<lambda>g. ((g, g + 1), g + 1)), ls_ethereum_nft_mint = (\<lambda>g. ((0, g), g + 1)),
      ls_ethereum_uniswap_normal = (\<lambda>g. (g, g + 1)), ls_ethereum_uniswap_peak = (\<lambda>g. (0, g + 1)),
      ls_zipfian_workload = (\<lambda>_ n g. ([g..<g + n], g + 1))\<rparr>"

definition byte_sum :: "byte list \<Rightarrow> nat" where
  "byte_sum bs = foldr (\<lambda>b n. unat b + 256 * n) bs 0"

theorem fake_workload_runs_witness:
  "\<exists>ex objects txs s. fake_executor_new plain_objects byte_sum id counting_statistics 0 (\<lambda>_ n. n) Debug new_for_fake_tests = Inr ex \<and>
     generate_fake_transactions plain_objects byte_sum Suc counting_statistics 0 Debug new_for_fake_tests = Inr (objects, txs) \<and> length txs = 10 \<and>
     fake_run Suc plain_objects [txn_new_for_tests (txs ! 3), txn_new_for_tests (txs ! 0)] (fk_store ex) = Inr s"
proof -
  let ?c = new_for_fake_tests
  have n: "load ?c * as_secs (bench_duration ?c) = 10" by (simp add: new_for_fake_tests_def as_secs_def from_secs_def)
  then have small: "load ?c * as_secs (bench_duration ?c) < 2 ^ 64" and fake: "is_fake (workload ?c)" by (simp_all add: new_for_fake_tests_def)
  obtain ex where ex: "fake_executor_new plain_objects byte_sum id counting_statistics 0 (\<lambda>_ n. n) Debug ?c = Inr ex"
    using fake_executor_new_ok[OF fake small, of plain_objects byte_sum id counting_statistics 0 "\<lambda>_ n. n" Debug] by blast
  define gen where "gen = generate_fake_load_objects_and_transactions plain_objects byte_sum Suc (nth_draw (zipfian counting_statistics 0 2) 0) 10"
  have "fake_load counting_statistics (workload ?c) = Some (zipfian counting_statistics 0 2)" by (simp add: new_for_fake_tests_def)
  then have "generate_fake_transactions plain_objects byte_sum Suc counting_statistics 0 Debug ?c = Inr gen"
    using pre_generation_ok[OF small, of Debug] n by (simp add: generate_fake_transactions_def gen_def)
  moreover have "length (snd gen) = 10" by (simp add: gen_def generate_fake_load_objects_and_transactions_def)
  ultimately obtain objects txs where
      t: "generate_fake_transactions plain_objects byte_sum Suc counting_statistics 0 Debug ?c = Inr (objects, txs)" "length txs = 10" by (cases gen) auto
  have "list_all (\<lambda>t. transaction t \<in> set txs) [txn_new_for_tests (txs ! 3), txn_new_for_tests (txs ! 0)]"
    using t(2) by (simp add: txn_new_for_tests_def)
  from fake_workload_runs[OF object_laws_plain ex t(1) this, of Suc] ex t show ?thesis by blast
qed

end
