(* ===== verification/Stateless_Crypto.thy ===== *)
theory Stateless_Crypto
  imports Config Api
begin

text \<open>
  Stateless verification (\<^verbatim>\<open>src/executor/stateless_crypto.rs\<close>): the requests that an executor makes for a transaction in each
  verification mode, and their verification.  The five signature libraries are the record \<open>crypto_libs\<close>; signing and verifying
  take the extra bytes that the code passes (the auxiliary randomness of Schnorr, the domain separation of BLS).  \<open>crypto_laws\<close> states their
  documented behaviour: the constant secret keys are valid, keys and signatures survive their encoding, and what a key signs its public key verifies.
\<close>


section \<open>The signature libraries\<close>

record ('k, 'p, 's) signature_lib =
  sl_secret_key :: "byte list \<Rightarrow> 'k option"
  sl_public_key_bytes :: "'k \<Rightarrow> byte list"
  sl_sign :: "'k \<Rightarrow> byte list \<Rightarrow> byte list \<Rightarrow> 's option"
  sl_signature_bytes :: "'s \<Rightarrow> byte list"
  sl_public_key :: "byte list \<Rightarrow> 'p option"
  sl_signature :: "byte list \<Rightarrow> 's option"
  sl_verify :: "'p \<Rightarrow> byte list \<Rightarrow> byte list \<Rightarrow> 's \<Rightarrow> bool"

record ('k, 'p, 's) crypto_libs =
  cl_ed25519 :: "('k, 'p, 's) signature_lib"
  cl_secp256k1 :: "('k, 'p, 's) signature_lib"
  cl_p256 :: "('k, 'p, 's) signature_lib"
  cl_schnorr :: "('k, 'p, 's) signature_lib"
  cl_bls :: "('k, 'p, 's) signature_lib"
  cl_bls_key_gen :: "byte list \<Rightarrow> 'k option"
  cl_bls_serialize :: "'k \<Rightarrow> byte list"

definition ED25519_SECRET_KEY_BYTES :: "byte list" where "ED25519_SECRET_KEY_BYTES = replicate 32 7"
definition BLS_IKM :: "byte list" where "BLS_IKM = replicate 32 11"
definition SECP256K1_SECRET_KEY_BYTES :: "byte list" where "SECP256K1_SECRET_KEY_BYTES = replicate 32 13"
definition P256_SECRET_KEY_BYTES :: "byte list" where "P256_SECRET_KEY_BYTES = replicate 32 17"
definition SCHNORR_SECRET_KEY_BYTES :: "byte list" where "SCHNORR_SECRET_KEY_BYTES = replicate 32 19"
definition SCHNORR_AUX_RANDOM_BYTES :: "byte list" where "SCHNORR_AUX_RANDOM_BYTES = replicate 32 23"
definition BLS_MIN_SIG_DST :: "byte list" where
  "BLS_MIN_SIG_DST = map (\<lambda>c. of_nat (of_char c)) ''BLS_SIG_BLS12381G1_XMD:SHA-256_SSWU_RO_NUL_''"

definition lib_correct :: "('k, 'p, 's) signature_lib \<Rightarrow> byte list \<Rightarrow> byte list \<Rightarrow> bool" where
  "lib_correct L extra extra' \<longleftrightarrow>
     (\<forall>s. sl_signature L (sl_signature_bytes L s) = Some s) \<and>
     (\<forall>k. \<exists>p. sl_public_key L (sl_public_key_bytes L k) = Some p \<and>
        (\<forall>m. length m = 32 \<longrightarrow> (\<exists>s. sl_sign L k m extra = Some s \<and> sl_verify L p m extra' s)))"

definition crypto_laws :: "('k, 'p, 's) crypto_libs \<Rightarrow> bool" where
  "crypto_laws C \<longleftrightarrow>
     lib_correct (cl_ed25519 C) [] [] \<and> lib_correct (cl_secp256k1 C) [] [] \<and> lib_correct (cl_p256 C) [] [] \<and>
     lib_correct (cl_schnorr C) SCHNORR_AUX_RANDOM_BYTES [] \<and> lib_correct (cl_bls C) BLS_MIN_SIG_DST BLS_MIN_SIG_DST \<and>
     sl_secret_key (cl_ed25519 C) ED25519_SECRET_KEY_BYTES \<noteq> None \<and> sl_secret_key (cl_secp256k1 C) SECP256K1_SECRET_KEY_BYTES \<noteq> None \<and>
     sl_secret_key (cl_p256 C) P256_SECRET_KEY_BYTES \<noteq> None \<and> sl_secret_key (cl_schnorr C) SCHNORR_SECRET_KEY_BYTES \<noteq> None \<and>
     (\<exists>k. cl_bls_key_gen C BLS_IKM = Some k \<and> sl_secret_key (cl_bls C) (cl_bls_serialize C k) = Some k) \<and>
     (\<forall>k. length (sl_public_key_bytes (cl_ed25519 C) k) = 32) \<and> (\<forall>s. length (sl_signature_bytes (cl_ed25519 C) s) = 64)"


section \<open>Making requests\<close>

text \<open>The cached public keys.\<close>

definition ed25519_public_key_bytes :: "('k, 'p, 's) crypto_libs \<Rightarrow> byte list res" where
  "ed25519_public_key_bytes C =
     and_then (unwrap ''key'' (sl_secret_key (cl_ed25519 C) ED25519_SECRET_KEY_BYTES)) (\<lambda>k. Inr (sl_public_key_bytes (cl_ed25519 C) k))"

definition secp256k1_public_key_bytes :: "('k, 'p, 's) crypto_libs \<Rightarrow> byte list res" where
  "secp256k1_public_key_bytes C =
     and_then (unwrap ''secp256k1 secret key bytes should deserialize'' (sl_secret_key (cl_secp256k1 C) SECP256K1_SECRET_KEY_BYTES))
       (\<lambda>k. Inr (sl_public_key_bytes (cl_secp256k1 C) k))"

definition p256_public_key_bytes :: "('k, 'p, 's) crypto_libs \<Rightarrow> byte list res" where
  "p256_public_key_bytes C =
     and_then (unwrap ''P-256 secret key bytes should deserialize'' (sl_secret_key (cl_p256 C) P256_SECRET_KEY_BYTES))
       (\<lambda>k. Inr (sl_public_key_bytes (cl_p256 C) k))"

definition schnorr_public_key_bytes :: "('k, 'p, 's) crypto_libs \<Rightarrow> byte list res" where
  "schnorr_public_key_bytes C =
     and_then (unwrap ''Schnorr secret key bytes should deserialize'' (sl_secret_key (cl_schnorr C) SCHNORR_SECRET_KEY_BYTES))
       (\<lambda>k. Inr (sl_public_key_bytes (cl_schnorr C) k))"

record bls_key_material =
  secret_key_bytes :: "byte list"
  public_key_bytes :: "byte list"

definition bls_material :: "('k, 'p, 's) crypto_libs \<Rightarrow> bls_key_material res" where
  "bls_material C =
     and_then (unwrap ''BLS IKM should derive a secret key'' (cl_bls_key_gen C BLS_IKM))
       (\<lambda>k. Inr \<lparr>secret_key_bytes = cl_bls_serialize C k, public_key_bytes = sl_public_key_bytes (cl_bls C) k\<rparr>)"

text \<open>\<open>bytes\<close> is the array of 32 bytes in a digest.\<close>

definition make_ed25519_request :: "('k, 'p, 's) crypto_libs \<Rightarrow> ('d \<Rightarrow> byte list) \<Rightarrow> 'd \<Rightarrow> duration \<Rightarrow> 'd verification_request res" where
  "make_ed25519_request C bytes digest dur =
     and_then (unwrap ''key'' (sl_secret_key (cl_ed25519 C) ED25519_SECRET_KEY_BYTES))
     (\<lambda>k. and_then (unwrap ''sign'' (sl_sign (cl_ed25519 C) k (bytes digest) []))
     (\<lambda>s. and_then (ed25519_public_key_bytes C)
     (\<lambda>pk. Inr (CryptoRequest digest dur Ed25519Dalek pk (sl_signature_bytes (cl_ed25519 C) s)))))"

definition make_secp256k1_request :: "('k, 'p, 's) crypto_libs \<Rightarrow> ('d \<Rightarrow> byte list) \<Rightarrow> 'd \<Rightarrow> duration \<Rightarrow> 'd verification_request res" where
  "make_secp256k1_request C bytes digest dur =
     and_then (unwrap ''secp256k1 secret key bytes should deserialize'' (sl_secret_key (cl_secp256k1 C) SECP256K1_SECRET_KEY_BYTES))
     (\<lambda>k. and_then (unwrap ''32-byte digest should be signable with secp256k1'' (sl_sign (cl_secp256k1 C) k (bytes digest) []))
     (\<lambda>s. and_then (secp256k1_public_key_bytes C)
     (\<lambda>pk. Inr (CryptoRequest digest dur Secp256k1Ecdsa pk (sl_signature_bytes (cl_secp256k1 C) s)))))"

definition make_p256_request :: "('k, 'p, 's) crypto_libs \<Rightarrow> ('d \<Rightarrow> byte list) \<Rightarrow> 'd \<Rightarrow> duration \<Rightarrow> 'd verification_request res" where
  "make_p256_request C bytes digest dur =
     and_then (unwrap ''P-256 secret key bytes should deserialize'' (sl_secret_key (cl_p256 C) P256_SECRET_KEY_BYTES))
     (\<lambda>k. and_then (unwrap ''32-byte digest should be signable with P-256'' (sl_sign (cl_p256 C) k (bytes digest) []))
     (\<lambda>s. and_then (p256_public_key_bytes C)
     (\<lambda>pk. Inr (CryptoRequest digest dur P256Ecdsa pk (sl_signature_bytes (cl_p256 C) s)))))"

definition make_schnorr_request :: "('k, 'p, 's) crypto_libs \<Rightarrow> ('d \<Rightarrow> byte list) \<Rightarrow> 'd \<Rightarrow> duration \<Rightarrow> 'd verification_request res" where
  "make_schnorr_request C bytes digest dur =
     and_then (unwrap ''Schnorr secret key bytes should deserialize'' (sl_secret_key (cl_schnorr C) SCHNORR_SECRET_KEY_BYTES))
     (\<lambda>k. and_then (unwrap ''32-byte digest should be signable with Schnorr'' (sl_sign (cl_schnorr C) k (bytes digest) SCHNORR_AUX_RANDOM_BYTES))
     (\<lambda>s. and_then (schnorr_public_key_bytes C)
     (\<lambda>pk. Inr (CryptoRequest digest dur Secp256k1Schnorr pk (sl_signature_bytes (cl_schnorr C) s)))))"

definition make_bls_request :: "('k, 'p, 's) crypto_libs \<Rightarrow> ('d \<Rightarrow> byte list) \<Rightarrow> 'd \<Rightarrow> duration \<Rightarrow> 'd verification_request res" where
  "make_bls_request C bytes digest dur =
     and_then (bls_material C)
     (\<lambda>material. and_then (unwrap ''Cached BLS secret key bytes should deserialize'' (sl_secret_key (cl_bls C) (secret_key_bytes material)))
     (\<lambda>k. and_then (unwrap ''sign'' (sl_sign (cl_bls C) k (bytes digest) BLS_MIN_SIG_DST))
     (\<lambda>s. Inr (CryptoRequest digest dur Bls12381MinSig (public_key_bytes material) (sl_signature_bytes (cl_bls C) s)))))"

fun make_verification_request ::
  "('k, 'p, 's) crypto_libs \<Rightarrow> ('d \<Rightarrow> byte list) \<Rightarrow> stateless_verification_mode \<Rightarrow> 'd \<Rightarrow> duration \<Rightarrow> 'd verification_request res" where
  "make_verification_request C bytes Synthetic digest dur = Inr (SyntheticRequest digest dur)"
| "make_verification_request C bytes Ed25519 digest dur = make_ed25519_request C bytes digest dur"
| "make_verification_request C bytes Bls digest dur = make_bls_request C bytes digest dur"
| "make_verification_request C bytes Secp256k1 digest dur = make_secp256k1_request C bytes digest dur"
| "make_verification_request C bytes P256 digest dur = make_p256_request C bytes digest dur"
| "make_verification_request C bytes Schnorr digest dur = make_schnorr_request C bytes digest dur"


section \<open>Verifying requests\<close>

definition verify_ed25519_request :: "('k, 'p, 's) crypto_libs \<Rightarrow> ('d \<Rightarrow> byte list) \<Rightarrow> 'd \<Rightarrow> byte list \<Rightarrow> byte list \<Rightarrow> bool" where
  "verify_ed25519_request C bytes digest public_key signature =
     (if length public_key \<noteq> 32 then False
      else if length signature \<noteq> 64 then False
      else case sl_public_key (cl_ed25519 C) public_key of
             None \<Rightarrow> False
           | Some p \<Rightarrow> (case sl_signature (cl_ed25519 C) signature of
                          None \<Rightarrow> False | Some s \<Rightarrow> sl_verify (cl_ed25519 C) p (bytes digest) [] s))"

definition verify_secp256k1_request :: "('k, 'p, 's) crypto_libs \<Rightarrow> ('d \<Rightarrow> byte list) \<Rightarrow> 'd \<Rightarrow> byte list \<Rightarrow> byte list \<Rightarrow> bool" where
  "verify_secp256k1_request C bytes digest public_key signature =
     (case sl_public_key (cl_secp256k1 C) public_key of
        None \<Rightarrow> False
      | Some p \<Rightarrow> (case sl_signature (cl_secp256k1 C) signature of
                     None \<Rightarrow> False | Some s \<Rightarrow> sl_verify (cl_secp256k1 C) p (bytes digest) [] s))"

definition verify_p256_request :: "('k, 'p, 's) crypto_libs \<Rightarrow> ('d \<Rightarrow> byte list) \<Rightarrow> 'd \<Rightarrow> byte list \<Rightarrow> byte list \<Rightarrow> bool" where
  "verify_p256_request C bytes digest public_key signature =
     (case sl_public_key (cl_p256 C) public_key of
        None \<Rightarrow> False
      | Some p \<Rightarrow> (case sl_signature (cl_p256 C) signature of
                     None \<Rightarrow> False | Some s \<Rightarrow> sl_verify (cl_p256 C) p (bytes digest) [] s))"

definition verify_schnorr_request :: "('k, 'p, 's) crypto_libs \<Rightarrow> ('d \<Rightarrow> byte list) \<Rightarrow> 'd \<Rightarrow> byte list \<Rightarrow> byte list \<Rightarrow> bool" where
  "verify_schnorr_request C bytes digest public_key signature =
     (case sl_public_key (cl_schnorr C) public_key of
        None \<Rightarrow> False
      | Some p \<Rightarrow> (case sl_signature (cl_schnorr C) signature of
                     None \<Rightarrow> False | Some s \<Rightarrow> sl_verify (cl_schnorr C) p (bytes digest) [] s))"

definition verify_bls_request :: "('k, 'p, 's) crypto_libs \<Rightarrow> ('d \<Rightarrow> byte list) \<Rightarrow> 'd \<Rightarrow> byte list \<Rightarrow> byte list \<Rightarrow> bool" where
  "verify_bls_request C bytes digest public_key signature =
     (case sl_public_key (cl_bls C) public_key of
        None \<Rightarrow> False
      | Some p \<Rightarrow> (case sl_signature (cl_bls C) signature of
                     None \<Rightarrow> False | Some s \<Rightarrow> sl_verify (cl_bls C) p (bytes digest) BLS_MIN_SIG_DST s))"

fun verify_scheme ::
  "('k, 'p, 's) crypto_libs \<Rightarrow> ('d \<Rightarrow> byte list) \<Rightarrow> stateless_crypto_scheme \<Rightarrow> 'd \<Rightarrow> byte list \<Rightarrow> byte list \<Rightarrow> bool" where
  "verify_scheme C bytes Ed25519Dalek = verify_ed25519_request C bytes"
| "verify_scheme C bytes Bls12381MinSig = verify_bls_request C bytes"
| "verify_scheme C bytes Secp256k1Ecdsa = verify_secp256k1_request C bytes"
| "verify_scheme C bytes P256Ecdsa = verify_p256_request C bytes"
| "verify_scheme C bytes Secp256k1Schnorr = verify_schnorr_request C bytes"

fun verify_request :: "('k, 'p, 's) crypto_libs \<Rightarrow> ('d \<Rightarrow> byte list) \<Rightarrow> 'd verification_request \<Rightarrow> bool" where
  "verify_request C bytes (CryptoRequest digest hint scheme public_key signature) = verify_scheme C bytes scheme digest public_key signature"
| "verify_request C bytes (SyntheticRequest digest dur) = False"

text \<open>The verification of an executor: synthetic requests only burn time.\<close>

fun verify_transaction :: "('k, 'p, 's) crypto_libs \<Rightarrow> ('d \<Rightarrow> byte list) \<Rightarrow> 'd verification_request \<Rightarrow> bool" where
  "verify_transaction C bytes (SyntheticRequest digest dur) = True"
| "verify_transaction C bytes (CryptoRequest digest hint scheme pk sig) = verify_request C bytes (CryptoRequest digest hint scheme pk sig)"


section \<open>The contract of a scheme\<close>

locale signature_scheme =
  fixes make :: "'d \<Rightarrow> duration \<Rightarrow> 'd verification_request res"
    and verify :: "'d \<Rightarrow> byte list \<Rightarrow> byte list \<Rightarrow> bool"
    and scheme :: stateless_crypto_scheme
    and good :: "'d \<Rightarrow> bool"
  assumes make_verifies: "good d \<Longrightarrow> \<exists>pk sig. make d dur = Inr (CryptoRequest d dur scheme pk sig) \<and> verify d pk sig"
begin

lemma accepted:
  assumes "good d" "verify_scheme C bytes scheme = verify"
  shows "\<exists>r. make d dur = Inr r \<and> request_digest r = d \<and> cost_hint r = dur \<and> verify_request C bytes r \<and> verify_transaction C bytes r"
proof -
  obtain pk sig where "make d dur = Inr (CryptoRequest d dur scheme pk sig)" "verify d pk sig" using make_verifies[OF assms(1)] by blast
  then show ?thesis by (simp add: assms(2))
qed

end

definition signable :: "('k, 'p, 's) crypto_libs \<Rightarrow> ('d \<Rightarrow> byte list) \<Rightarrow> 'd \<Rightarrow> bool" where
  "signable C bytes d \<longleftrightarrow> crypto_laws C \<and> length (bytes d) = 32"

lemma lib_correctD:
  assumes "lib_correct L ex ex'" "length m = 32"
  shows "\<exists>p s. sl_public_key L (sl_public_key_bytes L k) = Some p \<and> sl_sign L k m ex = Some s \<and> sl_verify L p m ex' s \<and>
           sl_signature L (sl_signature_bytes L s) = Some s"
  using assms unfolding lib_correct_def by metis

interpretation ed25519: signature_scheme "make_ed25519_request C bytes" "verify_ed25519_request C bytes" Ed25519Dalek "signable C bytes" for C bytes
proof unfold_locales
  fix d dur assume "signable C bytes d"
  then have C: "lib_correct (cl_ed25519 C) [] []" "length (bytes d) = 32" "\<forall>k. length (sl_public_key_bytes (cl_ed25519 C) k) = 32"
      "\<forall>s. length (sl_signature_bytes (cl_ed25519 C) s) = 64" "sl_secret_key (cl_ed25519 C) ED25519_SECRET_KEY_BYTES \<noteq> None"
    by (simp_all add: signable_def crypto_laws_def)
  then obtain k where k: "sl_secret_key (cl_ed25519 C) ED25519_SECRET_KEY_BYTES = Some k" by blast
  obtain p s where "sl_public_key (cl_ed25519 C) (sl_public_key_bytes (cl_ed25519 C) k) = Some p" "sl_sign (cl_ed25519 C) k (bytes d) [] = Some s"
      "sl_verify (cl_ed25519 C) p (bytes d) [] s" "sl_signature (cl_ed25519 C) (sl_signature_bytes (cl_ed25519 C) s) = Some s"
    using lib_correctD[OF C(1,2)] by blast
  with k have "make_ed25519_request C bytes d dur = Inr (CryptoRequest d dur Ed25519Dalek (sl_public_key_bytes (cl_ed25519 C) k) (sl_signature_bytes (cl_ed25519 C) s)) \<and>
      verify_ed25519_request C bytes d (sl_public_key_bytes (cl_ed25519 C) k) (sl_signature_bytes (cl_ed25519 C) s)"
    using C(3,4) by (simp add: make_ed25519_request_def ed25519_public_key_bytes_def verify_ed25519_request_def)
  then show "\<exists>pk sig. make_ed25519_request C bytes d dur = Inr (CryptoRequest d dur Ed25519Dalek pk sig) \<and> verify_ed25519_request C bytes d pk sig"
    by blast
qed

interpretation secp256k1: signature_scheme "make_secp256k1_request C bytes" "verify_secp256k1_request C bytes" Secp256k1Ecdsa "signable C bytes" for C bytes
proof unfold_locales
  fix d dur assume "signable C bytes d"
  then have C: "lib_correct (cl_secp256k1 C) [] []" "length (bytes d) = 32" "sl_secret_key (cl_secp256k1 C) SECP256K1_SECRET_KEY_BYTES \<noteq> None"
    by (simp_all add: signable_def crypto_laws_def)
  then obtain k where "sl_secret_key (cl_secp256k1 C) SECP256K1_SECRET_KEY_BYTES = Some k" by blast
  then show "\<exists>pk sig. make_secp256k1_request C bytes d dur = Inr (CryptoRequest d dur Secp256k1Ecdsa pk sig) \<and> verify_secp256k1_request C bytes d pk sig"
    using lib_correctD[OF C(1,2), of k] by (auto simp: make_secp256k1_request_def secp256k1_public_key_bytes_def verify_secp256k1_request_def)
qed

interpretation p256: signature_scheme "make_p256_request C bytes" "verify_p256_request C bytes" P256Ecdsa "signable C bytes" for C bytes
proof unfold_locales
  fix d dur assume "signable C bytes d"
  then have C: "lib_correct (cl_p256 C) [] []" "length (bytes d) = 32" "sl_secret_key (cl_p256 C) P256_SECRET_KEY_BYTES \<noteq> None"
    by (simp_all add: signable_def crypto_laws_def)
  then obtain k where "sl_secret_key (cl_p256 C) P256_SECRET_KEY_BYTES = Some k" by blast
  then show "\<exists>pk sig. make_p256_request C bytes d dur = Inr (CryptoRequest d dur P256Ecdsa pk sig) \<and> verify_p256_request C bytes d pk sig"
    using lib_correctD[OF C(1,2), of k] by (auto simp: make_p256_request_def p256_public_key_bytes_def verify_p256_request_def)
qed

interpretation schnorr: signature_scheme "make_schnorr_request C bytes" "verify_schnorr_request C bytes" Secp256k1Schnorr "signable C bytes" for C bytes
proof unfold_locales
  fix d dur assume "signable C bytes d"
  then have C: "lib_correct (cl_schnorr C) SCHNORR_AUX_RANDOM_BYTES []" "length (bytes d) = 32" "sl_secret_key (cl_schnorr C) SCHNORR_SECRET_KEY_BYTES \<noteq> None"
    by (simp_all add: signable_def crypto_laws_def)
  then obtain k where "sl_secret_key (cl_schnorr C) SCHNORR_SECRET_KEY_BYTES = Some k" by blast
  then show "\<exists>pk sig. make_schnorr_request C bytes d dur = Inr (CryptoRequest d dur Secp256k1Schnorr pk sig) \<and> verify_schnorr_request C bytes d pk sig"
    using lib_correctD[OF C(1,2), of k] by (auto simp: make_schnorr_request_def schnorr_public_key_bytes_def verify_schnorr_request_def)
qed

interpretation bls: signature_scheme "make_bls_request C bytes" "verify_bls_request C bytes" Bls12381MinSig "signable C bytes" for C bytes
proof unfold_locales
  fix d dur assume "signable C bytes d"
  then have C: "lib_correct (cl_bls C) BLS_MIN_SIG_DST BLS_MIN_SIG_DST" "length (bytes d) = 32"
      "\<exists>k. cl_bls_key_gen C BLS_IKM = Some k \<and> sl_secret_key (cl_bls C) (cl_bls_serialize C k) = Some k"
    by (simp_all add: signable_def crypto_laws_def)
  from C(3) obtain k where "cl_bls_key_gen C BLS_IKM = Some k" "sl_secret_key (cl_bls C) (cl_bls_serialize C k) = Some k" by blast
  then show "\<exists>pk sig. make_bls_request C bytes d dur = Inr (CryptoRequest d dur Bls12381MinSig pk sig) \<and> verify_bls_request C bytes d pk sig"
    using lib_correctD[OF C(1,2), of k] by (auto simp: make_bls_request_def bls_material_def verify_bls_request_def)
qed

text \<open>
  C30. Verification accepts the requests of the executors: in every mode and for every digest, making the request does
  not panic, the request names the digest and the duration of the transaction, and the verification of the executor accepts it; the signature check on
  its own accepts it exactly in the five signature modes.
\<close>

theorem own_requests_are_accepted:
  assumes "crypto_laws C" "length (bytes d) = 32"
  shows "\<exists>r. make_verification_request C bytes mode d dur = Inr r \<and> request_digest r = d \<and> cost_hint r = dur \<and>
           verify_transaction C bytes r \<and> (verify_request C bytes r \<longleftrightarrow> mode \<noteq> Synthetic)"
proof -
  have s: "signable C bytes d" using assms by (simp add: signable_def)
  show ?thesis
    using ed25519.accepted[OF s, of C bytes dur] bls.accepted[OF s, of C bytes dur] secp256k1.accepted[OF s, of C bytes dur]
      p256.accepted[OF s, of C bytes dur] schnorr.accepted[OF s, of C bytes dur]
    by (cases mode) auto
qed

text \<open>An instance of the libraries that signs a message with its checksum.\<close>

definition checksum_lib :: "(unit, unit, byte) signature_lib" where
  "checksum_lib =
     \<lparr>sl_secret_key = (\<lambda>_. Some ()), sl_public_key_bytes = (\<lambda>_. replicate 32 0), sl_sign = (\<lambda>_ m _. Some (sum_list m)),
      sl_signature_bytes = replicate 64, sl_public_key = (\<lambda>_. Some ()), sl_signature = (\<lambda>bs. Some (hd bs)), sl_verify = (\<lambda>_ m _ s. s = sum_list m)\<rparr>"

definition checksum_libs :: "(unit, unit, byte) crypto_libs" where
  "checksum_libs =
     \<lparr>cl_ed25519 = checksum_lib, cl_secp256k1 = checksum_lib, cl_p256 = checksum_lib, cl_schnorr = checksum_lib, cl_bls = checksum_lib,
      cl_bls_key_gen = (\<lambda>_. Some ()), cl_bls_serialize = (\<lambda>_. [])\<rparr>"

theorem own_requests_are_accepted_witness:
  "crypto_laws checksum_libs \<and>
   (\<exists>r. make_verification_request checksum_libs (\<lambda>d. replicate 32 d) Bls (5 :: byte) 200 = Inr r \<and> verify_transaction checksum_libs (\<lambda>d. replicate 32 d) r)"
proof -
  have laws: "crypto_laws checksum_libs" by (simp add: crypto_laws_def lib_correct_def checksum_libs_def checksum_lib_def)
  from own_requests_are_accepted[OF laws, of "\<lambda>d. replicate 32 d" "5 :: byte" Bls 200] show ?thesis using laws by auto
qed

end
