(* ===== verification/Sui_Executor.thy ===== *)
theory Sui_Executor
  imports Proxy_Core Stateless_Crypto Validator_Config Measurement
begin

text \<open>
  The Sui executor (\<^verbatim>\<open>src/executor/sui.rs\<close>): the choice of the workload, the generation of transactions and their files, and the executor that
  runs Move transactions.  The Sui crates are parameters: \<open>sui_benchmark\<close> holds the functions of \<^verbatim>\<open>sui_single_node_benchmark\<close> that
  set up a benchmark, with its context as the opaque type \<open>'c\<close>; \<open>sui_runtime\<close> holds what the executor calls on transactions, on the
  validator in the context and on the object store, which is read as a map from identifiers to objects.  Fallible functions return an option.
\<close>


section \<open>Workloads\<close>

text \<open>\<^verbatim>\<open>WorkloadKind\<close> of the benchmark crate, with the constructors that the code builds.\<close>

datatype workload_kind =
    PTB (num_transfers: nat) (num_dynamic_fields: nat) (use_batch_mint: bool) (computation: nat) (use_native_transfer: bool)
      (num_mints: nat) (num_shared_objects: nat) (nft_size: nat)
  | CounterKind nat
  | SolanaTransactionsKind
  | EthereumTransfersKind
  | EthereumNftMintKind
  | UniswapNormalKind
  | UniswapPeakKind
  | ZipfianWorkloadKind f64 nat

fun sui_workload_kind :: "workload_type \<Rightarrow> config_error_type + workload_kind" where
  "sui_workload_kind Transfers = Inr (PTB 0 0 False 0 False 0 0 32)"
| "sui_workload_kind (SharedObjects per_counter) = Inr (CounterKind per_counter)"
| "sui_workload_kind SolanaTransactions = Inr SolanaTransactionsKind"
| "sui_workload_kind EthereumTransfers = Inr EthereumTransfersKind"
| "sui_workload_kind EthereumNftMint = Inr EthereumNftMintKind"
| "sui_workload_kind UniswapNormal = Inr UniswapNormalKind"
| "sui_workload_kind UniswapPeak = Inr UniswapPeakKind"
| "sui_workload_kind (Zipfian alpha number_of_inputs) = Inr (ZipfianWorkloadKind alpha number_of_inputs)"
| "sui_workload_kind _ = Inl InvalidWorkload"

record ('t, 'o, 'b, 'c, 'w, 'n, 'a) sui_benchmark =
  sb_workload_new :: "nat \<Rightarrow> workload_kind \<Rightarrow> 'w"
  sb_context_new :: "'w \<Rightarrow> 'c"
  sb_context_exportable :: "'w \<Rightarrow> string \<Rightarrow> 'c"
  sb_create_tx_generator :: "'w \<Rightarrow> 'c \<Rightarrow> 'n \<times> 'c"
  sb_generate_transactions :: "'c \<Rightarrow> 'n \<Rightarrow> 't list"
  sb_accounts :: "'c \<Rightarrow> 'a"
  sb_in_memory_store :: "'c \<Rightarrow> ('o, 'b) object_store"

definition init_workload :: "('t, 'o, 'b, 'c, 'w, 'n, 'a) sui_benchmark \<Rightarrow> build \<Rightarrow> benchmark_parameters \<Rightarrow> 'w res" where
  "init_workload B bd config =
     and_then (pre_generation bd config)
       (\<lambda>n. case sui_workload_kind (workload config) of
              Inl InvalidWorkload \<Rightarrow> Inl (Panic ''called unwrap on an Err value: InvalidWorkload'')
            | Inr kind \<Rightarrow> Inr (sb_workload_new B n kind))"

definition generate_sui_transactions ::
  "('t, 'o, 'b, 'c, 'w, 'n, 'a) sui_benchmark \<Rightarrow> build \<Rightarrow> benchmark_parameters \<Rightarrow> string option \<Rightarrow> 't list res" where
  "generate_sui_transactions B bd config working_directory =
     and_then (init_workload B bd config)
       (\<lambda>workload. let ctx = (case working_directory of Some path \<Rightarrow> sb_context_exportable B workload path | None \<Rightarrow> sb_context_new B workload);
                       (tx_generator, ctx) = sb_create_tx_generator B workload ctx
                   in Inr (sb_generate_transactions B ctx tx_generator))"


section \<open>Files\<close>

record 'x bincode =
  bin_serialize :: "'x \<Rightarrow> byte list option"
  bin_deserialize :: "byte list \<Rightarrow> 'x option"

definition bincode_laws :: "'x bincode \<Rightarrow> bool" where
  "bincode_laws C \<longleftrightarrow> (\<forall>x bytes. bin_serialize C x = Some bytes \<longrightarrow> bin_deserialize C bytes = Some x)"

text \<open>\<^verbatim>\<open>PathBuf::join\<close> with a relative file name.\<close>

definition path_join :: "string \<Rightarrow> string \<Rightarrow> string" where
  "path_join dir name = (if dir = [] \<or> last dir = CHR ''/'' then dir @ name else dir @ ''/'' @ name)"

definition write_file :: "string \<Rightarrow> 'c \<Rightarrow> string \<Rightarrow> 'c file_system \<Rightarrow> 'c file_system res" where
  "write_file path content msg fs =
     (if path \<in> fs_writable fs then Inr (fs\<lparr>fs_files := (fs_files fs)(path \<mapsto> content)\<rparr>) else Inl (Panic msg))"

definition export_to_files ::
  "'a bincode \<Rightarrow> 't list bincode \<Rightarrow> 'a \<Rightarrow> 't list \<Rightarrow> string \<Rightarrow> byte list file_system \<Rightarrow> byte list file_system res" where
  "export_to_files CA CT accounts txs working_directory fs =
     (let accounts_path = path_join working_directory ''accounts.dat''; txs_path = path_join working_directory ''txs.dat'' in
      and_then (unwrap ''called unwrap on an Err value'' (bin_serialize CA accounts))
      (\<lambda>accounts_s. and_then (unwrap ''called unwrap on an Err value'' (bin_serialize CT txs))
      (\<lambda>txs_s. and_then (write_file accounts_path accounts_s ''Failed to write accounts'' fs)
      (\<lambda>fs. write_file txs_path txs_s ''Failed to write txs'' fs))))"

definition import_from_files ::
  "'a bincode \<Rightarrow> 't list bincode \<Rightarrow> string \<Rightarrow> byte list file_system \<Rightarrow> ('a \<times> 't list) res" where
  "import_from_files CA CT working_directory fs =
     and_then (unwrap ''Failed to open accounts'' (fs_files fs (path_join working_directory ''accounts.dat'')))
     (\<lambda>accounts_buf. and_then (unwrap ''Failed to open txs'' (fs_files fs (path_join working_directory ''txs.dat'')))
     (\<lambda>txs_buf. and_then (unwrap ''called unwrap on an Err value'' (bin_deserialize CA accounts_buf))
     (\<lambda>accounts. and_then (unwrap ''called unwrap on an Err value'' (bin_deserialize CT txs_buf))
     (\<lambda>txs. Inr (accounts, txs)))))"

text \<open>\<open>create_dir_all\<close> is the call to the operating system, \<open>None\<close> when it fails.\<close>

definition pre_generate_txn_log ::
  "('t, 'o, 'b, 'c, 'w, 'n, 'a) sui_benchmark \<Rightarrow> 'a bincode \<Rightarrow> 't list bincode \<Rightarrow> (string \<Rightarrow> byte list file_system \<Rightarrow> byte list file_system option) \<Rightarrow>
   build \<Rightarrow> benchmark_parameters \<Rightarrow> string \<Rightarrow> byte list file_system \<Rightarrow> byte list file_system res" where
  "pre_generate_txn_log B CA CT create_dir_all bd config log_path fs =
     and_then (unwrap ''Failed to create directory'' (create_dir_all log_path fs))
     (\<lambda>fs. and_then (init_workload B bd config)
     (\<lambda>workload. let (tx_generator, ctx) = sb_create_tx_generator B workload (sb_context_new B workload);
                     txs = sb_generate_transactions B ctx tx_generator
                 in export_to_files CA CT (sb_accounts B ctx) txs log_path fs))"

definition LOG_DIR :: string where "LOG_DIR = ''/tmp/''"


section \<open>Transactions\<close>

record ('t, 'd, 'o, 'b, 'c, 'x, 'g, 'm, 'u) sui_runtime =
  su_digest :: "'t \<Rightarrow> 'd"
  su_input_objects :: "'t \<Rightarrow> 'o input_object_kind list option"
  su_read_objects_for_execution :: "'c \<Rightarrow> ('o, 'b) object_store \<Rightarrow> 't \<Rightarrow> 'o input_object_kind list \<Rightarrow> 'x option"
  su_get_gas_status :: "'c \<Rightarrow> 'x \<Rightarrow> 't \<Rightarrow> 'g option"
  su_execute_transaction_to_effects :: "'c \<Rightarrow> ('o, 'b) object_store \<Rightarrow> 't \<Rightarrow> 'x \<Rightarrow> 'g \<Rightarrow> 'm \<times> 'u"
  su_status_ok :: "'u \<Rightarrow> bool"
  su_written :: "'m \<Rightarrow> ('o, 'b) btree"
  su_commit_objects :: "'m \<Rightarrow> ('o, 'b) object_store \<Rightarrow> ('o, 'b) object_store"
  su_assign_versions :: "'t list \<Rightarrow> ('o \<times> version) list \<Rightarrow> 'c \<Rightarrow> 'c"

definition sui_input_objects :: "('t, 'd, 'o, 'b, 'c, 'x, 'g, 'm, 'u) sui_runtime \<Rightarrow> 't \<Rightarrow> 'o input_object_kind list res" where
  "sui_input_objects S t = unwrap ''Transaction syntax already checked'' (su_input_objects S t)"

definition sui_shared_object_ids :: "('t, 'd, 'o, 'b, 'c, 'x, 'g, 'm, 'u) sui_runtime \<Rightarrow> 't \<Rightarrow> 'o list res" where
  "sui_shared_object_ids S t =
     and_then (unwrap ''Transaction syntax already checked'' (su_input_objects S t)) (\<lambda>kinds. Inr (shared_ids kinds))"

text \<open>The trait, at the transactions whose syntax was checked: there the two methods return.\<close>

definition sui_transaction_trait :: "('t, 'd, 'o, 'b, 'c, 'x, 'g, 'm, 'u) sui_runtime \<Rightarrow> ('t, 'd, 'o) executable_transaction" where
  "sui_transaction_trait S =
     \<lparr>et_digest = su_digest S,
      et_input_objects = (\<lambda>t. case sui_input_objects S t of Inr kinds \<Rightarrow> kinds | Inl _ \<Rightarrow> []),
      et_shared_object_ids = (\<lambda>t. case sui_shared_object_ids S t of Inr ids \<Rightarrow> ids | Inl _ \<Rightarrow> [])\<rparr>"

fun is_package :: "'o input_object_kind \<Rightarrow> bool" where
  "is_package (MovePackage _) = True"
| "is_package _ = False"

definition get_object_ids_for_dependency_tracking :: "('t, 'd, 'o) executable_transaction \<Rightarrow> ('t, 'o) txn_ts \<Rightarrow> 'o list" where
  "get_object_ids_for_dependency_tracking E t =
     map kind_object_id (filter (\<lambda>k. \<not> is_package k) (et_input_objects E (transaction t)))"


section \<open>The executor\<close>

record 'c sui_executor =
  se_benchmark_ctx :: 'c
  se_verification_spins :: nat
  se_stateless_mode :: stateless_verification_mode

definition sui_executor_new ::
  "('t, 'o, 'b, 'c, 'w, 'n, 'a) sui_benchmark \<Rightarrow> (nat \<Rightarrow> nat \<Rightarrow> duration) \<Rightarrow> build \<Rightarrow> benchmark_parameters \<Rightarrow> 'c sui_executor res" where
  "sui_executor_new B elapsed bd config =
     and_then (init_workload B bd config)
       (\<lambda>workload. let (_, ctx) = sb_create_tx_generator B workload (sb_context_new B workload)
                   in Inr \<lparr>se_benchmark_ctx = ctx, se_verification_spins = calibrate elapsed (bench_verification_duration config),
                           se_stateless_mode = stateless_mode config\<rparr>)"

definition create_in_memory_store :: "('t, 'o, 'b, 'c, 'w, 'n, 'a) sui_benchmark \<Rightarrow> 'c sui_executor \<Rightarrow> ('o, 'b) object_store" where
  "create_in_memory_store B ex = sb_in_memory_store B (se_benchmark_ctx ex)"

definition sui_execute ::
  "('t, 'd, 'o, 'b, 'c, 'x, 'g, 'm, 'u) sui_runtime \<Rightarrow> 'c \<Rightarrow> ('o, 'b) object_store \<Rightarrow> ('t, 'o) txn_ts \<Rightarrow>
   (('o, 'b) object_store \<times> ('t, 'o, 'u, 'b) execution_results) res" where
  "sui_execute S ctx store t =
     and_then (unwrap ''input_objects'' (su_input_objects S (transaction t)))
     (\<lambda>input_objects. and_then (unwrap ''read_objects_for_execution'' (su_read_objects_for_execution S ctx store (transaction t) input_objects))
     (\<lambda>objects. and_then (unwrap ''get_gas_status'' (su_get_gas_status S ctx objects (transaction t)))
     (\<lambda>gas_status. let (inner_temp_store, effects) = su_execute_transaction_to_effects S ctx store (transaction t) objects gas_status in
        if \<not> su_status_ok S effects then Inl (Panic ''Transaction failed'')
        else let written = su_written S inner_temp_store
             in Inr (su_commit_objects S inner_temp_store store, results_new t (Some effects) (Some written)))))"

definition sui_pre_execute_check ::
  "('t, 'd, 'o, 'b, 'c, 'x, 'g, 'm, 'u) sui_runtime \<Rightarrow> 'c \<Rightarrow> ('o, 'b) object_store \<Rightarrow> ('t, 'o) txn_ts \<Rightarrow> bool res" where
  "sui_pre_execute_check S ctx store t =
     and_then (unwrap ''input_objects'' (su_input_objects S (transaction t)))
       (\<lambda>input_objects. Inr (su_read_objects_for_execution S ctx store (transaction t) input_objects \<noteq> None))"

fun collect_shared_ids :: "('t, 'd, 'o, 'b, 'c, 'x, 'g, 'm, 'u) sui_runtime \<Rightarrow> 't list \<Rightarrow> 'o set res" where
  "collect_shared_ids S [] = Inr {}"
| "collect_shared_ids S (t # ts) =
     and_then (sui_shared_object_ids S t) (\<lambda>ids. and_then (collect_shared_ids S ts) (\<lambda>rest. Inr (set ids \<union> rest)))"

definition assign_shared_object_versions_with_required_versions ::
  "('t, 'd, 'o, 'b, 'c, 'x, 'g, 'm, 'u) sui_runtime \<Rightarrow> 't list \<Rightarrow> ('o \<times> version) list \<Rightarrow> 'c \<Rightarrow> 'c res" where
  "assign_shared_object_versions_with_required_versions S transactions required_versions ctx =
     and_then (collect_shared_ids S transactions)
       (\<lambda>shared_object_ids. Inr (su_assign_versions S transactions (filter (\<lambda>(i, _). i \<in> shared_object_ids) required_versions) ctx))"

definition sui_make_verification_request ::
  "('k, 'p, 's) crypto_libs \<Rightarrow> ('d \<Rightarrow> byte list) \<Rightarrow> ('t, 'd, 'o, 'b, 'c, 'x, 'g, 'm, 'u) sui_runtime \<Rightarrow> 'c sui_executor \<Rightarrow> ('t, 'o) txn_ts \<Rightarrow>
   'd verification_request res" where
  "sui_make_verification_request C bytes S ex t =
     make_verification_request C bytes (se_stateless_mode ex) (su_digest S (transaction t)) (verification_duration t)"

fun sui_verify_transaction :: "('k, 'p, 's) crypto_libs \<Rightarrow> ('d \<Rightarrow> byte list) \<Rightarrow> 'd verification_request \<Rightarrow> bool" where
  "sui_verify_transaction C bytes (SyntheticRequest digest dur) = True"
| "sui_verify_transaction C bytes (CryptoRequest digest hint scheme public_key signature) =
     verify_request C bytes (CryptoRequest digest hint scheme public_key signature)"

text \<open>The executor as a proxy calls it, in the context that the assignment of versions left.\<close>

definition sui_ops ::
  "('t, 'd, 'o, 'b, 'c, 'x, 'g, 'm, 'u) sui_runtime \<Rightarrow> 'c \<Rightarrow> (('t, 'o) txn_ts \<Rightarrow> 'd verification_request) \<Rightarrow> ('d verification_request \<Rightarrow> bool) \<Rightarrow>
   ('t, 'd, 'o, 'u, 'b) executor_ops" where
  "sui_ops S ctx make_request verify =
     \<lparr>ex_trait = sui_transaction_trait S, ex_make_verification_request = make_request, ex_verify_transaction = verify,
      ex_pre_execute_check = sui_pre_execute_check S ctx, ex_execute = sui_execute S ctx\<rparr>"

text \<open>The start of the stateful block: the versions that the primary required are assigned before anything else.\<close>

definition assign_required_states ::
  "('t, 'd, 'o, 'b, 'c, 'x, 'g, 'm, 'u) sui_runtime \<Rightarrow> ('t, 'o) txn_ts \<Rightarrow> 'o required_states \<Rightarrow> 'c \<Rightarrow> 'c res" where
  "assign_required_states S t required ctx =
     (if required = [] then Inr ctx
      else assign_shared_object_versions_with_required_versions S [transaction t] (map fst required) ctx)"

definition sui_stateful_block ::
  "('t, 'd, 'o, 'b, 'c, 'x, 'g, 'm, 'u) sui_runtime \<Rightarrow> (('t, 'o) txn_ts \<Rightarrow> 'd verification_request) \<Rightarrow> ('d verification_request \<Rightarrow> bool) \<Rightarrow>
   'o required_states \<Rightarrow> bool \<Rightarrow> 'c \<Rightarrow> ('o, 'b) object_store \<Rightarrow> ('t, 'o) txn_ts \<Rightarrow> (('o, 'b) object_store \<times> ('t, 'o, 'u, 'b) execution_results) res" where
  "sui_stateful_block S make_request verify required verified ctx store t =
     and_then (assign_required_states S t required ctx) (\<lambda>ctx. run_stateful (sui_ops S ctx make_request verify) verified store t)"


section \<open>Workloads and files\<close>

lemma init_workload_panics_iff:
  "(\<exists>e. init_workload B Release config = Inl e) \<longleftrightarrow> is_fake (workload config) \<or> is_tpcc (workload config)"
proof -
  obtain n where "pre_generation Release config = Inr n"
    using fit_release(2)[of 64 "int (load config * as_secs (bench_duration config))"] by (auto simp: pre_generation_def fit_u64_def and_then_eq_Inr)
  then show ?thesis by (cases "workload config") (simp_all add: init_workload_def)
qed

lemma init_workload_ok:
  assumes "load config * as_secs (bench_duration config) < 2 ^ 64" "\<not> is_fake (workload config)" "\<not> is_tpcc (workload config)"
  shows "\<exists>w. init_workload B bd config = Inr w"
proof -
  have "pre_generation bd config = Inr (load config * as_secs (bench_duration config))"
    unfolding pre_generation_def by (rule fit_u64_id[OF assms(1)])
  then show ?thesis using assms(2,3) by (cases "workload config") (simp_all add: init_workload_def)
qed

lemma path_join_distinct: "path_join dir ''accounts.dat'' \<noteq> path_join dir ''txs.dat''"
  by (simp add: path_join_def)

lemma export_import:
  assumes "bincode_laws CA" "bincode_laws CT" "export_to_files CA CT accounts txs dir fs = Inr fs'"
  shows "import_from_files CA CT dir fs' = Inr (accounts, txs)"
proof -
  obtain a b where ab: "bin_serialize CA accounts = Some a" "bin_serialize CT txs = Some b"
      and fs': "fs_files fs' = (fs_files fs)(path_join dir ''accounts.dat'' \<mapsto> a, path_join dir ''txs.dat'' \<mapsto> b)"
    using assms(3) by (auto simp: export_to_files_def write_file_def and_then_eq_Inr unwrap_def Let_def split: if_splits option.splits)
  have "bin_deserialize CA a = Some accounts" "bin_deserialize CT b = Some txs" using ab assms(1,2) by (auto simp: bincode_laws_def)
  then show ?thesis using path_join_distinct[of dir] by (simp add: import_from_files_def fs' unwrap_def)
qed

text \<open>
  C29. The transaction log is complete: what \<^verbatim>\<open>pre_generate_txn_log\<close> writes into its directory, importing from that directory reads back,
  and it is the list of transactions that \<^verbatim>\<open>generate_sui_transactions\<close> generates for the same configuration, with the accounts of the
  context that generated them; a configuration for another executor panics before a file is written.
\<close>

theorem transaction_log_roundtrip:
  assumes "bincode_laws CA" "bincode_laws CT" "pre_generate_txn_log B CA CT create_dir_all bd config dir fs = Inr fs'"
  shows "\<exists>accounts txs. import_from_files CA CT dir fs' = Inr (accounts, txs) \<and> generate_sui_transactions B bd config None = Inr txs \<and>
           (\<exists>w. init_workload B bd config = Inr w \<and> accounts = sb_accounts B (snd (sb_create_tx_generator B w (sb_context_new B w)))) \<and>
           \<not> is_fake (workload config) \<and> \<not> is_tpcc (workload config)"
proof -
  obtain fs1 w where w: "init_workload B bd config = Inr w" and
      e: "export_to_files CA CT (sb_accounts B (snd (sb_create_tx_generator B w (sb_context_new B w))))
        (sb_generate_transactions B (snd (sb_create_tx_generator B w (sb_context_new B w))) (fst (sb_create_tx_generator B w (sb_context_new B w)))) dir fs1 = Inr fs'"
    using assms(3) by (auto simp: pre_generate_txn_log_def and_then_eq_Inr Let_def split_beta)
  have "generate_sui_transactions B bd config None =
      Inr (sb_generate_transactions B (snd (sb_create_tx_generator B w (sb_context_new B w))) (fst (sb_create_tx_generator B w (sb_context_new B w))))"
    using w by (simp add: generate_sui_transactions_def split_beta Let_def)
  moreover have "\<not> is_fake (workload config)" "\<not> is_tpcc (workload config)"
    using w by (cases "workload config"; auto simp: init_workload_def and_then_eq_Inr)+
  ultimately show ?thesis using export_import[OF assms(1,2) e] w by blast
qed

definition counting_benchmark :: "(nat, nat, nat, nat, nat, unit, nat) sui_benchmark" where
  "counting_benchmark = \<lparr>sb_workload_new = (\<lambda>n _. n), sb_context_new = id, sb_context_exportable = (\<lambda>w _. w), sb_create_tx_generator = (\<lambda>_ c. ((), c)),
     sb_generate_transactions = (\<lambda>c _. [0..<c]), sb_accounts = id, sb_in_memory_store = (\<lambda>_. Map.empty)\<rparr>"

definition unary_nat :: "nat bincode" where
  "unary_nat = \<lparr>bin_serialize = (\<lambda>n. Some (replicate n 0)), bin_deserialize = (\<lambda>bs. Some (length bs))\<rparr>"

definition unary_list :: "nat list bincode" where
  "unary_list = \<lparr>bin_serialize = (\<lambda>ns. Some (concat (map (\<lambda>n. replicate n 0 @ [1]) ns))),
     bin_deserialize = (\<lambda>bs. Some (snd (foldl (\<lambda>(k, ns) b. if b = 0 then (Suc k, ns) else (0, ns @ [k])) (0, []) bs)))\<rparr>"

lemma unary_list_decode:
  "foldl (\<lambda>(k, ns) b. if b = 0 then (Suc k, ns) else (0, ns @ [k])) (0, acc) (concat (map (\<lambda>n. replicate n (0 :: byte) @ [1]) ns)) = (0, acc @ ns)"
proof (induction ns arbitrary: acc)
  case (Cons n ns)
  have "foldl (\<lambda>(k, ns) b. if b = 0 then (Suc k, ns) else (0, ns @ [k])) (j, acc) (replicate n (0 :: byte)) = (j + n, acc)" for j acc
    by (induction n arbitrary: j) simp_all
  then show ?case using Cons.IH by simp
qed simp

theorem transaction_log_roundtrip_witness:
  "\<exists>fs' accounts. pre_generate_txn_log counting_benchmark unary_nat unary_list (\<lambda>_ fs. Some fs) Release new_for_tests LOG_DIR
     \<lparr>fs_files = Map.empty, fs_writable = {path_join LOG_DIR ''accounts.dat'', path_join LOG_DIR ''txs.dat''}\<rparr> = Inr fs' \<and>
     import_from_files unary_nat unary_list LOG_DIR fs' = Inr (accounts, [0..<10])"
proof -
  have laws: "bincode_laws unary_nat" "bincode_laws unary_list"
    by (auto simp: bincode_laws_def unary_nat_def unary_list_def unary_list_decode)
  have n: "pre_generation Release new_for_tests = Inr 10"
    by (simp add: pre_generation_def fit_u64_id new_for_tests_def as_secs_def from_secs_def)
  then have g: "generate_sui_transactions counting_benchmark Release new_for_tests None = Inr [0..<10]"
    by (simp add: generate_sui_transactions_def init_workload_def new_for_tests_def counting_benchmark_def)
  obtain fs' where fs': "pre_generate_txn_log counting_benchmark unary_nat unary_list (\<lambda>_ fs. Some fs) Release new_for_tests LOG_DIR
     \<lparr>fs_files = Map.empty, fs_writable = {path_join LOG_DIR ''accounts.dat'', path_join LOG_DIR ''txs.dat''}\<rparr> = Inr fs'"
    using n by (simp add: pre_generate_txn_log_def init_workload_def new_for_tests_def counting_benchmark_def unwrap_def export_to_files_def
        write_file_def unary_nat_def unary_list_def Let_def)
  from transaction_log_roundtrip[OF laws fs'] g fs' show ?thesis by auto
qed


section \<open>Outcomes of a block\<close>

text \<open>The executors verify alike, and the dependencies tracked include every shared input and no package.\<close>

lemma sui_verify_transaction_eq: "sui_verify_transaction C bytes r = verify_transaction C bytes r"
  by (cases r) simp_all

lemma tracked_dependencies:
  assumes "su_input_objects S (transaction t) = Some kinds"
  shows "set (shared_ids kinds) \<subseteq> set (get_object_ids_for_dependency_tracking (sui_transaction_trait S) t)"
    and "i \<in> set (get_object_ids_for_dependency_tracking (sui_transaction_trait S) t) \<longleftrightarrow>
      (\<exists>v. ImmOrOwnedMoveObject i v \<in> set kinds) \<or> i \<in> set (shared_ids kinds)"
proof -
  have e: "set (get_object_ids_for_dependency_tracking (sui_transaction_trait S) t) = kind_object_id ` {k \<in> set kinds. \<not> is_package k}"
    using assms by (simp add: get_object_ids_for_dependency_tracking_def sui_transaction_trait_def sui_input_objects_def unwrap_def)
  show iff: "i \<in> set (get_object_ids_for_dependency_tracking (sui_transaction_trait S) t) \<longleftrightarrow>
      (\<exists>v. ImmOrOwnedMoveObject i v \<in> set kinds) \<or> i \<in> set (shared_ids kinds)" for i
    unfolding e set_shared_ids by (force elim: is_package.elims)
  show "set (shared_ids kinds) \<subseteq> set (get_object_ids_for_dependency_tracking (sui_transaction_trait S) t)" using iff by blast
qed

lemma sui_pre_execute_check_reads:
  "su_input_objects S (transaction t) = Some kinds \<Longrightarrow>
     sui_pre_execute_check S ctx store t = Inr (su_read_objects_for_execution S ctx store (transaction t) kinds \<noteq> None)"
  by (simp add: sui_pre_execute_check_def unwrap_def)

lemma sui_execute_cases:
  assumes "su_input_objects S (transaction t) = Some kinds"
  shows "case sui_execute S ctx store t of
           Inl e \<Rightarrow> (if su_read_objects_for_execution S ctx store (transaction t) kinds = None then e = Panic ''read_objects_for_execution''
                     else e = Panic ''get_gas_status'' \<or> e = Panic ''Transaction failed'')
         | Inr (s', r) \<Rightarrow> er_transaction r = t \<and> (\<exists>u. er_updates r = Some u \<and> su_status_ok S u) \<and> er_new_state r \<noteq> None"
  using assms by (auto simp: sui_execute_def and_then_def unwrap_def results_new_def Let_def split: option.splits sum.splits prod.splits)

text \<open>The context after the assignment: the required versions of the shared inputs.\<close>

definition assigned_context where
  "assigned_context S t kinds required ctx =
     (if required = [] then ctx else su_assign_versions S [transaction t] (filter (\<lambda>(i, _). i \<in> set (shared_ids kinds)) (map fst required)) ctx)"

lemma assign_required_states_eq:
  assumes "su_input_objects S (transaction t) = Some kinds"
  shows "assign_required_states S t required ctx = Inr (assigned_context S t kinds required ctx)"
  using assms by (simp add: assigned_context_def assign_required_states_def assign_shared_object_versions_with_required_versions_def sui_shared_object_ids_def unwrap_def)

text \<open>The versions that the primary requires are those of shared inputs, and none of them is dropped.\<close>

lemma assign_required_states_keeps_all:
  assumes "su_input_objects S (transaction t) = Some kinds" "fst ` fst ` set required \<subseteq> set (shared_ids kinds)" "required \<noteq> []"
  shows "assign_required_states S t required ctx = Inr (su_assign_versions S [transaction t] (map fst required) ctx)"
proof -
  have "filter (\<lambda>(i, _). i \<in> set (shared_ids kinds)) (map fst required) = map fst required" using assms(2) by (auto simp: filter_id_conv image_subset_iff)
  then show ?thesis using assign_required_states_eq[OF assms(1), of required ctx] assms(3) by (simp add: assigned_context_def)
qed


text \<open>A runtime whose context holds the versions assigned, and whose transactions increment one shared object.\<close>

definition counter_runtime :: "(nat, nat, nat, nat, nat \<rightharpoonup> version, nat, unit, nat \<times> nat, bool) sui_runtime" where
  "counter_runtime =
     \<lparr>su_digest = id, su_input_objects = (\<lambda>t. Some [SharedMoveObject t 2 True]),
      su_read_objects_for_execution = (\<lambda>c s t _. if s t = c t then s t else None),
      su_get_gas_status = (\<lambda>_ _ _. Some ()), su_execute_transaction_to_effects = (\<lambda>_ _ t v _. ((t, v + 1), True)),
      su_status_ok = id, su_written = (\<lambda>m. [m]), su_commit_objects = (\<lambda>(i, v) s. s(i \<mapsto> v)),
      su_assign_versions = (\<lambda>_ vs c. foldl (\<lambda>c (i, v). c(i \<mapsto> v)) c vs)\<rparr>"


end
