(* ===== verification/Tpcc_Generator.thy ===== *)
theory Tpcc_Generator
  imports Tpcc_Executor Tpcc_Consistency
begin

text \<open>
  The workload generator of TPC-C (\<^verbatim>\<open>src/executor/tpcc/generator.rs\<close>) and the generation of the transactions
  by the executor (\<^verbatim>\<open>generate_transactions\<close> of \<^verbatim>\<open>src/executor/tpcc/executor.rs\<close>).  The random number generator of the
  \<^verbatim>\<open>rand\<close> crate is the record \<open>rng_ops\<close> on a state of type \<open>'g\<close>.  A generator function returns \<open>None\<close> when it does
  not terminate: the loop of \<^verbatim>\<open>random_warehouse_excluding\<close> draws until it finds another warehouse.
\<close>


section \<open>Random numbers\<close>

record 'g rng_ops =
  rng_range :: "nat \<Rightarrow> nat \<Rightarrow> 'g \<Rightarrow> nat \<times> 'g"
  rng_index :: "nat \<Rightarrow> 'g \<Rightarrow> nat \<times> 'g"
  rng_bool :: "f64 \<Rightarrow> 'g \<Rightarrow> bool \<times> 'g"
  rng_seed :: "nat \<Rightarrow> 'g"

text \<open>
  The documented behaviour: a number drawn from a range lies in it, and an event of probability 1 always happens.
\<close>

definition rng_laws :: "'g rng_ops \<Rightarrow> bool" where
  "rng_laws G \<longleftrightarrow>
     (\<forall>lo hi g. lo \<le> hi \<longrightarrow> lo \<le> fst (rng_range G lo hi g) \<and> fst (rng_range G lo hi g) \<le> hi) \<and>
     (\<forall>n g. 0 < n \<longrightarrow> fst (rng_index G n g) < n) \<and> (\<forall>g. fst (rng_bool G 1 g))"

record 'g tpcc_generator =
  gn_num_warehouses :: nat
  gn_payment_ratio :: f64
  gn_rng :: 'g
  gn_num_nodes :: nat
  gn_hotspot_percentage :: f64
  gn_rotation_interval_secs :: nat
  gn_current_hotspot_node :: nat
  gn_txn_count_since_rotation :: nat
  gn_expected_tps :: nat

type_synonym ('g, 'a) generation = "'g tpcc_generator \<Rightarrow> ('a \<times> 'g tpcc_generator) res option"

definition gbind :: "('g, 'a) generation \<Rightarrow> ('a \<Rightarrow> ('g, 'b) generation) \<Rightarrow> ('g, 'b) generation" where
  "gbind m f gn =
     (case m gn of None \<Rightarrow> None | Some (Inl e) \<Rightarrow> Some (Inl e) | Some (Inr (x, gn')) \<Rightarrow> f x gn')"

definition greturn :: "'a \<Rightarrow> ('g, 'a) generation" where
  "greturn x gn = Some (Inr (x, gn))"

text \<open>\<^verbatim>\<open>gen_range\<close> panics on an empty range, \<^verbatim>\<open>gen_bool\<close> on a number that is not a probability.\<close>

definition gen_range :: "'g rng_ops \<Rightarrow> nat \<Rightarrow> nat \<Rightarrow> ('g, nat) generation" where
  "gen_range G lo hi gn =
     (if lo \<le> hi then (let (x, g) = rng_range G lo hi (gn_rng gn) in Some (Inr (x, gn\<lparr>gn_rng := g\<rparr>)))
      else Some (Inl (Panic ''cannot sample empty range'')))"

definition gen_index :: "'g rng_ops \<Rightarrow> nat \<Rightarrow> ('g, nat) generation" where
  "gen_index G n gn =
     (if 0 < n then (let (x, g) = rng_index G n (gn_rng gn) in Some (Inr (x, gn\<lparr>gn_rng := g\<rparr>)))
      else Some (Inl (Panic ''cannot sample empty range'')))"

definition gen_bool :: "'g rng_ops \<Rightarrow> f64 \<Rightarrow> ('g, bool) generation" where
  "gen_bool G p gn =
     (if 0 \<le> p \<and> p \<le> 1 then (let (x, g) = rng_bool G p (gn_rng gn) in Some (Inr (x, gn\<lparr>gn_rng := g\<rparr>)))
      else Some (Inl (Panic ''p is outside range [0.0, 1.0]'')))"


section \<open>The generator\<close>

definition generator_new :: "'g rng_ops \<Rightarrow> nat \<Rightarrow> f64 \<Rightarrow> nat \<Rightarrow> f64 \<Rightarrow> nat \<Rightarrow> nat \<Rightarrow> nat \<Rightarrow> 'g tpcc_generator" where
  "generator_new G num_warehouses payment_ratio num_nodes hotspot_percentage rotation_interval_secs expected_tps seed =
     \<lparr>gn_num_warehouses = num_warehouses, gn_payment_ratio = payment_ratio, gn_rng = rng_seed G seed,
      gn_num_nodes = max num_nodes 1, gn_hotspot_percentage = max 0 (min 1 hotspot_percentage),
      gn_rotation_interval_secs = rotation_interval_secs, gn_current_hotspot_node = 0, gn_txn_count_since_rotation = 0,
      gn_expected_tps = expected_tps\<rparr>"

definition warehouse_to_node :: "'g tpcc_generator \<Rightarrow> nat \<Rightarrow> nat" where
  "warehouse_to_node gn warehouse_id = (warehouse_id - 1) mod gn_num_nodes gn"

definition warehouses_on_node :: "'g tpcc_generator \<Rightarrow> nat \<Rightarrow> nat list" where
  "warehouses_on_node gn node_id = filter (\<lambda>w. warehouse_to_node gn w = node_id) (ids_to (gn_num_warehouses gn))"

definition any_warehouse :: "'g rng_ops \<Rightarrow> ('g, nat) generation" where
  "any_warehouse G gn = gen_range G 1 (gn_num_warehouses gn mod 2 ^ 32) gn"

definition random_warehouse_from_node :: "'g rng_ops \<Rightarrow> nat \<Rightarrow> ('g, nat) generation" where
  "random_warehouse_from_node G node_id gn =
     (let warehouses = warehouses_on_node gn node_id in
      if warehouses = [] then any_warehouse G gn
      else gbind (gen_index G (length warehouses)) (\<lambda>idx. greturn (warehouses ! idx)) gn)"

definition random_warehouse :: "'g rng_ops \<Rightarrow> ('g, nat) generation" where
  "random_warehouse G gn =
     (if gn_hotspot_percentage gn = 0 \<or> gn_num_nodes gn \<le> 1 then any_warehouse G gn
      else gbind (gen_bool G (gn_hotspot_percentage gn))
             (\<lambda>hot gn. if hot then random_warehouse_from_node G (gn_current_hotspot_node gn) gn else any_warehouse G gn) gn)"

partial_function (option) random_warehouse_excluding ::
  "'g rng_ops \<Rightarrow> nat \<Rightarrow> 'g tpcc_generator \<Rightarrow> (nat \<times> 'g tpcc_generator) res option" where
  "random_warehouse_excluding G exclude gn =
     (case random_warehouse G gn of
        None \<Rightarrow> None
      | Some r \<Rightarrow>
          (case r of
             Inl e \<Rightarrow> Some (Inl e)
           | Inr (w, gn') \<Rightarrow> if w \<noteq> exclude then Some (Inr (w, gn')) else random_warehouse_excluding G exclude gn'))"

definition random_district :: "'g rng_ops \<Rightarrow> ('g, nat) generation" where
  "random_district G = gen_range G 1 DISTRICTS_PER_WAREHOUSE"

definition random_customer :: "'g rng_ops \<Rightarrow> ('g, nat) generation" where
  "random_customer G = gen_range G 1 CUSTOMERS_PER_DISTRICT"

definition random_item :: "'g rng_ops \<Rightarrow> ('g, nat) generation" where
  "random_item G = gen_range G 1 NUM_ITEMS"

text \<open>The short-circuit \<^verbatim>\<open>&&\<close>: no number is drawn when there is a single warehouse.\<close>

definition draw_remote :: "'g rng_ops \<Rightarrow> f64 \<Rightarrow> ('g, bool) generation" where
  "draw_remote G p gn = (if gn_num_warehouses gn > 1 then gen_bool G p gn else greturn False gn)"

definition generate_item :: "'g rng_ops \<Rightarrow> nat \<Rightarrow> ('g, order_item) generation" where
  "generate_item G w =
     gbind (random_item G)
     (\<lambda>i. gbind (gbind (draw_remote G REMOTE_WAREHOUSE_PROB) (\<lambda>remote. if remote then random_warehouse_excluding G w else greturn w))
     (\<lambda>sw. gbind (gen_range G 1 MAX_OL_QUANTITY)
     (\<lambda>quantity. greturn \<lparr>oi_i_id = i, oi_supply_w_id = sw, oi_quantity = int quantity\<rparr>)))"

fun generate_items :: "'g rng_ops \<Rightarrow> nat \<Rightarrow> nat \<Rightarrow> ('g, order_item list) generation" where
  "generate_items G w 0 = greturn []"
| "generate_items G w (Suc n) =
     gbind (generate_item G w) (\<lambda>it. gbind (generate_items G w n) (\<lambda>items. greturn (it # items)))"

definition generate_new_order :: "'g rng_ops \<Rightarrow> ('g, tpcc_transaction) generation" where
  "generate_new_order G =
     gbind (random_warehouse G)
     (\<lambda>w. gbind (random_district G)
     (\<lambda>d. gbind (random_customer G)
     (\<lambda>c. gbind (gen_range G MIN_OL_CNT MAX_OL_CNT)
     (\<lambda>ol_cnt. gbind (generate_items G w ol_cnt)
     (\<lambda>items. greturn (NewOrder w d c items))))))"

definition generate_payment :: "'g rng_ops \<Rightarrow> ('g, tpcc_transaction) generation" where
  "generate_payment G =
     gbind (random_warehouse G)
     (\<lambda>w. gbind (random_district G)
     (\<lambda>d. gbind (gbind (draw_remote G REMOTE_CUSTOMER_PROB)
        (\<lambda>remote. if remote then gbind (random_warehouse_excluding G w) (\<lambda>rw. gbind (random_district G) (\<lambda>rd. greturn (rw, rd)))
                  else greturn (w, d)))
     (\<lambda>(cw, cd). gbind (random_customer G)
     (\<lambda>c. gbind (gen_range G MIN_PAYMENT_CENTS MAX_PAYMENT_CENTS)
     (\<lambda>h_amount. greturn (Payment w d cw cd c (int h_amount)))))))"

definition maybe_rotate_hotspot :: "build \<Rightarrow> ('g, unit) generation" where
  "maybe_rotate_hotspot bd gn =
     (if gn_rotation_interval_secs gn = 0 \<or> gn_num_nodes gn \<le> 1 then Some (Inr ((), gn))
      else Some (and_then (fit_u64 bd (gn_txn_count_since_rotation gn + 1))
        (\<lambda>cnt. and_then (fit_u64 bd (gn_expected_tps gn * gn_rotation_interval_secs gn))
        (\<lambda>txns_per_rotation.
           if cnt \<ge> txns_per_rotation
           then Inr ((), gn\<lparr>gn_current_hotspot_node := (gn_current_hotspot_node gn + 1) mod gn_num_nodes gn, gn_txn_count_since_rotation := 0\<rparr>)
           else Inr ((), gn\<lparr>gn_txn_count_since_rotation := cnt\<rparr>)))))"

definition generate_transaction :: "'g rng_ops \<Rightarrow> build \<Rightarrow> ('g, tpcc_transaction) generation" where
  "generate_transaction G bd =
     gbind (maybe_rotate_hotspot bd)
       (\<lambda>_ gn. gbind (gen_bool G (gn_payment_ratio gn)) (\<lambda>payment. if payment then generate_payment G else generate_new_order G) gn)"


section \<open>The transactions of a run\<close>

record tpcc_workload =
  tw_num_warehouses :: nat
  tw_payment_ratio :: f64
  tw_num_nodes :: nat
  tw_hotspot_percentage :: f64
  tw_rotation_interval_secs :: nat

definition workload_of :: "workload_type \<Rightarrow> tpcc_workload" where
  "workload_of w =
     (case w of
        Tpcc num_warehouses payment_ratio num_nodes hotspot_percentage rotation_interval_secs \<Rightarrow>
          \<lparr>tw_num_warehouses = num_warehouses, tw_payment_ratio = payment_ratio, tw_num_nodes = num_nodes,
           tw_hotspot_percentage = hotspot_percentage, tw_rotation_interval_secs = rotation_interval_secs\<rparr>
      | _ \<Rightarrow> \<lparr>tw_num_warehouses = 1, tw_payment_ratio = 0.5, tw_num_nodes = 1, tw_hotspot_percentage = 0, tw_rotation_interval_secs = 20\<rparr>)"

definition NUM_GENERATOR_TASKS :: nat where "NUM_GENERATOR_TASKS = 16"

text \<open>\<^verbatim>\<open>(n + NUM_GENERATOR_TASKS - 1) / NUM_GENERATOR_TASKS\<close>\<close>

definition div_tasks :: "build \<Rightarrow> nat \<Rightarrow> nat res" where
  "div_tasks bd n =
     and_then (fit_unsigned 64 bd (int n + int NUM_GENERATOR_TASKS))
       (\<lambda>x. and_then (fit_unsigned 64 bd (x - 1)) (\<lambda>y. Inr (nat y div NUM_GENERATOR_TASKS)))"

fun generate_many :: "'g rng_ops \<Rightarrow> build \<Rightarrow> nat \<Rightarrow> ('g, tpcc_transaction list) generation" where
  "generate_many G bd 0 = greturn []"
| "generate_many G bd (Suc n) = gbind (generate_transaction G bd) (\<lambda>t. gbind (generate_many G bd n) (\<lambda>ts. greturn (t # ts)))"

definition chunk_count :: "nat \<Rightarrow> nat \<Rightarrow> nat \<Rightarrow> nat" where
  "chunk_count total_txns chunk_size task_id = min ((task_id + 1) * chunk_size) total_txns - task_id * chunk_size"

text \<open>The body of one blocking task, without the fresh random digest that each executable transaction gets.\<close>

definition generator_task ::
  "'g rng_ops \<Rightarrow> build \<Rightarrow> tpcc_workload \<Rightarrow> nat \<Rightarrow> nat \<Rightarrow> nat \<Rightarrow> tpcc_transaction list res option" where
  "generator_task G bd w expected_tps count task_id =
     (case div_tasks bd expected_tps of
        Inl e \<Rightarrow> Some (Inl e)
      | Inr per_task_tps \<Rightarrow>
          (let gn = generator_new G (tw_num_warehouses w) (tw_payment_ratio w) (tw_num_nodes w) (tw_hotspot_percentage w)
                      (tw_rotation_interval_secs w) per_task_tps task_id
           in map_option (map_sum id fst) (generate_many G bd count gn)))"

text \<open>Joining the tasks: the chunk of a task that panicked is left out, and a task that does not end blocks the join.\<close>

fun join_tasks :: "'a list res option list \<Rightarrow> 'a list option" where
  "join_tasks [] = Some []"
| "join_tasks (None # hs) = None"
| "join_tasks (Some (Inl e) # hs) = join_tasks hs"
| "join_tasks (Some (Inr chunk) # hs) = map_option (\<lambda>ts. chunk @ ts) (join_tasks hs)"

definition tpcc_generate_transactions ::
  "'g rng_ops \<Rightarrow> build \<Rightarrow> benchmark_parameters \<Rightarrow> tpcc_transaction list res option" where
  "tpcc_generate_transactions G bd config =
     (case and_then (fit_u64 bd (load config * (bench_duration config div 10 ^ 9))) (\<lambda>total_txns. and_then (div_tasks bd total_txns) (\<lambda>chunk_size. Inr (total_txns, chunk_size))) of
        Inl e \<Rightarrow> Some (Inl e)
      | Inr (total_txns, chunk_size) \<Rightarrow>
          map_option Inr (join_tasks (map (\<lambda>task_id. generator_task G bd (workload_of (workload config)) (load config) (chunk_count total_txns chunk_size task_id) task_id)
            [0..<NUM_GENERATOR_TASKS])))"


section \<open>What a generator function returns\<close>

text \<open>
  \<open>yields g0 m Q\<close>: run from the generator \<open>g0\<close> with any random state, \<open>m\<close> does not panic, returns a value in \<open>Q\<close>, changes
  nothing but the random state, and terminates when there is a single warehouse.
\<close>

definition yields :: "'g tpcc_generator \<Rightarrow> ('g, 'a) generation \<Rightarrow> ('a \<Rightarrow> bool) \<Rightarrow> bool" where
  "yields g0 m Q \<longleftrightarrow>
     (\<forall>g. case m (g0\<lparr>gn_rng := g\<rparr>) of
            None \<Rightarrow> gn_num_warehouses g0 \<noteq> 1
          | Some (Inl e) \<Rightarrow> False
          | Some (Inr (x, gn')) \<Rightarrow> Q x \<and> (\<exists>g'. gn' = g0\<lparr>gn_rng := g'\<rparr>))"

lemma yields_bind:
  assumes "yields g0 m Q" "\<And>x. Q x \<Longrightarrow> yields g0 (f x) Q'"
  shows "yields g0 (gbind m f) Q'"
  unfolding yields_def
proof
  fix g
  let ?gn = "g0\<lparr>gn_rng := g\<rparr>"
  show "case gbind m f ?gn of None \<Rightarrow> gn_num_warehouses g0 \<noteq> 1 | Some (Inl e) \<Rightarrow> False
      | Some (Inr (x, gn')) \<Rightarrow> Q' x \<and> (\<exists>g'. gn' = g0\<lparr>gn_rng := g'\<rparr>)"
  proof (cases "m ?gn")
    case None
    then show ?thesis using assms(1) unfolding yields_def gbind_def by (metis (mono_tags, lifting) option.simps(4))
  next
    case (Some r)
    have "case Some r of None \<Rightarrow> gn_num_warehouses g0 \<noteq> 1 | Some (Inl e) \<Rightarrow> False
      | Some (Inr (x, gn')) \<Rightarrow> Q x \<and> (\<exists>g'. gn' = g0\<lparr>gn_rng := g'\<rparr>)"
      using assms(1)[unfolded yields_def, rule_format, of g] unfolding Some .
    then obtain x g' where r: "r = Inr (x, g0\<lparr>gn_rng := g'\<rparr>)" "Q x" by (cases r) auto
    show ?thesis using assms(2)[OF r(2), unfolded yields_def, rule_format, of g'] by (simp add: gbind_def Some r(1))
  qed
qed

lemma yields_return: "Q x \<Longrightarrow> yields g0 (greturn x) Q"
  by (auto simp: yields_def greturn_def)

lemma yields_weaken: "yields g0 m Q \<Longrightarrow> (\<And>x. Q x \<Longrightarrow> Q' x) \<Longrightarrow> yields g0 m Q'"
  unfolding yields_def
proof
  fix g
  assume a: "\<forall>g. case m (g0\<lparr>gn_rng := g\<rparr>) of None \<Rightarrow> gn_num_warehouses g0 \<noteq> 1 | Some (Inl e) \<Rightarrow> False
      | Some (Inr (x, gn')) \<Rightarrow> Q x \<and> (\<exists>g'. gn' = g0\<lparr>gn_rng := g'\<rparr>)" and Q: "\<And>x. Q x \<Longrightarrow> Q' x"
  show "case m (g0\<lparr>gn_rng := g\<rparr>) of None \<Rightarrow> gn_num_warehouses g0 \<noteq> 1 | Some (Inl e) \<Rightarrow> False
      | Some (Inr (x, gn')) \<Rightarrow> Q' x \<and> (\<exists>g'. gn' = g0\<lparr>gn_rng := g'\<rparr>)"
    using a[rule_format, of g] Q by (auto split: option.splits sum.splits)
qed

lemma yields_range:
  assumes "rng_laws G" "lo \<le> hi"
  shows "yields g0 (gen_range G lo hi) (\<lambda>x. lo \<le> x \<and> x \<le> hi)"
  using assms by (auto simp: yields_def gen_range_def rng_laws_def Let_def split: prod.splits) (metis fst_conv)+

lemma yields_index: "rng_laws G \<Longrightarrow> 0 < n \<Longrightarrow> yields g0 (gen_index G n) (\<lambda>x. x < n)"
  by (auto simp: yields_def gen_index_def rng_laws_def Let_def split: prod.splits) (metis fst_conv)

lemma yields_bool: "0 \<le> p \<Longrightarrow> p \<le> 1 \<Longrightarrow> yields g0 (gen_bool G p) (\<lambda>_. True)"
  by (auto simp: yields_def gen_bool_def Let_def split: prod.splits)

definition generator_ok :: "nat \<Rightarrow> 'g tpcc_generator \<Rightarrow> bool" where
  "generator_ok W g0 \<longleftrightarrow>
     gn_num_warehouses g0 = W \<and> 1 \<le> W \<and> W < 2 ^ 32 \<and> 0 \<le> gn_payment_ratio g0 \<and> gn_payment_ratio g0 \<le> 1 \<and>
     0 \<le> gn_hotspot_percentage g0 \<and> gn_hotspot_percentage g0 \<le> 1 \<and> 1 \<le> gn_num_nodes g0"

lemma yields_any_warehouse:
  assumes "rng_laws G" "generator_ok W g0"
  shows "yields g0 (any_warehouse G) (\<lambda>w. 1 \<le> w \<and> w \<le> W)"
proof -
  have W: "gn_num_warehouses g0 mod 2 ^ 32 = W" "1 \<le> W" using assms(2) by (auto simp: generator_ok_def)
  show ?thesis using yields_range[OF assms(1) W(2), of g0] by (simp add: yields_def any_warehouse_def W(1)[simplified])
qed

lemma warehouses_on_node_ids: "generator_ok W gn \<Longrightarrow> w \<in> set (warehouses_on_node gn n) \<Longrightarrow> 1 \<le> w \<and> w \<le> W"
  by (auto simp: warehouses_on_node_def generator_ok_def)

lemma yields_from_node:
  assumes "rng_laws G" "generator_ok W g0"
  shows "yields g0 (random_warehouse_from_node G n) (\<lambda>w. 1 \<le> w \<and> w \<le> W)"
proof (cases "warehouses_on_node g0 n = []")
  case True
  have "warehouses_on_node (g0\<lparr>gn_rng := g\<rparr>) n = []" for g using True by (simp add: warehouses_on_node_def warehouse_to_node_def)
  then show ?thesis using yields_any_warehouse[OF assms] by (simp add: yields_def random_warehouse_from_node_def)
next
  case False
  let ?ws = "warehouses_on_node g0 n"
  have same: "warehouses_on_node (g0\<lparr>gn_rng := g\<rparr>) n = ?ws" for g by (simp add: warehouses_on_node_def warehouse_to_node_def)
  have "yields g0 (gbind (gen_index G (length ?ws)) (\<lambda>idx. greturn (?ws ! idx))) (\<lambda>w. 1 \<le> w \<and> w \<le> W)"
    using False warehouses_on_node_ids[OF assms(2) nth_mem]
    by (intro yields_bind[OF yields_index[OF assms(1)]] yields_return) simp_all
  then show ?thesis using False by (simp add: yields_def random_warehouse_from_node_def same Let_def)
qed

lemma yields_random_warehouse:
  assumes "rng_laws G" "generator_ok W g0"
  shows "yields g0 (random_warehouse G) (\<lambda>w. 1 \<le> w \<and> w \<le> W)"
proof (cases "gn_hotspot_percentage g0 = 0 \<or> gn_num_nodes g0 \<le> 1")
  case True
  then show ?thesis using yields_any_warehouse[OF assms] by (auto simp: yields_def random_warehouse_def)
next
  case False
  let ?f = "\<lambda>hot gn. if hot then random_warehouse_from_node G (gn_current_hotspot_node gn) gn else any_warehouse G gn"
  have f: "yields g0 (?f hot) (\<lambda>w. 1 \<le> w \<and> w \<le> W)" for hot
    using yields_any_warehouse[OF assms] yields_from_node[OF assms, of "gn_current_hotspot_node g0"] by (cases hot) (simp_all add: yields_def)
  have "yields g0 (gbind (gen_bool G (gn_hotspot_percentage g0)) ?f) (\<lambda>w. 1 \<le> w \<and> w \<le> W)"
    by (rule yields_bind[OF yields_bool f]) (use assms(2) in \<open>simp_all add: generator_ok_def\<close>)
  then show ?thesis using False by (simp add: yields_def random_warehouse_def)
qed

text \<open>The loop: when it returns, it returns another warehouse.\<close>

lemma excluding_returns:
  assumes "rng_laws G" "generator_ok W g0" "random_warehouse_excluding G ex gn = Some r" "gn = g0\<lparr>gn_rng := g\<rparr>"
  shows "\<exists>w g'. r = Inr (w, g0\<lparr>gn_rng := g'\<rparr>) \<and> 1 \<le> w \<and> w \<le> W \<and> w \<noteq> ex"
  using assms(3,1,2,4)
proof (induction arbitrary: g rule: random_warehouse_excluding.raw_induct[rotated, consumes 1, case_names 1])
  case (1 f G ex gn r)
  have "case random_warehouse G gn of None \<Rightarrow> gn_num_warehouses g0 \<noteq> 1 | Some (Inl e) \<Rightarrow> False
      | Some (Inr (x, gn')) \<Rightarrow> (1 \<le> x \<and> x \<le> W) \<and> (\<exists>g'. gn' = g0\<lparr>gn_rng := g'\<rparr>)"
    using yields_random_warehouse[OF 1(3,4), unfolded yields_def, rule_format, of g] unfolding 1(5) .
  then obtain w g' where w: "random_warehouse G gn = Some (Inr (w, g0\<lparr>gn_rng := g'\<rparr>))" "1 \<le> w" "w \<le> W"
    using 1(2) by (auto split: option.splits sum.splits)
  then show ?case using 1(1)[of G ex "g0\<lparr>gn_rng := g'\<rparr>" r g'] 1(2-4) by (auto split: if_splits)
qed

lemma yields_excluding:
  assumes "rng_laws G" "generator_ok W g0" "W \<noteq> 1"
  shows "yields g0 (random_warehouse_excluding G ex) (\<lambda>w. 1 \<le> w \<and> w \<le> W \<and> w \<noteq> ex)"
  unfolding yields_def
proof
  fix g
  show "case random_warehouse_excluding G ex (g0\<lparr>gn_rng := g\<rparr>) of None \<Rightarrow> gn_num_warehouses g0 \<noteq> 1 | Some (Inl e) \<Rightarrow> False
      | Some (Inr (x, gn')) \<Rightarrow> (1 \<le> x \<and> x \<le> W \<and> x \<noteq> ex) \<and> (\<exists>g'. gn' = g0\<lparr>gn_rng := g'\<rparr>)"
    using excluding_returns[OF assms(1,2) _ refl, of ex g] assms(2,3)
    by (cases "random_warehouse_excluding G ex (g0\<lparr>gn_rng := g\<rparr>)") (auto simp: generator_ok_def)
qed

lemma yields_draw_remote:
  assumes "0 \<le> p" "p \<le> 1" "generator_ok W g0"
  shows "yields g0 (draw_remote G p) (\<lambda>remote. \<not> remote \<or> W \<noteq> 1)"
proof (cases "W > 1")
  case True
  have "yields g0 (gen_bool G p) (\<lambda>remote. \<not> remote \<or> W \<noteq> 1)" by (rule yields_weaken[OF yields_bool[OF assms(1,2)]]) (use True in simp)
  then show ?thesis using True assms(3) by (simp add: yields_def draw_remote_def generator_ok_def)
next
  case False
  then show ?thesis using assms(3) by (auto simp: yields_def draw_remote_def greturn_def generator_ok_def)
qed

lemma yields_item:
  assumes "rng_laws G" "generator_ok W g0" "1 \<le> w" "w \<le> W"
  shows "yields g0 (generate_item G w) (order_item_ok W)"
proof -
  have sup: "yields g0 (gbind (draw_remote G REMOTE_WAREHOUSE_PROB) (\<lambda>remote. if remote then random_warehouse_excluding G w else greturn w))
      (\<lambda>sw. 1 \<le> sw \<and> sw \<le> W)"
  proof (rule yields_bind[OF yields_draw_remote[OF _ _ assms(2)]])
    fix remote assume "\<not> remote \<or> W \<noteq> 1"
    then show "yields g0 (if remote then random_warehouse_excluding G w else greturn w) (\<lambda>sw. 1 \<le> sw \<and> sw \<le> W)"
      using yields_weaken[OF yields_excluding[OF assms(1,2), of w]] assms(3,4) by (auto intro: yields_return)
  qed (simp_all add: tpcc_constants)
  show ?thesis
    unfolding generate_item_def random_item_def
  proof (rule yields_bind[OF yields_range[OF assms(1)]], simp add: tpcc_constants)
    fix i assume i: "1 \<le> i \<and> i \<le> NUM_ITEMS"
    show "yields g0 (gbind (gbind (draw_remote G REMOTE_WAREHOUSE_PROB) (\<lambda>remote. if remote then random_warehouse_excluding G w else greturn w))
        (\<lambda>sw. gbind (gen_range G 1 MAX_OL_QUANTITY) (\<lambda>quantity. greturn \<lparr>oi_i_id = i, oi_supply_w_id = sw, oi_quantity = int quantity\<rparr>)))
        (order_item_ok W)"
      by (intro yields_bind[OF sup] yields_bind[OF yields_range[OF assms(1)]] yields_return)
        (use i in \<open>auto simp: order_item_ok_def tpcc_constants\<close>)
  qed
qed

lemma yields_items:
  assumes "rng_laws G" "generator_ok W g0" "1 \<le> w" "w \<le> W"
  shows "yields g0 (generate_items G w n) (\<lambda>items. length items = n \<and> list_all (order_item_ok W) items)"
proof (induction n)
  case (Suc n)
  show ?case unfolding generate_items.simps
    by (intro yields_bind[OF yields_item[OF assms]] yields_bind[OF Suc] yields_return) simp
qed (simp add: yields_return)

lemma yields_new_order:
  assumes "rng_laws G" "generator_ok W g0"
  shows "yields g0 (generate_new_order G) (tpcc_txn_ok W)"
  unfolding generate_new_order_def random_district_def random_customer_def
proof (rule yields_bind[OF yields_random_warehouse[OF assms]])
  fix w assume w: "1 \<le> w \<and> w \<le> W"
  show "yields g0 (gbind (gen_range G 1 DISTRICTS_PER_WAREHOUSE) (\<lambda>d. gbind (gen_range G 1 CUSTOMERS_PER_DISTRICT)
      (\<lambda>c. gbind (gen_range G MIN_OL_CNT MAX_OL_CNT) (\<lambda>ol_cnt. gbind (generate_items G w ol_cnt) (\<lambda>items. greturn (NewOrder w d c items))))))
      (tpcc_txn_ok W)"
    by (intro yields_bind[OF yields_range[OF assms(1)]] yields_bind[OF yields_items[OF assms]] yields_return)
      (use w in \<open>auto simp: tpcc_constants\<close>)
qed

lemma yields_payment:
  assumes "rng_laws G" "generator_ok W g0"
  shows "yields g0 (generate_payment G) (tpcc_txn_ok W)"
  unfolding generate_payment_def random_district_def random_customer_def
proof (rule yields_bind[OF yields_random_warehouse[OF assms]], rule yields_bind[OF yields_range[OF assms(1)]], simp add: tpcc_constants)
  fix w d assume w: "1 \<le> w \<and> w \<le> W" and d: "1 \<le> d \<and> d \<le> DISTRICTS_PER_WAREHOUSE"
  let ?rem = "gbind (draw_remote G REMOTE_CUSTOMER_PROB)
        (\<lambda>remote. if remote then gbind (random_warehouse_excluding G w) (\<lambda>rw. gbind (gen_range G 1 DISTRICTS_PER_WAREHOUSE) (\<lambda>rd. greturn (rw, rd)))
                  else greturn (w, d))"
  have rem: "yields g0 ?rem (\<lambda>(cw, cd). 1 \<le> cw \<and> cw \<le> W \<and> 1 \<le> cd \<and> cd \<le> DISTRICTS_PER_WAREHOUSE)"
  proof (rule yields_bind[OF yields_draw_remote[OF _ _ assms(2)]])
    fix remote assume r: "\<not> remote \<or> W \<noteq> 1"
    show "yields g0 (if remote then gbind (random_warehouse_excluding G w) (\<lambda>rw. gbind (gen_range G 1 DISTRICTS_PER_WAREHOUSE) (\<lambda>rd. greturn (rw, rd)))
        else greturn (w, d)) (\<lambda>(cw, cd). 1 \<le> cw \<and> cw \<le> W \<and> 1 \<le> cd \<and> cd \<le> DISTRICTS_PER_WAREHOUSE)"
    proof (cases remote)
      case True
      then have "yields g0 (gbind (random_warehouse_excluding G w) (\<lambda>rw. gbind (gen_range G 1 DISTRICTS_PER_WAREHOUSE) (\<lambda>rd. greturn (rw, rd))))
          (\<lambda>(cw, cd). 1 \<le> cw \<and> cw \<le> W \<and> 1 \<le> cd \<and> cd \<le> DISTRICTS_PER_WAREHOUSE)"
        using r by (intro yields_bind[OF yields_excluding[OF assms]] yields_bind[OF yields_range[OF assms(1)]] yields_return)
          (auto simp: tpcc_constants)
      then show ?thesis using True by simp
    qed (use w d in \<open>simp add: yields_return\<close>)
  qed (simp_all add: tpcc_constants)
  show "yields g0 (gbind ?rem (\<lambda>(cw, cd). gbind (gen_range G 1 CUSTOMERS_PER_DISTRICT) (\<lambda>c. gbind (gen_range G MIN_PAYMENT_CENTS MAX_PAYMENT_CENTS)
      (\<lambda>h_amount. greturn (Payment w d cw cd c (int h_amount)))))) (tpcc_txn_ok W)"
  proof (rule yields_bind[OF rem], clarify)
    fix cw cd assume "1 \<le> cw" "cw \<le> W" "1 \<le> cd" "cd \<le> DISTRICTS_PER_WAREHOUSE"
    then show "yields g0 (gbind (gen_range G 1 CUSTOMERS_PER_DISTRICT) (\<lambda>c. gbind (gen_range G MIN_PAYMENT_CENTS MAX_PAYMENT_CENTS)
      (\<lambda>h_amount. greturn (Payment w d cw cd c (int h_amount))))) (tpcc_txn_ok W)"
      by (intro yields_bind[OF yields_range[OF assms(1)]] yields_return) (use w d in \<open>auto simp: tpcc_constants\<close>)
  qed
qed


section \<open>Rotation of the hotspot\<close>

definition rotated :: "'g tpcc_generator \<Rightarrow> 'g tpcc_generator" where
  "rotated gn =
     (if gn_rotation_interval_secs gn = 0 \<or> gn_num_nodes gn \<le> 1 then gn
      else if gn_txn_count_since_rotation gn + 1 \<ge> gn_expected_tps gn * gn_rotation_interval_secs gn
      then gn\<lparr>gn_current_hotspot_node := (gn_current_hotspot_node gn + 1) mod gn_num_nodes gn, gn_txn_count_since_rotation := 0\<rparr>
      else gn\<lparr>gn_txn_count_since_rotation := gn_txn_count_since_rotation gn + 1\<rparr>)"

definition rotation_ok :: "'g tpcc_generator \<Rightarrow> bool" where
  "rotation_ok gn \<longleftrightarrow>
     gn_expected_tps gn * gn_rotation_interval_secs gn < 2 ^ 64 \<and>
     (gn_txn_count_since_rotation gn = 0 \<or> gn_txn_count_since_rotation gn < gn_expected_tps gn * gn_rotation_interval_secs gn)"

lemma maybe_rotate_hotspot_ok: "rotation_ok gn \<Longrightarrow> maybe_rotate_hotspot bd gn = Some (Inr ((), rotated gn))"
  by (auto simp: maybe_rotate_hotspot_def rotated_def rotation_ok_def fit_u64_id)

lemma rotated_keeps:
  "rotation_ok gn \<Longrightarrow> rotation_ok (rotated gn)" "generator_ok W gn \<Longrightarrow> generator_ok W (rotated gn)"
  "rotated (gn\<lparr>gn_rng := g\<rparr>) = (rotated gn)\<lparr>gn_rng := g\<rparr>" "gn_payment_ratio (rotated gn) = gn_payment_ratio gn"
  by (auto simp: rotation_ok_def generator_ok_def rotated_def)

lemma rotated_funpow:
  assumes "gn_current_hotspot_node gn = 0" "gn_txn_count_since_rotation gn = 0" "0 < gn_rotation_interval_secs gn" "1 < gn_num_nodes gn"
    and P: "P = gn_expected_tps gn * gn_rotation_interval_secs gn" "0 < P"
  shows "(rotated ^^ n) gn = gn\<lparr>gn_current_hotspot_node := (n div P) mod gn_num_nodes gn, gn_txn_count_since_rotation := n mod P\<rparr>"
proof (induction n)
  case 0
  then show ?case using assms by simp
next
  case (Suc n)
  let ?gn = "(rotated ^^ n) gn"
  show ?case
  proof (cases "Suc (n mod P) = P")
    case True
    then have "Suc n mod P = 0" "Suc n div P = Suc (n div P)" using P(2) by (simp_all add: mod_Suc div_Suc)
    then show ?thesis using True assms(3,4) P Suc.IH by (simp add: rotated_def mod_Suc_eq)
  next
    case False
    then have "n mod P + 1 < P" using mod_less_divisor[OF P(2), of n] by linarith
    then show ?thesis using False assms(3,4) P Suc.IH by (simp add: rotated_def mod_Suc div_Suc)
  qed
qed

lemma generate_transaction_yields:
  assumes "rng_laws G" "generator_ok W g0" "rotation_ok g0"
  shows "case generate_transaction G bd (g0\<lparr>gn_rng := g\<rparr>) of None \<Rightarrow> W \<noteq> 1 | Some (Inl e) \<Rightarrow> False
      | Some (Inr (t, gn')) \<Rightarrow> tpcc_txn_ok W t \<and> (\<exists>g'. gn' = (rotated g0)\<lparr>gn_rng := g'\<rparr>)"
proof -
  let ?f = "\<lambda>payment. if payment then generate_payment G else generate_new_order G"
  have ok: "generator_ok W (rotated g0)" "gn_num_warehouses (rotated g0) = W" using rotated_keeps(2)[OF assms(2)] by (simp_all add: generator_ok_def)
  have "yields (rotated g0) (?f b) (tpcc_txn_ok W)" for b using yields_payment[OF assms(1) ok(1)] yields_new_order[OF assms(1) ok(1)] by simp
  moreover have "yields (rotated g0) (gen_bool G (gn_payment_ratio g0)) (\<lambda>_. True)"
    by (rule yields_bool) (use assms(2) in \<open>simp_all add: generator_ok_def\<close>)
  ultimately have "yields (rotated g0) (gbind (gen_bool G (gn_payment_ratio g0)) ?f) (tpcc_txn_ok W)" by (rule yields_bind[rotated])
  moreover have "maybe_rotate_hotspot bd (g0\<lparr>gn_rng := g\<rparr>) = Some (Inr ((), (rotated g0)\<lparr>gn_rng := g\<rparr>))"
    using maybe_rotate_hotspot_ok[of "g0\<lparr>gn_rng := g\<rparr>" bd] assms(3) by (simp add: rotated_keeps(3) rotation_ok_def)
  ultimately show ?thesis unfolding yields_def ok(2) generate_transaction_def gbind_def[of "maybe_rotate_hotspot bd"]
    by (simp add: rotated_keeps(4))
qed

lemma generate_many_yields:
  assumes "rng_laws G" "generator_ok W g0" "rotation_ok g0"
  shows "case generate_many G bd n (g0\<lparr>gn_rng := g\<rparr>) of None \<Rightarrow> W \<noteq> 1 | Some (Inl e) \<Rightarrow> False
      | Some (Inr (ts, gn')) \<Rightarrow> (length ts = n \<and> list_all (tpcc_txn_ok W) ts) \<and> (\<exists>g'. gn' = ((rotated ^^ n) g0)\<lparr>gn_rng := g'\<rparr>)"
  using assms(2,3)
proof (induction n arbitrary: g0 g)
  case 0
  then show ?case by (auto simp: greturn_def)
next
  case (Suc n)
  note step = generate_transaction_yields[OF assms(1) Suc.prems, of bd g]
  show ?case
  proof (cases "generate_transaction G bd (g0\<lparr>gn_rng := g\<rparr>)")
    case None
    then show ?thesis using step by (simp add: gbind_def)
  next
    case (Some r)
    then obtain t g' where r: "r = Inr (t, (rotated g0)\<lparr>gn_rng := g'\<rparr>)" "tpcc_txn_ok W t"
      using step by (auto split: sum.splits)
    note IH = Suc.IH[OF rotated_keeps(2)[OF Suc.prems(1)] rotated_keeps(1)[OF Suc.prems(2)], of g']
    show ?thesis
    proof (cases "generate_many G bd n ((rotated g0)\<lparr>gn_rng := g'\<rparr>)")
      case None
      then show ?thesis using IH Some r by (simp add: gbind_def)
    next
      case (Some r')
      then show ?thesis using IH \<open>generate_transaction G bd (g0\<lparr>gn_rng := g\<rparr>) = Some r\<close> r
        by (auto simp: gbind_def greturn_def funpow_swap1 split: sum.splits)
    qed
  qed
qed


section \<open>Splitting the run over the tasks\<close>

lemma chunk_counts: "sum_list (map (chunk_count m c) [0..<n]) = min (n * c) m"
  by (induction n) (auto simp: chunk_count_def min_def)

lemma div_tasks_ok: "n + NUM_GENERATOR_TASKS < 2 ^ 64 \<Longrightarrow> div_tasks bd n = Inr ((n + 15) div 16)"
  by (simp add: div_tasks_def NUM_GENERATOR_TASKS_def fit_unsigned_def nat_add_distrib nat_diff_distrib)

lemma chunks_cover: "sum_list (map (chunk_count m ((m + 15) div 16)) [0..<NUM_GENERATOR_TASKS]) = m"
  unfolding chunk_counts NUM_GENERATOR_TASKS_def by simp

definition workload_ok :: "tpcc_workload \<Rightarrow> bool" where
  "workload_ok w \<longleftrightarrow> 1 \<le> tw_num_warehouses w \<and> tw_num_warehouses w < 2 ^ 32 \<and> 0 \<le> tw_payment_ratio w \<and> tw_payment_ratio w \<le> 1"

lemma generator_task_yields:
  assumes "rng_laws G" "workload_ok w" "tps + NUM_GENERATOR_TASKS < 2 ^ 64" "(tps + 15) div 16 * tw_rotation_interval_secs w < 2 ^ 64"
  shows "case generator_task G bd w tps n task of None \<Rightarrow> tw_num_warehouses w \<noteq> 1 | Some (Inl e) \<Rightarrow> False
      | Some (Inr ts) \<Rightarrow> length ts = n \<and> list_all (tpcc_txn_ok (tw_num_warehouses w)) ts"
proof -
  let ?gn = "generator_new G (tw_num_warehouses w) (tw_payment_ratio w) (tw_num_nodes w) (tw_hotspot_percentage w)
                      (tw_rotation_interval_secs w) ((tps + 15) div 16) task"
  have "generator_ok (tw_num_warehouses w) ?gn" "rotation_ok ?gn"
    using assms(2,4) by (auto simp: generator_ok_def rotation_ok_def generator_new_def workload_ok_def)
  from generate_many_yields[OF assms(1) this, where bd = bd and n = n and g = "gn_rng ?gn"] show ?thesis
    unfolding generator_task_def div_tasks_ok[OF assms(3)] by (auto simp: Let_def split: option.splits sum.splits)
qed

lemma join_tasks_yields:
  assumes "\<And>i. i \<in> set is \<Longrightarrow> case h i of None \<Rightarrow> W \<noteq> 1 | Some (Inl e) \<Rightarrow> False | Some (Inr ts) \<Rightarrow> length ts = f i \<and> list_all Q ts"
  shows "case join_tasks (map h is) of None \<Rightarrow> W \<noteq> (1 :: nat) | Some ts \<Rightarrow> length ts = sum_list (map f is) \<and> list_all Q ts"
  using assms
proof (induction "is")
  case (Cons i js)
  have h: "case h i of None \<Rightarrow> W \<noteq> 1 | Some (Inl e) \<Rightarrow> False | Some (Inr ts) \<Rightarrow> length ts = f i \<and> list_all Q ts" using Cons.prems by simp
  have js: "case join_tasks (map h js) of None \<Rightarrow> W \<noteq> 1 | Some ts \<Rightarrow> length ts = sum_list (map f js) \<and> list_all Q ts"
    by (rule Cons.IH) (use Cons.prems in simp)
  show ?case
  proof (cases "h i")
    case (Some r)
    then obtain ts where "h i = Some (Inr ts)" "length ts = f i" "list_all Q ts" using h by (cases r) simp_all
    then show ?thesis using js by (auto split: option.splits)
  qed (use h in simp)
qed simp

lemma generation_fits:
  assumes "m = load config * (bench_duration config div 10 ^ 9)" "m + NUM_GENERATOR_TASKS < 2 ^ 64"
  shows "tpcc_generate_transactions G bd config =
     map_option Inr (join_tasks (map (\<lambda>i. generator_task G bd (workload_of (workload config)) (load config) (chunk_count m ((m + 15) div 16) i) i)
       [0..<NUM_GENERATOR_TASKS]))"
  using fit_u64_id[of m bd] div_tasks_ok[OF assms(2), of bd] assms by (simp add: tpcc_generate_transactions_def)


section \<open>Properties\<close>

text \<open>
  C23. The workload is complete and valid: for a configuration with at least one warehouse, a payment ratio between 0 and
  1 and numbers that fit in 64 bits, the sixteen generator tasks together return exactly load times duration transactions, each with the
  parameters of the benchmark (existing warehouses, districts, customers and items, 5 to 15 lines of quantity 1 to 10,
  payments between 100 and 500000 cents), for every seed and random number generator; with a single warehouse the generation always
  terminates, with several it may not.
\<close>

theorem tpcc_workload_complete_and_valid:
  assumes "rng_laws G" "workload config = Tpcc W ratio nodes hotspot rotation" "1 \<le> W" "W < 2 ^ 32" "0 \<le> ratio" "ratio \<le> 1"
    and "load config * (bench_duration config div 10 ^ 9) + NUM_GENERATOR_TASKS < 2 ^ 64"
    and "load config + NUM_GENERATOR_TASKS < 2 ^ 64" "(load config + 15) div 16 * rotation < 2 ^ 64"
  shows "case tpcc_generate_transactions G bd config of
       None \<Rightarrow> W \<noteq> 1
     | Some (Inl e) \<Rightarrow> False
     | Some (Inr ts) \<Rightarrow> length ts = load config * (bench_duration config div 10 ^ 9) \<and> list_all (tpcc_txn_ok W) ts"
proof -
  let ?w = "workload_of (workload config)" and ?m = "load config * (bench_duration config div 10 ^ 9)"
  have w: "workload_ok ?w" "tw_num_warehouses ?w = W" "tw_rotation_interval_secs ?w = rotation"
    using assms(2-6) by (simp_all add: workload_ok_def workload_of_def)
  note task = generator_task_yields[OF assms(1) w(1) assms(8), unfolded w(2,3), OF assms(9), where bd = bd]
  have "case join_tasks (map (\<lambda>i. generator_task G bd ?w (load config) (chunk_count ?m ((?m + 15) div 16) i) i) [0..<NUM_GENERATOR_TASKS]) of
      None \<Rightarrow> W \<noteq> 1 | Some ts \<Rightarrow> length ts = sum_list (map (chunk_count ?m ((?m + 15) div 16)) [0..<NUM_GENERATOR_TASKS]) \<and> list_all (tpcc_txn_ok W) ts"
    by (rule join_tasks_yields) (rule task)
  then show ?thesis unfolding generation_fits[OF refl assms(7)] chunks_cover by (auto split: option.splits)
qed

definition low_rng :: "unit rng_ops" where
  "low_rng = \<lparr>rng_range = (\<lambda>lo hi g. (lo, g)), rng_index = (\<lambda>n g. (0, g)), rng_bool = (\<lambda>p g. (p \<ge> 0.15, g)), rng_seed = (\<lambda>_. ())\<rparr>"

lemma low_rng_laws: "rng_laws low_rng"
  by (simp add: rng_laws_def low_rng_def)

definition sample_config :: "f64 \<Rightarrow> benchmark_parameters" where
  "sample_config ratio = benchmark_default\<lparr>load := 100, workload := Tpcc 1 ratio 4 0.8 20\<rparr>"

lemma sample_config_sel [simp]:
  "load (sample_config ratio) = 100" "workload (sample_config ratio) = Tpcc 1 ratio 4 0.8 20" "bench_duration (sample_config ratio) = 30 * 10 ^ 9"
  by (simp_all add: sample_config_def benchmark_default_def from_secs_def)

theorem tpcc_workload_complete_and_valid_witness:
  "\<exists>ts. tpcc_generate_transactions low_rng Debug (sample_config 0.5) = Some (Inr ts) \<and> length ts = 3000 \<and> list_all (tpcc_txn_ok 1) ts"
  using tpcc_workload_complete_and_valid[OF low_rng_laws sample_config_sel(2)[of "0.5"], where bd = Debug]
  by (auto simp: NUM_GENERATOR_TASKS_def split: option.splits sum.splits)

text \<open>
  A payment ratio outside 0 to 1 is not rejected and silently yields an empty workload: every generator task that has a
  transaction to generate panics, the join drops the chunks of panicked tasks, and the run starts with no transactions.
\<close>

theorem invalid_payment_ratio_generates_nothing:
  assumes "workload config = Tpcc W ratio nodes hotspot rotation" "ratio < 0 \<or> 1 < ratio"
    and "load config * (bench_duration config div 10 ^ 9) + NUM_GENERATOR_TASKS < 2 ^ 64"
  shows "tpcc_generate_transactions G bd config = Some (Inr [])"
proof -
  let ?w = "workload_of (workload config)"
  have task: "(\<exists>e. generator_task G bd ?w tps n i = Some (Inl e)) \<or> generator_task G bd ?w tps n i = Some (Inr [])" for tps n i
  proof (cases n)
    case (Suc k)
    have "gn_payment_ratio gn' = ratio" if "maybe_rotate_hotspot bd gn = Some (Inr (u, gn'))" "gn_payment_ratio gn = ratio"
      for u and gn gn' :: "'a tpcc_generator"
      using that by (auto simp: maybe_rotate_hotspot_def and_then_eq_Inr split: if_splits)
    moreover have "maybe_rotate_hotspot bd gn \<noteq> None" for gn :: "'a tpcc_generator" by (simp add: maybe_rotate_hotspot_def)
    ultimately have gt: "\<exists>e. generate_transaction G bd gn = Some (Inl e)" if "gn_payment_ratio gn = ratio" for gn
      using that assms(2) by (auto simp: generate_transaction_def gbind_def gen_bool_def split: option.splits sum.splits)
    have gm: "\<exists>e. generate_many G bd n gn = Some (Inl e)" if "gn_payment_ratio gn = ratio" for gn
      using gt[OF that] by (auto simp: Suc gbind_def)
    show ?thesis
    proof (cases "div_tasks bd tps")
      case (Inr p)
      have "gn_payment_ratio (generator_new G (tw_num_warehouses ?w) (tw_payment_ratio ?w) (tw_num_nodes ?w) (tw_hotspot_percentage ?w)
          (tw_rotation_interval_secs ?w) p i) = ratio" using assms(1) by (simp add: generator_new_def workload_of_def)
      from gm[OF this] Inr show ?thesis by (auto simp: generator_task_def Let_def)
    qed (simp add: generator_task_def)
  qed (auto simp: generator_task_def greturn_def Let_def split: sum.splits)
  have "join_tasks (map (\<lambda>i. generator_task G bd ?w tps (f i) i) is) = Some []" for tps f "is"
  proof (induction "is")
    case (Cons a "is")
    then show ?case using task[of tps "f a" a] by auto
  qed simp
  then show ?thesis unfolding generation_fits[OF refl assms(3)] by simp
qed

theorem invalid_payment_ratio_generates_nothing_witness:
  "tpcc_generate_transactions low_rng Release (sample_config 50) = Some (Inr [])"
  using invalid_payment_ratio_generates_nothing[OF sample_config_sel(2)[of 50], of low_rng Release]
  by (simp add: NUM_GENERATOR_TASKS_def)

text \<open>
  The hotspot rotates on time: when \<open>n\<close> transactions have been generated by a fresh generator, the hotspot is on
  node \<open>n div (tps * interval) mod num_nodes\<close>, and the counter of transactions since the last rotation is the remainder, whatever
  the random numbers.
\<close>

theorem hotspot_rotates_on_time:
  assumes "rng_laws G" "1 \<le> W" "W < 2 ^ 32" "0 \<le> ratio" "ratio \<le> 1" "1 < nodes" "0 < tps * interval" "tps * interval < 2 ^ 64"
    and "generate_many G bd n (generator_new G W ratio nodes hotspot interval tps seed) = Some (Inr (ts, gn'))"
  shows "gn_current_hotspot_node gn' = n div (tps * interval) mod nodes \<and> gn_txn_count_since_rotation gn' = n mod (tps * interval)"
proof -
  let ?gn = "generator_new G W ratio nodes hotspot interval tps seed"
  have "generator_ok W ?gn" "rotation_ok ?gn" using assms(2-8) by (auto simp: generator_ok_def rotation_ok_def generator_new_def)
  from generate_many_yields[OF assms(1) this, where bd = bd and n = n and g = "gn_rng ?gn"] assms(9)
  obtain g' where "gn' = ((rotated ^^ n) ?gn)\<lparr>gn_rng := g'\<rparr>" by auto
  moreover have "(rotated ^^ n) ?gn = ?gn\<lparr>gn_current_hotspot_node := (n div (tps * interval)) mod gn_num_nodes ?gn, gn_txn_count_since_rotation := n mod (tps * interval)\<rparr>"
    by (rule rotated_funpow) (use assms(6,7) in \<open>simp_all add: generator_new_def\<close>)
  ultimately show ?thesis using assms(6) by (simp add: generator_new_def)
qed

theorem hotspot_rotates_on_time_witness:
  "\<exists>ts gn'. generate_many low_rng Debug 4000 (generator_new low_rng 1 0.5 4 0.8 20 100 42) = Some (Inr (ts, gn')) \<and> gn_current_hotspot_node gn' = 2"
proof -
  let ?gn = "generator_new low_rng 1 0.5 4 0.8 20 100 42"
  have "generator_ok 1 ?gn" "rotation_ok ?gn" by (simp_all add: generator_ok_def rotation_ok_def generator_new_def)
  note gen = generate_many_yields[OF low_rng_laws this, where bd = Debug and n = 4000 and g = "()"]
  have gn: "?gn\<lparr>gn_rng := ()\<rparr> = ?gn" by (simp add: generator_new_def)
  obtain ts gn' where r: "generate_many low_rng Debug 4000 ?gn = Some (Inr (ts, gn'))"
    using gen[unfolded gn] by (cases "generate_many low_rng Debug 4000 ?gn") (auto split: sum.splits)
  from hotspot_rotates_on_time[OF low_rng_laws _ _ _ _ _ _ _ r] r show ?thesis by simp
qed

text \<open>
  C40. The generator can loop forever: when every transaction goes to the hotspot (\<open>hotspot_percentage\<close> is 1) and the
  hotspot node owns a single warehouse, the search for a remote warehouse other than that one does not terminate, for any random number
  generator, and so the generation of a payment whose remote draw comes out true never returns.
\<close>

theorem single_hotspot_warehouse_diverges:
  assumes "rng_laws G" "gn_hotspot_percentage gn = 1" "1 < gn_num_nodes gn" "warehouses_on_node gn (gn_current_hotspot_node gn) = [w]"
  shows "random_warehouse_excluding G w gn = None"
proof (rule ccontr)
  assume "random_warehouse_excluding G w gn \<noteq> None"
  then obtain r where "random_warehouse_excluding G w gn = Some r" by blast
  then show False using assms
  proof (induction rule: random_warehouse_excluding.raw_induct[rotated, consumes 1, case_names 1])
    case (1 f G w gn r)
    have law: "fst (rng_bool G 1 g)" "fst (rng_index G 1 g) < 1" for g using 1(3) unfolding rng_laws_def by (blast intro: zero_less_one)+
    obtain g1 where b: "rng_bool G 1 (gn_rng gn) = (True, g1)" using law(1)[of "gn_rng gn"] by (cases "rng_bool G 1 (gn_rng gn)") auto
    obtain g2 where i: "rng_index G 1 g1 = (0, g2)" using law(2)[of g1] by (cases "rng_index G 1 g1") auto
    let ?gn = "gn\<lparr>gn_rng := g2\<rparr>"
    have same: "warehouses_on_node (gn\<lparr>gn_rng := g\<rparr>) k = warehouses_on_node gn k" for g k
      by (simp add: warehouses_on_node_def warehouse_to_node_def)
    have draw: "random_warehouse G gn = Some (Inr (w, ?gn))"
      using 1(4-6) b i[simplified]
      by (simp add: random_warehouse_def gbind_def gen_bool_def random_warehouse_from_node_def same gen_index_def greturn_def)
    have rec: "f G w ?gn = Some r" using 1(2) by (simp add: draw)
    show False by (rule 1(1)[OF rec 1(3)]) (use 1(4-6) same in simp_all)
  qed
qed

theorem single_hotspot_warehouse_diverges_witness:
  "random_warehouse_excluding low_rng 1 (generator_new low_rng 2 0.5 2 1 0 100 7) = None \<and>
   generate_payment low_rng (generator_new low_rng 2 0.5 2 1 0 100 7) = None"
proof -
  let ?gn = "generator_new low_rng 2 0.5 2 1 0 100 7"
  have w: "warehouses_on_node ?gn 0 = [1]"
    by (simp add: warehouses_on_node_def warehouse_to_node_def generator_new_def ids_to_def upt_rec)
  have ex: "random_warehouse_excluding low_rng 1 ?gn = None"
    by (rule single_hotspot_warehouse_diverges[OF low_rng_laws]) (use w in \<open>simp_all add: generator_new_def\<close>)
  moreover have "generate_payment low_rng ?gn = None"
    using ex w
    by (simp add: generate_payment_def gbind_def random_warehouse_def gen_bool_def random_warehouse_from_node_def gen_index_def
        random_district_def gen_range_def draw_remote_def greturn_def low_rng_def generator_new_def tpcc_constants)
  ultimately show ?thesis by blast
qed

end
