(* ===== verification/Load_Generator.thy ===== *)
theory Load_Generator
  imports Config Api
begin

text \<open>
  The load generator (\<^verbatim>\<open>src/client/load_generator.rs\<close>) and the distributions of the times between requests
  (\<^verbatim>\<open>src/client/request_arrival_distribution.rs\<close>).  The clock, the state of the channels and the random numbers are the
  environment \<open>submit_env\<close> of a client: whether the warm-up is still running at the \<open>i\<close>-th test, the time stamp of the \<open>i\<close>-th send and whether the
  channel accepts it, the samples of \<^verbatim>\<open>rand_distr\<close> and \<^verbatim>\<open>rand\<close>.
\<close>


section \<open>Arrival distributions\<close>

datatype distribution = Zero | Constant nat | Exponential f64 | Bimodal f64 nat nat

fun distribution_name :: "distribution \<Rightarrow> string" where
  "distribution_name Zero = ''zero''"
| "distribution_name (Constant _) = ''constant''"
| "distribution_name (Exponential _) = ''exponential''"
| "distribution_name (Bimodal _ _ _) = ''bimodal''"

text \<open>\<open>sm_exp m\<close> draws from the exponential distribution of mean \<open>m\<close>, as a whole number; both draws may panic.\<close>

record 'g sampler =
  sm_exp :: "f64 \<Rightarrow> 'g \<Rightarrow> (nat \<times> 'g) res"
  sm_bool :: "f64 \<Rightarrow> 'g \<Rightarrow> (bool \<times> 'g) res"

fun sample :: "'g sampler \<Rightarrow> distribution \<Rightarrow> 'g \<Rightarrow> (nat \<times> 'g) res" where
  "sample S Zero g = Inr (0, g)"
| "sample S (Constant m) g = Inr (m, g)"
| "sample S (Exponential m) g = sm_exp S m g"
| "sample S (Bimodal p v1 v2) g = and_then (sm_bool S p g) (\<lambda>(b, g). Inr (if b then v1 else v2, g))"

fun split_on :: "char \<Rightarrow> string \<Rightarrow> string list" where
  "split_on c [] = [[]]"
| "split_on c (x # xs) = (if x = c then [] # split_on c xs else (x # hd (split_on c xs)) # tl (split_on c xs))"

text \<open>\<^verbatim>\<open>u64::from_str\<close>: an optional plus sign and digits, no larger than the type.\<close>

definition parse_u64 :: "string \<Rightarrow> nat option" where
  "parse_u64 s =
     (let ds = (case s of [] \<Rightarrow> [] | c # cs \<Rightarrow> if c = CHR ''+'' then cs else s) in
      if ds = [] \<or> \<not> list_all (\<lambda>c. 48 \<le> (of_char c :: nat) \<and> (of_char c :: nat) < 58) ds then None
      else let n = foldl (\<lambda>a c. a * 10 + (of_char c - 48)) 0 ds in if n < 2 ^ 64 then Some n else None)"

definition create_distribution :: "(string \<Rightarrow> f64 option) \<Rightarrow> string \<Rightarrow> (string + distribution) res" where
  "create_distribution parse_f64 spec =
     (let tokens = split_on (CHR '':'') spec in
      if hd tokens = ''zero'' then Inr (Inr Zero)
      else if hd tokens = ''constant'' then
        (if length tokens \<noteq> 2 then Inl (Panic ''assertion failed: tokens.len() == 2'')
         else and_then (unwrap ''parse'' (parse_u64 (tokens ! 1))) (\<lambda>v. Inr (Inr (Constant v))))
      else if hd tokens = ''exponential'' then
        (if length tokens \<noteq> 2 then Inl (Panic ''assertion failed: tokens.len() == 2'')
         else and_then (unwrap ''parse'' (parse_f64 (tokens ! 1))) (\<lambda>v. Inr (Inr (Exponential v))))
      else if hd tokens = ''bimodal'' then
        (if length tokens \<noteq> 4 then Inl (Panic ''assertion failed: tokens.len() == 4'')
         else and_then (unwrap ''parse'' (parse_f64 (tokens ! 1)))
           (\<lambda>p. and_then (unwrap ''parse'' (parse_u64 (tokens ! 2)))
           (\<lambda>v1. and_then (unwrap ''parse'' (parse_u64 (tokens ! 3)))
           (\<lambda>v2. Inr (Inr (Bimodal p v1 v2))))))
      else Inr (Inl ''bad distribution spec''))"


section \<open>The load generator\<close>

definition NUM_CLIENTS :: nat where "NUM_CLIENTS = 16"

record load_generator =
  lg_config :: benchmark_parameters
  lg_arrival :: distribution

text \<open>Integer division by the load, then the product.\<close>

definition load_generator_new :: "benchmark_parameters \<Rightarrow> load_generator res" where
  "load_generator_new config =
     (if load config = 0 then Inl (Panic ''attempt to divide by zero'')
      else let ns_per_packet = 1000000000 div load config * NUM_CLIENTS
           in Inr \<lparr>lg_config = config, lg_arrival = Exponential (real ns_per_packet)\<rparr>)"

function chunks_of :: "nat \<Rightarrow> 'a list \<Rightarrow> 'a list list" where
  "chunks_of n xs = (if n = 0 \<or> xs = [] then [] else take n xs # chunks_of n (drop n xs))"
  by pat_completeness auto
termination by (relation "measure (\<lambda>(n, xs). length xs)") auto

declare chunks_of.simps [simp del]

definition split_transactions :: "'t list \<Rightarrow> 't list list res" where
  "split_transactions transactions =
     (let chunk_size = (length transactions + NUM_CLIENTS - 1) div NUM_CLIENTS in
      if chunk_size = 0 then Inl (Panic ''chunk size must be non-zero'') else Inr (chunks_of chunk_size transactions))"

fun warmup_arrival :: "distribution \<Rightarrow> distribution" where
  "warmup_arrival Zero = Zero"
| "warmup_arrival (Constant interval) = Constant (interval * 10)"
| "warmup_arrival (Exponential rate) = Exponential (rate * 10)"
| "warmup_arrival (Bimodal p v1 v2) = Bimodal p (v1 * 10) (v2 * 10)"

record 'g submit_env =
  se_warm :: "nat \<Rightarrow> bool"
  se_now :: "nat \<Rightarrow> f64"
  se_accepts :: "nat \<Rightarrow> bool"
  se_sampler :: "'g sampler"

datatype submit_status = Running | ChannelClosed | Panicked panic

record ('t, 'o, 'g) submit_state =
  sb_sent :: "('t, 'o) txn_ts list"
  sb_next_ts :: duration
  sb_rng :: 'g
  sb_status :: submit_status

definition send_single_transaction ::
  "('t, 'd, 'o::linorder) executable_transaction \<Rightarrow> 'g submit_env \<Rightarrow> benchmark_parameters \<Rightarrow> nat \<Rightarrow> 't \<Rightarrow> ('t, 'o) txn_ts" where
  "send_single_transaction T E config i tx =
     txn_new tx (se_now E i) (et_shared_object_ids T tx) (bench_verification_duration config) (bench_expected_stateful_duration config)"

definition send_with_timing ::
  "('t, 'd, 'o::linorder) executable_transaction \<Rightarrow> 'g submit_env \<Rightarrow> benchmark_parameters \<Rightarrow> distribution \<Rightarrow> nat \<Rightarrow> 't \<Rightarrow>
   ('t, 'o, 'g) submit_state \<Rightarrow> ('t, 'o, 'g) submit_state" where
  "send_with_timing T E config arrival i tx st =
     (if \<not> se_accepts E i then st\<lparr>sb_status := ChannelClosed\<rparr>
      else let st = st\<lparr>sb_sent := sb_sent st @ [send_single_transaction T E config i tx]\<rparr>
           in case sample (se_sampler E) arrival (sb_rng st) of
                Inl e \<Rightarrow> st\<lparr>sb_status := Panicked e\<rparr>
              | Inr (ns, g) \<Rightarrow> st\<lparr>sb_next_ts := sb_next_ts st + ns, sb_rng := g\<rparr>)"

fun submit_normal ::
  "('t, 'd, 'o::linorder) executable_transaction \<Rightarrow> 'g submit_env \<Rightarrow> benchmark_parameters \<Rightarrow> distribution \<Rightarrow> nat \<Rightarrow> 't list \<Rightarrow>
   ('t, 'o, 'g) submit_state \<Rightarrow> ('t, 'o, 'g) submit_state" where
  "submit_normal T E config arrival i [] st = st"
| "submit_normal T E config arrival i (tx # txs) st =
     (let st = send_with_timing T E config arrival i tx st
      in if sb_status st = Running then submit_normal T E config arrival (i + 1) txs st else st)"

fun submit_warmup ::
  "('t, 'd, 'o::linorder) executable_transaction \<Rightarrow> 'g submit_env \<Rightarrow> benchmark_parameters \<Rightarrow> distribution \<Rightarrow> nat \<Rightarrow> 't list \<Rightarrow>
   ('t, 'o, 'g) submit_state \<Rightarrow> ('t, 'o, 'g) submit_state" where
  "submit_warmup T E config arrival i txs st =
     (if se_warm E i then
        (case txs of
           [] \<Rightarrow> submit_normal T E config arrival i [] st
         | tx # txs' \<Rightarrow>
             (let st = send_with_timing T E config (warmup_arrival arrival) i tx st
              in if sb_status st = Running then submit_warmup T E config arrival (i + 1) txs' st else st))
      else submit_normal T E config arrival i txs st)"

declare submit_warmup.simps [simp del]

definition submit_transactions ::
  "('t, 'd, 'o::linorder) executable_transaction \<Rightarrow> 'g submit_env \<Rightarrow> benchmark_parameters \<Rightarrow> distribution \<Rightarrow> 't list \<Rightarrow> 'g \<Rightarrow> ('t, 'o, 'g) submit_state" where
  "submit_transactions T E config arrival transactions g =
     submit_warmup T E config arrival 0 transactions \<lparr>sb_sent = [], sb_next_ts = 0, sb_rng = g, sb_status = Running\<rparr>"

text \<open>One client for each connection; \<open>envs\<close> are the environments of the connections that were established.\<close>

definition real_run ::
  "('t, 'd, 'o::linorder) executable_transaction \<Rightarrow> load_generator \<Rightarrow> ('g submit_env \<times> 'g) list \<Rightarrow> 't list \<Rightarrow> ('t, 'o, 'g) submit_state list res" where
  "real_run T lg envs transactions =
     and_then (split_transactions transactions)
       (\<lambda>split. Inr (map (\<lambda>((E, g), tx_chunk). submit_transactions T E (lg_config lg) (lg_arrival lg) tx_chunk g) (zip envs split)))"


section \<open>Splitting\<close>

lemma chunks_of_concat: "0 < n \<Longrightarrow> concat (chunks_of n xs) = xs"
proof (induction xs rule: length_induct)
  case (1 xs)
  then show ?case by (subst chunks_of.simps) (simp add: drop_eq_Nil)
qed

lemma chunks_of_sizes: "c \<in> set (chunks_of n xs) \<Longrightarrow> c \<noteq> [] \<and> length c \<le> n"
proof (induction n xs rule: chunks_of.induct)
  case (1 n xs)
  show ?case
  proof (cases "n = 0 \<or> xs = []")
    case True
    then show ?thesis using 1(2) by (simp add: chunks_of.simps)
  next
    case False
    then have "c = take n xs \<or> c \<in> set (chunks_of n (drop n xs))" using 1(2) chunks_of.simps[of n xs] by simp
    then show ?thesis using 1(1)[OF False] False by auto
  qed
qed

lemma length_chunks_of: "0 < n \<Longrightarrow> length xs \<le> m * n \<Longrightarrow> length (chunks_of n xs) \<le> m"
proof (induction m arbitrary: xs)
  case 0
  then show ?case by (subst chunks_of.simps) simp
next
  case (Suc m)
  have "length (drop n xs) \<le> m * n" using Suc.prems(2) by simp
  then show ?case using Suc.IH[OF Suc.prems(1)] Suc.prems(1) by (subst chunks_of.simps) simp
qed

lemma split_transactions_spec:
  assumes "transactions \<noteq> []"
  shows "\<exists>split. split_transactions transactions = Inr split \<and> concat split = transactions \<and> length split \<le> NUM_CLIENTS \<and>
           (\<forall>c \<in> set split. c \<noteq> [] \<and> length c \<le> (length transactions + 15) div 16)"
proof -
  let ?c = "(length transactions + 15) div 16"
  have c: "0 < ?c" using assms by (cases transactions) simp_all
  have "length transactions \<le> NUM_CLIENTS * ?c" by (simp add: NUM_CLIENTS_def)
  moreover have "split_transactions transactions = Inr (chunks_of ?c transactions)"
    using c by (simp add: split_transactions_def NUM_CLIENTS_def Let_def add.commute)
  ultimately show ?thesis
    using chunks_of_concat[OF c] chunks_of_sizes length_chunks_of[OF c, of transactions NUM_CLIENTS] by blast
qed


section \<open>Submission\<close>

text \<open>The channel accepts every transaction and the sampler draws from the two distributions in use without a panic.\<close>

definition healthy :: "'g submit_env \<Rightarrow> distribution \<Rightarrow> bool" where
  "healthy E arrival \<longleftrightarrow>
     (\<forall>i. se_accepts E i) \<and> (\<forall>g. \<exists>r. sample (se_sampler E) arrival g = Inr r) \<and> (\<forall>g. \<exists>r. sample (se_sampler E) (warmup_arrival arrival) g = Inr r)"

lemma send_with_timing_ok:
  assumes "se_accepts E i" "\<exists>r. sample (se_sampler E) arrival (sb_rng st) = Inr r" "sb_status st = Running"
  shows "sb_sent (send_with_timing T E config arrival i tx st) = sb_sent st @ [send_single_transaction T E config i tx] \<and>
         sb_status (send_with_timing T E config arrival i tx st) = Running"
  using assms by (auto simp: send_with_timing_def Let_def)

text \<open>The transactions of a client as they are sent, the \<open>i\<close>-th with the \<open>i\<close>-th time stamp.\<close>

fun stamped where
  "stamped T E config i [] = []"
| "stamped T E config i (tx # txs) = send_single_transaction T E config i tx # stamped T E config (i + 1) txs"

lemma submit_normal_ok:
  assumes "healthy E arrival" "sb_status st = Running"
  shows "sb_sent (submit_normal T E config arrival i txs st) = sb_sent st @ stamped T E config i txs \<and>
         sb_status (submit_normal T E config arrival i txs st) = Running"
  using assms(2)
proof (induction txs arbitrary: i st)
  case (Cons tx txs)
  have "sb_sent (send_with_timing T E config arrival i tx st) = sb_sent st @ [send_single_transaction T E config i tx] \<and>
      sb_status (send_with_timing T E config arrival i tx st) = Running"
    by (rule send_with_timing_ok) (use assms(1) Cons.prems in \<open>auto simp: healthy_def\<close>)
  then show ?case using Cons.IH[of "send_with_timing T E config arrival i tx st" "i + 1"] by (simp add: Let_def)
qed simp

lemma submit_warmup_ok:
  assumes "healthy E arrival" "sb_status st = Running"
  shows "sb_sent (submit_warmup T E config arrival i txs st) = sb_sent st @ stamped T E config i txs \<and>
         sb_status (submit_warmup T E config arrival i txs st) = Running"
  using assms(2)
proof (induction txs arbitrary: i st)
  case Nil
  then show ?case by (subst (1 2) submit_warmup.simps) simp
next
  case (Cons tx txs)
  show ?case
  proof (cases "se_warm E i")
    case True
    have "sb_sent (send_with_timing T E config (warmup_arrival arrival) i tx st) = sb_sent st @ [send_single_transaction T E config i tx] \<and>
        sb_status (send_with_timing T E config (warmup_arrival arrival) i tx st) = Running"
      by (rule send_with_timing_ok) (use assms(1) Cons.prems in \<open>auto simp: healthy_def\<close>)
    then show ?thesis using True Cons.IH[of "send_with_timing T E config (warmup_arrival arrival) i tx st" "i + 1"]
      by (subst (1 2) submit_warmup.simps) (simp add: Let_def)
  next
    case False
    then show ?thesis using submit_normal_ok[OF assms(1) Cons.prems, of T config i "tx # txs"]
      by (subst (1 2) submit_warmup.simps) simp
  qed
qed

lemma stamped_transactions: "map transaction (stamped T E config i txs) = txs"
  by (induction txs arbitrary: i) (simp_all add: send_single_transaction_def txn_new_def)

text \<open>The clients of the established connections send the first chunks, one each.\<close>

lemma real_run_sends:
  assumes "list_all (\<lambda>(E, g). healthy E (lg_arrival lg)) envs" "split_transactions transactions = Inr split"
  shows "\<exists>states. real_run T lg envs transactions = Inr states \<and> map (map transaction \<circ> sb_sent) states = take (length envs) split \<and>
           list_all (\<lambda>st. sb_status st = Running) states"
proof -
  let ?run = "\<lambda>((E, g), tx_chunk). submit_transactions T E (lg_config lg) (lg_arrival lg) tx_chunk g"
  let ?states = "map ?run (zip envs split)"
  have one: "map transaction (sb_sent (?run p)) = snd p \<and> sb_status (?run p) = Running" if "p \<in> set (zip envs split)" for p
  proof -
    obtain E g c where p: "p = ((E, g), c)" by (cases p) auto
    have E: "healthy E (lg_arrival lg)" using that assms(1) p by (auto simp: list_all_iff dest: set_zip_leftD)
    note ok = submit_warmup_ok[OF E, of "\<lparr>sb_sent = [], sb_next_ts = 0, sb_rng = g, sb_status = Running\<rparr>" T "lg_config lg" 0 c]
    then show ?thesis by (simp add: p submit_transactions_def stamped_transactions)
  qed
  have "map (map transaction \<circ> sb_sent) ?states = map snd (zip envs split)" using one by (simp add: comp_def)
  then have "map (map transaction \<circ> sb_sent) ?states = take (length envs) split" by (simp add: map_snd_zip_take min_def)
  moreover have "list_all (\<lambda>st. sb_status st = Running) ?states" using one by (simp add: list_all_iff)
  ultimately show ?thesis using assms(2) by (simp add: real_run_def)
qed

lemma real_run_empty: "real_run T lg envs [] = Inl (Panic ''chunk size must be non-zero'')"
  by (simp add: real_run_def split_transactions_def NUM_CLIENTS_def)

definition steady_env :: "unit submit_env" where
  "steady_env = \<lparr>se_warm = (\<lambda>i. i < 2), se_now = real, se_accepts = (\<lambda>_. True),
     se_sampler = \<lparr>sm_exp = (\<lambda>m g. Inr (nat \<lfloor>m\<rfloor>, g)), sm_bool = (\<lambda>p g. Inr (True, g))\<rparr>\<rparr>"

definition plain_trait :: "(nat, nat, nat) executable_transaction" where
  "plain_trait = \<lparr>et_digest = id, et_input_objects = (\<lambda>_. []), et_shared_object_ids = (\<lambda>t. [t])\<rparr>"

end
