(* ===== verification/Programs.thy ===== *)
theory Programs
  imports Fake_Workload Sui_Executor Tpcc_Proxy Tpcc_Generator Load_Generator Nodes
begin

text \<open>
  The two programs (\<^verbatim>\<open>src/bin/remora.rs\<close>, \<^verbatim>\<open>src/bin/load_generator.rs\<close>) from their arguments to the node or the load they start: the
  configuration files, the choice and construction of the executor, the role.  The record \<open>crates\<close> holds the parameters of the three executors:
  the Sui crates, the generators seeded with 0 and 42, the measured times.  Parsing the command line, the metrics server and logging are not
  modelled, except that the arguments of a log line are evaluated only when its level is enabled.
\<close>


section \<open>Executors\<close>

record ('t, 'd, 'o, 'b, 'v, 'c, 'w, 'n, 'a, 'g, 'z, 'm, 'k) crates =
  cr_benchmark :: "('t, 'o, 'b, 'c, 'w, 'n, 'a) sui_benchmark"
  cr_objects :: "('o, 'b, 'v) object_api"
  cr_from_bytes :: "byte list \<Rightarrow> 'o"
  cr_digests :: "nat \<Rightarrow> 'd"
  cr_statistics :: "('g, 'z) load_statistics"
  cr_tpcc :: "('o, 'b, 'v, 'm, 'k) tpcc_api"
  cr_gen_range :: "nat \<Rightarrow> nat \<Rightarrow> 'g \<Rightarrow> nat \<times> 'g"
  cr_tpcc_rng :: "'g rng_ops"
  cr_seed :: "nat \<Rightarrow> 'g"
  cr_elapsed :: "nat \<Rightarrow> nat \<Rightarrow> duration"

record ('o, 'b) tpcc_executor =
  te_verification_spins :: nat
  te_store :: "('o, 'b) object_store"
  te_stateless_mode :: stateless_verification_mode

definition tpcc_executor_new ::
  "('o, 'b, 'v, 'm, 'k) tpcc_api \<Rightarrow> (nat \<Rightarrow> nat \<Rightarrow> 'g \<Rightarrow> nat \<times> 'g) \<Rightarrow> 'g \<Rightarrow> (nat \<Rightarrow> nat \<Rightarrow> duration) \<Rightarrow> benchmark_parameters \<Rightarrow> ('o, 'b) tpcc_executor res" where
  "tpcc_executor_new A gen seed_42 elapsed config =
     (case workload config of
        Tpcc num_warehouses _ _ _ _ \<Rightarrow>
          and_then (init_objects A gen num_warehouses (tpcc_store_new, seed_42))
            (\<lambda>(store, _). Inr \<lparr>te_verification_spins = calibrate elapsed (bench_verification_duration config), te_store = store,
                                te_stateless_mode = stateless_mode config\<rparr>)
      | _ \<Rightarrow> Inl (Panic ''TpccExecutor requires Tpcc workload type''))"

datatype ('o, 'b, 'c) any_executor =
    AnyFake "('o, 'b) fake_executor"
  | AnyTpcc "('o, 'b) tpcc_executor"
  | AnySui "'c sui_executor"

definition build_executor ::
  "('t, 'd, 'o, 'b, 'v, 'c, 'w, 'n, 'a, 'g, 'z, 'm, 'k) crates \<Rightarrow> build \<Rightarrow> benchmark_parameters \<Rightarrow> ('o, 'b, 'c) any_executor res" where
  "build_executor K bd config =
     (if is_fake (workload config) then
        and_then (fake_executor_new (cr_objects K) (cr_from_bytes K) (cr_digests K) (cr_statistics K) (cr_seed K 0) (cr_elapsed K) bd config) (\<lambda>ex. Inr (AnyFake ex))
      else if is_tpcc (workload config) then
        and_then (tpcc_executor_new (cr_tpcc K) (cr_gen_range K) (cr_seed K 42) (cr_elapsed K) config) (\<lambda>ex. Inr (AnyTpcc ex))
      else and_then (sui_executor_new (cr_benchmark K) (cr_elapsed K) bd config) (\<lambda>ex. Inr (AnySui ex)))"

fun init_store :: "('t, 'o, 'b, 'c, 'w, 'n, 'a) sui_benchmark \<Rightarrow> ('o, 'b, 'c) any_executor \<Rightarrow> ('o, 'b) object_store" where
  "init_store B (AnyFake ex) = fk_store ex"
| "init_store B (AnyTpcc ex) = te_store ex"
| "init_store B (AnySui ex) = create_in_memory_store B ex"


section \<open>The node\<close>

datatype role = PrimaryRole | ProxyRole proxy_id

datatype ('t, 'd, 'o, 'b) started = PrimaryStarted "('t, 'd, 'o) primary_node" | ProxyStarted "('t, 'd, 'o, 'b) proxy_node"

definition start_node ::
  "bool \<Rightarrow> ((proxy_id \<rightharpoonup> nat) \<Rightarrow> proxy_id list) \<Rightarrow> duration \<Rightarrow> role \<Rightarrow> ('o, 'b) object_store \<Rightarrow> validator_config \<Rightarrow> ('t, 'd, 'o, 'b) started res" where
  "start_node info_enabled iter now r store config =
     (case r of
        PrimaryRole \<Rightarrow> Inr (PrimaryStarted (primary_start iter config now))
      | ProxyRole i \<Rightarrow>
          if info_enabled \<and> \<not> i < length (vc_proxies config) then Inl (Panic ''called unwrap on a None value'')
          else if i < length (vc_proxies config) then and_then (proxy_start i store config) (\<lambda>nd. Inr (ProxyStarted nd))
          else Inl (Panic ''Invalid proxy ID: proxy not defined in configuration''))"

record node_args =
  na_validator_config :: string
  na_benchmark_config :: "string option"
  na_binding_address :: "ip_addr option"
  na_role :: role

definition load_benchmark :: "benchmark_parameters yaml \<Rightarrow> string file_system \<Rightarrow> string option \<Rightarrow> config_io_error + benchmark_parameters" where
  "load_benchmark Y fs path = (case path of Some p \<Rightarrow> load_config Y fs p | None \<Rightarrow> Inr benchmark_default)"

definition bind_metrics :: "ip_addr option \<Rightarrow> validator_config \<Rightarrow> validator_config" where
  "bind_metrics binding config =
     (case binding of Some ip \<Rightarrow> config\<lparr>vc_metrics_address := (vc_metrics_address config)\<lparr>sa_ip := ip\<rparr>\<rparr> | None \<Rightarrow> config)"

text \<open>\<^verbatim>\<open>main\<close> returns an error for a configuration it cannot load; everything else that goes wrong is a panic.\<close>

definition remora_main ::
  "('t, 'd, 'o, 'b, 'v, 'c, 'w, 'n, 'a, 'g, 'z, 'm, 'k) crates \<Rightarrow> build \<Rightarrow> bool \<Rightarrow> ((proxy_id \<rightharpoonup> nat) \<Rightarrow> proxy_id list) \<Rightarrow> duration \<Rightarrow>
   validator_config yaml \<Rightarrow> benchmark_parameters yaml \<Rightarrow> string file_system \<Rightarrow> node_args \<Rightarrow> (config_io_error + ('t, 'd, 'o, 'b) started) res" where
  "remora_main K bd info_enabled iter now YV YB fs args =
     (case load_config YV fs (na_validator_config args) of
        Inl e \<Rightarrow> Inr (Inl e)
      | Inr validator_config \<Rightarrow>
          (case load_benchmark YB fs (na_benchmark_config args) of
             Inl e \<Rightarrow> Inr (Inl e)
           | Inr benchmark_config \<Rightarrow>
               let validator_config = bind_metrics (na_binding_address args) validator_config in
               and_then (build_executor K bd benchmark_config)
                 (\<lambda>ex. and_then (start_node info_enabled iter now (na_role args) (init_store (cr_benchmark K) ex) validator_config)
                    (\<lambda>node. Inr (Inr node)))))"


section \<open>The load generator\<close>

datatype ('t, 'd, 'o) any_transactions =
    FakeTransactions "('d, 'o) fake_transaction list"
  | TpccTransactions "tpcc_transaction list"
  | SuiTransactions "'t list"

text \<open>The target and the generated load; \<open>None\<close> when the TPC-C generator does not end.\<close>

definition load_generator_main ::
  "('t, 'd, 'o, 'b, 'v, 'c, 'w, 'n, 'a, 'g, 'z, 'm, 'k) crates \<Rightarrow> build \<Rightarrow> validator_config yaml \<Rightarrow> benchmark_parameters yaml \<Rightarrow> string file_system \<Rightarrow>
   string \<Rightarrow> string option \<Rightarrow> (config_io_error + socket_addr \<times> load_generator \<times> ('t, 'd, 'o) any_transactions) res option" where
  "load_generator_main K bd YV YB fs validator_path benchmark_path =
     (case load_config YV fs validator_path of
        Inl e \<Rightarrow> Some (Inr (Inl e))
      | Inr validator_config \<Rightarrow>
          (case load_benchmark YB fs benchmark_path of
             Inl e \<Rightarrow> Some (Inr (Inl e))
           | Inr config \<Rightarrow>
               let primary_address = vc_client_server_address validator_config in
               (case load_generator_new config of
                  Inl e \<Rightarrow> Some (Inl e)
                | Inr lg \<Rightarrow>
                    if is_fake (workload config) then
                      Some (and_then (generate_fake_transactions (cr_objects K) (cr_from_bytes K) (cr_digests K) (cr_statistics K) (cr_seed K 0) bd config)
                        (\<lambda>(_, txs). Inr (Inr (primary_address, lg, FakeTransactions txs))))
                    else if is_tpcc (workload config) then
                      map_option (\<lambda>r. and_then r (\<lambda>txs. Inr (Inr (primary_address, lg, TpccTransactions txs)))) (tpcc_generate_transactions (cr_tpcc_rng K) bd config)
                    else Some (and_then (generate_sui_transactions (cr_benchmark K) bd config None)
                        (\<lambda>txs. Inr (Inr (primary_address, lg, SuiTransactions txs)))))))"


text \<open>
  Running the load: sixteen connections to the primary, one after the other, then a client for each connection that was established.  \<open>os\<close> and
  \<open>answers\<close> are the environment of each connection, \<open>env\<close> that of its client; \<open>None\<close> when the primary never answers.
\<close>

fun connect_and_spawn_network_client ::
  "(nat \<Rightarrow> bool \<Rightarrow> nat \<Rightarrow> bool) \<Rightarrow> (nat \<Rightarrow> nat \<Rightarrow> bool) \<Rightarrow> socket_addr \<Rightarrow> nat list \<Rightarrow> nat list option" where
  "connect_and_spawn_network_client os answers target [] = Some []"
| "connect_and_spawn_network_client os answers target (k # ks) =
     (case network_client_connect (os k) (answers k) target of
        None \<Rightarrow> None
      | Some (Inl e) \<Rightarrow> connect_and_spawn_network_client os answers target ks
      | Some (Inr _) \<Rightarrow> map_option (Cons k) (connect_and_spawn_network_client os answers target ks))"

definition load_generator_run ::
  "('t, 'd, 'o::linorder) executable_transaction \<Rightarrow> (nat \<Rightarrow> bool \<Rightarrow> nat \<Rightarrow> bool) \<Rightarrow> (nat \<Rightarrow> nat \<Rightarrow> bool) \<Rightarrow> (nat \<Rightarrow> 'g submit_env \<times> 'g) \<Rightarrow>
   socket_addr \<Rightarrow> load_generator \<Rightarrow> 't list \<Rightarrow> ('t, 'o, 'g) submit_state list res option" where
  "load_generator_run T os answers env target lg transactions =
     map_option (\<lambda>senders. real_run T lg (map env senders) transactions)
       (connect_and_spawn_network_client os answers target [0..<NUM_CLIENTS])"


section \<open>Lemmas\<close>

text \<open>What the construction of the executor relies on, for the workload at hand.\<close>

definition workload_ok :: "('t, 'd, 'o, 'b, 'v, 'c, 'w, 'n, 'a, 'g, 'z, 'm, 'k) crates \<Rightarrow> benchmark_parameters \<Rightarrow> bool" where
  "workload_ok K config \<longleftrightarrow>
     (case workload config of
        Tpcc W _ _ _ _ \<Rightarrow> tpcc_laws (cr_tpcc K) \<and> inj_on (key_id (cr_tpcc K)) (db_keys W) \<and> in_range (cr_gen_range K) \<and> W < 2 ^ 32
      | _ \<Rightarrow> load config * as_secs (bench_duration config) < 2 ^ 64)"

lemma build_executor_ok:
  assumes "workload_ok K config"
  shows "\<exists>ex. build_executor K bd config = Inr ex"
proof (cases "is_tpcc (workload config)")
  case True
  then obtain W a b c d where w: "workload config = Tpcc W a b c d" by (cases "workload config") auto
  then obtain s g' where "init_objects (cr_tpcc K) (cr_gen_range K) W (tpcc_store_new, cr_seed K 42) = Inr (s, g')"
    using assms init_objects_database[of "cr_tpcc K" W "cr_gen_range K" "cr_seed K 42"] by (auto simp: workload_ok_def)
  then show ?thesis using w by (simp add: build_executor_def tpcc_executor_new_def)
next
  case False
  then have small: "load config * as_secs (bench_duration config) < 2 ^ 64" using assms by (cases "workload config") (auto simp: workload_ok_def)
  show ?thesis
  proof (cases "is_fake (workload config)")
    case True
    then show ?thesis using fake_executor_new_ok[OF True small] unfolding build_executor_def by (metis and_then_Inr)
  next
    case no_fake: False
    then obtain w where "init_workload (cr_benchmark K) bd config = Inr w" using init_workload_ok[OF small no_fake False, of "cr_benchmark K" bd] by blast
    then show ?thesis using False no_fake by (simp add: build_executor_def sui_executor_new_def split_beta)
  qed
qed

lemma bind_metrics_keeps [simp]:
  "vc_proxies (bind_metrics b c) = vc_proxies c" "config_ok (bind_metrics b c) = config_ok c"
  "vc_validator_parameters (bind_metrics b c) = vc_validator_parameters c" "vc_client_server_address (bind_metrics b c) = vc_client_server_address c"
  by (auto simp: bind_metrics_def config_ok_def split: option.splits)

text \<open>The nodes and the load generator choose the same executor for a configuration.\<close>

fun same_executor :: "('o, 'b, 'c) any_executor \<Rightarrow> ('t, 'd, 'o) any_transactions \<Rightarrow> bool" where
  "same_executor (AnyFake _) (FakeTransactions _) = True"
| "same_executor (AnyTpcc _) (TpccTransactions _) = True"
| "same_executor (AnySui _) (SuiTransactions _) = True"
| "same_executor _ _ = False"

lemma programs_agree:
  assumes "load_benchmark YB fs path = Inr config" "build_executor K bd config = Inr ex"
    and "load_generator_main K bd YV YB fs vpath path = Some (Inr (Inr (a, lg, txs)))"
  shows "same_executor ex txs"
  using assms by (auto simp: build_executor_def load_generator_main_def and_then_eq_Inr Let_def split: sum.splits if_splits)

text \<open>
  C26. Every node of a deployment starts: when the two files hold a usable validator configuration and a benchmark whose number of transactions
  fits its integer (for TPC-C: whose rows have distinct identifiers), the program builds an executor that supports the workload, whichever of the
  fifteen workloads it is, and starts the primary and exactly the proxies of the configuration, each under its own number; a number out of range
  is a panic, whether or not logging is enabled.
\<close>

theorem remora_starts_every_role:
  fixes K :: "('t, 'd, 'o, 'b, 'v, 'c, 'w, 'n, 'a, 'g, 'z, 'm, 'k) crates"
  assumes "load_config YV fs (na_validator_config args) = Inr c" "config_ok c"
    and "load_benchmark YB fs (na_benchmark_config args) = Inr config" "workload_ok K config"
  shows "case na_role args of
           PrimaryRole \<Rightarrow> \<exists>n. remora_main K bd info iter now YV YB fs args = Inr (Inr (PrimaryStarted n)) \<and>
             fst ` set (pn_dials n) = {..<length (vc_proxies c)}
         | ProxyRole i \<Rightarrow> (if i < length (vc_proxies c)
             then \<exists>nd. remora_main K bd info iter now YV YB fs args = Inr (Inr (ProxyStarted nd)) \<and> px_id (nd_core nd) = i
             else \<exists>e. remora_main K bd info iter now YV YB fs args = Inl e)"
proof -
  let ?c = "bind_metrics (na_binding_address args) c"
  have ok: "config_ok ?c" using assms(2) by simp
  obtain ex where "build_executor K bd config = Inr ex" using build_executor_ok[OF assms(4)] by blast
  then have main: "remora_main K bd info iter now YV YB fs args =
      and_then (start_node info iter now (na_role args) (init_store (cr_benchmark K) ex) ?c) (\<lambda>node. Inr (Inr node))"
    by (simp add: remora_main_def assms(1,3) Let_def)
  show ?thesis
  proof (cases "na_role args")
    case PrimaryRole
    have "fst ` set (pn_dials (primary_start iter ?c now :: ('t, 'd, 'o) primary_node)) = {..<length (vc_proxies c)}"
      unfolding primary_connections(2)[OF ok] by (force simp: image_iff)
    then show ?thesis using PrimaryRole main by (simp add: start_node_def)
  next
    case (ProxyRole i)
    show ?thesis
    proof (cases "i < length (vc_proxies c)")
      case True
      then have i: "i < length (vc_proxies ?c)" by simp
      obtain nd :: "('t, 'd, 'o, 'b) proxy_node" where "proxy_start i (init_store (cr_benchmark K) ex) ?c = Inr nd" "px_id (nd_core nd) = i"
        using proxy_start_ok[OF ok i, of "init_store (cr_benchmark K) ex"] by blast
      then show ?thesis using True ProxyRole main by (simp add: start_node_def)
    next
      case False
      then have "(start_node info iter now (ProxyRole i) (init_store (cr_benchmark K) ex) ?c :: ('t, 'd, 'o, 'b) started res) =
          Inl (Panic (if info then ''called unwrap on a None value'' else ''Invalid proxy ID: proxy not defined in configuration''))"
        by (simp add: start_node_def)
      then show ?thesis using False ProxyRole main by simp
    qed
  qed
qed

definition sample_row :: tpcc_row where
  "sample_row = ItemRow \<lparr>i_id = 1, i_price = 100, i_name = [], i_data = []\<rparr>"

definition sample_crates ::
  "(nat, nat, nat, sample_move \<times> version option, version option, nat, nat, unit, nat, unit, unit, sample_move, nat \<times> tpcc_row) crates" where
  "sample_crates =
     \<lparr>cr_benchmark = \<lparr>sb_workload_new = (\<lambda>n _. n), sb_context_new = id, sb_context_exportable = (\<lambda>w _. w), sb_create_tx_generator = (\<lambda>_ c. ((), c)),
        sb_generate_transactions = (\<lambda>c _. [0..<c]), sb_accounts = id, sb_in_memory_store = (\<lambda>_. Map.empty)\<rparr>,
      cr_objects = \<lparr>ob_id = tp_id sample_api, ob_version = tp_version sample_api, ob_is_shared = tp_is_shared sample_api,
        ob_single_owner = tp_single_owner sample_api, ob_shared_owner = tp_shared_owner sample_api,
        ob_new_gas_coin = (\<lambda>v i w. ((tpcc_struct_tag Item, v, i, sample_row), w)), ob_with_id_owner_version = (\<lambda>i v w. ((tpcc_struct_tag Item, v, i, sample_row), w))\<rparr>,
      cr_from_bytes = byte_sum, cr_digests = id,
      cr_statistics = \<lparr>ls_solana_concurrency = (\<lambda>g. (([0], ()), g)), ls_ethereum_transfers = Pair (0, 1), ls_ethereum_nft_mint = Pair (0, 1),
        ls_ethereum_uniswap_normal = Pair 0, ls_ethereum_uniswap_peak = Pair 0, ls_zipfian_workload = (\<lambda>_ n. Pair [0..<n])\<rparr>,
      cr_tpcc = sample_api, cr_gen_range = sample_gen, cr_tpcc_rng = low_rng, cr_seed = (\<lambda>_. ()), cr_elapsed = (\<lambda>_ n. n)\<rparr>"

theorem remora_starts_every_role_witness:
  "\<exists>nd. remora_main sample_crates Debug True example_iter 0
     \<lparr>y_to_string = (\<lambda>_. Some ''validator''), y_from_str = (\<lambda>_. Some example_config)\<rparr>
     \<lparr>y_to_string = (\<lambda>_. Some ''benchmark''), y_from_str = (\<lambda>_. Some (sample_config 0.5))\<rparr>
     \<lparr>fs_files = [''v.yaml'' \<mapsto> ''validator'', ''b.yaml'' \<mapsto> ''benchmark''], fs_writable = {}\<rparr>
     \<lparr>na_validator_config = ''v.yaml'', na_benchmark_config = Some ''b.yaml'', na_binding_address = Some ip_unspecified, na_role = ProxyRole 1\<rparr> =
     Inr (Inr (ProxyStarted nd)) \<and> px_id (nd_core nd) = 1"
proof -
  let ?YV = "\<lparr>y_to_string = (\<lambda>_. Some ''validator''), y_from_str = (\<lambda>_. Some example_config)\<rparr>"
  let ?YB = "\<lparr>y_to_string = (\<lambda>_. Some ''benchmark''), y_from_str = (\<lambda>_. Some (sample_config 0.5))\<rparr>"
  let ?fs = "\<lparr>fs_files = [''v.yaml'' \<mapsto> ''validator'', ''b.yaml'' \<mapsto> ''benchmark''], fs_writable = {}\<rparr>"
  let ?args = "\<lparr>na_validator_config = ''v.yaml'', na_benchmark_config = Some ''b.yaml'', na_binding_address = Some ip_unspecified, na_role = ProxyRole 1\<rparr>"
  have v: "load_config ?YV ?fs (na_validator_config ?args) = Inr example_config" "config_ok example_config"
    by (simp_all add: load_config_def config_ok_def example_config_def upt_rec)
  have b: "load_benchmark ?YB ?fs (na_benchmark_config ?args) = Inr (sample_config 0.5)" by (simp add: load_benchmark_def load_config_def)
  have w: "workload_ok sample_crates (sample_config 0.5)"
    using sample_api_laws sample_key_id_inj[of 1] by (simp add: workload_ok_def sample_crates_def in_range_def sample_gen_def)
  have "1 < length (vc_proxies example_config)" by (simp add: example_config_def)
  with remora_starts_every_role[OF v b w, of Debug True example_iter 0] show ?thesis by simp
qed


section \<open>Running the load\<close>

text \<open>Every connection ends: the primary answers at some attempt, or a socket cannot be opened before.\<close>

definition established :: "(nat \<Rightarrow> bool \<Rightarrow> nat \<Rightarrow> bool) \<Rightarrow> (nat \<Rightarrow> nat \<Rightarrow> bool) \<Rightarrow> socket_addr \<Rightarrow> nat list \<Rightarrow> nat list" where
  "established os answers target ks = filter (\<lambda>k. \<exists>n. network_client_connect (os k) (answers k) target = Some (Inr n)) ks"

lemma connect_and_spawn_established:
  assumes "list_all (\<lambda>k. network_client_connect (os k) (answers k) target \<noteq> None) ks"
  shows "connect_and_spawn_network_client os answers target ks = Some (established os answers target ks)"
  using assms by (induction ks) (auto simp: established_def split: option.splits sum.splits)



end
