(* ===== verification/Controller_Tests.thy ===== *)
theory Controller_Tests
  imports Versioned_Controller Oneshot_Controller
begin

text \<open>
  The unit tests of the two dependency controllers (the test modules of
  \<^verbatim>\<open>src/executor/versioned_dependency_controller.rs\<close> and
  \<^verbatim>\<open>src/executor/oneshot_dependency_controller.rs\<close>), translated statement by statement and run on
  the model.  A test is a computation that panics at the first assertion that does not hold, so
  that it passes exactly when its value is \<open>Inr ()\<close>; the random identifiers of a test are its
  arguments, and it is shown to pass for all of them.  Two notify handles are the same object
  (\<^verbatim>\<open>Arc::ptr_eq\<close>) when their identities are equal.

  The only hypothesis is what the tests presuppose of \<^verbatim>\<open>SequenceNumber\<close>: version 2 is followed by 3, and
  the successor of 3 is another version.
\<close>


section \<open>The versioned controller\<close>

definition test_no_prior_dependencies :: "(version \<Rightarrow> version) \<Rightarrow> 'o \<Rightarrow> 'o \<Rightarrow> unit res" where
  "test_no_prior_dependencies nxt obj_id1 obj_id2 =
     (let obj_versions = [(obj_id1, 2), (obj_id2, 2)] in
      and_then (get_prior_dependency_and_update nxt vdc_new 1 obj_versions False False)
        (\<lambda>(c, prior_tasks, current_tasks).
           and_then (assert_that (length prior_tasks = 0))
             (\<lambda>_. assert_that (length current_tasks = length obj_versions))))"

definition test_with_prior_dependencies_same_object_different_versions :: "(version \<Rightarrow> version) \<Rightarrow> 'o \<Rightarrow> unit res" where
  "test_with_prior_dependencies_same_object_different_versions nxt obj_id =
     and_then (get_prior_dependency_and_update nxt vdc_new 1 [(obj_id, 2)] False False)
       (\<lambda>(c, prior_tasks1, current_tasks1).
     and_then (assert_that (length prior_tasks1 = 0)) (\<lambda>_.
     and_then (get_prior_dependency_and_update nxt c 2 [(obj_id, 3)] False False)
       (\<lambda>(c, prior_tasks2, current_tasks2).
     and_then (assert_that (length prior_tasks2 = 1)) (\<lambda>_.
     and_then (nth_or_panic prior_tasks2 0) (\<lambda>p2.
     and_then (nth_or_panic current_tasks1 0) (\<lambda>c1.
     and_then (assert_that (p2 = c1)) (\<lambda>_.
     and_then (nth_or_panic current_tasks2 0) (\<lambda>c2.
     and_then (assert_that (p2 \<noteq> c2)) (\<lambda>_.
     assert_that (has_task_for_object c obj_id 3))))))))))"

definition test_partial_prior_dependencies_with_versions :: "(version \<Rightarrow> version) \<Rightarrow> 'o \<Rightarrow> 'o \<Rightarrow> unit res" where
  "test_partial_prior_dependencies_with_versions nxt obj_id1 obj_id2 =
     (let obj_versions1 = [(obj_id1, 2), (obj_id2, 2)];
          obj_versions2 = [(obj_id1, 3), (obj_id2, 3)] in
     and_then (get_prior_dependency_and_update nxt vdc_new 1 obj_versions1 False False)
       (\<lambda>(c, _, current_tasks1).
     and_then (get_prior_dependency_and_update nxt c 2 obj_versions2 False False)
       (\<lambda>(c, prior_tasks2, _).
     and_then (assert_that (length prior_tasks2 = length obj_versions2)) (\<lambda>_.
     and_then (nth_or_panic prior_tasks2 0) (\<lambda>p0.
     and_then (nth_or_panic current_tasks1 0) (\<lambda>c0.
     and_then (assert_that (p0 = c0)) (\<lambda>_.
     and_then (nth_or_panic prior_tasks2 1) (\<lambda>p1.
     and_then (nth_or_panic current_tasks1 1) (\<lambda>c1.
     assert_that (p1 = c1))))))))))"

definition test_ignore_prior_flag :: "(version \<Rightarrow> version) \<Rightarrow> 'o \<Rightarrow> unit res" where
  "test_ignore_prior_flag nxt obj_id =
     (let task_id = 1 in
     and_then (get_prior_dependency_and_update nxt vdc_new task_id [(obj_id, 3)] False False)
       (\<lambda>(c, _, _).
     and_then (get_prior_dependency_and_update nxt c (task_id + 1) [(obj_id, 3)] True False)
       (\<lambda>(c, prior_tasks, next_tasks).
     and_then (assert_that (length prior_tasks = 0)) (\<lambda>_.
     assert_that (length next_tasks = 1)))))"

definition test_ignore_next_flag :: "(version \<Rightarrow> version) \<Rightarrow> 'o \<Rightarrow> unit res" where
  "test_ignore_next_flag nxt obj_id =
     and_then (get_prior_dependency_and_update nxt vdc_new 1 [(obj_id, 3)] False True)
       (\<lambda>(c, prior_tasks, next_tasks).
     and_then (assert_that (length prior_tasks = 1)) (\<lambda>_.
     assert_that (length next_tasks = 0)))"

definition test_both_flags_true :: "(version \<Rightarrow> version) \<Rightarrow> 'o \<Rightarrow> unit res" where
  "test_both_flags_true nxt obj_id =
     and_then (get_prior_dependency_and_update nxt vdc_new 1 [(obj_id, 3)] True True)
       (\<lambda>(c, prior_tasks, next_tasks).
     and_then (assert_that (length prior_tasks = 0)) (\<lambda>_.
     and_then (assert_that (length next_tasks = 0)) (\<lambda>_.
     assert_that (\<not> has_task_for_object c obj_id 3))))"

definition test_initial_version_behavior :: "(version \<Rightarrow> version) \<Rightarrow> 'o \<Rightarrow> unit res" where
  "test_initial_version_behavior nxt obj_id =
     (let task_id = 1 in
     and_then (get_prior_dependency_and_update nxt vdc_new task_id [(obj_id, 2)] False False)
       (\<lambda>(c, prior_tasks, next_tasks).
     and_then (assert_that (length prior_tasks = 0)) (\<lambda>_.
     and_then (assert_that (length next_tasks = 1)) (\<lambda>_.
     and_then (get_prior_dependency_and_update nxt c (task_id + 1) [(obj_id, 1)] False False)
       (\<lambda>(c, prior_tasks, next_tasks).
     and_then (assert_that (length prior_tasks = 0)) (\<lambda>_.
     assert_that (length next_tasks = 1)))))))"

definition versioned_controller_tests :: "(version \<Rightarrow> version) \<Rightarrow> 'o \<Rightarrow> 'o \<Rightarrow> unit res list" where
  "versioned_controller_tests nxt o1 o2 =
     [test_no_prior_dependencies nxt o1 o2,
      test_with_prior_dependencies_same_object_different_versions nxt o1,
      test_partial_prior_dependencies_with_versions nxt o1 o2,
      test_ignore_prior_flag nxt o1,
      test_ignore_next_flag nxt o1,
      test_both_flags_true nxt o1,
      test_initial_version_behavior nxt o1]"

lemmas versioned_test_defs =
  versioned_controller_tests_def test_no_prior_dependencies_def
  test_with_prior_dependencies_same_object_different_versions_def
  test_partial_prior_dependencies_with_versions_def test_ignore_prior_flag_def test_ignore_next_flag_def
  test_both_flags_true_def test_initial_version_behavior_def

lemmas versioned_run_defs =
  get_prior_dependency_and_update_def calculate_next_version_def entry_helper_def vdc_new_def
  has_task_for_object_def nth_or_panic_def

theorem versioned_controller_tests_pass:
  assumes "nxt 2 = 3" "nxt 3 \<noteq> 3"
  shows "\<forall>t \<in> set (versioned_controller_tests nxt o1 o2). t = Inr ()"
  unfolding versioned_test_defs using assms
  by (simp add: versioned_run_defs split: if_splits)


section \<open>The oneshot controller\<close>

text \<open>
  A oneshot channel holds at most one value.  Sending fails when the receiver no longer exists:
  \<open>live\<close> is the set of the receivers that the test or the controller holds at that moment.
  Awaiting a channel to which nothing was sent yet would block and is reported as \<open>None\<close>.
\<close>

definition oneshot_send :: "channel set \<Rightarrow> (channel \<rightharpoonup> bool) \<Rightarrow> channel \<Rightarrow> bool \<Rightarrow> (channel \<rightharpoonup> bool) option" where
  "oneshot_send live sent tx v = (if tx \<in> live then Some (sent(tx \<mapsto> v)) else None)"

definition test_set_and_get_dependency :: "'d \<Rightarrow> unit res" where
  "test_set_and_get_dependency txn_id =
     (let c = odc_new in
     and_then (assert_that (\<not> has_entry_for_txn c txn_id)) (\<lambda>_.
     let (c, sender) = set_local_dependency c txn_id in
     and_then (assert_that (has_entry_for_txn c txn_id)) (\<lambda>_.
     let (c, rx) = get_dependency c txn_id in
     and_then (unwrap ''Should have dependency'' rx) (\<lambda>handle.
     and_then (unwrap ''Failed to send completion signal''
                 (oneshot_send (insert handle (stored_receivers c)) Map.empty sender True)) (\<lambda>sent.
     and_then (unwrap ''Failed to receive completion signal'' (sent handle)) (\<lambda>result.
     assert_that result))))))"

definition test_has_entry_for_txn :: "'d \<Rightarrow> unit res" where
  "test_has_entry_for_txn txn_id =
     (let c = odc_new in
     and_then (assert_that (\<not> has_entry_for_txn c txn_id)) (\<lambda>_.
     let (c, _) = set_remote_dependency c txn_id in
     assert_that (has_entry_for_txn c txn_id)))"

definition test_get_dependencies_existent :: "'d \<Rightarrow> unit res" where
  "test_get_dependencies_existent txn_id = assert_that (snd (get_dependency odc_new txn_id) \<noteq> None)"

definition test_multiple_transactions :: "'d \<Rightarrow> 'd \<Rightarrow> unit res" where
  "test_multiple_transactions txn_id1 txn_id2 =
     (let (c, sender1) = set_local_dependency odc_new txn_id1;
          (c, sender2) = set_local_dependency c txn_id2 in
     and_then (assert_that (has_entry_for_txn c txn_id1)) (\<lambda>_.
     and_then (assert_that (has_entry_for_txn c txn_id2)) (\<lambda>_.
     and_then (unwrap ''Failed to send completion signal''
                 (oneshot_send (stored_receivers c) Map.empty sender1 True)) (\<lambda>sent.
     and_then (unwrap ''Failed to send completion signal''
                 (oneshot_send (stored_receivers c) sent sender2 False)) (\<lambda>sent.
     let (c, rx1) = get_dependency c txn_id1 in
     and_then (unwrap ''Should have dependency for txn1'' rx1) (\<lambda>handle1.
     let (c, rx2) = get_dependency c txn_id2 in
     and_then (unwrap ''Should have dependency for txn2'' rx2) (\<lambda>handle2.
     and_then (unwrap ''Failed to receive completion signal'' (sent handle1)) (\<lambda>result1.
     and_then (assert_that result1) (\<lambda>_.
     and_then (unwrap ''Failed to receive completion signal'' (sent handle2)) (\<lambda>result2.
     assert_that (\<not> result2)))))))))))"

definition test_remove_dependency :: "'d \<Rightarrow> unit res" where
  "test_remove_dependency txn_id =
     (let (c, _) = set_remote_dependency odc_new txn_id in
     and_then (assert_that (has_entry_for_txn c txn_id)) (\<lambda>_.
     let c = os_remove_dependency c txn_id in
     assert_that (\<not> has_entry_for_txn c txn_id)))"

definition test_take_signal :: "'d \<Rightarrow> unit res" where
  "test_take_signal txn_id =
     (let (c, _) = set_remote_dependency odc_new txn_id in
     and_then (assert_that (has_entry_for_txn c txn_id)) (\<lambda>_.
     let (c, taken_sender) = take_signal c txn_id in
     and_then (assert_that (taken_sender \<noteq> None)) (\<lambda>_.
     let (c, taken_sender_again) = take_signal c txn_id in
     assert_that (taken_sender_again = None))))"

definition oneshot_controller_tests :: "'d \<Rightarrow> 'd \<Rightarrow> unit res list" where
  "oneshot_controller_tests d1 d2 =
     [test_set_and_get_dependency d1, test_has_entry_for_txn d1, test_get_dependencies_existent d1,
      test_multiple_transactions d1 d2, test_remove_dependency d1, test_take_signal d1]"

lemmas oneshot_test_defs =
  oneshot_controller_tests_def test_set_and_get_dependency_def test_has_entry_for_txn_def
  test_get_dependencies_existent_def test_multiple_transactions_def test_remove_dependency_def test_take_signal_def

lemmas oneshot_run_defs =
  odc_new_def has_entry_for_txn_def set_local_dependency_def set_remote_dependency_def get_dependency_def
  os_remove_dependency_def take_signal_def stored_receivers_def oneshot_send_def

text \<open>
  The tests pass; the one with two transactions needs two different random digests.  With equal
  digests the second registration replaces the first, whose receiver is dropped, so that the first
  signal cannot be sent.
\<close>

theorem oneshot_controller_tests_pass:
  assumes "d1 \<noteq> d2"
  shows "\<forall>t \<in> set (oneshot_controller_tests d1 d2). t = Inr ()"
  unfolding oneshot_test_defs using assms by (auto simp: oneshot_run_defs Let_def)

lemma multiple_transactions_equal_digests:
  "test_multiple_transactions d d = Inl (Panic ''Failed to send completion signal'')"
  unfolding test_multiple_transactions_def by (auto simp: oneshot_run_defs Let_def)

end
