(* ===== verification/Fake_Tests.thy ===== *)
theory Fake_Tests
  imports Fake_Workload
begin

text \<open>
  The tests of the fake executor (the test module of \<^verbatim>\<open>src/executor/fake.rs\<close>), run on the model.  Their random
  identifiers, owners and digests are arguments.  A test also measures that an execution takes at least the configured
  time; time is not part of the model, and these assertions are left out.
\<close>

text \<open>The status of the effects of a fake transaction is always a success.\<close>

definition fake_status_ok :: "('d, 'o) fake_effects \<Rightarrow> bool" where
  "fake_status_ok effects = True"

definition execute_and_assert ::
  "(version \<Rightarrow> version) \<Rightarrow> ('o::linorder, 'b, 'w) object_api \<Rightarrow> ('o, 'b) object_store \<Rightarrow> (('d, 'o) fake_transaction, 'o) txn_ts \<Rightarrow>
   ('o, 'b) object_store res" where
  "execute_and_assert nxt Ob store t =
     and_then (fake_execute nxt Ob store t) (\<lambda>(store, result).
     and_then (results_success fake_status_ok result) (\<lambda>success.
     and_then (assert_that success) (\<lambda>_. Inr store)))"

text \<open>The common part of the first two tests: the objects are written, and one transaction reads them all.\<close>

definition execute_on_objects ::
  "(version \<Rightarrow> version) \<Rightarrow> ('o::linorder, 'b, 'w) object_api \<Rightarrow> 'd \<Rightarrow> 'b list \<Rightarrow> ('o, 'b) object_store res" where
  "execute_on_objects nxt Ob digest objects =
     (let store = fold (\<lambda>object store. write_object Ob store object) objects store_new;
          inputs = map (ob_id Ob) objects in
      and_then (from_store Ob store digest inputs) (\<lambda>transaction.
      execute_and_assert nxt Ob store (txn_new transaction 0 inputs (from_micros 200) (from_micros 200))))"

definition execute_fake_owned_object_transaction ::
  "(version \<Rightarrow> version) \<Rightarrow> ('o::linorder, 'b, 'w) object_api \<Rightarrow> 'd \<Rightarrow> ('o \<times> 'w) \<Rightarrow> ('o \<times> 'w) \<Rightarrow> ('o, 'b) object_store res" where
  "execute_fake_owned_object_transaction nxt Ob digest object1 object2 =
     execute_on_objects nxt Ob digest (map (\<lambda>(i, owner). fake_owned_object_with_id Ob owner 0 i) [object1, object2])"

definition execute_fake_shared_object_transaction ::
  "(version \<Rightarrow> version) \<Rightarrow> ('o::linorder, 'b, 'w) object_api \<Rightarrow> 'd \<Rightarrow> 'o \<Rightarrow> 'o \<Rightarrow> ('o, 'b) object_store res" where
  "execute_fake_shared_object_transaction nxt Ob digest id1 id2 =
     execute_on_objects nxt Ob digest (map (fake_shared_object_with_id Ob 0) [id1, id2])"

text \<open>The loop of the two other tests over the generated transactions.  They write the objects in the
  order in which a hash set enumerates them, which is the function \<open>iter\<close>.\<close>

fun execute_generated ::
  "(version \<Rightarrow> version) \<Rightarrow> ('o::linorder, 'b, 'w) object_api \<Rightarrow> ('d, 'o) fake_transaction list \<Rightarrow> ('o, 'b) object_store \<Rightarrow>
   ('o, 'b) object_store res" where
  "execute_generated nxt Ob [] store = Inr store"
| "execute_generated nxt Ob (txn # transactions) store =
     and_then (execute_and_assert nxt Ob store
        (txn_new txn 0 (et_shared_object_ids fake_transaction_trait txn) (from_micros 200) (from_micros 200)))
       (execute_generated nxt Ob transactions)"

definition execute_fake_solana_transactions ::
  "(version \<Rightarrow> version) \<Rightarrow> ('o::linorder, 'b, 'w) object_api \<Rightarrow> (byte list \<Rightarrow> 'o) \<Rightarrow> (nat \<Rightarrow> 'd) \<Rightarrow> ('g, 'z) load_statistics \<Rightarrow> 'g \<Rightarrow>
   ('b list \<Rightarrow> 'b list) \<Rightarrow> ('o, 'b) object_store res" where
  "execute_fake_solana_transactions nxt Ob from_bytes digest L rng iter =
     (let (objects, transactions) = generate_fake_load_objects_and_transactions Ob from_bytes digest (nth_draw (solana_load L) rng) 10
      in execute_generated nxt Ob transactions (fold (\<lambda>object store. write_object Ob store object) (iter objects) store_new))"

text \<open>
  The last test generates ten transactions of each Ethereum workload with one random number generator.
\<close>

fun generate_loads ::
  "('o, 'b, 'w) object_api \<Rightarrow> (byte list \<Rightarrow> 'o) \<Rightarrow> (nat \<Rightarrow> 'd) \<Rightarrow> 'g \<Rightarrow> ('g \<Rightarrow> nat list \<times> 'g) list \<Rightarrow>
   'b list \<times> ('d, 'o) fake_transaction list" where
  "generate_loads Ob from_bytes digest rng [] = ([], [])"
| "generate_loads Ob from_bytes digest rng (ld # loads) =
     (let (os, txs) = generate_fake_load_objects_and_transactions Ob from_bytes digest (nth_draw ld rng) 10;
          (objects, transactions) = generate_loads Ob from_bytes (\<lambda>k. digest (k + 10)) (((\<lambda>g. snd (ld g)) ^^ 10) rng) loads
      in (os @ objects, txs @ transactions))"

definition execute_fake_ethereum_transactions ::
  "(version \<Rightarrow> version) \<Rightarrow> ('o::linorder, 'b, 'w) object_api \<Rightarrow> (byte list \<Rightarrow> 'o) \<Rightarrow> (nat \<Rightarrow> 'd) \<Rightarrow> ('g, 'z) load_statistics \<Rightarrow> 'g \<Rightarrow>
   ('b list \<Rightarrow> 'b list) \<Rightarrow> ('o, 'b) object_store res" where
  "execute_fake_ethereum_transactions nxt Ob from_bytes digest L rng iter =
     (let (objects, transactions) =
            generate_loads Ob from_bytes digest rng [eth_transfers L, eth_mint L, uniswap_normal L, uniswap_peak L]
      in execute_generated nxt Ob transactions (fold (\<lambda>object store. write_object Ob store object) (iter objects) store_new))"


section \<open>The tests pass\<close>

lemma execute_and_assert_ok:
  assumes "object_laws Ob" "kind_object_id ` set (ft_inputs (transaction t)) \<subseteq> dom s"
  shows "\<exists>s'. execute_and_assert nxt Ob s t = Inr s' \<and> dom s \<subseteq> dom s'"
proof -
  have known: "s (kind_object_id r) \<noteq> None" if "r \<in> set (ft_inputs (transaction t))" for r using assms(2) that by auto
  obtain s1 r where e: "fake_execute nxt Ob s t = Inr (s1, r)" "er_updates r \<noteq> None"
      "\<And>i. i \<notin> kind_object_id ` set (ft_inputs (transaction t)) \<Longrightarrow> s1 i = s i"
      "\<And>i. i \<in> kind_object_id ` set (ft_inputs (transaction t)) \<Longrightarrow> \<exists>b. s1 i = Some b \<and>
         ob_version Ob b = nxt (fst (scan_versions (shared_objects t) 2 []))"
    by (rule fake_execute_ok[OF assms(1), of t s _ nxt]) (use known in auto)
  have "dom s \<subseteq> dom s1" using e(3,4) by (metis domIff option.distinct(1) subsetI)
  then show ?thesis using e(1,2) by (auto simp: execute_and_assert_def results_success_def fake_status_ok_def)
qed

lemma execute_generated_ok:
  assumes "object_laws Ob" "\<forall>t \<in> set txs. kind_object_id ` set (ft_inputs t) \<subseteq> dom s"
  shows "\<exists>s'. execute_generated nxt Ob txs s = Inr s'"
  using assms(2)
proof (induction txs arbitrary: s)
  case (Cons t txs)
  let ?t = "txn_new t 0 (et_shared_object_ids fake_transaction_trait t) (from_micros 200) (from_micros 200)"
  have "kind_object_id ` set (ft_inputs (transaction ?t)) \<subseteq> dom s" using Cons.prems by (simp add: txn_new_def)
  from execute_and_assert_ok[OF assms(1) this, of nxt]
  obtain s1 where s1: "execute_and_assert nxt Ob s ?t = Inr s1" "dom s \<subseteq> dom s1" by blast
  have "\<forall>t \<in> set txs. kind_object_id ` set (ft_inputs t) \<subseteq> dom s1" using Cons.prems s1(2) by (meson list.set_intros(2) subset_trans)
  then obtain s' where "execute_generated nxt Ob txs s1 = Inr s'" using Cons.IH[of s1] by blast
  with s1(1) show ?case by simp
qed simp

text \<open>A store that was filled with \<open>write_object\<close> keeps every object under its own identifier.\<close>

lemma fold_write_ids:
  "(\<And>i b. s i = Some b \<Longrightarrow> ob_id Ob b = i) \<Longrightarrow> fold (\<lambda>b s. write_object Ob s b) objects s i = Some b \<Longrightarrow> ob_id Ob b = i"
proof (induction objects arbitrary: s)
  case (Cons x objects)
  have "ob_id Ob b = i" if "write_object Ob s x i = Some b" for i b
    using that Cons.prems(1) by (auto simp: write_object_def split: if_splits)
  moreover have "fold (\<lambda>b s. write_object Ob s b) objects (write_object Ob s x) i = Some b" using Cons.prems(2) by simp
  ultimately show ?case by (rule Cons.IH)
qed simp

lemma written_store_ids: "init_fake_store Ob objects i = Some b \<Longrightarrow> ob_id Ob b = i"
  unfolding init_fake_store_def by (rule fold_write_ids[of store_new]) (simp_all add: store_new_def)

lemma kinds_from_written_store:
  assumes "set ids \<subseteq> dom (init_fake_store Ob objects)"
  shows "\<exists>ks. kinds_from_store Ob (init_fake_store Ob objects) ids = Inr ks \<and> map kind_object_id ks = ids"
  using assms
proof (induction ids)
  case (Cons i ids)
  then obtain b where "init_fake_store Ob objects i = Some b" by auto
  with Cons written_store_ids[OF this] show ?case by (auto simp: read_object_def)
qed simp

lemma execute_on_objects_ok:
  assumes "object_laws Ob"
  shows "\<exists>s. execute_on_objects nxt Ob digest objects = Inr s"
proof -
  let ?s = "init_fake_store Ob objects" and ?ids = "map (ob_id Ob) objects"
  have ids: "set ?ids \<subseteq> dom ?s" by (simp add: dom_init_fake_store)
  obtain ks where ks: "kinds_from_store Ob ?s ?ids = Inr ks" "map kind_object_id ks = ?ids"
    using kinds_from_written_store[OF ids] by blast
  let ?t = "txn_new (fake_new digest ks) 0 ?ids (from_micros 200) (from_micros 200)"
  have "kind_object_id ` set ks = set ?ids" unfolding ks(2)[symmetric] by simp
  then have "kind_object_id ` set (ft_inputs (transaction ?t)) \<subseteq> dom ?s" using ids by (simp add: txn_new_def fake_new_def)
  from execute_and_assert_ok[OF assms this, of nxt] ks(1) show ?thesis
    by (auto simp: execute_on_objects_def from_store_def init_fake_store_def Let_def)
qed

lemma generate_loads_written:
  assumes "object_laws Ob" "t \<in> set (snd (generate_loads Ob from_bytes digest rng loads))"
  shows "kind_object_id ` set (ft_inputs t) \<subseteq> ob_id Ob ` set (fst (generate_loads Ob from_bytes digest rng loads))"
  using assms(2)
proof (induction loads arbitrary: digest rng)
  case (Cons ld loads)
  obtain os txs where g: "generate_fake_load_objects_and_transactions Ob from_bytes digest (nth_draw ld rng) 10 = (os, txs)" by fastforce
  have "kind_object_id ` set (ft_inputs t) \<subseteq> ob_id Ob ` set os" if "t \<in> set txs"
    using generated_inputs_written[OF assms(1) g g that] by (simp add: dom_init_fake_store)
  moreover note Cons.IH[of "\<lambda>k. digest (k + 10)" "((\<lambda>g. snd (ld g)) ^^ 10) rng"]
  ultimately show ?case using Cons.prems by (auto simp: g split_beta simp del: funpow.simps)
qed simp

theorem fake_executor_tests_pass:
  assumes "object_laws Ob" "\<And>xs. set (iter xs) = set xs"
  shows "(\<exists>s. execute_fake_owned_object_transaction nxt Ob d o1 o2 = Inr s) \<and>
         (\<exists>s. execute_fake_shared_object_transaction nxt Ob d i1 i2 = Inr s) \<and>
         (\<exists>s. execute_fake_solana_transactions nxt Ob from_bytes digest L rng iter = Inr s) \<and>
         (\<exists>s. execute_fake_ethereum_transactions nxt Ob from_bytes digest L rng iter = Inr s)"
proof -
  obtain os txs where g: "generate_fake_load_objects_and_transactions Ob from_bytes digest (nth_draw (solana_load L) rng) 10 = (os, txs)" by fastforce
  have "kind_object_id ` set (ft_inputs t) \<subseteq> dom (init_fake_store Ob (iter os))" if "t \<in> set txs" for t
    using generated_inputs_written[OF assms(1) g g that] by (simp add: dom_init_fake_store assms(2))
  then have "\<exists>s. execute_generated nxt Ob txs (init_fake_store Ob (iter os)) = Inr s"
    by (intro execute_generated_ok[OF assms(1)] ballI)
  then have solana: "\<exists>s. execute_fake_solana_transactions nxt Ob from_bytes digest L rng iter = Inr s"
    by (simp add: execute_fake_solana_transactions_def g init_fake_store_def)
  let ?ls = "[eth_transfers L, eth_mint L, uniswap_normal L, uniswap_peak L]"
  obtain os' txs' where h: "generate_loads Ob from_bytes digest rng ?ls = (os', txs')" by fastforce
  have "kind_object_id ` set (ft_inputs t) \<subseteq> dom (init_fake_store Ob (iter os'))" if "t \<in> set txs'" for t
    using generate_loads_written[OF assms(1), of t from_bytes digest rng ?ls] that unfolding h by (simp add: dom_init_fake_store assms(2))
  then have "\<exists>s. execute_generated nxt Ob txs' (init_fake_store Ob (iter os')) = Inr s"
    by (intro execute_generated_ok[OF assms(1)] ballI)
  then have "\<exists>s. execute_fake_ethereum_transactions nxt Ob from_bytes digest L rng iter = Inr s"
    unfolding execute_fake_ethereum_transactions_def h by (simp add: init_fake_store_def)
  with solana show ?thesis
    unfolding execute_fake_owned_object_transaction_def execute_fake_shared_object_transaction_def
    by (intro conjI execute_on_objects_ok[OF assms(1)])
qed

end
