(* ===== verification/Tpcc_Tests.thy ===== *)
theory Tpcc_Tests
  imports Tpcc_Generator Tpcc_Identifiers
begin

text \<open>
  The unit tests of the TPC-C modules (the test modules of \<^verbatim>\<open>src/executor/tpcc/data.rs\<close>,
  \<^verbatim>\<open>transactions.rs\<close>, \<^verbatim>\<open>executor.rs\<close> and \<^verbatim>\<open>generator.rs\<close>), run on the model.  As in \<^verbatim>\<open>Controller_Tests\<close> a test passes when its value is
  \<open>Inr ()\<close>.  The tests are shown to pass for every implementation of the object library that satisfies the
  laws of \<open>tpcc_laws\<close> and does not let the hash of two keys collide, and for every random number generator that satisfies \<open>rng_laws\<close>.

  Not here are the tests of the byte layout and of the owner of an object, which look inside types of \<^verbatim>\<open>sui_types\<close>, and the
  tests of the frequencies, which hold for the seed they use.
\<close>


section \<open>Rows and objects\<close>

definition test_state_creation :: "('o, 'b, 'w, 'm, 'c) tpcc_api \<Rightarrow> unit res" where
  "test_state_creation A =
     (let state = 1 in assert_all
        [length (all_warehouse_ids A state) = 1,
         length (all_district_ids A state) = DISTRICTS_PER_WAREHOUSE,
         length (all_customer_ids A state) = DISTRICTS_PER_WAREHOUSE * CUSTOMERS_PER_DISTRICT,
         length (all_stock_ids A state) = STOCK_PER_WAREHOUSE,
         length (all_item_ids A) = NUM_ITEMS])"

definition test_object_id_deterministic :: "('o, 'b, 'w, 'm, 'c) tpcc_api \<Rightarrow> unit res" where
  "test_object_id_deterministic A =
     (let id1 = object_id_for_warehouse A 1; id2 = object_id_for_warehouse A 1 in
      and_then (assert_that (id1 = id2)) (\<lambda>_.
      let id3 = object_id_for_warehouse A 2 in assert_that (id1 \<noteq> id3)))"

definition test_object_id_uniqueness :: "('o, 'b, 'w, 'm, 'c) tpcc_api \<Rightarrow> unit res" where
  "test_object_id_uniqueness A =
     (let w = object_id_for_warehouse A 1; d = object_id_for_district A 1 1;
          c = object_id_for_customer A 1 1 1; s = object_id_for_stock A 1 1; i = object_id_for_item A 1;
          ids = [w, d, c, s, i] in
      assert_all (concat (map (\<lambda>i. map (\<lambda>j. ids ! i \<noteq> ids ! j) [i + 1..<length ids]) [0..<length ids])))"

definition test_warehouse_encode_decode_round_trip :: "build \<Rightarrow> ('o, 'b, 'w, 'm, 'c) tpcc_api \<Rightarrow> unit res" where
  "test_warehouse_encode_decode_round_trip bd A =
     (let i = object_id_for_warehouse A 42; version = 1;
          warehouse = \<lparr>w_id = 42, w_ytd = 30000000, w_tax = 1500, w_name = ''Test Warehouse''\<rparr> in
      and_then (encode_tpcc_object A i version Warehouse (WarehouseRow warehouse)) (\<lambda>object.
      and_then (decode_tpcc_data bd A object Warehouse) (\<lambda>decoded. assert_all
         [w_id (the_warehouse decoded) = w_id warehouse, w_ytd (the_warehouse decoded) = w_ytd warehouse,
          w_tax (the_warehouse decoded) = w_tax warehouse, w_name (the_warehouse decoded) = w_name warehouse])))"

definition test_district_encode_decode_round_trip :: "build \<Rightarrow> ('o, 'b, 'w, 'm, 'c) tpcc_api \<Rightarrow> unit res" where
  "test_district_encode_decode_round_trip bd A =
     (let i = object_id_for_district A 1 5; version = 2;
          district = \<lparr>d_id = 5, d_w_id = 1, d_ytd = 3000000, d_tax = 1000, d_next_o_id = 3001, d_name = ''Test District''\<rparr> in
      and_then (encode_tpcc_object A i version District (DistrictRow district)) (\<lambda>object.
      and_then (decode_tpcc_data bd A object District) (\<lambda>decoded. assert_all
         [d_id (the_district decoded) = d_id district, d_w_id (the_district decoded) = d_w_id district,
          d_ytd (the_district decoded) = d_ytd district, d_tax (the_district decoded) = d_tax district,
          d_next_o_id (the_district decoded) = d_next_o_id district, d_name (the_district decoded) = d_name district])))"

definition test_customer_encode_decode_round_trip :: "build \<Rightarrow> ('o, 'b, 'w, 'm, 'c) tpcc_api \<Rightarrow> unit res" where
  "test_customer_encode_decode_round_trip bd A =
     (let i = object_id_for_customer A 1 2 100; version = 3;
          customer = \<lparr>c_id = 100, c_d_id = 2, c_w_id = 1, c_balance = - 1000, c_ytd_payment = 1000, c_payment_cnt = 1, c_discount = 500, c_first = ''John'', c_last = ''Doe''\<rparr> in
      and_then (encode_tpcc_object A i version Customer (CustomerRow customer)) (\<lambda>object.
      and_then (decode_tpcc_data bd A object Customer) (\<lambda>decoded. assert_all
         [c_id (the_customer decoded) = c_id customer, c_d_id (the_customer decoded) = c_d_id customer,
          c_w_id (the_customer decoded) = c_w_id customer, c_balance (the_customer decoded) = c_balance customer,
          c_ytd_payment (the_customer decoded) = c_ytd_payment customer, c_payment_cnt (the_customer decoded) = c_payment_cnt customer,
          c_discount (the_customer decoded) = c_discount customer, c_first (the_customer decoded) = c_first customer,
          c_last (the_customer decoded) = c_last customer])))"

definition test_stock_encode_decode_round_trip :: "build \<Rightarrow> ('o, 'b, 'w, 'm, 'c) tpcc_api \<Rightarrow> unit res" where
  "test_stock_encode_decode_round_trip bd A =
     (let i = object_id_for_stock A 1 5000; version = 4;
          stock = \<lparr>s_i_id = 5000, s_w_id = 1, s_quantity = 50, s_ytd = 0, s_order_cnt = 0, s_remote_cnt = 0\<rparr> in
      and_then (encode_tpcc_object A i version Stock (StockRow stock)) (\<lambda>object.
      and_then (decode_tpcc_data bd A object Stock) (\<lambda>decoded. assert_all
         [s_i_id (the_stock decoded) = s_i_id stock, s_w_id (the_stock decoded) = s_w_id stock,
          s_quantity (the_stock decoded) = s_quantity stock, s_ytd (the_stock decoded) = s_ytd stock,
          s_order_cnt (the_stock decoded) = s_order_cnt stock, s_remote_cnt (the_stock decoded) = s_remote_cnt stock])))"

definition test_item_encode_decode_round_trip :: "build \<Rightarrow> ('o, 'b, 'w, 'm, 'c) tpcc_api \<Rightarrow> unit res" where
  "test_item_encode_decode_round_trip bd A =
     (let i = object_id_for_item A 42; version = 1;
          item = \<lparr>i_id = 42, i_price = 9999, i_name = ''Test Item'', i_data = ''Original data''\<rparr> in
      and_then (encode_tpcc_object A i version Item (ItemRow item)) (\<lambda>object.
      and_then (decode_tpcc_data bd A object Item) (\<lambda>decoded. assert_all
         [i_id (the_item decoded) = i_id item, i_price (the_item decoded) = i_price item,
          i_name (the_item decoded) = i_name item, i_data (the_item decoded) = i_data item])))"

definition test_decode_tpcc_object_preserves_id :: "('o, 'b, 'w, 'm, 'c) tpcc_api \<Rightarrow> unit res" where
  "test_decode_tpcc_object_preserves_id A =
     (let i = object_id_for_warehouse A 99; version = 1;
          warehouse = \<lparr>w_id = 99, w_ytd = 0, w_tax = 0, w_name = ''ID Test''\<rparr> in
      and_then (encode_tpcc_object A i version Warehouse (WarehouseRow warehouse)) (\<lambda>object.
      and_then (decode_tpcc_object A object Warehouse) (\<lambda>(decoded_id, decoded). assert_all
         [decoded_id = i, w_id (the_warehouse decoded) = 99])))"

definition test_type_tag_warehouse :: "('o, 'b, 'w, 'm, 'c) tpcc_api \<Rightarrow> unit res" where
  "test_type_tag_warehouse A =
     (let i = object_id_for_warehouse A 1; version = 1;
          warehouse = \<lparr>w_id = 1, w_ytd = 0, w_tax = 0, w_name = ''Type Test''\<rparr> in
      and_then (encode_tpcc_object A i version Warehouse (WarehouseRow warehouse)) (\<lambda>object.
      and_then (unwrap ''called unwrap on a None value'' (tp_as_move A object)) (\<lambda>move_obj.
      let expected_type = tpcc_struct_tag Warehouse in assert_that (tp_type A move_obj = expected_type))))"

definition test_type_tag_district :: "('o, 'b, 'w, 'm, 'c) tpcc_api \<Rightarrow> unit res" where
  "test_type_tag_district A =
     (let i = object_id_for_district A 1 1; version = 1;
          district = \<lparr>d_id = 1, d_w_id = 1, d_ytd = 0, d_tax = 0, d_next_o_id = 1, d_name = ''Type Test''\<rparr> in
      and_then (encode_tpcc_object A i version District (DistrictRow district)) (\<lambda>object.
      and_then (unwrap ''called unwrap on a None value'' (tp_as_move A object)) (\<lambda>move_obj.
      let expected_type = tpcc_struct_tag District in assert_that (tp_type A move_obj = expected_type))))"

definition test_type_tag_customer :: "('o, 'b, 'w, 'm, 'c) tpcc_api \<Rightarrow> unit res" where
  "test_type_tag_customer A =
     (let i = object_id_for_customer A 1 1 1; version = 1;
          customer = \<lparr>c_id = 1, c_d_id = 1, c_w_id = 1, c_balance = 0, c_ytd_payment = 0, c_payment_cnt = 0, c_discount = 0, c_first = ''Test'', c_last = ''Customer''\<rparr> in
      and_then (encode_tpcc_object A i version Customer (CustomerRow customer)) (\<lambda>object.
      and_then (unwrap ''called unwrap on a None value'' (tp_as_move A object)) (\<lambda>move_obj.
      let expected_type = tpcc_struct_tag Customer in assert_that (tp_type A move_obj = expected_type))))"

definition test_type_tag_stock :: "('o, 'b, 'w, 'm, 'c) tpcc_api \<Rightarrow> unit res" where
  "test_type_tag_stock A =
     (let i = object_id_for_stock A 1 1; version = 1;
          stock = \<lparr>s_i_id = 1, s_w_id = 1, s_quantity = 10, s_ytd = 0, s_order_cnt = 0, s_remote_cnt = 0\<rparr> in
      and_then (encode_tpcc_object A i version Stock (StockRow stock)) (\<lambda>object.
      and_then (unwrap ''called unwrap on a None value'' (tp_as_move A object)) (\<lambda>move_obj.
      let expected_type = tpcc_struct_tag Stock in assert_that (tp_type A move_obj = expected_type))))"

definition test_type_tag_item :: "('o, 'b, 'w, 'm, 'c) tpcc_api \<Rightarrow> unit res" where
  "test_type_tag_item A =
     (let i = object_id_for_item A 1; version = 1;
          item = \<lparr>i_id = 1, i_price = 100, i_name = ''Test'', i_data = ''Data''\<rparr> in
      and_then (encode_tpcc_object A i version Item (ItemRow item)) (\<lambda>object.
      and_then (unwrap ''called unwrap on a None value'' (tp_as_move A object)) (\<lambda>move_obj.
      let expected_type = tpcc_struct_tag Item in assert_that (tp_type A move_obj = expected_type))))"

definition test_object_id_matches_after_encode :: "('o, 'b, 'w, 'm, 'c) tpcc_api \<Rightarrow> unit res" where
  "test_object_id_matches_after_encode A =
     (let i = object_id_for_district A 5 3; version = 10;
          district = \<lparr>d_id = 3, d_w_id = 5, d_ytd = 1000, d_tax = 500, d_next_o_id = 100, d_name = ''ID Match Test''\<rparr> in
      and_then (encode_tpcc_object A i version District (DistrictRow district)) (\<lambda>object.
      assert_that (tp_id A object = i)))"

definition test_version_preserved_after_encode :: "('o, 'b, 'w, 'm, 'c) tpcc_api \<Rightarrow> unit res" where
  "test_version_preserved_after_encode A =
     (let i = object_id_for_stock A 2 100; version = 42;
          stock = \<lparr>s_i_id = 100, s_w_id = 2, s_quantity = 25, s_ytd = 10, s_order_cnt = 5, s_remote_cnt = 1\<rparr> in
      and_then (encode_tpcc_object A i version Stock (StockRow stock)) (\<lambda>object.
      assert_that (tp_version A object = version)))"

definition tpcc_data_tests :: "build \<Rightarrow> ('o, 'b, 'w, 'm, 'c) tpcc_api \<Rightarrow> unit res list" where
  "tpcc_data_tests bd A =
     [test_state_creation A,
      test_object_id_deterministic A,
      test_object_id_uniqueness A,
      test_warehouse_encode_decode_round_trip bd A,
      test_district_encode_decode_round_trip bd A,
      test_customer_encode_decode_round_trip bd A,
      test_stock_encode_decode_round_trip bd A,
      test_item_encode_decode_round_trip bd A,
      test_decode_tpcc_object_preserves_id A,
      test_type_tag_warehouse A,
      test_type_tag_district A,
      test_type_tag_customer A,
      test_type_tag_stock A,
      test_type_tag_item A,
      test_object_id_matches_after_encode A,
      test_version_preserved_after_encode A]"

lemmas tpcc_encoding_test_defs =
  test_warehouse_encode_decode_round_trip_def test_district_encode_decode_round_trip_def test_customer_encode_decode_round_trip_def
  test_stock_encode_decode_round_trip_def test_item_encode_decode_round_trip_def test_decode_tpcc_object_preserves_id_def
  test_type_tag_warehouse_def test_type_tag_district_def test_type_tag_customer_def
  test_type_tag_stock_def test_type_tag_item_def test_object_id_matches_after_encode_def
  test_version_preserved_after_encode_def

text \<open>What the tests look at in an object that was just encoded.\<close>

lemma encoded_object:
  assumes "tpcc_laws A" "short_names r"
  obtains b m where "encode_tpcc_object A i v (row_kind r) r = Inr b" "tp_as_move A b = Some m" "tp_type A m = tpcc_struct_tag (row_kind r)"
    "tp_id A b = i" "tp_version A b = v" "decode_tpcc_data bd A b (row_kind r) = Inr r" "decode_tpcc_object A b (row_kind r) = Inr (i, r)"
proof -
  obtain b where b: "encode_tpcc_object A i v (row_kind r) r = Inr b" "holds_row A b i r" "tp_version A b = v"
    using encode_holds_row[OF assms] by blast
  then show thesis using that decode_holds_row[OF assms(1) b(2)] unfolding holds_row_def by blast
qed

lemma and_then_encoded:
  assumes "tpcc_laws A" "short_names r" "k = row_kind r"
    and "\<And>b m. tp_as_move A b = Some m \<Longrightarrow> tp_type A m = tpcc_struct_tag k \<Longrightarrow> tp_id A b = i \<Longrightarrow> tp_version A b = v \<Longrightarrow>
           decode_tpcc_data bd A b k = Inr r \<Longrightarrow> decode_tpcc_object A b k = Inr (i, r) \<Longrightarrow> f b = Inr ()"
  shows "and_then (encode_tpcc_object A i v k r) f = Inr ()"
  by (rule encoded_object[OF assms(1,2), of i v bd]) (use assms(3,4) in simp)

text \<open>The keys of the tests do not collide.\<close>

lemma test_ids_distinct:
  assumes "inj_on (key_id A) (db_keys 2)"
  shows "distinct [object_id_for_warehouse A 1, object_id_for_district A 1 1, object_id_for_customer A 1 1 1,
           object_id_for_stock A 1 1, object_id_for_item A 1]"
    and "object_id_for_warehouse A 1 \<noteq> object_id_for_warehouse A 2"
proof -
  let ?ks = "[KWarehouse 1, KDistrict 1 1, KCustomer 1 1 1, KStock 1 1, KItem 1]"
  have "set (KWarehouse 2 # ?ks) \<subseteq> db_keys 2" by (simp add: db_keys_def tpcc_constants)
  then have inj: "inj_on (key_id A) (set (KWarehouse 2 # ?ks))" by (rule inj_on_subset[OF assms])
  have "distinct (KWarehouse 2 # ?ks)" by simp
  with inj have "distinct (map (key_id A) (KWarehouse 2 # ?ks))" by (intro distinct_map[THEN iffD2] conjI)
  then show "distinct [object_id_for_warehouse A 1, object_id_for_district A 1 1, object_id_for_customer A 1 1 1,
           object_id_for_stock A 1 1, object_id_for_item A 1]"
    "object_id_for_warehouse A 1 \<noteq> object_id_for_warehouse A 2"
    by (auto simp: key_id_simps)
qed

theorem tpcc_data_tests_pass:
  assumes "tpcc_laws A" "inj_on (key_id A) (db_keys 2)"
  shows "\<forall>t \<in> set (tpcc_data_tests bd A). t = Inr ()"
proof -
  have ids: "test_state_creation A = Inr ()" "test_object_id_deterministic A = Inr ()" "test_object_id_uniqueness A = Inr ()"
    using test_ids_distinct[OF assms(2)]
    by (simp_all add: test_state_creation_def test_object_id_deterministic_def test_object_id_uniqueness_def all_ids_lengths upt_rec)
  have rows: "test_warehouse_encode_decode_round_trip bd A = Inr ()"
    "test_district_encode_decode_round_trip bd A = Inr ()"
    "test_customer_encode_decode_round_trip bd A = Inr ()"
    "test_stock_encode_decode_round_trip bd A = Inr ()"
    "test_item_encode_decode_round_trip bd A = Inr ()"
    "test_decode_tpcc_object_preserves_id A = Inr ()"
    "test_type_tag_warehouse A = Inr ()"
    "test_type_tag_district A = Inr ()"
    "test_type_tag_customer A = Inr ()"
    "test_type_tag_stock A = Inr ()"
    "test_type_tag_item A = Inr ()"
    "test_object_id_matches_after_encode A = Inr ()"
    "test_version_preserved_after_encode A = Inr ()"
    unfolding tpcc_encoding_test_defs Let_def
    by (rule and_then_encoded[OF assms(1), where bd = bd]; simp add: short_names_def)+
  with ids rows show ?thesis by (simp add: tpcc_data_tests_def)
qed


section \<open>Access sets\<close>

definition test_new_order_access_set :: "('o, 'b, 'w, 'm, 'c) tpcc_api \<Rightarrow> unit res" where
  "test_new_order_access_set A =
     (let txn = NewOrder 1 1 100
            [\<lparr>oi_i_id = 1, oi_supply_w_id = 1, oi_quantity = 5\<rparr>, \<lparr>oi_i_id = 2, oi_supply_w_id = 1, oi_quantity = 3\<rparr>];
          reads = read_set A txn; writes = write_set A txn; district_id = object_id_for_district A 1 1 in
      assert_all [length reads = 5, length writes = 3, district_id \<in> set writes])"

definition test_payment_access_set :: "('o, 'b, 'w, 'm, 'c) tpcc_api \<Rightarrow> unit res" where
  "test_payment_access_set A =
     (let txn = Payment 1 1 1 1 100 10000; reads = read_set A txn; writes = write_set A txn in
      assert_all [length reads = 3, length writes = 3])"

definition test_access_set_deduplication :: "('o, 'b, 'w, 'm, 'c) tpcc_api \<Rightarrow> unit res" where
  "test_access_set_deduplication A =
     (let txn = Payment 1 1 1 1 100 10000; access = access_set A txn in assert_that (length access = 3))"

definition tpcc_transaction_tests :: "('o, 'b, 'w, 'm, 'c) tpcc_api \<Rightarrow> unit res list" where
  "tpcc_transaction_tests A = [test_new_order_access_set A, test_payment_access_set A, test_access_set_deduplication A]"

text \<open>
  The access set has one entry for every row that the transaction touches, when their keys do not collide.
\<close>

lemma length_access_set:
  assumes "inj_on (key_id A) (access_keys t)"
  shows "length (access_set A t) = card (access_keys t)"
  using distinct_card[OF set_access_set(2), of A t] card_image[OF assms] by (simp add: set_access_set_keys)

theorem tpcc_transaction_tests_pass:
  assumes "inj_on (key_id A) (db_keys 1)"
  shows "\<forall>t \<in> set (tpcc_transaction_tests A). t = Inr ()"
proof -
  let ?t = "Payment 1 1 1 1 100 10000"
  have "access_keys ?t \<subseteq> db_keys 1" using txn_ok_keys[of 1 ?t] by (simp add: tpcc_constants)
  from length_access_set[OF inj_on_subset[OF assms this]] have "length (access_set A ?t) = 3" by simp
  then show ?thesis
    by (simp add: tpcc_transaction_tests_def test_new_order_access_set_def test_payment_access_set_def test_access_set_deduplication_def)
qed


section \<open>The executor\<close>

definition test_tpcc_executable_transaction :: "('o, 'b, 'w, 'm, 'c) tpcc_api \<Rightarrow> 'd \<Rightarrow> unit res" where
  "test_tpcc_executable_transaction A digest =
     (let txn = NewOrder 1 1 1 [\<lparr>oi_i_id = 1, oi_supply_w_id = 1, oi_quantity = 5\<rparr>];
          exec_txn = tpcc_executable_new A digest txn in
      assert_all [te_inputs exec_txn \<noteq> [], et_shared_object_ids tpcc_transaction_trait exec_txn \<noteq> []])"

definition test_tpcc_object_store :: "('o, 'b, 'w, 'm, 'c) tpcc_api \<Rightarrow> 'o \<Rightarrow> unit res" where
  "test_tpcc_object_store A i =
     (let store = tpcc_store_new;
          warehouse = \<lparr>w_id = 1, w_ytd = INITIAL_W_YTD_CENTS, w_tax = int MIN_TAX_BPS, w_name = ''Warehouse_1''\<rparr> in
      and_then (encode_tpcc_object A i 2 Warehouse (WarehouseRow warehouse)) (\<lambda>obj.
      let store = tpcc_write_object A obj store; read = tpcc_read_object store i in
      and_then (assert_that (read \<noteq> None)) (\<lambda>_.
      and_then (unwrap ''called unwrap on a None value'' read) (\<lambda>obj. assert_that (tp_id A obj = i)))))"

theorem tpcc_executor_tests_pass:
  assumes "tpcc_laws A"
  shows "test_tpcc_executable_transaction A digest = Inr () \<and> test_tpcc_object_store A i = Inr ()"
proof
  show "test_tpcc_executable_transaction A digest = Inr ()"
    by (simp add: test_tpcc_executable_transaction_def tpcc_executable_new_def tpcc_transaction_trait_def shared_ids_def access_set_def)
  show "test_tpcc_object_store A i = Inr ()"
    unfolding test_tpcc_object_store_def Let_def
    by (rule and_then_encoded[OF assms]; simp add: short_names_def tpcc_write_object_def tpcc_read_object_def)
qed


section \<open>The generator\<close>

text \<open>A test of the generator may also not return (\<open>None\<close>), like the generator.\<close>

definition gassert :: "bool \<Rightarrow> ('g, unit) generation" where
  "gassert b gn = Some (and_then (assert_that b) (\<lambda>_. Inr ((), gn)))"

definition run_test :: "('g, unit) generation \<Rightarrow> 'g tpcc_generator \<Rightarrow> unit res option" where
  "run_test m gn = map_option (\<lambda>r. and_then r (\<lambda>_. Inr ())) (m gn)"

definition test_generator_creation :: "'g rng_ops \<Rightarrow> unit res" where
  "test_generator_creation G =
     (let generator = generator_new G 2 0.5 1 0 0 1000 42 in assert_that (gn_num_warehouses generator = 2))"

definition test_new_order_generation :: "'g rng_ops \<Rightarrow> unit res option" where
  "test_new_order_generation G =
     run_test (gbind (generate_new_order G)
       (\<lambda>txn. case txn of
          NewOrder w d c items \<Rightarrow>
            gassert (w = 1 \<and> (1 \<le> d \<and> d \<le> DISTRICTS_PER_WAREHOUSE) \<and> (1 \<le> c \<and> c \<le> CUSTOMERS_PER_DISTRICT) \<and>
                     (MIN_OL_CNT \<le> length items \<and> length items \<le> MAX_OL_CNT))
        | _ \<Rightarrow> gassert False))
       (generator_new G 1 0.5 1 0 0 1000 42)"

definition test_payment_generation :: "'g rng_ops \<Rightarrow> unit res option" where
  "test_payment_generation G =
     run_test (gbind (generate_payment G)
       (\<lambda>txn. case txn of
          Payment w d cw cd c h_amount \<Rightarrow>
            gassert (w = 1 \<and> (1 \<le> d \<and> d \<le> DISTRICTS_PER_WAREHOUSE) \<and> cw = 1 \<and> (1 \<le> cd \<and> cd \<le> DISTRICTS_PER_WAREHOUSE) \<and>
                     (1 \<le> c \<and> c \<le> CUSTOMERS_PER_DISTRICT) \<and> (int MIN_PAYMENT_CENTS \<le> h_amount \<and> h_amount \<le> int MAX_PAYMENT_CENTS))
        | _ \<Rightarrow> gassert False))
       (generator_new G 1 0.5 1 0 0 1000 42)"

definition test_warehouse_to_node_mapping :: "'g rng_ops \<Rightarrow> unit res" where
  "test_warehouse_to_node_mapping G =
     (let generator = generator_new G 8 0.5 4 0 0 1000 42 in assert_all
        [warehouse_to_node generator 1 = 0, warehouse_to_node generator 2 = 1,
         warehouse_to_node generator 3 = 2, warehouse_to_node generator 4 = 3,
         warehouse_to_node generator 5 = 0, warehouse_to_node generator 6 = 1,
         warehouse_to_node generator 7 = 2, warehouse_to_node generator 8 = 3])"

definition test_hotspot_rotation :: "'g rng_ops \<Rightarrow> build \<Rightarrow> unit res option" where
  "test_hotspot_rotation G bd =
     run_test
       (gbind (\<lambda>gn. gassert (gn_current_hotspot_node gn = 0) gn) (\<lambda>_.
        gbind (generate_many G bd 2000) (\<lambda>_.
        gbind (\<lambda>gn. gassert (gn_current_hotspot_node gn = 1) gn) (\<lambda>_.
        gbind (generate_many G bd 2000) (\<lambda>_ gn.
        gassert (gn_current_hotspot_node gn = 2) gn)))))
       (generator_new G 8 0.5 4 0.8 20 100 42)"

text \<open>Each of the two generating functions makes transactions of its own kind.\<close>

lemma gbind_returns:
  "gbind m f gn = Some (Inr (y, gn'')) \<longleftrightarrow> (\<exists>x gn'. m gn = Some (Inr (x, gn')) \<and> f x gn' = Some (Inr (y, gn'')))"
  unfolding gbind_def by (auto split: option.splits sum.splits)

lemma generated_kinds:
  "generate_new_order G gn = Some (Inr (t, gn')) \<Longrightarrow> \<exists>w d c items. t = NewOrder w d c items"
  "generate_payment G gn = Some (Inr (t, gn')) \<Longrightarrow> \<exists>w d cw cd c h. t = Payment w d cw cd c h"
  unfolding generate_new_order_def generate_payment_def
  by (auto simp: gbind_returns greturn_def split: prod.splits)

lemma single_warehouse_yields:
  assumes "yields gn m (tpcc_txn_ok 1)" "gn_num_warehouses gn = 1"
  obtains t gn' where "m gn = Some (Inr (t, gn'))" "tpcc_txn_ok 1 t"
proof -
  have "gn\<lparr>gn_rng := gn_rng gn\<rparr> = gn" by simp
  then show thesis using assms(1)[unfolded yields_def, rule_format, of "gn_rng gn"] assms(2) that
    by (auto split: option.splits sum.splits)
qed

theorem tpcc_generation_tests_pass:
  assumes "rng_laws G"
  shows "test_generator_creation G = Inr () \<and> test_warehouse_to_node_mapping G = Inr () \<and>
         test_new_order_generation G = Some (Inr ()) \<and> test_payment_generation G = Some (Inr ())"
proof -
  let ?gn = "generator_new G 1 0.5 1 0 0 1000 42"
  have ok: "generator_ok 1 ?gn" "gn_num_warehouses ?gn = 1" by (simp_all add: generator_ok_def generator_new_def)
  obtain t gn' where "generate_new_order G ?gn = Some (Inr (t, gn'))" "tpcc_txn_ok 1 t"
    by (rule single_warehouse_yields[OF yields_new_order[OF assms ok(1)] ok(2)])
  then have "test_new_order_generation G = Some (Inr ())" using generated_kinds(1)
    by (fastforce simp: test_new_order_generation_def run_test_def gbind_def gassert_def)
  moreover obtain t gn' where "generate_payment G ?gn = Some (Inr (t, gn'))" "tpcc_txn_ok 1 t"
    by (rule single_warehouse_yields[OF yields_payment[OF assms ok(1)] ok(2)])
  then have "test_payment_generation G = Some (Inr ())" using generated_kinds(2)
    by (fastforce simp: test_payment_generation_def run_test_def gbind_def gassert_def)
  ultimately show ?thesis
    by (simp add: test_generator_creation_def test_warehouse_to_node_mapping_def generator_new_def warehouse_to_node_def)
qed

text \<open>
  The test of the rotation never fails an assertion, whatever the random numbers; it does not return when the search for another
  warehouse draws the same one forever.
\<close>

lemma generate_many_rotates:
  assumes "rng_laws G" "generator_ok W gn" "rotation_ok gn"
  shows "generate_many G bd n gn = None \<or> (\<exists>ts g'. generate_many G bd n gn = Some (Inr (ts, ((rotated ^^ n) gn)\<lparr>gn_rng := g'\<rparr>)))"
proof -
  have "gn\<lparr>gn_rng := gn_rng gn\<rparr> = gn" by simp
  then show ?thesis using generate_many_yields[OF assms, where bd = bd and n = n and g = "gn_rng gn"] by (auto split: option.splits sum.splits)
qed

theorem hotspot_rotation_test_never_fails:
  assumes "rng_laws G" "test_hotspot_rotation G bd = Some r"
  shows "r = Inr ()"
proof -
  let ?gn = "generator_new G 8 0.5 4 0.8 20 100 42"
  define hs where "hs n g = ?gn\<lparr>gn_current_hotspot_node := n, gn_txn_count_since_rotation := 0, gn_rng := g\<rparr>" for n g
  have rng: "(rotated ^^ n) (gn\<lparr>gn_rng := x\<rparr>) = ((rotated ^^ n) gn)\<lparr>gn_rng := x\<rparr>" for n x and gn :: "'a tpcc_generator"
    by (induction n) (simp_all add: rotated_keeps(3))
  have rot: "(rotated ^^ n) ?gn = ?gn\<lparr>gn_current_hotspot_node := (n div 2000) mod 4, gn_txn_count_since_rotation := n mod 2000\<rparr>" for n
    using rotated_funpow[of ?gn 2000 n] by (simp add: generator_new_def)
  have gn: "?gn = hs 0 (rng_seed G 42)" by (simp add: hs_def generator_new_def)
  have r1: "(rotated ^^ 2000) (hs 0 g)\<lparr>gn_rng := g'\<rparr> = hs 1 g'" for g g'
  proof -
    have "hs 0 g = ?gn\<lparr>gn_rng := g\<rparr>" by (simp add: hs_def generator_new_def)
    then show ?thesis using rot[of 2000] by (simp add: rng hs_def)
  qed
  have r2: "(rotated ^^ 2000) (hs 1 g)\<lparr>gn_rng := g'\<rparr> = hs 2 g'" for g g'
  proof -
    have "hs 1 g = ((rotated ^^ 2000) ?gn)\<lparr>gn_rng := g\<rparr>" using rot[of 2000] by (simp add: hs_def)
    moreover have "(rotated ^^ 2000) ((rotated ^^ 2000) ?gn) = (rotated ^^ 4000) ?gn"
      using fun_cong[OF funpow_add[of 2000 2000 "rotated :: 'a tpcc_generator \<Rightarrow> _"], of ?gn] by simp
    ultimately show ?thesis using rot[of 4000] by (simp add: rng hs_def)
  qed
  have ok: "generator_ok 8 (hs n g)" "rotation_ok (hs n g)" for n g
    by (simp_all add: hs_def generator_ok_def rotation_ok_def generator_new_def)
  note many = generate_many_rotates[OF assms(1) ok, of bd 2000]
  have hot: "gn_current_hotspot_node (hs n g) = n" for n g by (simp add: hs_def)
  note test = assms(2)[unfolded test_hotspot_rotation_def run_test_def gn]
  consider "generate_many G bd 2000 (hs 0 (rng_seed G 42)) = None"
    | (some) ts g where "generate_many G bd 2000 (hs 0 (rng_seed G 42)) = Some (Inr (ts, hs 1 g))"
    using many[of 0 "rng_seed G 42"] unfolding r1 by auto
  then show ?thesis
  proof cases
    case some
    then show ?thesis using test many[of 1 g] unfolding r2 by (auto simp: gbind_def gassert_def hot)
  qed (use test in \<open>simp add: gbind_def gassert_def hot\<close>)
qed

end
