(* ===== verification/Proxy_Tests.thy ===== *)
theory Proxy_Tests
  imports Primary_Protocol Version_Assignment
begin

text \<open>
  The message sequences that the tests of the proxy send to it (the test module of \<^verbatim>\<open>src/proxy/core.rs\<close>), run on the
  task that processes the messages of the primary.  The tests that drive a proxy with primary separation are accepted.  The
  helper \<^verbatim>\<open>process_transaction\<close> of the others sets up a proxy without separation and sends it the two messages of the
  separated protocol: that proxy panics on the first of them, so that these tests cannot pass.
\<close>

definition setup_proxy :: "proxy_id \<Rightarrow> separation_mode \<Rightarrow> ('o, 'b) object_store \<Rightarrow> ('t, 'd, 'o, 'b) proxy" where
  "setup_proxy i mode store = proxy_new i mode store {}"

text \<open>The messages for the generated transactions; \<open>now\<close> is the clock that the timestamps are read from.\<close>

fun process_transaction_messages ::
  "(version \<Rightarrow> version) \<Rightarrow> ('t, 'd, 'o::linorder, 'u, 'b) executor_ops \<Rightarrow> ('t \<Rightarrow> f64) \<Rightarrow> 'o shared_object_versions \<Rightarrow> 't list \<Rightarrow>
   ('t, 'd, 'o) primary_to_proxy list" where
  "process_transaction_messages nxt E now m [] = []"
| "process_transaction_messages nxt E now m (tx # txs) =
     (let stateless_message = StatelessTxn (ex_make_verification_request E (txn_new_for_tests tx));
          transaction_with_timestamp = txn_new tx (now tx) (et_shared_object_ids (ex_trait E) tx) 0 0;
          (m', _, required_versions) = assign_shared_object_versions nxt m transaction_with_timestamp;
          required_states = (if required_versions \<noteq> [] then map (\<lambda>(obj_id, seq_num). ((obj_id, seq_num), None)) required_versions else []);
          stateful_message = Txn (txn_new_for_tests tx) 0 required_states
      in stateless_message # stateful_message # process_transaction_messages nxt E now m' txs)"

text \<open>The proxy side of \<^verbatim>\<open>process_transaction\<close>, with the separation mode that it fixes to \<^verbatim>\<open>NoSeparation\<close> as an argument.\<close>

definition process_transaction ::
  "(version \<Rightarrow> version) \<Rightarrow> ('t, 'd, 'o::linorder, 'u, 'b) executor_ops \<Rightarrow> ('t \<Rightarrow> f64) \<Rightarrow> separation_mode \<Rightarrow> ('o, 'b) object_store \<Rightarrow> 't list \<Rightarrow>
   ('t, 'd, 'o, 'b) proxy res" where
  "process_transaction nxt E now mode store transactions =
     primary_processor_run E (process_transaction_messages nxt E now Map.empty transactions) (setup_proxy 0 mode store)"

definition test_proxy_stateless_transaction ::
  "('t, 'd, 'o, 'u, 'b) executor_ops \<Rightarrow> ('o, 'b) object_store \<Rightarrow> 't \<Rightarrow> ('t, 'd, 'o, 'b) proxy res" where
  "test_proxy_stateless_transaction E store tx =
     (let transaction = txn_new_for_tests tx in
      primary_processor_run E [StatelessTxn (ex_make_verification_request E transaction), Txn transaction 0 []]
        (setup_proxy 0 PrimaryPostSeparation store))"

text \<open>
  Two connected proxies: the second verifies, the first executes and asks the second for the result.
\<close>

definition test_inter_proxy_communication_via_stateless_result ::
  "('t, 'd, 'o, 'u, 'b) executor_ops \<Rightarrow> ('o, 'b) object_store \<Rightarrow> 't \<Rightarrow> (('t, 'd, 'o, 'b) proxy \<times> ('t, 'd, 'o, 'b) proxy) res" where
  "test_inter_proxy_communication_via_stateless_result E store tx =
     (let transaction = txn_new_for_tests tx;
          proxy1 = (setup_proxy 0 PrimaryPostSeparation store)\<lparr>px_connections := {1}\<rparr>;
          proxy2 = (setup_proxy 1 PrimaryPostSeparation store)\<lparr>px_connections := {0}\<rparr> in
      and_then (primary_processor_run E [StatelessTxn (ex_make_verification_request E transaction)] proxy2) (\<lambda>p2.
      and_then (primary_processor_run E [Txn transaction 1 []] proxy1) (\<lambda>p1. Inr (p1, p2))))"

section \<open>Results\<close>

theorem process_transaction_panics_without_separation:
  assumes "transactions \<noteq> []" "\<not> is_primary_separation mode"
  shows "process_transaction nxt E now mode store transactions = Inl (Panic ''received unexpected message'')"
  using assms by (cases transactions)
    (simp_all add: process_transaction_def setup_proxy_def proxy_new_def handle_primary_message_def Let_def split: prod.splits)

text \<open>The accepted messages leave the number and the mode of the proxy as they are.\<close>

lemma request_missing_none: "\<forall>r \<in> set required. snd r = None \<Longrightarrow> request_missing_states required p = Inr p"
  by (induction required p rule: request_missing_states.induct) auto

lemma local_pair_accepted:
  assumes "is_primary_separation (px_mode p)" "px_id p = 0" "\<forall>r \<in> set required. snd r = None"
  shows "\<exists>p'. primary_processor_run E [StatelessTxn r, Txn t 0 required] p = Inr p' \<and> px_mode p' = px_mode p \<and> px_id p' = 0 \<and>
           px_load p' = px_load p + 1"
  using assms
  by (auto simp: handle_primary_message_def process_stateless_transaction_def process_stateful_transaction_def stateless_receiver_def
      schedule_stateful_transaction_def request_missing_none spawn_def Let_def split: prod.splits)

lemma primary_processor_run_append:
  "primary_processor_run E (ms @ ms') p = and_then (primary_processor_run E ms p) (primary_processor_run E ms')"
proof (induction ms arbitrary: p)
  case (Cons a ms)
  then show ?case by (cases "handle_primary_message E a p") simp_all
qed simp

lemma local_pairs_accepted:
  assumes "is_primary_separation (px_mode p)" "px_id p = 0"
  shows "\<exists>p'. primary_processor_run E (process_transaction_messages nxt E now m txs) p = Inr p' \<and> px_load p' = px_load p + length txs"
  using assms
proof (induction txs arbitrary: m p)
  case (Cons tx txs)
  obtain m' t' req where a: "assign_shared_object_versions nxt m (txn_new tx (now tx) (et_shared_object_ids (ex_trait E) tx) 0 0) = (m', t', req)"
    by (metis prod_cases3)
  let ?req = "if req \<noteq> [] then map (\<lambda>(obj_id, seq_num). ((obj_id, seq_num), None)) req else []"
  let ?pair = "[StatelessTxn (ex_make_verification_request E (txn_new_for_tests tx)), Txn (txn_new_for_tests tx) 0 ?req]"
  have msgs: "process_transaction_messages nxt E now m (tx # txs) = ?pair @ process_transaction_messages nxt E now m' txs"
    by (simp add: a Let_def)
  have "\<forall>r \<in> set ?req. snd r = None" by auto
  from local_pair_accepted[OF Cons.prems this, of E "ex_make_verification_request E (txn_new_for_tests tx)" "txn_new_for_tests tx"]
  obtain p1 where p1: "primary_processor_run E ?pair p = Inr p1"
      "px_mode p1 = px_mode p" "px_id p1 = 0" "px_load p1 = px_load p + 1"
    by (elim exE conjE)
  obtain p' where "primary_processor_run E (process_transaction_messages nxt E now m' txs) p1 = Inr p'" "px_load p' = px_load p1 + length txs"
    using Cons.IH[of p1 m'] Cons.prems(1) p1(2,3) by auto
  then show ?case
    unfolding msgs primary_processor_run_append p1(1) and_then_Inr using p1(4) by simp
qed simp

theorem process_transaction_accepted_with_separation:
  assumes "is_primary_separation mode"
  shows "\<exists>p. process_transaction nxt E now mode store transactions = Inr p \<and> px_load p = length transactions"
  using local_pairs_accepted[of "setup_proxy 0 mode store" E nxt now Map.empty transactions] assms
  by (simp add: process_transaction_def setup_proxy_def proxy_new_def)

text \<open>
  In the second test the verifying task holds the sender of the channel whose receiver the executing task waits on.  In the third one the
  first proxy has asked the second for the result, and registered the sender of the channel that its own task waits on for the reply.
\<close>

theorem stateless_transaction_test_shares_channel:
  assumes "request_digest (ex_make_verification_request E (txn_new_for_tests t0)) = et_digest (ex_trait E) t0"
  shows "\<exists>p ch. test_proxy_stateless_transaction E store t0 = Inr p \<and>
     px_spawned p = [VerifyTask ch (ex_make_verification_request E (txn_new_for_tests t0)), StatefulTask (txn_new_for_tests t0) (Some ch) []]"
  using assms
  by (simp add: test_proxy_stateless_transaction_def setup_proxy_def proxy_new_def handle_primary_message_def process_stateless_transaction_def
      process_stateful_transaction_def stateless_receiver_def schedule_stateful_transaction_def spawn_def txn_digest_def txn_new_for_tests_def
      set_local_dependency_def get_dependency_def odc_new_def Let_def)

theorem inter_proxy_test_requests_result:
  "\<exists>p1 p2 ch. test_inter_proxy_communication_via_stateless_result E store t0 = Inr (p1, p2) \<and>
     px_sent p1 = [(1, Request (StatelessRequest 0 (et_digest (ex_trait E) t0)))] \<and>
     px_spawned p1 = [StatefulTask (txn_new_for_tests t0) (Some ch) []] \<and>
     snd (take_signal (px_stateless p1) (et_digest (ex_trait E) t0)) = Some ch \<and>
     (\<exists>ch'. px_spawned p2 = [VerifyTask ch' (ex_make_verification_request E (txn_new_for_tests t0))])"
  by (simp add: test_inter_proxy_communication_via_stateless_result_def setup_proxy_def proxy_new_def handle_primary_message_def
      process_stateless_transaction_def process_stateful_transaction_def stateless_receiver_def schedule_stateful_transaction_def spawn_def
      txn_digest_def txn_new_for_tests_def set_local_dependency_def set_remote_dependency_def take_signal_def odc_new_def Let_def)

end
