(* ===== verification/Spec2Isabelle.thy ===== *)
theory Spec2Isabelle
  imports Config Tpcc_Distributed Nodes Programs Controller_Tests Fake_Tests Tpcc_Tests Proxy_Tests
begin

text \<open>
  \<^bold>\<open>Remora: a validator distributed over a primary and several proxies.\<close>

  \<^bold>\<open>The program.\<close>  Clients (\<^verbatim>\<open>src/client\<close>) submit transactions to the primary.  On the primary (\<^verbatim>\<open>src/primary\<close>) the mock consensus
  assembles them into batches; a sealed batch goes to the pre-consensus scheduler, which routes groups of dependent transactions to one proxy, and
  after the consensus delay to the load balancer.  The load balancer separates the transactions with shared objects from those without.  The
  former get the versions of their shared objects (version assignment) and are then sent, by a pool of worker threads, to the proxy that the
  routing plan or the location of their states selects, together with the list of the states that this proxy has to fetch from other proxies.  The
  latter are spread over the proxies.  A proxy (\<^verbatim>\<open>src/proxy\<close>) executes: it checks the stateless part of a transaction, here
  or on another proxy, asks other proxies for missing states, waits until the transactions that produce its input versions have committed,
  runs the executor (\<^verbatim>\<open>src/executor\<close>) and signals its successors.  All messages travel in length-prefixed frames over TCP (\<^verbatim>\<open>src/networking\<close>).

  \<^bold>\<open>Conventions.\<close>  A panic is \<open>Inl\<close> of a value of type \<open>panic\<close> (\<open>'a res\<close>, sequenced by \<open>and_then\<close>).  A concurrent hash
  map is a partial map, and one call of its entry interface is one atomic function.  Where the code iterates over a hash map or set, the
  order is an argument or the list that represents the set.  Durations are natural numbers of nanoseconds, floating point
  numbers are reals, without rounding.  Machine integers are bounded explicitly where they are computed with (\<open>fit_i64\<close>, \<open>fit_i32\<close>, \<open>fit_u32\<close> with the debug and the
  release behaviour, truncations as \<open>mod\<close>); identifiers and versions are natural numbers.  The successor of a version,
  \<^verbatim>\<open>SequenceNumber::next\<close> of \<^verbatim>\<open>sui_types\<close>, is the argument \<open>nxt\<close>, of which the theorems use that it grows; its partial inverse \<^verbatim>\<open>one_before\<close> is the argument \<open>one_before\<close> with \<open>one_before_laws\<close>.

  \<^bold>\<open>The theories.\<close>

  \<^item> \<open>Prelude\<close>: panics and \<open>and_then\<close>, ordered maps, machine integers, the refinement relation \<open>refines\<close> between results, lemmas on lists, maps and folds.

  \<^item> \<open>Config\<close> and \<open>Validator_Config\<close> (\<^verbatim>\<open>src/config.rs\<close>): policies, modes, workloads and parameters with their defaults; addresses, the proxies of a
  validator, configuration files.  \<open>Api\<close> (\<^verbatim>\<open>src/executor/api.rs\<close>): transactions,
  transactions with a time stamp and versions, verification requests, results, and the messages of the two protocols.

  \<^item> \<open>Versioned_Controller\<close> (\<^verbatim>\<open>versioned_dependency_controller.rs\<close>): \<open>get_prior_dependency_and_update\<close> and the other operations on the map from (object,
  version) to notify handles.  The locale \<open>rendezvous\<close> is the contract: whoever asks for a key gets the same handle until it is removed, and two
  keys never share one.  C11 and C12.

  \<^item> \<open>Oneshot_Controller\<close> (\<^verbatim>\<open>oneshot_dependency_controller.rs\<close>): the channels between a verification and the transaction that waits for it.  The locale
  \<open>handshake\<close> is the contract between the two sides, which may come in either order.  C17 and C18.

  \<^item> \<open>Version_Assignment\<close> (\<^verbatim>\<open>VersionAssignmentTask\<close>): \<open>process_version_assignments\<close>.  \<open>schedule_ok\<close> states what the versions promise to the
  components that synchronise on them.  C6.

  \<^item> \<open>Task_System\<close>, \<open>Task_Correctness\<close> and \<open>Schedule_Tasks\<close>: the asynchronous blocks that the program spawns as lists of atomic actions, the inductive
  relation of their interleavings, and its meta-theory: the invariant of the keys, isolation of conflicting tasks, no panic and no deadlock, termination
  (the actions that remain are a measure), equality with the sequential execution.  The locale \<open>transactional_executor\<close> is what this needs of the code
  that a transaction runs, with the objects it reads and those it writes; \<open>local_executor\<close>, where the two sets are one, is a sublocale of
  it.  They are interpreted on the stateful blocks of a proxy with the fake executor (\<open>fx\<close>) and with the TPC-C executor (\<open>tx\<close>) and on the
  forwarding tasks of the primary (\<open>fwd\<close>).

  \<^item> \<open>Fake_Executor\<close>, \<open>Fake_Workload\<close> (\<^verbatim>\<open>src/executor/fake.rs\<close>): the executor of the micro-benchmarks, its workloads and its construction.  C25.
  \<open>Proxy_Core\<close> (\<^verbatim>\<open>src/proxy/core.rs\<close>): the state of a proxy, all message
  handlers and the blocks they spawn.  \<open>Proxy_Execution\<close>: on a proxy that holds the states of its transactions, every interleaving
  of the blocks is the sequential execution in consensus order, and every one completes.  C4.  \<open>Proxy_Handlers\<close>: the conversations between
  proxies.  C22, C36 and C37.

  \<^item> \<open>Worker_Pool\<close> (\<^verbatim>\<open>worker_pool.rs\<close>), \<open>Forwarder\<close> and \<open>Forwarding_Correctness\<close> (\<^verbatim>\<open>SharedObjTxnForwarder\<close>, \<^verbatim>\<open>StatelessTxnForwarder\<close>): the choice of
  the proxy, the missing states and the messages; the state map always names the proxy of the last transaction of an object, and the worker threads, each of which
  blocks on its current task, agree with the sequential order.  C7 and C8.

  \<^item> \<open>Migration_Blocks\<close> and \<open>Distributed_Execution\<close>: the proxies together.  The stateful blocks of all proxies, the blocks that serve the requests for
  states (\<^verbatim>\<open>handle_stateful_request\<close>) and those that install the replies (\<^verbatim>\<open>handle_stateful_reply\<close>) are one task set, with a controller and a store per proxy and a
  cell per reply; lemmas show that they perform the registrations and the bodies of the handlers of \<open>Proxy_Core\<close>.  The keys are well formed and order all conflicting
  blocks, so the interleavings agree with one order of the blocks, and this order simulates the sequential execution on one store (\<open>stores_agree\<close>).  The locale
  \<open>object_executor\<close>, on top of \<open>transactional_executor\<close>, holds this simulation; it is interpreted on the fake executor (\<open>dfx\<close>) and on the TPC-C executor (\<open>dtx\<close>).  C1
  composes version assignment, forwarder, proxies and fake executor; C3 is progress for any executor.

  \<^item> \<open>Pre_Consensus\<close> (\<^verbatim>\<open>PreConsensusSchedTask\<close>): dependency graph, connected components, scores of the proxies, routing plan.  C15 and C16.

  \<^item> \<open>Mock_Consensus\<close> (\<^verbatim>\<open>mock_consensus.rs\<close>): the branches of the \<^verbatim>\<open>select!\<close> loop as a step relation.  C19 to C21.  \<open>Load_Balancer\<close>
  (\<^verbatim>\<open>load_balancer.rs\<close>, \<^verbatim>\<open>owned_obj_txn_forwarder.rs\<close>): the separation of the transactions, used in C10, and the forwarding of those without shared
  objects.  \<open>Primary_Protocol\<close>: which messages of the primary a proxy accepts.  C35.

  \<^item> \<open>Tpcc_Data\<close>, \<open>Tpcc_Spec\<close>, \<open>Tpcc_Consistency\<close>, \<open>Tpcc_Executor\<close>, \<open>Tpcc_Refinement\<close>, \<open>Tpcc_Identifiers\<close>, \<open>Tpcc_Initial\<close> (\<^verbatim>\<open>src/executor/tpcc\<close>):
  the rows and their encoding as objects, the two transactions on a database of rows (the specification), the
  consistency conditions, the executor on objects with its caches, the simulation between the two, identifiers of rows and their
  collisions, the initial database and runs from it.  C13, C14, C31 and C32.  \<open>Tpcc_Proxy\<close>: the TPC-C executor on a proxy, composed from the
  interleaving theorem, the version assignment and the simulation.  C5.  \<open>Tpcc_Distributed\<close>: the same with the rows migrating between several proxies.  C2.  \<open>Tpcc_Generator\<close>: the workload generator.  C23 and C40.

  \<^item> \<open>Sui_Executor\<close> (\<^verbatim>\<open>src/executor/sui.rs\<close>): the choice of the workload, the transaction log, execution with its checks.  C28 and C29.
  \<open>Stateless_Crypto\<close> (\<^verbatim>\<open>stateless_crypto.rs\<close>): verification requests in the six modes; the locale \<open>signature_scheme\<close> is interpreted once
  for every signature library.  C30.

  \<^item> \<open>Networking\<close> (\<^verbatim>\<open>networking/worker.rs\<close>): framing.  C24.  \<open>Connections\<close> (\<^verbatim>\<open>client.rs\<close>, \<^verbatim>\<open>server.rs\<close>): connecting with retries and serving
  connections.  C33.  \<open>Load_Generator\<close> (\<^verbatim>\<open>client/load_generator.rs\<close>, \<^verbatim>\<open>request_arrival_distribution.rs\<close>): the clients.  \<open>Measurement\<close>
  (\<^verbatim>\<open>calibration.rs\<close>, \<^verbatim>\<open>metrics.rs\<close>): the calibration of simulated work and the metrics.  C34.

  \<^item> \<open>Nodes\<close> (\<^verbatim>\<open>primary/node.rs\<close>, \<^verbatim>\<open>proxy/node.rs\<close>): what is started from a configuration and how it is connected; the primary and the proxies of one
  configuration understand each other.  C9, C38 and C39.  \<open>Programs\<close> (\<^verbatim>\<open>src/bin\<close>): the two programs, from their arguments to the started node and to
  the submitted load.  C26 and C27.  This theory: the pipeline of the primary.  C10.

  \<^item> \<open>Controller_Tests\<close>, \<open>Fake_Tests\<close>, \<open>Tpcc_Tests\<close>, \<open>Proxy_Tests\<close>: the unit tests of the repository, translated and run on the model, for all
  values that they draw at random.  They are a check of the model against what the authors expect of the code: the tests of the controllers, of the
  fake executor and of the TPC-C modules pass.  Of the tests of the proxy, those with primary separation are accepted, while the helper of the
  others sends messages on which the proxy it sets up panics.

  \<^bold>\<open>Code outside the repository\<close> is a parameter: \<^verbatim>\<open>tokio::sync::Notify\<close> (\<open>notify_ops\<close>, \<open>notify_laws\<close>), objects of \<^verbatim>\<open>sui_types\<close> (\<open>object_api\<close>,
  \<open>object_laws\<close>; with \<^verbatim>\<open>bcs\<close> and the standard hash function \<open>tpcc_api\<close>, \<open>tpcc_laws\<close>), the Sui benchmark and validator crates (\<open>sui_benchmark\<close>, \<open>sui_runtime\<close>,
  \<open>load_statistics\<close>), the order of neighbours in \<^verbatim>\<open>petgraph\<close> (\<open>neighbors_law\<close>), the random
  numbers of \<^verbatim>\<open>rand\<close> and \<^verbatim>\<open>fastrand\<close> (\<open>rng_ops\<close>, \<open>rng_laws\<close>, \<open>in_range\<close>, \<open>sampler\<close>), the signature crates (\<open>crypto_libs\<close>, \<open>crypto_laws\<close>),
  \<^verbatim>\<open>serde_yaml\<close> (\<open>yaml\<close>, \<open>yaml_laws\<close>), \<^verbatim>\<open>bincode\<close> (\<open>ser\<close> and \<open>deser\<close>, \<open>bincode_laws\<close>), the file system, sockets, clocks and measured times.  Every law
  is satisfied by a concrete instance, on which the witnesses are evaluated.

  \<^bold>\<open>Termination and bounds.\<close>  Loops over data are structural or have a measure.  Three loops need not end: the search of a
  component, whose fuel is shown to suffice (C16), the draw of another warehouse, a \<open>partial_function\<close>, for which termination in the
  workload is proved (C23) and divergence in one configuration (C40), and the retries of a network client, a \<open>partial_function\<close> that ends exactly
  when the server answers (C33).  The consistency of the TPC-C database is
  stated for fewer than \<open>2\<^sup>2\<^sup>4\<close> transactions: with so many, the amounts that one transaction can add keep every counter inside its machine type, so that
  debug and release builds agree.

  \<^bold>\<open>Not modelled.\<close>  The Sui crates behind the Sui executor, which are not in this repository; the methods of the effects types that only
  panic; parsing the command line, the metrics server, the printing of tables, loads and logs; the spinning loop that burns processor time, threads,
  core pinning and the sizes of channels (a full channel delays its sender, so progress, C3, is about the blocks and not about the queues in between); the benchmark helpers behind a feature flag; the
  tests that measure time or frequencies, look inside types of other crates or start whole nodes over sockets.  The file \<^verbatim>\<open>primary/forwarder_test.rs\<close> and
  the tests of \<^verbatim>\<open>mock_consensus.rs\<close> are comments and hold no code.
\<close>


section \<open>The pipeline of the primary\<close>

text \<open>
  C10. The primary conserves transactions from the client to the forwarders: at every moment of a running primary, each transaction
  received from a client is in exactly one place, the current batch of the consensus, a batch in flight, the queue of the
  owned-object forwarder or, with its versions assigned, the queue of the shared-object forwarder; the two queues hold the delivered transactions
  without and with shared objects, each in the order of delivery.
\<close>

theorem primary_conserves_transactions:
  fixes st :: "(('t, 'o::linorder) txn_ts, 'r) consensus"
  assumes "consensus_reachable request params mode t0 st" "params_ok params" "\<not> cs_stopped st"
    and lb: "lb = load_balancer_run (cs_delivered st) load_balancer_new"
    and sent: "sent = snd (process_version_assignments nxt Map.empty (lb_shared_sent lb))"
  shows "mset (map transaction (cs_received st)) =
      mset (map transaction (cs_batch st)) + mset (map transaction (concat (cs_waiter st))) +
      mset (map transaction (concat (lb_owned_sent lb))) + mset (map (transaction \<circ> fst) sent) \<and>
    concat (lb_owned_sent lb) = filter (\<lambda>t. shared_objects t = []) (concat (cs_delivered st)) \<and>
    map (transaction \<circ> fst) sent = map transaction (filter (\<lambda>t. shared_objects t \<noteq> []) (concat (cs_delivered st)))"
proof -
  have inv: "consensus_inv request params mode st" by (rule consensus_reachable_inv[OF assms(1,2)])
  have r: "cs_received st = concat (cs_scheduling st) @ cs_batch st" using inv unfolding consensus_inv_def by blast
  have "mset (concat (cs_scheduling st)) = mset (concat (cs_waiter st @ cs_delivered st))"
    using consensus_inv_no_loss[OF inv assms(3)] by (metis mset_append mset_concat mset_map sum_mset_sum_list)
  then have m: "mset (map transaction (cs_received st)) =
      mset (map transaction (cs_batch st)) + mset (map transaction (concat (cs_waiter st))) + mset (map transaction (concat (cs_delivered st)))"
    unfolding r by (simp add: ac_simps)
  have own: "concat (lb_owned_sent lb) = filter (\<lambda>t. shared_objects t = []) (concat (cs_delivered st))"
    and shared: "concat (lb_shared_sent lb) = filter (\<lambda>t. shared_objects t \<noteq> []) (concat (cs_delivered st))"
    using load_balancer_separates[of "cs_delivered st"] unfolding lb Let_def by blast+
  have s: "map (transaction \<circ> fst) sent = map transaction (filter (\<lambda>t. shared_objects t \<noteq> []) (concat (cs_delivered st)))"
    unfolding sent process_version_assignments_transactions shared ..
  have "mset (map transaction (concat (cs_delivered st))) = mset (map transaction (filter (\<lambda>t. shared_objects t = []) (concat (cs_delivered st)))) +
      mset (map transaction (filter (\<lambda>t. shared_objects t \<noteq> []) (concat (cs_delivered st))))"
    unfolding mset_map mset_filter image_mset_union[symmetric] by (rule arg_cong[OF multiset_partition])
  then show ?thesis using m own s by (simp add: ac_simps)
qed

text \<open>Two transactions, one of them with a shared object, sealed in a batch and delivered.\<close>

definition example_delivered :: "((nat, nat) txn_ts, unit) consensus" where
  "example_delivered =
     \<lparr>cs_parameters = example_params, cs_mode = NoSeparation, cs_input = [], cs_batch = [], cs_inflight = 0,
      cs_waiter = [], cs_deadline = 105, cs_stateless = [], cs_scheduling = [[txn_new 1 0 [5] 0 0, txn_new 2 0 [] 0 0]],
      cs_delivered = [[txn_new 1 0 [5] 0 0, txn_new 2 0 [] 0 0]], cs_stateless_open = True, cs_scheduling_open = True, cs_executor_open = True,
      cs_stopped = False, cs_received = [txn_new 1 0 [5] 0 0, txn_new 2 0 [] 0 0]\<rparr>"

lemma example_delivered_reachable: "consensus_reachable (\<lambda>_. ()) example_params NoSeparation 0 example_delivered"
proof -
  let ?s = "consensus_new example_params NoSeparation 0 :: ((nat, nat) txn_ts, unit) consensus"
  have "run_branches (\<lambda>_. ()) [Receive 4, Receive 5, Commit 0] (?s\<lparr>cs_input := cs_input ?s @ [txn_new 1 0 [5] 0 0, txn_new 2 0 [] 0 0]\<rparr>) =
      Some example_delivered"
    by (simp add: consensus_new_def example_params_def example_delivered_def send_stateless_def seal_batch_def reset_timer_def Let_def)
  from run_branches_reaches[OF this] submit_all[of "\<lambda>_. ()" ?s] show ?thesis
    unfolding consensus_reachable_def by (rule rtranclp_trans[rotated])
qed

theorem primary_conserves_transactions_witness:
  "map transaction (concat (lb_owned_sent (load_balancer_run (cs_delivered example_delivered) load_balancer_new))) = [2] \<and>
   map (transaction \<circ> fst) (snd (process_version_assignments Suc Map.empty
     (lb_shared_sent (load_balancer_run (cs_delivered example_delivered) load_balancer_new)))) = [1]"
proof -
  have "\<not> cs_stopped example_delivered" by (simp add: example_delivered_def)
  from primary_conserves_transactions[OF example_delivered_reachable example_params_ok this refl refl, of Suc]
  show ?thesis by (simp add: example_delivered_def txn_new_def bt_collect_def)
qed

end
